(* ===== verification/Prelude.thy ===== *)
theory Prelude
  imports Complex_Main "HOL-Library.Sublist"
begin

text \<open>
  Shared vocabulary of the development: the lemma collections, the results of
  fallible operations, the part of Python's \<open>str\<close>/\<open>int\<close> the program
  uses, and the contract of a transition system with an invariant.

  Python strings are modelled as \<open>string\<close>: one \<open>char\<close> per code
  point, so a model string ranges over the code points 0..255 (the first 256 of
  Unicode, whose properties the definitions below follow); a code point above
  255 has no counterpart.
\<close>

section \<open>Collections and results\<close>

named_theorems py_str \<open>evaluation of the Python string operations\<close>
named_theorems wire \<open>unfolding of the wire-level operations\<close>

type_synonym ('e, 'a) result = "'e + 'a"

abbreviation Ok :: "'a \<Rightarrow> 'e + 'a" where "Ok \<equiv> Inr"
abbreviation Raise :: "'e \<Rightarrow> 'e + 'a" where "Raise \<equiv> Inl"

definition bind_result :: "('e + 'a) \<Rightarrow> ('a \<Rightarrow> 'e + 'b) \<Rightarrow> 'e + 'b" where
  "bind_result r f = (case r of Inl e \<Rightarrow> Inl e | Inr a \<Rightarrow> f a)"

lemma bind_result_simps [simp]:
  "bind_result (Inl e) f = Inl e"
  "bind_result (Inr a) f = f a"
  by (simp_all add: bind_result_def)

lemma bind_result_Ok_iff:
  "bind_result r f = Inr b \<longleftrightarrow> (\<exists>a. r = Inr a \<and> f a = Inr b)"
  by (cases r) auto

section \<open>Python strings\<close>

text \<open>\<open>str.isspace\<close> for the code points 0..255.\<close>

definition is_space :: "char \<Rightarrow> bool" where
  "is_space c = (let n = (of_char c :: nat)
     in (9 \<le> n \<and> n \<le> 13) \<or> (28 \<le> n \<and> n \<le> 32) \<or> n = 133 \<or> n = 160)"

definition lstrip :: "string \<Rightarrow> string" where
  "lstrip s = dropWhile is_space s"

definition strip :: "string \<Rightarrow> string" where
  "strip s = rev (lstrip (rev (lstrip s)))"

text \<open>\<open>str.split()\<close>: the maximal runs of non-space characters, in order.\<close>

fun split_from :: "string \<Rightarrow> string \<Rightarrow> string list" where
  "split_from cur [] = (if cur = [] then [] else [cur])"
| "split_from cur (c # cs) =
     (if is_space c
      then (if cur = [] then split_from [] cs else cur # split_from [] cs)
      else split_from (cur @ [c]) cs)"

definition split_ws :: "string \<Rightarrow> string list" where
  "split_ws s = split_from [] s"

text \<open>\<open>str.split(sep)\<close> for a separator of one or more characters.\<close>

function split_on_from :: "string \<Rightarrow> string \<Rightarrow> string \<Rightarrow> string list" where
  "split_on_from sep cur s =
     (if sep \<noteq> [] \<and> prefix sep s then cur # split_on_from sep [] (drop (length sep) s)
      else case s of [] \<Rightarrow> [cur] | c # cs \<Rightarrow> split_on_from sep (cur @ [c]) cs)"
  by pat_completeness auto
termination
proof (relation "measure (\<lambda>(sep, cur, s). length s)", goal_cases)
  case (2 sep cur s)
  then show ?case by (cases s) auto
qed auto

declare split_on_from.simps [simp del]

definition split_on :: "string \<Rightarrow> string \<Rightarrow> string list" where
  "split_on sep s = split_on_from sep [] s"

text \<open>\<open>str.splitlines()\<close>: no empty last line after a final line break;
  a carriage return followed by a line feed is one break.\<close>

definition is_linebreak :: "char \<Rightarrow> bool" where
  "is_linebreak c = (let n = (of_char c :: nat)
     in (10 \<le> n \<and> n \<le> 13) \<or> (28 \<le> n \<and> n \<le> 30) \<or> n = 133)"

fun lines_from :: "bool \<Rightarrow> string \<Rightarrow> string \<Rightarrow> string list" where
  "lines_from after_cr cur [] = (if cur = [] then [] else [cur])"
| "lines_from after_cr cur (c # cs) =
     (if after_cr \<and> of_char c = (10 :: nat) then lines_from False cur cs
      else if is_linebreak c then cur # lines_from (of_char c = (13 :: nat)) [] cs
      else lines_from False (cur @ [c]) cs)"

definition splitlines :: "string \<Rightarrow> string list" where
  "splitlines s = lines_from False [] s"

text \<open>\<open>str.partition(sep)\<close> for a one-character separator.\<close>

definition partition_at :: "char \<Rightarrow> string \<Rightarrow> string \<times> bool \<times> string" where
  "partition_at sep s = (let n = takeWhile (\<lambda>c. c \<noteq> sep) s; r = dropWhile (\<lambda>c. c \<noteq> sep) s
     in (n, r \<noteq> [], tl r))"

definition in_range :: "nat \<Rightarrow> nat \<Rightarrow> char \<Rightarrow> bool" where
  "in_range lo hi c = (lo \<le> of_char c \<and> (of_char c :: nat) \<le> hi)"

text \<open>\<open>str.lower()\<close>: A..Z and the capital letters of 192..222 (215 is a sign).\<close>

definition lower_char :: "char \<Rightarrow> char" where
  "lower_char c =
     (if in_range 65 90 c \<or> (in_range 192 222 c \<and> (of_char c :: nat) \<noteq> 215)
      then char_of ((of_char c :: nat) + 32) else c)"

definition lower :: "string \<Rightarrow> string" where
  "lower s = map lower_char s"

text \<open>\<open>str.casefold()\<close>: as \<open>lower\<close>, and 223 becomes \<open>ss\<close>. (The
  micro sign 181 folds to a code point outside 0..255 which no other character of
  the range folds to; it is left as it is, a renaming that keeps tokens apart.)\<close>

definition casefold :: "string \<Rightarrow> string" where
  "casefold s = concat (map (\<lambda>c. if of_char c = (223 :: nat) then ''ss'' else [lower_char c]) s)"

definition is_digit :: "char \<Rightarrow> bool" where
  "is_digit c = in_range 48 57 c"

definition digit_val :: "char \<Rightarrow> nat" where
  "digit_val c = of_char c - 48"

text \<open>The digits of an \<open>int\<close> literal: ASCII digits with single underscores between
  them. \<open>prev\<close> says whether the previous character was a digit.\<close>

fun digits_from :: "nat \<Rightarrow> bool \<Rightarrow> string \<Rightarrow> nat option" where
  "digits_from acc prev [] = (if prev then Some acc else None)"
| "digits_from acc prev (c # cs) =
     (if is_digit c then digits_from (10 * acc + digit_val c) True cs
      else if c = CHR ''_'' \<and> prev then digits_from acc False cs
      else None)"

text \<open>\<open>int(s)\<close>; \<open>None\<close> is \<open>ValueError\<close>.\<close>

definition py_int :: "string \<Rightarrow> int option" where
  "py_int s = (case strip s of
      [] \<Rightarrow> None
    | c # cs \<Rightarrow>
        if c = CHR ''-'' then map_option (\<lambda>n. - int n) (digits_from 0 False cs)
        else if c = CHR ''+'' then map_option int (digits_from 0 False cs)
        else map_option int (digits_from 0 False (c # cs)))"

text \<open>\<open>float(s)\<close>: an exact decimal, an infinity or not-a-number (rounding to a double
  is not modelled: a literal keeps its exact value). \<open>None\<close> is \<open>ValueError\<close>.\<close>

datatype pyfloat = Fin rat | PosInf | NegInf | NaN

fun scan_digits :: "nat \<Rightarrow> nat \<Rightarrow> string \<Rightarrow> nat \<times> nat \<times> string" where
  "scan_digits acc n [] = (acc, n, [])"
| "scan_digits acc n (c # cs) =
     (if is_digit c then scan_digits (10 * acc + digit_val c) (Suc n) cs
      else if c = CHR ''_'' \<and> 0 < n \<and> cs \<noteq> [] \<and> is_digit (hd cs) then scan_digits acc n cs
      else (acc, n, c # cs))"

definition scan_exponent :: "string \<Rightarrow> int option" where
  "scan_exponent s =
     (let neg = (s \<noteq> [] \<and> hd s = CHR ''-'');
          body = (if s \<noteq> [] \<and> (hd s = CHR ''-'' \<or> hd s = CHR ''+'') then tl s else s);
          (e, n, rest) = scan_digits 0 0 body
      in if n = 0 \<or> rest \<noteq> [] then None else Some (if neg then - int e else int e))"

definition pow10 :: "int \<Rightarrow> rat" where
  "pow10 e = (if e < 0 then 1 / 10 ^ nat (- e) else 10 ^ nat e)"

definition unsigned_decimal :: "string \<Rightarrow> rat option" where
  "unsigned_decimal s =
     (let (ip, ni, r1) = scan_digits 0 0 s;
          (fp, nf, r2) = (if r1 \<noteq> [] \<and> hd r1 = CHR ''.'' then scan_digits 0 0 (tl r1) else (0, 0, r1));
          m = of_nat ip + of_nat fp / 10 ^ nf
      in if ni = 0 \<and> nf = 0 then None
         else case r2 of
             [] \<Rightarrow> Some m
           | c # cs \<Rightarrow> if c = CHR ''e'' \<or> c = CHR ''E''
                       then map_option (\<lambda>e. m * pow10 e) (scan_exponent cs) else None)"

definition py_float :: "string \<Rightarrow> pyfloat option" where
  "py_float s0 =
     (let s = strip s0;
          neg = (s \<noteq> [] \<and> hd s = CHR ''-'');
          body = (if s \<noteq> [] \<and> (hd s = CHR ''-'' \<or> hd s = CHR ''+'') then tl s else s)
      in if lower body = ''inf'' \<or> lower body = ''infinity'' then Some (if neg then NegInf else PosInf)
         else if lower body = ''nan'' then Some NaN
         else map_option (\<lambda>x. Fin (if neg then - x else x)) (unsigned_decimal body))"

text \<open>\<open>x <= f\<close> for an exact \<open>x\<close>.\<close>

fun rat_le_pyfloat :: "rat \<Rightarrow> pyfloat \<Rightarrow> bool" where
  "rat_le_pyfloat x (Fin t) = (x \<le> t)"
| "rat_le_pyfloat x PosInf = True"
| "rat_le_pyfloat x NegInf = False"
| "rat_le_pyfloat x NaN = False"

text \<open>Decimal printing, \<open>str(n)\<close> for a natural number.\<close>

fun show_nat :: "nat \<Rightarrow> string" where
  "show_nat n = (if n < 10 then [char_of (48 + n)]
                 else show_nat (n div 10) @ [char_of (48 + n mod 10)])"

declare show_nat.simps [simp del]

definition show_int :: "int \<Rightarrow> string" where
  "show_int i = (if i < 0 then ''-'' @ show_nat (nat (- i)) else show_nat (nat i))"

subsection \<open>Facts\<close>

lemma strip_no_leading_space: "strip s = c # cs \<Longrightarrow> \<not> is_space (last (c # cs))"
proof -
  assume a: "strip s = c # cs"
  then have "rev (c # cs) = dropWhile is_space (rev (lstrip s))"
    by (metis lstrip_def rev_rev_ident strip_def)
  then have "dropWhile is_space (rev (lstrip s)) \<noteq> []" and
    "hd (dropWhile is_space (rev (lstrip s))) = last (c # cs)"
    by (metis list.simps(3) rev_is_Nil_conv, metis hd_rev)
  then show ?thesis by (metis hd_dropWhile)
qed

lemma strip_eq_Nil_iff: "strip s = [] \<longleftrightarrow> (\<forall>c \<in> set s. is_space c)"
proof
  assume "strip s = []"
  then have all: "\<forall>c \<in> set (dropWhile is_space s). is_space c"
    by (simp add: strip_def lstrip_def)
  have "dropWhile is_space s = []"
  proof (rule ccontr)
    assume "dropWhile is_space s \<noteq> []"
    then have "\<not> is_space (hd (dropWhile is_space s))"
      and "hd (dropWhile is_space s) \<in> set (dropWhile is_space s)"
      by (rule hd_dropWhile, rule hd_in_set)
    with all show False by blast
  qed
  then show "\<forall>c \<in> set s. is_space c" by simp
next
  assume "\<forall>c \<in> set s. is_space c"
  then have "dropWhile is_space s = []" by (simp only: dropWhile_eq_Nil_conv)
  then show "strip s = []" by (simp only: strip_def lstrip_def rev.simps dropWhile.simps)
qed

lemma split_from_tokens:
  "(\<forall>c \<in> set cur. \<not> is_space c) \<Longrightarrow> t \<in> set (split_from cur s) \<Longrightarrow>
     t \<noteq> [] \<and> (\<forall>c \<in> set t. \<not> is_space c)"
proof (induction cur s rule: split_from.induct)
  case (1 cur)
  then show ?case by (cases "cur = []") simp_all
next
  case (2 cur c cs)
  show ?case
  proof (cases "is_space c")
    case True
    note space = this
    show ?thesis
    proof (cases "cur = []")
      case True
      have "t \<in> set (split_from [] cs)" using "2.prems"(2) space True by simp
      then show ?thesis using "2.IH"(1) [OF space True] by simp
    next
      case False
      have "t = cur \<or> t \<in> set (split_from [] cs)" using "2.prems"(2) space False by simp
      then show ?thesis using "2.IH"(2) [OF space False] "2.prems"(1) False by fastforce
    qed
  next
    case False
    have "t \<in> set (split_from (cur @ [c]) cs)" using "2.prems"(2) False by simp
    moreover have "\<forall>x \<in> set (cur @ [c]). \<not> is_space x" using "2.prems"(1) False by simp
    ultimately show ?thesis using "2.IH"(3) [OF False] by blast
  qed
qed

lemma split_ws_tokens:
  "t \<in> set (split_ws s) \<Longrightarrow> t \<noteq> [] \<and> (\<forall>c \<in> set t. \<not> is_space c)"
  using split_from_tokens [of "[]"] by (simp add: split_ws_def)

lemma split_from_concat: "concat (split_from cur s) = cur @ filter (\<lambda>c. \<not> is_space c) s"
  by (induction cur s rule: split_from.induct) auto

lemma of_char_digit: "m < 10 \<Longrightarrow> of_char (char_of (48 + m :: nat)) = 48 + m"
  by (simp add: of_char_of)

lemma is_digit_char_of [simp]: "m < 10 \<Longrightarrow> is_digit (char_of (48 + m :: nat))"
  by (simp add: is_digit_def in_range_def of_char_digit del: of_char_of)

lemma digit_val_char_of [simp]: "m < 10 \<Longrightarrow> digit_val (char_of (48 + m :: nat)) = m"
  by (simp add: digit_val_def of_char_digit del: of_char_of)

lemma digits_from_append:
  "digits_from acc prev xs = Some n \<Longrightarrow> xs \<noteq> [] \<or> acc = n \<Longrightarrow> m < 10 \<Longrightarrow>
     digits_from acc prev (xs @ [char_of (48 + m)]) = Some (10 * n + m)"
proof (induction acc prev xs rule: digits_from.induct)
  case (1 acc prev)
  then show ?case by (auto split: if_splits)
next
  case (2 acc prev c cs)
  have tail: "cs \<noteq> [] \<or> acc' = n" if "digits_from acc' p cs = Some n" for acc' p
    using that by (cases cs) (auto split: if_splits)
  from 2 tail show ?case by (auto split: if_splits)
qed

lemma digits_show_nat: "digits_from 0 False (show_nat n) = Some n \<and> show_nat n \<noteq> []"
proof (induction n rule: show_nat.induct)
  case (1 n)
  show ?case
  proof (cases "n < 10")
    case True
    then show ?thesis
      by (simp add: show_nat.simps [of n])
  next
    case False
    then show ?thesis
      using 1 digits_from_append [of 0 False "show_nat (n div 10)" "n div 10" "n mod 10"]
      by (simp add: show_nat.simps [of n])
  qed
qed

section \<open>Transition systems with an invariant\<close>

text \<open>The states a step relation reaches from its initial states, and the contract every
  safety argument of the development uses: an invariant that holds initially and that
  each step keeps holds in every reachable state.\<close>

inductive reach :: "('s \<Rightarrow> bool) \<Rightarrow> ('s \<Rightarrow> 's \<Rightarrow> bool) \<Rightarrow> 's \<Rightarrow> bool" for init step where
  reach_init: "init s \<Longrightarrow> reach init step s"
| reach_step: "reach init step s \<Longrightarrow> step s t \<Longrightarrow> reach init step t"

locale invariant_system =
  fixes init :: "'s \<Rightarrow> bool"
    and step :: "'s \<Rightarrow> 's \<Rightarrow> bool"
    and inv :: "'s \<Rightarrow> bool"
  assumes base: "init s \<Longrightarrow> inv s"
    and preserved: "inv s \<Longrightarrow> step s t \<Longrightarrow> inv t"
begin

lemma reachable: "reach init step s \<Longrightarrow> inv s"
  by (induction rule: reach.induct) (auto intro: base preserved)

lemma steps: "step\<^sup>*\<^sup>* s t \<Longrightarrow> inv s \<Longrightarrow> inv t"
  by (induction rule: rtranclp_induct) (auto intro: preserved)

end

lemma reach_steps: "step\<^sup>*\<^sup>* s t \<Longrightarrow> reach init step s \<Longrightarrow> reach init step t"
  by (induction rule: rtranclp_induct) (auto intro: reach_step)

text \<open>A system with an invariant simulates an abstract one when a state function takes its
  initial states to initial states and its steps to steps; every reachable state then maps
  to a reachable abstract state.\<close>

locale simulation = invariant_system init step inv
  for init :: "'s \<Rightarrow> bool" and step and inv +
  fixes abs_of :: "'s \<Rightarrow> 'a"
    and ainit :: "'a \<Rightarrow> bool"
    and astep :: "'a \<Rightarrow> 'a \<Rightarrow> bool"
  assumes abs_init: "init s \<Longrightarrow> ainit (abs_of s)"
    and abs_step: "inv s \<Longrightarrow> step s t \<Longrightarrow> astep (abs_of s) (abs_of t)"
begin

lemma abs_reachable: "reach init step s \<Longrightarrow> reach ainit astep (abs_of s)"
  by (induction rule: reach.induct) (auto intro: reach.intros abs_init abs_step reachable)

end

end
