(* ===== verification/Json.thy ===== *)
theory Json
  imports Prelude
begin

text \<open>
  The JSON values and the decoder the protocol uses, \<open>json.loads\<close> with the
  standard decoder.

  A number with a fraction or an exponent keeps its exact value. An escape whose code
  point is above 255 has no counterpart in \<open>string\<close>: such a text is
  \<open>Foreign\<close>. The parser runs on fuel; twice the length of the text, and two
  more, is enough (\<open>loads_fuel\<close>).
\<close>

section \<open>Values\<close>

datatype json =
    JNull
  | JBool bool
  | JInt int
  | JFloat pyfloat
  | JStr string
  | JArr "json list"
  | JObj "(string \<times> json) list"

text \<open>\<open>d.get(k)\<close>: the last binding of a key wins, as in the parsed dict.\<close>

definition jget :: "(string \<times> json) list \<Rightarrow> string \<Rightarrow> json option" where
  "jget kvs k = map_of (rev kvs) k"

definition jget_or :: "(string \<times> json) list \<Rightarrow> string \<Rightarrow> json \<Rightarrow> json" where
  "jget_or kvs k d = (case jget kvs k of None \<Rightarrow> d | Some v \<Rightarrow> v)"

text \<open>Python truth of a value, and equality with an \<open>int\<close> and a \<open>str\<close>.\<close>

fun truthy :: "json \<Rightarrow> bool" where
  "truthy JNull = False"
| "truthy (JBool b) = b"
| "truthy (JInt i) = (i \<noteq> 0)"
| "truthy (JFloat x) = (x \<noteq> Fin 0)"
| "truthy (JStr s) = (s \<noteq> [])"
| "truthy (JArr xs) = (xs \<noteq> [])"
| "truthy (JObj kvs) = (kvs \<noteq> [])"

fun equals_int :: "json \<Rightarrow> int \<Rightarrow> bool" where
  "equals_int (JBool b) n = ((if b then 1 else 0) = n)"
| "equals_int (JInt i) n = (i = n)"
| "equals_int (JFloat x) n = (x = Fin (of_int n))"
| "equals_int _ n = False"

definition equals_str :: "json \<Rightarrow> string \<Rightarrow> bool" where
  "equals_str j s = (j = JStr s)"

lemma jget_last [simp]: "jget (kvs @ [(k, v)]) k = Some v"
  by (simp add: jget_def)

section \<open>The decoder\<close>

datatype 'a scan = Got 'a string | Malformed | TooLong | Foreign | OutOfFuel

text \<open>JSON white space: space, tab, line feed, carriage return.\<close>

definition skip_ws :: "string \<Rightarrow> string" where
  "skip_ws s = dropWhile (\<lambda>c. of_char c \<in> set [32, 9, 10, 13 :: nat]) s"

definition hex_val :: "char \<Rightarrow> nat option" where
  "hex_val c =
     (if in_range 48 57 c then Some (of_char c - 48)
      else if in_range 97 102 c then Some (of_char c - 87)
      else if in_range 65 70 c then Some (of_char c - 55)
      else None)"

fun hex4 :: "nat \<Rightarrow> nat \<Rightarrow> string \<Rightarrow> (nat \<times> string) option" where
  "hex4 0 acc s = Some (acc, s)"
| "hex4 (Suc n) acc [] = None"
| "hex4 (Suc n) acc (c # cs) =
     (case hex_val c of None \<Rightarrow> None | Some d \<Rightarrow> hex4 n (16 * acc + d) cs)"

definition escape_char :: "char \<Rightarrow> nat option" where
  "escape_char c =
     map_of [(34 :: nat, 34), (92, 92), (47, 47), (98, 8), (102, 12), (110, 10), (114, 13), (116, 9)]
       (of_char c)"

text \<open>The body of a string after its opening quote; control characters are refused
  (\<open>strict=True\<close>).\<close>

fun scan_str :: "nat \<Rightarrow> string \<Rightarrow> string \<Rightarrow> string scan" where
  "scan_str 0 acc s = OutOfFuel"
| "scan_str (Suc f) acc [] = Malformed"
| "scan_str (Suc f) acc (c # cs) =
     (if of_char c = (34 :: nat) then Got acc cs
      else if of_char c = (92 :: nat) then
        (case cs of
           [] \<Rightarrow> Malformed
         | e # es \<Rightarrow>
             if e = CHR ''u'' then
               (case hex4 4 0 es of
                  None \<Rightarrow> Malformed
                | Some (n, rest) \<Rightarrow>
                    if n < 256 then scan_str f (acc @ [char_of n]) rest else Foreign)
             else (case escape_char e of
                     None \<Rightarrow> Malformed
                   | Some n \<Rightarrow> scan_str f (acc @ [char_of n]) es))
      else if (of_char c :: nat) < 32 then Malformed
      else scan_str f (acc @ [c]) cs)"

text \<open>A number: \<open>-?(0|[1-9][0-9]*)\<close>, then a fraction and an exponent where they
  are complete. An integer of more than 4300 digits is a \<open>ValueError\<close> that is not a
  \<open>JSONDecodeError\<close>.\<close>

definition take_digits :: "string \<Rightarrow> string \<times> string" where
  "take_digits s = (takeWhile is_digit s, dropWhile is_digit s)"

definition digits_val :: "string \<Rightarrow> nat" where
  "digits_val ds = foldl (\<lambda>a c. 10 * a + digit_val c) 0 ds"

definition scan_int_part :: "string \<Rightarrow> (string \<times> string) option" where
  "scan_int_part s =
     (case s of
        [] \<Rightarrow> None
      | c # cs \<Rightarrow> if c = CHR ''0'' then Some ([c], cs)
                  else if is_digit c then Some (take_digits s) else None)"

definition scan_frac :: "string \<Rightarrow> string \<times> string" where
  "scan_frac s =
     (case s of
        [] \<Rightarrow> ([], s)
      | c # cs \<Rightarrow> let (ds, rest) = take_digits cs
                  in if c = CHR ''.'' \<and> ds \<noteq> [] then (ds, rest) else ([], s))"

definition scan_exp :: "string \<Rightarrow> int option \<times> string" where
  "scan_exp s =
     (case s of
        [] \<Rightarrow> (None, s)
      | c # cs \<Rightarrow>
          let signed = (cs \<noteq> [] \<and> (hd cs = CHR ''+'' \<or> hd cs = CHR ''-''));
              body = (if signed then tl cs else cs);
              (ds, rest) = take_digits body;
              e = int (digits_val ds)
          in if (c = CHR ''e'' \<or> c = CHR ''E'') \<and> ds \<noteq> []
             then (Some (if signed \<and> hd cs = CHR ''-'' then - e else e), rest) else (None, s))"

definition scan_number :: "string \<Rightarrow> json scan" where
  "scan_number s =
     (let neg = (s \<noteq> [] \<and> hd s = CHR ''-''); body = (if neg then tl s else s)
      in case scan_int_part body of
           None \<Rightarrow> Malformed
         | Some (ip, r1) \<Rightarrow>
             let (fp, r2) = scan_frac r1; (ex, r3) = scan_exp r2
             in if fp = [] \<and> ex = None then
                  (if 4300 < length ip then TooLong
                   else Got (JInt (if neg then - int (digits_val ip) else int (digits_val ip))) r3)
                else
                  let m = of_nat (digits_val ip) + of_nat (digits_val fp) / 10 ^ length fp;
                      v = m * pow10 (case ex of None \<Rightarrow> 0 | Some e \<Rightarrow> e)
                  in Got (JFloat (Fin (if neg then - v else v))) r3)"

text \<open>The literals, tried where no string, object or array opens.\<close>

definition LITERALS :: "(string \<times> json) list" where
  "LITERALS = [(''null'', JNull), (''true'', JBool True), (''false'', JBool False),
     (''NaN'', JFloat NaN), (''Infinity'', JFloat PosInf), (''-Infinity'', JFloat NegInf)]"

definition scan_atom :: "string \<Rightarrow> json scan" where
  "scan_atom s =
     (case find (\<lambda>(w, v). prefix w s) LITERALS of
        Some (w, v) \<Rightarrow> Got v (drop (length w) s)
      | None \<Rightarrow> scan_number s)"

text \<open>Values, the members of an object and the elements of an array. Each call spends one
  unit of fuel and each nested call starts on a shorter text.\<close>

fun scan_value :: "nat \<Rightarrow> string \<Rightarrow> json scan"
  and scan_members :: "nat \<Rightarrow> (string \<times> json) list \<Rightarrow> string \<Rightarrow> json scan"
  and scan_elements :: "nat \<Rightarrow> json list \<Rightarrow> string \<Rightarrow> json scan" where
  "scan_value 0 s = OutOfFuel"
| "scan_value (Suc f) [] = Malformed"
| "scan_value (Suc f) (c # cs) =
     (if of_char c = (34 :: nat) then
        (case scan_str f [] cs of
           Got v r \<Rightarrow> Got (JStr v) r | Malformed \<Rightarrow> Malformed | TooLong \<Rightarrow> TooLong
         | Foreign \<Rightarrow> Foreign | OutOfFuel \<Rightarrow> OutOfFuel)
      else if of_char c = (123 :: nat) then
        (case skip_ws cs of
           [] \<Rightarrow> Malformed
         | d # ds \<Rightarrow> if of_char d = (125 :: nat) then Got (JObj []) ds
                     else scan_members f [] (d # ds))
      else if of_char c = (91 :: nat) then
        (case skip_ws cs of
           [] \<Rightarrow> Malformed
         | d # ds \<Rightarrow> if of_char d = (93 :: nat) then Got (JArr []) ds
                     else scan_elements f [] (d # ds))
      else scan_atom (c # cs))"
| "scan_members 0 kvs s = OutOfFuel"
| "scan_members (Suc f) kvs [] = Malformed"
| "scan_members (Suc f) kvs (c # cs) =
     (if of_char c \<noteq> (34 :: nat) then Malformed
      else case scan_str f [] cs of
        Got k r \<Rightarrow>
          (case skip_ws r of
             [] \<Rightarrow> Malformed
           | d # ds \<Rightarrow>
               if d \<noteq> CHR '':'' then Malformed
               else case scan_value f (skip_ws ds) of
                 Got v r2 \<Rightarrow>
                   (case skip_ws r2 of
                      [] \<Rightarrow> Malformed
                    | e # es \<Rightarrow>
                        if of_char e = (125 :: nat) then Got (JObj (kvs @ [(k, v)])) es
                        else if e = CHR '','' then scan_members f (kvs @ [(k, v)]) (skip_ws es)
                        else Malformed)
               | Malformed \<Rightarrow> Malformed | TooLong \<Rightarrow> TooLong | Foreign \<Rightarrow> Foreign
               | OutOfFuel \<Rightarrow> OutOfFuel)
      | Malformed \<Rightarrow> Malformed | TooLong \<Rightarrow> TooLong | Foreign \<Rightarrow> Foreign
      | OutOfFuel \<Rightarrow> OutOfFuel)"
| "scan_elements 0 xs s = OutOfFuel"
| "scan_elements (Suc f) xs s =
     (case scan_value f s of
        Got v r \<Rightarrow>
          (case skip_ws r of
             [] \<Rightarrow> Malformed
           | e # es \<Rightarrow>
               if of_char e = (93 :: nat) then Got (JArr (xs @ [v])) es
               else if e = CHR '','' then scan_elements f (xs @ [v]) (skip_ws es)
               else Malformed)
      | Malformed \<Rightarrow> Malformed | TooLong \<Rightarrow> TooLong | Foreign \<Rightarrow> Foreign
      | OutOfFuel \<Rightarrow> OutOfFuel)"

text \<open>\<open>json.loads\<close>: \<open>DecodeError\<close> is \<open>JSONDecodeError\<close>; the messages of the
  decoder are not modelled.\<close>

datatype loaded = Loaded json | DecodeError | LoadsValueError | Unmodelled

definition loads :: "string \<Rightarrow> loaded" where
  "loads s =
     (case scan_value (2 * length s + 2) (skip_ws s) of
        Got v r \<Rightarrow> if skip_ws r = [] then Loaded v else DecodeError
      | Malformed \<Rightarrow> DecodeError
      | TooLong \<Rightarrow> LoadsValueError
      | Foreign \<Rightarrow> Unmodelled
      | OutOfFuel \<Rightarrow> Unmodelled)"

section \<open>The fuel is enough\<close>

text \<open>A scan either fails or leaves a shorter text, so a fuel of twice the length of the text
  covers every nested call.\<close>

definition settled :: "'a scan \<Rightarrow> string \<Rightarrow> bool" where
  "settled r s = (case r of Got v rest \<Rightarrow> length rest < length s | OutOfFuel \<Rightarrow> False | _ \<Rightarrow> True)"

lemma settled_simps [simp]:
  "settled (Got v rest) s \<longleftrightarrow> length rest < length s"
  "settled Malformed s" "settled TooLong s" "settled Foreign s" "\<not> settled OutOfFuel s"
  by (simp_all add: settled_def)

lemma length_skip_ws: "length (skip_ws s) \<le> length s"
  by (simp add: skip_ws_def length_dropWhile_le)

lemma skip_ws_Cons: "skip_ws s = d # ds \<Longrightarrow> length ds < length s"
  using length_skip_ws [of s] by simp

lemma hex4_length: "hex4 n acc s = Some (v, r) \<Longrightarrow> length r \<le> length s"
  by (induction n acc s rule: hex4.induct) (auto split: option.splits)

lemma scan_str_settled: "length s < f \<Longrightarrow> settled (scan_str f acc s) s"
proof (induction f acc s rule: scan_str.induct)
  case (3 f acc c cs)
  have mono: "settled r t \<Longrightarrow> length t \<le> length cs \<Longrightarrow> settled r (c # cs)" for r :: "string scan" and t
    by (cases r) auto
  show ?case
  proof (cases "of_char c = (92 :: nat)")
    case True
    show ?thesis
    proof (cases cs)
      case (Cons e es)
      show ?thesis
      proof (cases "e = CHR ''u''")
        case True
        have "settled (scan_str f (acc @ [char_of n]) rest) (c # cs)"
          if "hex4 4 0 es = Some (n, rest)" "n < 256" for n rest
          using "3.IH"(1) [OF _ \<open>of_char c = 92\<close> Cons True that(1) refl that(2)] hex4_length [OF that(1)] "3.prems" Cons
             \<open>of_char c = 92\<close> by (intro mono) auto
        then show ?thesis using True Cons \<open>of_char c = 92\<close> by (auto split: option.splits)
      next
        case False
        have "settled (scan_str f (acc @ [char_of n]) es) (c # cs)"
          if "escape_char e = Some n" for n
          using "3.IH"(2) [OF _ \<open>of_char c = 92\<close> Cons False that] "3.prems" Cons
             \<open>of_char c = 92\<close> by (intro mono) auto
        then show ?thesis using False Cons \<open>of_char c = 92\<close> by (auto split: option.splits)
      qed
    qed (use True in simp)
  next
    case False
    then show ?thesis using "3.IH"(3) "3.prems" mono [of _ cs] by auto
  qed
qed auto

lemma take_digits_length: "take_digits s = (a, b) \<Longrightarrow> length a + length b = length s"
  unfolding take_digits_def using arg_cong [OF takeWhile_dropWhile_id [of is_digit s], of length] by auto

lemma scan_number_settled: "settled (scan_number s) s"
proof -
  have ip: "length r1 < length b" if "scan_int_part b = Some (i, r1)" for b i r1
  proof (cases b)
    case (Cons c cs)
    have "is_digit c \<Longrightarrow> length (dropWhile is_digit cs) < Suc (length cs)"
      by (simp add: le_imp_less_Suc length_dropWhile_le)
    then show ?thesis using that Cons by (auto simp: scan_int_part_def take_digits_def split: if_splits)
  qed (use that in \<open>simp add: scan_int_part_def\<close>)
  have fr: "length r2 \<le> length r1" if "scan_frac r1 = (x, r2)" for r1 x r2
    using that by (auto simp: scan_frac_def Let_def take_digits_def split: list.splits if_splits intro: le_SucI length_dropWhile_le)
  have ex: "length r2 \<le> length r1" if "scan_exp r1 = (x, r2)" for r1 x r2
    using that length_dropWhile_le [of is_digit "tl (tl r1)"] length_dropWhile_le [of is_digit "tl r1"]
    by (cases r1) (auto simp: scan_exp_def Let_def take_digits_def split: if_splits)
  show ?thesis
  proof (cases "scan_int_part (if s \<noteq> [] \<and> hd s = CHR ''-'' then tl s else s)")
    case (Some p)
    obtain i r1 where p: "p = (i, r1)" by (cases p)
    obtain x r2 where 2: "scan_frac r1 = (x, r2)" by (cases "scan_frac r1")
    obtain y r3 where 3: "scan_exp r2 = (y, r3)" by (cases "scan_exp r2")
    have "length (if s \<noteq> [] \<and> hd s = CHR ''-'' then tl s else s) \<le> length s" by simp
    then have "length r3 < length s" using ip [OF Some [unfolded p]] fr [OF 2] ex [OF 3] by linarith
    then show ?thesis using Some p 2 3 by (simp add: scan_number_def Let_def)
  qed (simp add: scan_number_def Let_def)
qed

lemma scan_atom_settled: "settled (scan_atom s) s"
proof (cases "find (\<lambda>(w, v). prefix w s) LITERALS")
  case None
  then show ?thesis by (simp add: scan_atom_def scan_number_settled)
next
  case (Some p)
  obtain w v where p: "p = (w, v)" by (cases p)
  have "prefix w s \<and> w \<noteq> []" using Some p by (auto simp: LITERALS_def split: if_splits)
  then have "length (drop (length w) s) < length s" by (cases s) auto
  then show ?thesis using Some p by (simp add: scan_atom_def)
qed

lemma settled_cut: "settled (case r of Got v rest \<Rightarrow> k v rest | Malformed \<Rightarrow> Malformed | TooLong \<Rightarrow> TooLong
         | Foreign \<Rightarrow> Foreign | OutOfFuel \<Rightarrow> OutOfFuel) s"
  if "settled r t" "\<And>v rest. r = Got v rest \<Longrightarrow> length rest < length t \<Longrightarrow> settled (k v rest) s"
  using that by (cases r) auto

lemma settled_weaken: "settled r t \<Longrightarrow> length t \<le> length s \<Longrightarrow> settled r s"
  by (cases r) auto

lemma scan_settled:
  "2 * length s < f \<Longrightarrow> settled (scan_value f s) s"
  "2 * length s < f \<Longrightarrow> settled (scan_members f kvs s) s"
  "2 * length s + 1 < f \<Longrightarrow> settled (scan_elements f xs s) s"
proof (induction f s and f kvs s and f xs s rule: scan_value_scan_members_scan_elements.induct)
  case (3 f c cs)
  have str: "settled (scan_str f [] cs) cs" using 3 by (intro scan_str_settled) simp
  have mem: "settled (scan_members f [] (d # ds)) (c # cs)"
    if "of_char c \<noteq> (34 :: nat)" "of_char c = (123 :: nat)" "skip_ws cs = d # ds" "of_char d \<noteq> (125 :: nat)" for d ds
    by (rule settled_weaken, rule "3.IH"(1) [OF that]) (use "3.prems" length_skip_ws [of cs] that in auto)
  have el: "settled (scan_elements f [] (d # ds)) (c # cs)"
    if "of_char c \<noteq> (34 :: nat)" "of_char c \<noteq> (123 :: nat)" "of_char c = (91 :: nat)" "skip_ws cs = d # ds" "of_char d \<noteq> (93 :: nat)" for d ds
    by (rule settled_weaken, rule "3.IH"(2) [OF that]) (use "3.prems" length_skip_ws [of cs] that in auto)
  have len: "skip_ws cs = d # ds \<Longrightarrow> length ds < Suc (length cs)" for d ds
    using length_skip_ws [of cs] by simp
  show ?case
    using mem el len str scan_atom_settled [of "c # cs"]
    by (auto intro!: settled_cut [OF str] split: list.splits)
next
  case (6 f kvs c cs)
  show ?case
  proof (cases "of_char c = (34 :: nat)")
    case True
    have str: "settled (scan_str f [] cs) cs" using 6 by (intro scan_str_settled) simp
    have body: "settled (case skip_ws r of
             [] \<Rightarrow> Malformed
           | d # ds \<Rightarrow>
               if d \<noteq> CHR '':'' then Malformed
               else case scan_value f (skip_ws ds) of
                 Got v r2 \<Rightarrow>
                   (case skip_ws r2 of
                      [] \<Rightarrow> Malformed
                    | e # es \<Rightarrow>
                        if of_char e = (125 :: nat) then Got (JObj (kvs @ [(k, v)])) es
                        else if e = CHR '','' then scan_members f (kvs @ [(k, v)]) (skip_ws es)
                        else Malformed)
               | Malformed \<Rightarrow> Malformed | TooLong \<Rightarrow> TooLong | Foreign \<Rightarrow> Foreign
               | OutOfFuel \<Rightarrow> OutOfFuel) (c # cs)"
      if r: "scan_str f [] cs = Got k r" "length r < length cs" for k r
    proof (cases "skip_ws r")
      case (Cons d ds)
      have lds: "length ds < length r" using skip_ws_Cons [OF Cons] .
      show ?thesis
      proof (cases "d = CHR '':''")
        case True
        have v: "settled (scan_value f (skip_ws ds)) (skip_ws ds)"
          using "6.IH"(1) [OF _ r(1) Cons] True \<open>of_char c = 34\<close> "6.prems" lds r(2) length_skip_ws [of ds] by auto
        have tail: "settled (case skip_ws r2 of
                      [] \<Rightarrow> Malformed
                    | e # es \<Rightarrow>
                        if of_char e = (125 :: nat) then Got (JObj (kvs @ [(k, w)])) es
                        else if e = CHR '','' then scan_members f (kvs @ [(k, w)]) (skip_ws es)
                        else Malformed) (c # cs)"
          if w: "scan_value f (skip_ws ds) = Got w r2" "length r2 < length (skip_ws ds)" for w r2
        proof (cases "skip_ws r2")
          case (Cons e es)
          have les: "length es < length r2" using skip_ws_Cons [OF Cons] .
          have lt: "length (skip_ws es) < length cs"
            using les w(2) lds r(2) length_skip_ws [of es] length_skip_ws [of ds] by linarith
          have "settled (scan_members f (kvs @ [(k, w)]) (skip_ws es)) (c # cs)"
            if "of_char e \<noteq> (125 :: nat)" "e = CHR '',''"
            by (rule settled_weaken, rule "6.IH"(2) [OF _ r(1) \<open>skip_ws r = d # ds\<close> _ w(1) Cons that])
              (use True \<open>of_char c = 34\<close> lt "6.prems" in auto)
          then show ?thesis using Cons lt les w(2) lds r(2) length_skip_ws [of ds] by auto
        qed simp
        show ?thesis using Cons True settled_cut [OF v tail] by auto
      qed (use Cons in simp)
    qed simp
    show ?thesis using True settled_cut [OF str body] by simp
  qed simp
next
  case (8 f xs s)
  have v: "settled (scan_value f s) s" using 8 by simp
  have tail: "settled (case skip_ws r of
             [] \<Rightarrow> Malformed
           | e # es \<Rightarrow>
               if of_char e = (93 :: nat) then Got (JArr (xs @ [w])) es
               else if e = CHR '','' then scan_elements f (xs @ [w]) (skip_ws es)
               else Malformed) s"
    if w: "scan_value f s = Got w r" "length r < length s" for w r
  proof (cases "skip_ws r")
    case (Cons e es)
    have les: "length es < length r" using skip_ws_Cons [OF Cons] .
    have "settled (scan_elements f (xs @ [w]) (skip_ws es)) s"
      if "of_char e \<noteq> (93 :: nat)" "e = CHR '',''"
      by (rule settled_weaken, rule "8.IH"(2) [OF w(1) Cons that])
        (use les w(2) length_skip_ws [of es] "8.prems" in auto)
    then show ?thesis using Cons les w(2) by auto
  qed simp
  show ?case using settled_cut [OF v tail] by simp
qed auto

lemma loads_fuel: "scan_value (2 * length s + 2) (skip_ws s) \<noteq> OutOfFuel"
  using scan_settled(1) [of "skip_ws s" "2 * length s + 2"] length_skip_ws [of s] by auto
section \<open>The smallest client message\<close>

text \<open>A message that only names its type, and what it parses to.\<close>

definition type_message :: "string \<Rightarrow> string" where
  "type_message t = ''{'' @ [CHR 0x22] @ ''type'' @ [CHR 0x22] @ '':'' @ [CHR 0x22] @ t @
     [CHR 0x22] @ ''}''"

definition plain :: "string \<Rightarrow> bool" where
  "plain t = list_all (\<lambda>c. of_char c \<noteq> (34::nat) \<and> of_char c \<noteq> (92::nat) \<and> 32 \<le> (of_char c :: nat)) t"

lemma scan_str_plain: "plain t \<Longrightarrow> length t < f \<Longrightarrow> scan_str f acc (t @ CHR 0x22 # r) = Got (acc @ t) r"
proof (induction t arbitrary: f acc)
  case Nil then show ?case by (cases f) auto
next
  case (Cons c t)
  then show ?case by (cases f) (auto simp: plain_def)
qed

lemma loads_type_message:
  assumes "plain t"
  shows "loads (type_message t) = Loaded (JObj [(''type'', JStr t)])"
proof -
  let ?tail = "CHR 0x22 # t @ [CHR 0x22, CHR ''}'']"
  have ty: "scan_str f [] (''type'' @ CHR 0x22 # r) = Got ''type'' r" if "4 < f" for f r
    using scan_str_plain [of "''type''" f "[]" r] that by (simp add: plain_def)
  have sv: "scan_value (Suc f) ?tail = Got (JStr t) ''}''" if "length t < f" for f
    using scan_str_plain [OF assms that, of "[]" "''}''"] by simp
  have mem: "scan_members (Suc (Suc f)) [] (CHR 0x22 # ''type'' @ CHR 0x22 # '':'' @ ?tail)
     = Got (JObj [(''type'', JStr t)]) []" if "4 < f" "length t < f" for f
    using ty [of "Suc f" "'':'' @ ?tail"] sv [OF that(2)] that
    by (simp add: skip_ws_def del: scan_value.simps scan_str.simps)
  have top: "scan_value (Suc (Suc (Suc f))) (type_message t) = Got (JObj [(''type'', JStr t)]) []"
    if "4 < f" "length t < f" for f
    using mem [OF that] by (simp add: type_message_def skip_ws_def del: scan_members.simps scan_value.simps(1))
  have eq: "2 * length (type_message t) + 2 = Suc (Suc (Suc (2 * length t + 21)))" "skip_ws (type_message t) = type_message t"
    by (simp_all add: type_message_def skip_ws_def)
  show ?thesis unfolding loads_def eq by (subst top) (simp_all add: skip_ws_def)
qed

end
