(* ===== verification/Base64.thy ===== *)
theory Base64
  imports Prelude "HOL-Library.Word"
begin

text \<open>
  The base64 codec of the \<open>input_audio_buffer.append\<close> payload: the client's
  \<open>base64.b64encode\<close> and the server's \<open>base64.b64decode(s, validate=True)\<close>,
  the standard library's strict decoder with its errors.
\<close>

type_synonym byte = "8 word"

definition B64_ALPHABET :: string where
  "B64_ALPHABET = ''ABCDEFGHIJKLMNOPQRSTUVWXYZabcdefghijklmnopqrstuvwxyz0123456789+/''"

definition b64_char :: "nat \<Rightarrow> char" where
  "b64_char n = B64_ALPHABET ! n"

definition b64_val :: "char \<Rightarrow> nat option" where
  "b64_val c =
     (if in_range 65 90 c then Some (of_char c - 65)
      else if in_range 97 122 c then Some (of_char c - 71)
      else if in_range 48 57 c then Some (of_char c + 4)
      else if c = CHR ''+'' then Some 62
      else if c = CHR ''/'' then Some 63
      else None)"

section \<open>Encoding\<close>

fun b64encode :: "byte list \<Rightarrow> string" where
  "b64encode [] = []"
| "b64encode [a] =
     [b64_char (unat a div 4), b64_char (unat a mod 4 * 16), CHR ''='', CHR ''='']"
| "b64encode [a, b] =
     [b64_char (unat a div 4), b64_char (unat a mod 4 * 16 + unat b div 16),
      b64_char (unat b mod 16 * 4), CHR ''='']"
| "b64encode (a # b # c # rest) =
     b64_char (unat a div 4) # b64_char (unat a mod 4 * 16 + unat b div 16) #
     b64_char (unat b mod 16 * 4 + unat c div 64) # b64_char (unat c mod 64) # b64encode rest"

section \<open>Strict decoding\<close>

datatype b64_error =
    Non_Ascii | Leading_Padding | Only_Base64_Data | Discontinuous_Padding
  | Excess_Data | Incorrect_Padding | One_Char_Over nat

fun b64_message :: "b64_error \<Rightarrow> string" where
  "b64_message Non_Ascii = ''string argument should contain only ASCII characters''"
| "b64_message Leading_Padding = ''Leading padding not allowed''"
| "b64_message Only_Base64_Data = ''Only base64 data is allowed''"
| "b64_message Discontinuous_Padding = ''Discontinuous padding not allowed''"
| "b64_message Excess_Data = ''Excess data after padding''"
| "b64_message Incorrect_Padding = ''Incorrect padding''"
| "b64_message (One_Char_Over n) =
     ''Invalid base64-encoded string: number of data characters ('' @ show_nat n @
     '') cannot be 1 more than a multiple of 4''"

text \<open>The decoder's loop: the position in the current group of four, the bits left over
  from the previous character, the pads seen in this group, whether a pad was seen at
  all, and the bytes decoded so far.\<close>

fun b64_scan :: "nat \<Rightarrow> nat \<Rightarrow> nat \<Rightarrow> bool \<Rightarrow> byte list \<Rightarrow> string \<Rightarrow> b64_error + byte list" where
  "b64_scan quad left pads padded out [] =
     (if quad = 0 then Ok out
      else if quad = 1 then Raise (One_Char_Over (length out div 3 * 4 + 1))
      else Raise Incorrect_Padding)"
| "b64_scan quad left pads padded out (c # cs) =
     (if c = CHR ''='' then
        (if 2 \<le> quad then
           (if 4 \<le> quad + Suc pads
            then (if cs \<noteq> [] then Raise Excess_Data else Ok out)
            else b64_scan quad left (Suc pads) True out cs)
         else b64_scan quad left pads True out cs)
      else case b64_val c of
        None \<Rightarrow> Raise Only_Base64_Data
      | Some v \<Rightarrow>
          if padded then Raise Discontinuous_Padding
          else if quad = 0 then b64_scan 1 v 0 padded out cs
          else if quad = 1 then
            b64_scan 2 (v mod 16) 0 padded (out @ [word_of_nat (left * 4 + v div 16)]) cs
          else if quad = 2 then
            b64_scan 3 (v mod 4) 0 padded (out @ [word_of_nat (left * 16 + v div 4)]) cs
          else b64_scan 0 0 0 padded (out @ [word_of_nat (left * 64 + v)]) cs)"

definition b64decode :: "string \<Rightarrow> b64_error + byte list" where
  "b64decode s =
     (if list_ex (\<lambda>c. 128 \<le> (of_char c :: nat)) s then Raise Non_Ascii
      else if s \<noteq> [] \<and> hd s = CHR ''='' then Raise Leading_Padding
      else b64_scan 0 0 0 False [] s)"

section \<open>Round trip\<close>

lemma b64_val_char: "n < 64 \<Longrightarrow> b64_val (b64_char n) = Some n"
proof -
  have "list_all (\<lambda>n. b64_val (b64_char n) = Some n) [0..<64]" by (simp add: upt_rec b64_val_def b64_char_def B64_ALPHABET_def in_range_def)
  then show "n < 64 \<Longrightarrow> b64_val (b64_char n) = Some n" by (simp add: list_all_iff)
qed

lemma b64_char_ascii: "n < 64 \<Longrightarrow> (of_char (b64_char n) :: nat) < 128 \<and> b64_char n \<noteq> CHR ''=''"
proof -
  have "list_all (\<lambda>n. (of_char (b64_char n) :: nat) < 128 \<and> b64_char n \<noteq> CHR ''='') [0..<64]"
    by (simp add: upt_rec b64_val_def b64_char_def B64_ALPHABET_def in_range_def)
  then show "n < 64 \<Longrightarrow> (of_char (b64_char n) :: nat) < 128 \<and> b64_char n \<noteq> CHR ''=''"
    by (simp add: list_all_iff)
qed

lemma byte_bound: "unat (a :: byte) < 256"
  using unsigned_less [of a, where 'a = nat] by simp

lemma sextet_bounds:
  fixes x y :: nat
  assumes "x < 256" "y < 256"
  shows "x div 4 < 64" "x mod 4 * 16 < 64" "x mod 16 * 4 < 64" "x mod 64 < 64"
    "x mod 4 * 16 + y div 16 < 64" "x mod 16 * 4 + y div 64 < 64"
  using assms by (linarith | simp add: less_mult_imp_div_less)+

lemma sextets:
  fixes a b :: byte
  shows "unat a div 4 < 64" "unat a mod 4 * 16 < 64" "unat a mod 16 * 4 < 64" "unat a mod 64 < 64"
    "unat a mod 4 * 16 + unat b div 16 < 64" "unat a mod 16 * 4 + unat b div 64 < 64"
  using sextet_bounds [OF byte_bound byte_bound] by blast+

lemma mod_add_small: "(y :: nat) < m \<Longrightarrow> (x * m + y) div m = x \<and> (x * m + y) mod m = y"
  by simp

lemma join_first:
  fixes x y :: nat
  assumes "y < 256"
  shows "x div 4 * 4 + (x mod 4 * 16 + y div 16) div 16 = x"
proof -
  have "(x mod 4 * 16 + y div 16) div 16 = x mod 4"
    using assms by (subst div_mult_self3) auto
  then show ?thesis by simp
qed

lemma join_second:
  fixes x y z :: nat
  assumes "y < 256" "z < 256"
  shows "(x mod 4 * 16 + y div 16) mod 16 * 16 + (y mod 16 * 4 + z div 64) div 4 = y"
proof -
  have "(x mod 4 * 16 + y div 16) mod 16 = y div 16"
    using assms by (subst mod_mult_self3) auto
  moreover have "(y mod 16 * 4 + z div 64) div 4 = y mod 16"
    using assms by (subst div_mult_self3) auto
  ultimately show ?thesis by simp
qed

lemma join_third:
  fixes y z :: nat
  assumes "z < 256"
  shows "(y mod 16 * 4 + z div 64) mod 4 * 64 + z mod 64 = z"
proof -
  have "(y mod 16 * 4 + z div 64) mod 4 = z div 64"
    using assms by (subst mod_mult_self3) auto
  then show ?thesis by simp
qed

lemmas joins =
  join_first [OF byte_bound] join_second [OF byte_bound byte_bound] join_third [OF byte_bound]

lemma b64_scan_char:
  assumes "n < 64"
  shows "b64_scan quad left pads False out (b64_char n # cs) =
    (if quad = 0 then b64_scan 1 n 0 False out cs
     else if quad = 1 then
       b64_scan 2 (n mod 16) 0 False (out @ [word_of_nat (left * 4 + n div 16)]) cs
     else if quad = 2 then
       b64_scan 3 (n mod 4) 0 False (out @ [word_of_nat (left * 16 + n div 4)]) cs
     else b64_scan 0 0 0 False (out @ [word_of_nat (left * 64 + n)]) cs)"
  using b64_val_char [OF assms] b64_char_ascii [OF assms] by simp

lemma b64_scan_group:
  assumes "n1 < 64" "n2 < 64" "n3 < 64" "n4 < 64"
    and "n1 * 4 + n2 div 16 = unat a" "n2 mod 16 * 16 + n3 div 4 = unat b"
    and "n3 mod 4 * 64 + n4 = unat (c :: byte)"
  shows "b64_scan 0 left pads False out (b64_char n1 # b64_char n2 # b64_char n3 # b64_char n4 # cs) =
    b64_scan 0 0 0 False (out @ [a, b, c]) cs"
  by (simp only: b64_scan_char [OF assms(1)] b64_scan_char [OF assms(2)] b64_scan_char [OF assms(3)]
      b64_scan_char [OF assms(4)] assms(5-7)) simp

lemma b64_scan_tail1:
  assumes "n1 < 64" "n2 < 64" "n1 * 4 + n2 div 16 = unat (a :: byte)"
  shows "b64_scan 0 left pads False out [b64_char n1, b64_char n2, CHR ''='', CHR ''=''] =
    Ok (out @ [a])"
  by (simp only: b64_scan_char [OF assms(1)] b64_scan_char [OF assms(2)] assms(3)) simp

lemma b64_scan_tail2:
  assumes "n1 < 64" "n2 < 64" "n3 < 64"
    and "n1 * 4 + n2 div 16 = unat (a :: byte)" "n2 mod 16 * 16 + n3 div 4 = unat (b :: byte)"
  shows "b64_scan 0 left pads False out [b64_char n1, b64_char n2, b64_char n3, CHR ''=''] =
    Ok (out @ [a, b])"
  by (simp only: b64_scan_char [OF assms(1)] b64_scan_char [OF assms(2)] b64_scan_char [OF assms(3)]
      assms(4-5)) simp

lemma b64_scan_encode:
  "b64_scan 0 left pads False out (b64encode xs) = Ok (out @ xs)"
proof (induction xs arbitrary: out left pads rule: b64encode.induct)
  case (2 a)
  show ?case
    unfolding b64encode.simps
    by (rule b64_scan_tail1) (use byte_bound [of a] in \<open>simp_all add: sextets\<close>)
next
  case (3 a b)
  show ?case
    unfolding b64encode.simps
    by (rule b64_scan_tail2)
      (use join_first [of "unat b" "unat a"] join_second [of "unat b" 0 "unat a"] byte_bound [of b]
        in \<open>simp_all add: sextets\<close>)
next
  case (4 a b c rest)
  show ?case
    unfolding b64encode.simps
    by (subst b64_scan_group [where a = a and b = b and c = c])
      (simp_all only: sextets joins "4.IH" append_assoc append.simps)
qed simp

lemma b64encode_ascii: "c \<in> set (b64encode xs) \<Longrightarrow> (of_char c :: nat) < 128"
  by (induction xs rule: b64encode.induct) (auto simp: b64_char_ascii sextets)

lemma b64encode_head: "xs \<noteq> [] \<Longrightarrow> b64encode xs \<noteq> [] \<and> hd (b64encode xs) \<noteq> CHR ''=''"
  by (cases xs rule: b64encode.cases) (auto simp: b64_char_ascii sextets)

lemma b64decode_encode: "b64decode (b64encode xs) = Ok xs"
proof (cases "xs = []")
  case False
  have "\<not> list_ex (\<lambda>c. 128 \<le> (of_char c :: nat)) (b64encode xs)"
    using b64encode_ascii by (fastforce simp: list_ex_iff)
  then show ?thesis using b64encode_head [OF False] b64_scan_encode [of 0 0 "[]" xs]
    by (simp add: b64decode_def)
qed (simp add: b64decode_def)

end
