(* ===== verification/Protocol.thy ===== *)
theory Protocol
  imports Prelude
begin

text \<open>
  The wire constants of \<open>stt_server/protocol.py\<close> (event names, limits, error
  codes) and the error taxonomy table of \<open>stt_server/server.py\<close>.
\<close>

section \<open>Limits and audio format\<close>

definition PROTOCOL_VERSION :: string where "PROTOCOL_VERSION = ''0.1''"
definition AUDIO_SAMPLE_RATE_HZ :: nat where "AUDIO_SAMPLE_RATE_HZ = 16000"
definition AUDIO_CHANNELS :: nat where "AUDIO_CHANNELS = 1"
definition AUDIO_SAMPLE_WIDTH_BYTES :: nat where "AUDIO_SAMPLE_WIDTH_BYTES = 2"
definition AUDIO_FORMAT :: string where "AUDIO_FORMAT = ''pcm16''"
definition MAX_APPEND_BYTES :: nat where "MAX_APPEND_BYTES = 1 * 1024 * 1024"
definition MAX_UNCOMMITTED_SECONDS :: nat where "MAX_UNCOMMITTED_SECONDS = 300"
definition MAX_UNCOMMITTED_BYTES :: nat where
  "MAX_UNCOMMITTED_BYTES =
     MAX_UNCOMMITTED_SECONDS * AUDIO_SAMPLE_RATE_HZ * AUDIO_CHANNELS * AUDIO_SAMPLE_WIDTH_BYTES"
definition SEND_QUEUE_HIGH_WATER_BYTES :: nat where
  "SEND_QUEUE_HIGH_WATER_BYTES = 1 * 1024 * 1024"
definition SHUTDOWN_DRAIN_TIMEOUT_SECONDS :: rat where "SHUTDOWN_DRAIN_TIMEOUT_SECONDS = 10"

section \<open>Event names\<close>

definition EVT_SESSION_UPDATE :: string where "EVT_SESSION_UPDATE = ''session.update''"
definition EVT_TRANSCRIPTION_SESSION_UPDATE :: string where
  "EVT_TRANSCRIPTION_SESSION_UPDATE = ''transcription_session.update''"
definition EVT_AUDIO_APPEND :: string where "EVT_AUDIO_APPEND = ''input_audio_buffer.append''"
definition EVT_AUDIO_COMMIT :: string where "EVT_AUDIO_COMMIT = ''input_audio_buffer.commit''"
definition EVT_AUDIO_CLEAR :: string where "EVT_AUDIO_CLEAR = ''input_audio_buffer.clear''"
definition EVT_SERVER_STATUS_REQ :: string where "EVT_SERVER_STATUS_REQ = ''server.status''"
definition EVT_SESSION_CLOSE :: string where "EVT_SESSION_CLOSE = ''session.close''"
definition EVT_SESSION_CANCEL :: string where "EVT_SESSION_CANCEL = ''session.cancel''"

definition CLIENT_EVENT_TYPES :: "string list" where
  "CLIENT_EVENT_TYPES =
     [EVT_SESSION_UPDATE, EVT_TRANSCRIPTION_SESSION_UPDATE, EVT_AUDIO_APPEND, EVT_AUDIO_COMMIT,
      EVT_AUDIO_CLEAR, EVT_SERVER_STATUS_REQ, EVT_SESSION_CLOSE, EVT_SESSION_CANCEL]"

definition EVT_SERVER_HELLO :: string where "EVT_SERVER_HELLO = ''server.hello''"
definition EVT_SESSION_CREATED :: string where "EVT_SESSION_CREATED = ''session.created''"
definition EVT_SESSION_UPDATED :: string where "EVT_SESSION_UPDATED = ''session.updated''"
definition EVT_TRANSCRIPTION_SESSION_CREATED :: string where
  "EVT_TRANSCRIPTION_SESSION_CREATED = ''transcription_session.created''"
definition EVT_TRANSCRIPTION_SESSION_UPDATED :: string where
  "EVT_TRANSCRIPTION_SESSION_UPDATED = ''transcription_session.updated''"
definition EVT_SESSION_CLOSED :: string where "EVT_SESSION_CLOSED = ''session.closed''"
definition EVT_AUDIO_COMMITTED :: string where
  "EVT_AUDIO_COMMITTED = ''input_audio_buffer.committed''"
definition EVT_AUDIO_CLEARED :: string where "EVT_AUDIO_CLEARED = ''input_audio_buffer.cleared''"
definition EVT_TRANSCRIPT_DELTA :: string where
  "EVT_TRANSCRIPT_DELTA = ''conversation.item.input_audio_transcription.delta''"
definition EVT_TRANSCRIPT_COMPLETED :: string where
  "EVT_TRANSCRIPT_COMPLETED = ''conversation.item.input_audio_transcription.completed''"
definition EVT_TRANSCRIPT_FAILED :: string where
  "EVT_TRANSCRIPT_FAILED = ''conversation.item.input_audio_transcription.failed''"
definition EVT_SERVER_STATUS :: string where "EVT_SERVER_STATUS = ''server.status''"
definition EVT_ERROR :: string where "EVT_ERROR = ''error''"

lemmas event_defs =
  EVT_SESSION_UPDATE_def EVT_TRANSCRIPTION_SESSION_UPDATE_def EVT_AUDIO_APPEND_def
  EVT_AUDIO_COMMIT_def EVT_AUDIO_CLEAR_def EVT_SERVER_STATUS_REQ_def EVT_SESSION_CLOSE_def
  EVT_SESSION_CANCEL_def EVT_SERVER_HELLO_def EVT_SESSION_CREATED_def EVT_SESSION_UPDATED_def
  EVT_TRANSCRIPTION_SESSION_CREATED_def EVT_TRANSCRIPTION_SESSION_UPDATED_def
  EVT_SESSION_CLOSED_def EVT_AUDIO_COMMITTED_def EVT_AUDIO_CLEARED_def EVT_TRANSCRIPT_DELTA_def
  EVT_TRANSCRIPT_COMPLETED_def EVT_TRANSCRIPT_FAILED_def EVT_SERVER_STATUS_def EVT_ERROR_def

section \<open>Error codes\<close>

datatype error_code =
    INVALID_JSON | INVALID_EVENT | UNSUPPORTED_EVENT | INVALID_CONFIG | BUFFER_EMPTY
  | BUFFER_OVERFLOW | PAYLOAD_TOO_LARGE | BACKEND_ERROR | UNAUTHORIZED | INTERNAL_ERROR

fun code_value :: "error_code \<Rightarrow> string" where
  "code_value INVALID_JSON = ''invalid_json''"
| "code_value INVALID_EVENT = ''invalid_event''"
| "code_value UNSUPPORTED_EVENT = ''unsupported_event''"
| "code_value INVALID_CONFIG = ''invalid_config''"
| "code_value BUFFER_EMPTY = ''buffer_empty''"
| "code_value BUFFER_OVERFLOW = ''buffer_overflow''"
| "code_value PAYLOAD_TOO_LARGE = ''payload_too_large''"
| "code_value BACKEND_ERROR = ''backend_error''"
| "code_value UNAUTHORIZED = ''unauthorized''"
| "code_value INTERNAL_ERROR = ''internal_error''"

text \<open>\<open>_ERROR_TYPE_FOR_CODE\<close>: the table is total on the enum, so the lookup default of
  \<open>_error\<close> is never used.\<close>

fun error_type_for_code :: "error_code \<Rightarrow> string" where
  "error_type_for_code UNAUTHORIZED = ''authentication_error''"
| "error_type_for_code BACKEND_ERROR = ''server_error''"
| "error_type_for_code INTERNAL_ERROR = ''server_error''"
| "error_type_for_code INVALID_JSON = ''invalid_request_error''"
| "error_type_for_code INVALID_EVENT = ''invalid_request_error''"
| "error_type_for_code UNSUPPORTED_EVENT = ''invalid_request_error''"
| "error_type_for_code INVALID_CONFIG = ''invalid_request_error''"
| "error_type_for_code BUFFER_EMPTY = ''invalid_request_error''"
| "error_type_for_code BUFFER_OVERFLOW = ''invalid_request_error''"
| "error_type_for_code PAYLOAD_TOO_LARGE = ''invalid_request_error''"

lemma code_value_inj: "code_value a = code_value b \<Longrightarrow> a = b"
  by (cases a; cases b) simp_all

lemma client_events_distinct: "distinct CLIENT_EVENT_TYPES"
  by (simp add: CLIENT_EVENT_TYPES_def event_defs)

end
