(* ===== verification/Env.thy ===== *)
theory Env
  imports Prelude
begin

text \<open>
  The environment-variable helpers of \<open>stt_server/env.py\<close>. The process
  environment \<open>os.environ\<close> is a finite map from names to values, passed in:
  the helpers read it at call time. The warnings they log are not modelled.
\<close>

type_synonym environ = "string \<Rightarrow> string option"

definition TRUTHY :: "string list" where
  "TRUTHY = [''1'', ''true'', ''yes'', ''on'']"

definition env_bool :: "environ \<Rightarrow> string \<Rightarrow> bool \<Rightarrow> bool" where
  "env_bool env name dflt =
     (case env name of None \<Rightarrow> dflt | Some val \<Rightarrow> lower (strip val) \<in> set TRUTHY)"

definition env_float :: "environ \<Rightarrow> string \<Rightarrow> pyfloat \<Rightarrow> pyfloat" where
  "env_float env name dflt =
     (case env name of
        None \<Rightarrow> dflt
      | Some val \<Rightarrow>
          if strip val = [] then dflt
          else case py_float val of Some x \<Rightarrow> x | None \<Rightarrow> dflt)"

definition env_int :: "environ \<Rightarrow> string \<Rightarrow> int \<Rightarrow> int" where
  "env_int env name dflt =
     (case env name of
        None \<Rightarrow> dflt
      | Some val \<Rightarrow>
          if strip val = [] then dflt
          else case py_int val of Some x \<Rightarrow> x | None \<Rightarrow> dflt)"

fun env_first :: "environ \<Rightarrow> string list \<Rightarrow> string option \<Rightarrow> string option" where
  "env_first env [] dflt = dflt"
| "env_first env (name # names) dflt =
     (case env name of
        Some val \<Rightarrow> if strip val \<noteq> [] then Some val else env_first env names dflt
      | None \<Rightarrow> env_first env names dflt)"

fun first_present_name :: "environ \<Rightarrow> string list \<Rightarrow> string option" where
  "first_present_name env [] = None"
| "first_present_name env (name # names) =
     (if env name \<noteq> None then Some name else first_present_name env names)"

definition env_bool_first :: "environ \<Rightarrow> string list \<Rightarrow> bool \<Rightarrow> bool" where
  "env_bool_first env names dflt =
     (case first_present_name env names of None \<Rightarrow> dflt | Some name \<Rightarrow> env_bool env name dflt)"

definition env_float_first :: "environ \<Rightarrow> string list \<Rightarrow> pyfloat \<Rightarrow> pyfloat" where
  "env_float_first env names dflt =
     (case first_present_name env names of None \<Rightarrow> dflt | Some name \<Rightarrow> env_float env name dflt)"

definition env_int_first :: "environ \<Rightarrow> string list \<Rightarrow> int \<Rightarrow> int" where
  "env_int_first env names dflt =
     (case first_present_name env names of None \<Rightarrow> dflt | Some name \<Rightarrow> env_int env name dflt)"

section \<open>Resolution rules\<close>

lemma env_first_eq_find:
  "env_first env names dflt =
     (case find (\<lambda>n. \<exists>v. env n = Some v \<and> strip v \<noteq> []) names of
        Some n \<Rightarrow> env n | None \<Rightarrow> dflt)"
  by (induction names) (auto split: option.splits)

lemma first_present_name_eq_find:
  "first_present_name env names = find (\<lambda>n. env n \<noteq> None) names"
  by (induction names) auto

lemma first_present_name_append:
  "first_present_name env (xs @ ys) =
     (case first_present_name env xs of Some n \<Rightarrow> Some n | None \<Rightarrow> first_present_name env ys)"
  by (induction xs) auto

lemma env_int_blank: "env n = Some v \<Longrightarrow> strip v = [] \<Longrightarrow> env_int env n d = d"
  by (simp add: env_int_def)

section \<open>Properties\<close>

text \<open>How a setting with several names is resolved: the string helper takes the first name whose
  value is not blank, while the typed helpers take the first name that is present at all, so a
  present but blank canonical name hides its aliases and yields the default.\<close>

theorem env_resolution:
  "env_first env names d0 =
     (case find (\<lambda>n. case env n of None \<Rightarrow> False | Some v \<Rightarrow> strip v \<noteq> []) names of
        None \<Rightarrow> d0 | Some n \<Rightarrow> env n) \<and>
   env_int_first env names d =
     (case find (\<lambda>n. env n \<noteq> None) names of
        None \<Rightarrow> d
      | Some n \<Rightarrow> (case map_option strip (env n) of
          Some [] \<Rightarrow> d
        | _ \<Rightarrow> env_int env n d))"
proof
  have "(\<lambda>n. case env n of None \<Rightarrow> False | Some v \<Rightarrow> strip v \<noteq> [])
      = (\<lambda>n. \<exists>v. env n = Some v \<and> strip v \<noteq> [])" by (auto split: option.splits)
  then show "env_first env names d0 =
     (case find (\<lambda>n. case env n of None \<Rightarrow> False | Some v \<Rightarrow> strip v \<noteq> []) names of
        None \<Rightarrow> d0 | Some n \<Rightarrow> env n)"
    by (simp add: env_first_eq_find)
  show "env_int_first env names d =
     (case find (\<lambda>n. env n \<noteq> None) names of
        None \<Rightarrow> d
      | Some n \<Rightarrow> (case map_option strip (env n) of Some [] \<Rightarrow> d | _ \<Rightarrow> env_int env n d))"
    by (auto simp: env_int_first_def first_present_name_eq_find env_int_def
        split: option.splits list.splits)
qed

end
