(* ===== verification/Text_Quality.thy ===== *)
theory Text_Quality
  imports Env
begin

text \<open>
  Degenerate-output detection, \<open>stt_server/text_quality.py\<close>: the dominant
  unigram of a text, and the whole-text and per-paragraph filters the Whisper
  backend and the cleanup stage use. A ratio is an exact quotient.
\<close>

definition DEFAULT_RATIO :: pyfloat where "DEFAULT_RATIO = Fin (40 / 100)"
definition DEFAULT_MIN_TOKENS :: int where "DEFAULT_MIN_TOKENS = 10"

definition RATIO_ENVS :: "string list" where
  "RATIO_ENVS =
     [''PIPECAT_STT_WHISPER_DEGENERATE_TOKEN_RATIO'',
      ''KODA_TEXT_QUALITY_DEGENERATE_TOKEN_RATIO'',
      ''KODA_STT_WHISPER_DEGENERATE_TOKEN_RATIO'']"

definition MIN_TOKENS_ENVS :: "string list" where
  "MIN_TOKENS_ENVS =
     [''PIPECAT_STT_WHISPER_DEGENERATE_MIN_TOKENS'',
      ''KODA_TEXT_QUALITY_DEGENERATE_MIN_TOKENS'',
      ''KODA_STT_WHISPER_DEGENERATE_MIN_TOKENS'']"

definition ratio_threshold :: "environ \<Rightarrow> pyfloat" where
  "ratio_threshold env = env_float_first env RATIO_ENVS DEFAULT_RATIO"

definition min_tokens :: "environ \<Rightarrow> int" where
  "min_tokens env = env_int_first env MIN_TOKENS_ENVS DEFAULT_MIN_TOKENS"

section \<open>The dominant unigram\<close>

text \<open>\<open>collections.Counter\<close>: keys in the order of their first occurrence.\<close>

fun bump :: "'a \<Rightarrow> ('a \<times> nat) list \<Rightarrow> ('a \<times> nat) list" where
  "bump k [] = [(k, 1)]"
| "bump k ((k', n) # r) = (if k = k' then (k', Suc n) # r else (k', n) # bump k r)"

definition counter :: "'a list \<Rightarrow> ('a \<times> nat) list" where
  "counter xs = fold bump xs []"

text \<open>\<open>most_common(1)[0]\<close>: \<open>max\<close> keeps the first of equal counts.\<close>

fun max_entry :: "'a \<times> nat \<Rightarrow> ('a \<times> nat) list \<Rightarrow> 'a \<times> nat" where
  "max_entry best [] = best"
| "max_entry best (e # es) = max_entry (if snd best < snd e then e else best) es"

definition dominant_unigram_ratio :: "string \<Rightarrow> rat \<times> string option \<times> nat" where
  "dominant_unigram_ratio text =
     (let tokens = split_ws (casefold text)
      in case counter tokens of
           [] \<Rightarrow> (0, None, 0)
         | e # es \<Rightarrow> let (most_token, most_count) = max_entry e es
                     in (of_nat most_count / of_nat (length tokens), Some most_token, length tokens))"

text \<open>\<open>\w\<close> for the code points 0..255.\<close>

definition is_word_char :: "char \<Rightarrow> bool" where
  "is_word_char c =
     (in_range 48 57 c \<or> in_range 65 90 c \<or> of_char c = (95 :: nat) \<or> in_range 97 122 c
      \<or> of_char c \<in> set [170, 178, 179, 181, 185, 186, 188, 189, 190 :: nat]
      \<or> in_range 192 214 c \<or> in_range 216 246 c \<or> in_range 248 255 c)"

definition is_degenerate :: "environ \<Rightarrow> string \<Rightarrow> bool" where
  "is_degenerate env text =
     (let (ratio, token, total) = dominant_unigram_ratio text
      in if int total < min_tokens env then False
         else if rat_le_pyfloat ratio (ratio_threshold env) then False
         else case token of None \<Rightarrow> False | Some t \<Rightarrow> list_ex is_word_char t)"

fun any_degenerate :: "environ \<Rightarrow> string list \<Rightarrow> bool" where
  "any_degenerate env [] = False"
| "any_degenerate env (p # ps) = (if is_degenerate env p then True else any_degenerate env ps)"

definition has_degenerate_paragraph :: "environ \<Rightarrow> string \<Rightarrow> bool" where
  "has_degenerate_paragraph env text =
     (if text = [] \<or> strip text = [] then False
      else if any_degenerate env (split_on [CHR 0x0A, CHR 0x0A] text) then True
      else any_degenerate env (splitlines text))"

section \<open>Counting\<close>

lemma counter_Nil [simp]: "counter [] = []"
  by (simp add: counter_def)

lemma map_of_bump: "map_of (bump k c) = (map_of c)(k \<mapsto> (case map_of c k of None \<Rightarrow> 1 | Some n \<Rightarrow> Suc n))"
  by (induction k c rule: bump.induct) (auto simp: fun_eq_iff)

lemma keys_bump: "map fst (bump k c) = (if k \<in> fst ` set c then map fst c else map fst c @ [k])"
  by (induction k c rule: bump.induct) auto

lemma distinct_bump: "distinct (map fst c) \<Longrightarrow> distinct (map fst (bump k c))"
  by (simp add: keys_bump)

lemma counter_snoc: "counter (xs @ [x]) = bump x (counter xs)"
  by (simp add: counter_def)

lemma counter_distinct: "distinct (map fst (counter xs))"
proof (induction xs rule: rev_induct)
  case Nil
  then show ?case by (simp add: counter_def)
next
  case (snoc x xs)
  then show ?case by (simp add: counter_snoc distinct_bump)
qed

lemma counter_map_of:
  "map_of (counter xs) t = (if t \<in> set xs then Some (count_list xs t) else None)"
proof (induction xs arbitrary: t rule: rev_induct)
  case Nil
  then show ?case by (simp add: counter_def)
next
  case (snoc x xs)
  then show ?case by (auto simp: counter_snoc map_of_bump count_list_append)
qed

lemma counter_entry_iff: "(t, n) \<in> set (counter xs) \<longleftrightarrow> t \<in> set xs \<and> n = count_list xs t"
proof -
  have "(t, n) \<in> set (counter xs) \<longleftrightarrow> map_of (counter xs) t = Some n"
    by (simp add: counter_distinct)
  then show ?thesis by (auto simp: counter_map_of split: if_splits)
qed

lemma counter_eq_Nil_iff [simp]: "counter xs = [] \<longleftrightarrow> xs = []"
proof
  assume "counter xs = []"
  then have "\<And>t. t \<notin> set xs" using counter_entry_iff [of _ _ xs] by fastforce
  then show "xs = []" by (metis list.set_intros(1) neq_Nil_conv)
qed (simp add: counter_def)

lemma max_entry_in: "max_entry b es \<in> set (b # es)"
  by (induction es arbitrary: b) auto

lemma max_entry_ge_best: "snd b \<le> snd (max_entry b es)"
proof (induction es arbitrary: b)
  case (Cons a es)
  show ?case using Cons [of a] Cons [of b] by (cases "snd b < snd a") simp_all
qed simp

lemma max_entry_ge: "e \<in> set (b # es) \<Longrightarrow> snd e \<le> snd (max_entry b es)"
proof (induction es arbitrary: b)
  case (Cons a es)
  consider "e = b" | "e = a" | "e \<in> set es" using Cons.prems by auto
  then show ?case
  proof cases
    case 1
    then show ?thesis using max_entry_ge_best [of b "a # es"] by simp
  next
    case 2
    show ?thesis
      using 2 max_entry_ge_best [of a es] max_entry_ge_best [of b es]
      by (cases "snd b < snd a") simp_all
  next
    case 3
    then show ?thesis using Cons.IH [of a] Cons.IH [of b] by simp
  qed
qed simp

lemma dominant_empty_iff:
  "dominant_unigram_ratio tx = (0, None, 0) \<longleftrightarrow> split_ws (casefold tx) = []"
  by (auto simp: dominant_unigram_ratio_def Let_def split: list.splits prod.splits)

lemma dominant_cases:
  obtains (empty) "split_ws (casefold tx) = []" "dominant_unigram_ratio tx = (0, None, 0)"
  | (token) t where "t \<in> set (split_ws (casefold tx))"
      "\<forall>u. count_list (split_ws (casefold tx)) u \<le> count_list (split_ws (casefold tx)) t"
      "dominant_unigram_ratio tx =
         (of_nat (count_list (split_ws (casefold tx)) t) / of_nat (length (split_ws (casefold tx))),
          Some t, length (split_ws (casefold tx)))"
proof (cases "counter (split_ws (casefold tx))")
  case Nil
  then show ?thesis using empty by (simp add: dominant_unigram_ratio_def)
next
  case (Cons e es)
  let ?ts = "split_ws (casefold tx)"
  obtain t n where m: "max_entry e es = (t, n)" by (cases "max_entry e es")
  have "(t, n) \<in> set (counter ?ts)" using max_entry_in [of e es] m Cons by simp
  then have t: "t \<in> set ?ts" "n = count_list ?ts t" by (auto simp: counter_entry_iff)
  have max: "count_list ?ts u \<le> n" for u
  proof (cases "u \<in> set ?ts")
    case True
    then have "(u, count_list ?ts u) \<in> set (e # es)" using Cons counter_entry_iff by metis
    then show ?thesis using max_entry_ge [of "(u, count_list ?ts u)" e es] m by simp
  next
    case False
    then show ?thesis by (simp add: count_list_0_iff)
  qed
  show ?thesis
    by (rule token [of t]) (use t max m Cons in \<open>auto simp: dominant_unigram_ratio_def Let_def\<close>)
qed

lemma blank_not_degenerate: "split_ws (casefold tx) = [] \<Longrightarrow> \<not> is_degenerate env tx"
  using dominant_empty_iff [of tx] by (simp add: is_degenerate_def)

section \<open>Blank tx\<close>

lemma split_from_blank: "\<forall>c \<in> set s. is_space c \<Longrightarrow> split_from [] s = []"
  by (induction s) auto

lemma space_casefold: "is_space c \<Longrightarrow> of_char c \<noteq> (223 :: nat) \<and> lower_char c = c"
  by (auto simp: is_space_def lower_char_def in_range_def Let_def)

lemma casefold_blank: "\<forall>c \<in> set s. is_space c \<Longrightarrow> casefold s = s"
  by (induction s) (auto simp: casefold_def space_casefold)

lemma split_ws_blank: "\<forall>c \<in> set s. is_space c \<Longrightarrow> split_ws (casefold s) = []"
  by (simp add: casefold_blank split_ws_def split_from_blank)

lemma split_on_from_chars:
  "p \<in> set (split_on_from sep cur s) \<Longrightarrow> set p \<subseteq> set cur \<union> set s"
proof (induction sep cur s arbitrary: p rule: split_on_from.induct)
  case (1 sep cur s)
  show ?case
  proof (cases "sep \<noteq> [] \<and> prefix sep s")
    case True
    with "1.prems" have "p = cur \<or> p \<in> set (split_on_from sep [] (drop (length sep) s))"
      by (simp add: split_on_from.simps [of sep cur s])
    then show ?thesis using "1.IH"(1) [OF True, of p] set_drop_subset [of "length sep" s] by auto
  next
    case False
    show ?thesis
    proof (cases s)
      case Nil
      with False "1.prems" show ?thesis by (simp add: split_on_from.simps [of sep cur])
    next
      case (Cons c cs)
      with False "1.prems" have "p \<in> set (split_on_from sep (cur @ [c]) cs)"
        by (auto simp: split_on_from.simps [of sep cur "c # cs"] split: if_splits)
      then show ?thesis using "1.IH"(2) [OF False Cons, of p] Cons by auto
    qed
  qed
qed

lemma lines_from_chars: "p \<in> set (lines_from a cur s) \<Longrightarrow> set p \<subseteq> set cur \<union> set s"
proof (induction a cur s arbitrary: p rule: lines_from.induct)
  case (2 a cur c cs)
  then show ?case by (force split: if_splits)
qed (auto split: if_splits)

lemma any_degenerate_iff: "any_degenerate env ps \<longleftrightarrow> (\<exists>p \<in> set ps. is_degenerate env p)"
  by (induction ps) auto

lemma blank_pieces_not_degenerate:
  assumes "strip tx = []"
  shows "p \<in> set (split_on sep tx) \<union> set (splitlines tx) \<Longrightarrow> \<not> is_degenerate env p"
proof -
  assume "p \<in> set (split_on sep tx) \<union> set (splitlines tx)"
  then have "set p \<subseteq> set tx"
    using split_on_from_chars [of p sep "[]" tx] lines_from_chars [of p False "[]" tx]
    by (auto simp: split_on_def splitlines_def)
  with assms have "\<forall>c \<in> set p. is_space c" by (auto simp: strip_eq_Nil_iff)
  then show ?thesis by (intro blank_not_degenerate split_ws_blank)
qed

section \<open>Properties\<close>

text \<open>The dominant token is the most frequent one: for a text with tokens the result names a
  token of the text that no other token exceeds, its share of the tokens, and their number;
  for a text without tokens it is zero, none and zero.\<close>

theorem dominant_unigram_spec:
  "case dominant_unigram_ratio tx of (r, tok, n) \<Rightarrow>
     n = length (split_ws (casefold tx)) \<and>
     (case tok of
        None \<Rightarrow> split_ws (casefold tx) = [] \<and> r = 0
      | Some t \<Rightarrow> t \<in> set (split_ws (casefold tx)) \<and>
          r = of_nat (count_list (split_ws (casefold tx)) t) / of_nat n \<and>
          count_list (split_ws (casefold tx)) t =
            fold max (map (count_list (split_ws (casefold tx))) (split_ws (casefold tx))) 0)"
proof (cases tx rule: dominant_cases)
  case (token t)
  let ?ts = "split_ws (casefold tx)"
  have "fold max (map (count_list ?ts) ?ts) 0 = Max (set (0 # map (count_list ?ts) ?ts))"
    by (simp add: Max.set_eq_fold del: list.set)
  also have "\<dots> = count_list ?ts t"
    by (rule Max_eqI) (use token in auto)
  finally show ?thesis using token by simp
qed simp

text \<open>The paragraph filter fires exactly when the degenerate-text test fires on some
  paragraph (blank-line separated) or on some line; the guard for blank texts only saves
  work, since no piece of a blank text is degenerate.\<close>

theorem has_degenerate_paragraph_iff:
  "has_degenerate_paragraph env tx \<longleftrightarrow>
     (\<exists>p. p \<in> set (split_on [CHR 0x0A, CHR 0x0A] tx) \<union> set (splitlines tx) \<and> is_degenerate env p)"
proof (cases "strip tx = []")
  case True
  then show ?thesis
    using blank_pieces_not_degenerate [OF True] by (auto simp: has_degenerate_paragraph_def)
next
  case False
  then have "tx \<noteq> []" by (auto simp: strip_def lstrip_def)
  then show ?thesis
    using False by (auto simp: has_degenerate_paragraph_def any_degenerate_iff)
qed

end
