(* ===== verification/Files.thy ===== *)
theory Files
  imports Prelude "HOL-Library.Word"
begin

unbundle bit_operations_syntax

text \<open>
  What the trust checks see of a POSIX file system, and the walk both of them make: from a
  directory up to a stop directory, one check per directory. An absolute path is the
  list of its components, outermost first; its parent drops the last one, and the parent of
  the root is the root. The answers of \<open>lstat\<close> and \<open>stat\<close> are functions of the path.
\<close>

section \<open>Files\<close>

datatype os_error =
  ENOENT | ENOTDIR | EBADF | ELOOP | EACCES | EAGAIN | EADDRINUSE | EEXIST | EPERM | EOTHER int

datatype file_kind = Regular | Directory | Symlink | Socket | Fifo | Other_Kind

record stat =
  st_kind :: file_kind
  st_uid :: int
  st_gid :: int
  st_perm :: "16 word"
  st_dev :: int
  st_ino :: int

type_synonym path = "string list"

definition parent :: "path \<Rightarrow> path" where
  "parent p = butlast p"

record fs =
  fs_lstat :: "path \<Rightarrow> os_error + stat"
  fs_stat :: "path \<Rightarrow> os_error + stat"
  fs_umask :: "16 word"
  fs_mkdir_fails :: "path \<Rightarrow> os_error option"

text \<open>\<open>Path.exists\<close>: the errors that mean absence read as absent, others are raised.\<close>

definition path_exists :: "fs \<Rightarrow> path \<Rightarrow> os_error + bool" where
  "path_exists f p =
     (case fs_stat f p of
        Inr st \<Rightarrow> Ok True
      | Inl e \<Rightarrow> if e \<in> {ENOENT, ENOTDIR, EBADF, ELOOP} then Ok False else Raise e)"

definition mkdir :: "int \<Rightarrow> 16 word \<Rightarrow> path \<Rightarrow> fs \<Rightarrow> os_error + fs" where
  "mkdir euid mode p f =
     (case fs_mkdir_fails f p of
        Some e \<Rightarrow> Raise e
      | None \<Rightarrow>
          (case fs_lstat f p of
             Inr st \<Rightarrow> Raise EEXIST
           | Inl e \<Rightarrow>
               let st = \<lparr>st_kind = Directory, st_uid = euid, st_gid = 0,
                         st_perm = mode AND NOT (fs_umask f), st_dev = 0, st_ino = 0\<rparr>
               in Ok (f\<lparr>fs_lstat := (fs_lstat f)(p := Inr st), fs_stat := (fs_stat f)(p := Inr st)\<rparr>)))"

section \<open>The walk\<close>

text \<open>The loop checks a directory, stops at \<open>stop\<close> and goes on with the parent otherwise. Above
  the root it would check the root again and again: \<open>Endless\<close>.\<close>

datatype 'e walked = Clear | Problem 'e | Endless

function walk_up :: "(path \<Rightarrow> 'e option) \<Rightarrow> path \<Rightarrow> path \<Rightarrow> 'e walked" where
  "walk_up check stop p =
     (case check p of
        Some e \<Rightarrow> Problem e
      | None \<Rightarrow> if p = stop then Clear
                else if p = [] then Endless
                else walk_up check stop (parent p))"
  by pat_completeness auto
termination
  by (relation "measure (\<lambda>(check, stop, p). length p)") (auto simp: parent_def)

declare walk_up.simps [simp del]

text \<open>The contract: a check that reports a problem exactly where the directory is not safe.\<close>

locale ancestor_walk =
  fixes check :: "path \<Rightarrow> 'e option"
    and safe :: "path \<Rightarrow> bool"
  assumes check_None: "check p = None \<longleftrightarrow> safe p"
begin

lemma walk_stop: "walk_up check p p = (case check p of Some e \<Rightarrow> Problem e | None \<Rightarrow> Clear)"
  by (simp add: walk_up.simps [of check p p] split: option.splits)

lemma walk_snoc:
  "stop \<noteq> p @ [c] \<Longrightarrow> walk_up check stop (p @ [c]) =
     (case check (p @ [c]) of Some e \<Rightarrow> Problem e | None \<Rightarrow> walk_up check stop p)"
  by (simp add: walk_up.simps [of check stop "p @ [c]"] parent_def split: option.splits)

lemma walk_Clear:
  assumes "prefix stop p"
  shows "walk_up check stop p = Clear \<longleftrightarrow> (\<forall>q. prefix stop q \<and> prefix q p \<longrightarrow> safe q)"
  using assms
proof (induction p rule: rev_induct)
  case Nil
  then show ?case by (auto simp: walk_stop check_None [symmetric] split: option.splits)
next
  case (snoc c p)
  show ?case
  proof (cases "stop = p @ [c]")
    case True
    have eq: "prefix stop q \<and> prefix q stop \<longleftrightarrow> q = stop" for q
      by (blast intro: prefix_order.antisym prefix_order.refl)
    have "walk_up check stop stop = Clear \<longleftrightarrow> safe stop"
      using check_None [of stop] by (auto simp: walk_stop split: option.splits)
    then show ?thesis unfolding True [symmetric] by (simp only: eq simp_thms)
  next
    case False
    then have st: "prefix stop p" using snoc.prems by simp
    have "walk_up check stop (p @ [c]) = Clear \<longleftrightarrow> safe (p @ [c]) \<and> walk_up check stop p = Clear"
      using check_None [of "p @ [c]"] by (auto simp: walk_snoc [OF False] split: option.splits)
    moreover have "(\<forall>q. prefix stop q \<and> prefix q (p @ [c]) \<longrightarrow> safe q) \<longleftrightarrow>
        safe (p @ [c]) \<and> (\<forall>q. prefix stop q \<and> prefix q p \<longrightarrow> safe q)"
      by (metis snoc.prems prefix_snoc)
    ultimately show ?thesis using snoc.IH [OF st] by simp
  qed
qed

lemma walk_not_Endless: "prefix stop p \<Longrightarrow> walk_up check stop p \<noteq> Endless"
proof (induction p rule: rev_induct)
  case Nil
  then show ?case by (simp add: walk_stop split: option.splits)
next
  case (snoc c p)
  then show ?case
    by (cases "stop = p @ [c]") (auto simp: walk_stop walk_snoc split: option.splits)
qed

lemma walk_Problem:
  "walk_up check stop p = Problem e \<Longrightarrow> \<exists>q. prefix q p \<and> check q = Some e \<and> \<not> safe q"
proof (induction p rule: rev_induct)
  case Nil
  then have "check [] = Some e" by (auto simp: walk_up.simps [of check stop] split: option.splits if_splits)
  then show ?case using check_None [of "[]"] by auto
next
  case (snoc c p)
  show ?case
  proof (cases "check (p @ [c])")
    case None
    then have "walk_up check stop p = Problem e"
      using snoc.prems by (auto simp: walk_up.simps [of check stop "p @ [c]"] parent_def split: if_splits)
    then show ?thesis using snoc.IH by auto
  next
    case (Some e')
    then have "e' = e" using snoc.prems by (simp add: walk_up.simps [of check stop "p @ [c]"])
    then show ?thesis using Some check_None [of "p @ [c]"] by auto
  qed
qed

end

lemma and_not_subset: "(m :: 16 word) AND w = 0 \<Longrightarrow> (m AND NOT u) AND w = 0"
proof -
  have "(m AND NOT u) AND w = (m AND w) AND NOT u" by (rule bit_word_eqI) (auto simp: bit_simps)
  then show "m AND w = 0 \<Longrightarrow> (m AND NOT u) AND w = 0" by simp
qed

end
