(* ===== verification/Socket_Lock.thy ===== *)
theory Socket_Lock
  imports Files
begin

text \<open>
  The trust boundary of the Unix socket in \<open>stt_server/server.py\<close>: the ancestor check of the
  socket directory (\<open>_enforce_socket_dir_secure\<close>) and the single-server lock
  (\<open>acquire_socket_lock\<close>, \<open>socket_lock_held\<close>).
\<close>

section \<open>The socket directory\<close>

datatype dir_error =
    Not_Absolute | Dot_Dot | Not_Under_Root
  | Component_Symlink path | Component_Owner path int | Component_Writable path "16 word"
  | Dir_OS os_error

text \<open>One component of the walk, on its \<open>lstat\<close>.\<close>

definition check_component :: "fs \<Rightarrow> int \<Rightarrow> path \<Rightarrow> dir_error option" where
  "check_component f euid component =
     (case fs_lstat f component of
        Inl e \<Rightarrow> Some (Dir_OS e)
      | Inr st \<Rightarrow>
          if st_kind st = Symlink then Some (Component_Symlink component)
          else if st_uid st \<noteq> euid then Some (Component_Owner component (st_uid st))
          else if st_perm st AND 0x200 = 0 \<and> st_perm st AND 0x12 \<noteq> 0
          then Some (Component_Writable component (st_perm st))
          else None)"

text \<open>The components that do not exist, innermost first.\<close>

function missing_dirs :: "fs \<Rightarrow> path \<Rightarrow> os_error + path list" where
  "missing_dirs f cursor =
     (case path_exists f cursor of
        Inl e \<Rightarrow> Raise e
      | Inr True \<Rightarrow> Ok []
      | Inr False \<Rightarrow>
          if cursor = [] then Ok [cursor]
          else bind_result (missing_dirs f (parent cursor)) (\<lambda>rest. Ok (cursor # rest)))"
  by pat_completeness auto
termination
  by (relation "measure (\<lambda>(f, p). length p)") (auto simp: parent_def)

declare missing_dirs.simps [simp del]

fun create_dirs :: "int \<Rightarrow> path list \<Rightarrow> fs \<Rightarrow> os_error + fs" where
  "create_dirs euid [] f = Ok f"
| "create_dirs euid (p # ps) f = bind_result (mkdir euid 0x1C0 p f) (create_dirs euid ps)"

text \<open>The whole check of the socket \<open>bind_dir / name\<close>: \<open>is_abs\<close> is \<open>bind_dir.is_absolute()\<close>. It
  returns the file system with the created directories.\<close>

definition enforce_socket_dir_secure ::
  "int \<Rightarrow> fs \<Rightarrow> bool \<Rightarrow> path \<Rightarrow> path \<Rightarrow> dir_error + fs" where
  "enforce_socket_dir_secure euid f is_abs bind_dir trusted_root =
     (if \<not> is_abs then Raise Not_Absolute
      else if ''..'' \<in> set bind_dir then Raise Dot_Dot
      else if bind_dir \<noteq> trusted_root \<and> \<not> strict_prefix trusted_root bind_dir
      then Raise Not_Under_Root
      else case missing_dirs f bind_dir of
        Inl e \<Rightarrow> Raise (Dir_OS e)
      | Inr to_create \<Rightarrow>
          (case create_dirs euid (rev to_create) f of
             Inl e \<Rightarrow> Raise (Dir_OS e)
           | Inr f' \<Rightarrow>
               (case walk_up (check_component f' euid) trusted_root bind_dir of
                  Problem e \<Rightarrow> Raise e
                | Clear \<Rightarrow> Ok f'
                | Endless \<Rightarrow> Raise Not_Under_Root)))"

text \<open>A directory nobody else can replace an entry of.\<close>

definition component_safe :: "fs \<Rightarrow> int \<Rightarrow> path \<Rightarrow> bool" where
  "component_safe f euid p =
     (case fs_lstat f p of
        Inl e \<Rightarrow> False
      | Inr st \<Rightarrow> st_kind st \<noteq> Symlink \<and> st_uid st = euid \<and>
          (st_perm st AND 0x200 \<noteq> 0 \<or> st_perm st AND 0x12 = 0))"

interpretation socket_walk: ancestor_walk "check_component f euid" "component_safe f euid"
  by unfold_locales (auto simp: check_component_def component_safe_def split: sum.splits)

section \<open>The single-server lock\<close>

text \<open>The lock file as the kernel sees it: its \<open>fstat\<close> and who holds the flock on it, in which
  mode. A non-blocking request fails with EAGAIN while another descriptor holds a conflicting
  lock.\<close>

datatype flock_mode = Shared | Exclusive

record lock_file =
  lf_stat :: stat
  lf_holders :: "(nat \<times> flock_mode) list"

definition flock_free :: "nat \<Rightarrow> flock_mode \<Rightarrow> (nat \<times> flock_mode) list \<Rightarrow> bool" where
  "flock_free fd m hs =
     list_all (\<lambda>(h, hm). h = fd \<or> (m = Shared \<and> hm = Shared)) hs"

text \<open>What opening the lock file answers, and at each attempt the file, the clock and an error that \<open>flock\<close> reports
  whoever holds the lock; the error of \<open>fchmod\<close>, if it fails. \<open>fstat\<close> of the open descriptor answers.\<close>

record lock_world =
  lw_open :: "os_error + nat"
  lw_file :: "nat \<Rightarrow> lock_file"
  lw_clock :: "nat \<Rightarrow> rat"
  lw_flock_fails :: "nat \<Rightarrow> os_error option"
  lw_fchmod_fails :: "os_error option"

definition LOCK_RETRY_SECONDS :: rat where "LOCK_RETRY_SECONDS = 25 / 100"
definition LOCK_RETRY_INTERVAL :: rat where "LOCK_RETRY_INTERVAL = 1 / 100"

definition lock_path :: "string \<Rightarrow> string" where
  "lock_path socket_path = socket_path @ ''.lock''"

definition flock_attempt :: "lock_world \<Rightarrow> nat \<Rightarrow> nat \<Rightarrow> os_error option" where
  "flock_attempt w fd k =
     (case lw_flock_fails w k of
        Some e \<Rightarrow> Some e
      | None \<Rightarrow> if flock_free fd Exclusive (lf_holders (lw_file w k)) then None else Some EAGAIN)"

text \<open>The retry loop. Attempt \<open>k\<close> reads the clock after it failed; the interval slept between
  attempts is part of the clock's readings. The fuel bounds the attempts.\<close>

fun flock_loop :: "nat \<Rightarrow> lock_world \<Rightarrow> nat \<Rightarrow> rat \<Rightarrow> nat \<Rightarrow> (os_error + nat) option" where
  "flock_loop 0 w fd deadline k = None"
| "flock_loop (Suc n) w fd deadline k =
     (case flock_attempt w fd k of
        None \<Rightarrow> Some (Ok k)
      | Some e \<Rightarrow>
          if e \<notin> {EAGAIN, EACCES} then Some (Raise e)
          else if lw_clock w (Suc k) \<ge> deadline then Some (Raise EADDRINUSE)
          else flock_loop n w fd deadline (Suc k))"

text \<open>The open file before the lock is asked for: an error, or the mode it has then.\<close>

definition lock_file_mode :: "int \<Rightarrow> lock_world \<Rightarrow> os_error + 16 word" where
  "lock_file_mode euid w =
     (let st = lf_stat (lw_file w 0) in
      if st_kind st \<noteq> Regular \<or> st_uid st \<noteq> euid then Raise EACCES
      else if st_perm st = 0x180 then Ok (st_perm st)
      else case lw_fchmod_fails w of Some e \<Rightarrow> Raise e | None \<Rightarrow> Ok 0x180)"

text \<open>The result of \<open>acquire_socket_lock\<close>: the error, or the held descriptor with the mode the
  lock file was left with and the attempt that took the lock. An error after the open closes the
  descriptor. \<open>None\<close>: out of fuel.\<close>

definition acquire_socket_lock :: "nat \<Rightarrow> int \<Rightarrow> lock_world \<Rightarrow> (os_error + nat \<times> 16 word \<times> nat) option" where
  "acquire_socket_lock fuel euid w =
     (case lw_open w of
        Inl e \<Rightarrow> Some (Raise (if e = EACCES \<or> e = EPERM then EACCES else e))
      | Inr fd \<Rightarrow>
          (case lock_file_mode euid w of
             Inl e \<Rightarrow> Some (Raise e)
           | Inr mode \<Rightarrow>
               map_option (\<lambda>r. bind_result r (\<lambda>k. Ok (fd, mode, k)))
                 (flock_loop fuel w fd (lw_clock w 0 + LOCK_RETRY_SECONDS) 0)))"

definition socket_lock_held :: "int \<Rightarrow> lock_world \<Rightarrow> bool" where
  "socket_lock_held euid w =
     (case lw_open w of
        Inl e \<Rightarrow> False
      | Inr fd \<Rightarrow>
          let st = lf_stat (lw_file w 0) in
          if st_kind st \<noteq> Regular \<or> st_uid st \<noteq> euid then False
          else case lw_flock_fails w 0 of
            Some e \<Rightarrow> e \<in> {EAGAIN, EACCES}
          | None \<Rightarrow> \<not> flock_free fd Shared (lf_holders (lw_file w 0)))"

section \<open>Facts\<close>

text \<open>An attempt met contention, and there was still time for another.\<close>

definition contended :: "lock_world \<Rightarrow> nat \<Rightarrow> nat \<Rightarrow> bool" where
  "contended w fd k \<longleftrightarrow> flock_attempt w fd k = Some EAGAIN \<or> flock_attempt w fd k = Some EACCES"

definition retries :: "lock_world \<Rightarrow> nat \<Rightarrow> rat \<Rightarrow> nat \<Rightarrow> bool" where
  "retries w fd deadline k \<longleftrightarrow> contended w fd k \<and> lw_clock w (Suc k) < deadline"

text \<open>What the attempt that is not followed by another decides.\<close>

definition last_attempt :: "lock_world \<Rightarrow> nat \<Rightarrow> nat \<Rightarrow> os_error + nat" where
  "last_attempt w fd k =
     (case flock_attempt w fd k of
        None \<Rightarrow> Ok k
      | Some e \<Rightarrow> Raise (if contended w fd k then EADDRINUSE else e))"

lemma flock_loop_step:
  "flock_loop (Suc n) w fd deadline k =
     (if retries w fd deadline k then flock_loop n w fd deadline (Suc k) else Some (last_attempt w fd k))"
  by (auto simp: retries_def contended_def last_attempt_def split: option.splits)

lemma flock_loop_iff:
  "flock_loop n w fd deadline k = Some r \<longleftrightarrow>
     (\<exists>j. k \<le> j \<and> j < k + n \<and> list_all (retries w fd deadline) [k..<j] \<and> \<not> retries w fd deadline j \<and> r = last_attempt w fd j)"
proof (induction n arbitrary: k)
  case (Suc n)
  show ?case
  proof (cases "retries w fd deadline k")
    case True
    have "(\<exists>j. k \<le> j \<and> j < k + Suc n \<and> list_all (retries w fd deadline) [k..<j] \<and> \<not> retries w fd deadline j \<and> r = last_attempt w fd j)
      \<longleftrightarrow> (\<exists>j. Suc k \<le> j \<and> j < Suc k + n \<and> list_all (retries w fd deadline) [Suc k..<j] \<and> \<not> retries w fd deadline j \<and> r = last_attempt w fd j)"
      (is "(\<exists>j. ?A j) \<longleftrightarrow> (\<exists>j. ?B j)")
    proof -
      have "?A j \<longleftrightarrow> ?B j" for j
      proof (cases "j = k")
        case j: True
        then show ?thesis using True by simp
      next
        case False
        then have "k \<le> j \<Longrightarrow> [k..<j] = k # [Suc k..<j]" by (simp add: upt_conv_Cons)
        then show ?thesis using True False by (cases "k \<le> j") auto
      qed
      then show ?thesis by simp
    qed
    then show ?thesis unfolding flock_loop_step using True Suc.IH [of "Suc k"] by simp
  next
    case False
    have "(\<exists>j. k \<le> j \<and> j < k + Suc n \<and> list_all (retries w fd deadline) [k..<j] \<and> \<not> retries w fd deadline j \<and> r = last_attempt w fd j)
      \<longleftrightarrow> r = last_attempt w fd k"
    proof
      assume "\<exists>j. k \<le> j \<and> j < k + Suc n \<and> list_all (retries w fd deadline) [k..<j] \<and> \<not> retries w fd deadline j \<and> r = last_attempt w fd j"
      then obtain j where j: "k \<le> j" "list_all (retries w fd deadline) [k..<j]" "r = last_attempt w fd j" by blast
      have "j = k"
      proof (rule ccontr)
        assume "j \<noteq> k"
        then have "k \<in> set [k..<j]" using j(1) by simp
        then show False using j(2) False by (simp add: list_all_iff)
      qed
      then show "r = last_attempt w fd k" using j(3) by simp
    next
      assume "r = last_attempt w fd k"
      then show "\<exists>j. k \<le> j \<and> j < k + Suc n \<and> list_all (retries w fd deadline) [k..<j] \<and> \<not> retries w fd deadline j \<and> r = last_attempt w fd j"
        using False by (intro exI [of _ k]) simp
    qed
    then show ?thesis unfolding flock_loop_step using False by auto
  qed
qed (simp add: flock_loop.simps)

lemma flock_loop_ends:
  "lw_clock w (Suc (k + n)) \<ge> deadline \<Longrightarrow> flock_loop (Suc n) w fd deadline k \<noteq> None"
proof (induction n arbitrary: k)
  case 0
  then show ?case by (simp split: option.splits)
next
  case (Suc n)
  have "flock_loop (Suc n) w fd deadline (Suc k) \<noteq> None" using Suc.IH [of "Suc k"] Suc.prems by simp
  then show ?case by (subst flock_loop.simps) (simp del: flock_loop.simps split: option.splits)
qed

lemma mkdir_safe:
  assumes "mkdir euid 0x1C0 p f = Ok f'"
  shows "component_safe f' euid p"
proof -
  have "((0x1C0 :: 16 word) AND NOT (fs_umask f)) AND 0x12 = 0" by (rule and_not_subset) simp
  then show ?thesis
    using assms by (auto simp: mkdir_def component_safe_def Let_def split: option.splits sum.splits)
qed

lemma enforce_Ok_iff:
  "enforce_socket_dir_secure euid f is_abs d trusted = Ok f' \<longleftrightarrow>
     is_abs \<and> ''..'' \<notin> set d \<and> prefix trusted d \<and>
     (\<exists>ds. missing_dirs f d = Ok ds \<and> create_dirs euid (rev ds) f = Ok f') \<and>
     (\<forall>q. prefix trusted q \<and> prefix q d \<longrightarrow> component_safe f' euid q)"
proof -
  have root: "d = trusted \<or> strict_prefix trusted d \<longleftrightarrow> prefix trusted d" by (auto simp: strict_prefix_def)
  show ?thesis
    using socket_walk.walk_Clear [of trusted d f' euid] socket_walk.walk_not_Endless [of trusted d f' euid] root
    by (auto simp: enforce_socket_dir_secure_def split: sum.splits walked.splits)
qed

definition sample_stat :: "16 word \<Rightarrow> int \<Rightarrow> stat" where
  "sample_stat perm uid = \<lparr>st_kind = Directory, st_uid = uid, st_gid = 0, st_perm = perm, st_dev = 1, st_ino = 1\<rparr>"

text \<open>A home directory, and nothing under it.\<close>

definition sample_fs :: fs where
  "sample_fs = \<lparr>
     fs_lstat = (\<lambda>p. if p = [] then Ok (sample_stat 0x1ED 0) else if p = [''home''] then Ok (sample_stat 0x1ED 7)
       else Raise ENOENT),
     fs_stat = (\<lambda>p. if p = [] then Ok (sample_stat 0x1ED 0) else if p = [''home''] then Ok (sample_stat 0x1ED 7)
       else Raise ENOENT),
     fs_umask = 0x12, fs_mkdir_fails = (\<lambda>p. None)\<rparr>"

lemma sample_fs_missing: "missing_dirs sample_fs [''home'', ''a'', ''b''] = Ok [[''home'', ''a'', ''b''], [''home'', ''a'']]"
  by (simp add: missing_dirs.simps sample_fs_def path_exists_def parent_def)

lemma sample_enforce:
  "\<exists>f'. enforce_socket_dir_secure 7 sample_fs True [''home'', ''a'', ''b''] [''home''] = Ok f'"
  unfolding enforce_socket_dir_secure_def
  by (simp add: sample_fs_missing strict_prefix_def)
    (simp add: mkdir_def Let_def sample_fs_def sample_stat_def walk_up.simps parent_def check_component_def)

definition sample_lock :: "(nat \<times> flock_mode) list \<Rightarrow> lock_world" where
  "sample_lock hs = \<lparr>lw_open = Ok 3,
     lw_file = (\<lambda>k. \<lparr>lf_stat = (sample_stat 0x1A4 7)\<lparr>st_kind := Regular\<rparr>, lf_holders = hs\<rparr>),
     lw_clock = of_nat, lw_flock_fails = (\<lambda>k. None), lw_fchmod_fails = None\<rparr>"

section \<open>Properties\<close>

text \<open>C24: the socket directory is accepted exactly when it is an absolute path without \<open>..\<close> under
  the trusted root, its missing directories could be created, and then every directory from the
  trusted trusted down to it is no symlink, is owned by the server's uid and is not writable by
  group or others unless it is sticky.\<close>

theorem socket_dir_accepted_iff:
  "enforce_socket_dir_secure euid f is_abs d trusted = Ok f' \<longleftrightarrow>
     is_abs \<and> ''..'' \<notin> set d \<and> prefix trusted d \<and>
     (\<exists>ds. missing_dirs f d = Ok ds \<and> create_dirs euid (rev ds) f = Ok f') \<and>
     (\<forall>q. prefix trusted q \<and> prefix q d \<longrightarrow> component_safe f' euid q)"
  by (rule enforce_Ok_iff)

theorem socket_dir_accepted_iff_witness:
  "\<exists>f'. enforce_socket_dir_secure 7 sample_fs True [''home'', ''a'', ''b''] [''home''] = Ok f' \<and>
     component_safe f' 7 [''home'', ''a''] \<and> component_safe f' 7 [''home'']"
proof -
  obtain f' where f': "enforce_socket_dir_secure 7 sample_fs True [''home'', ''a'', ''b''] [''home''] = Ok f'"
    using sample_enforce by blast
  then have "\<forall>q. prefix [''home''] q \<and> prefix q [''home'', ''a'', ''b''] \<longrightarrow> component_safe f' 7 q"
    unfolding socket_dir_accepted_iff by blast
  then show ?thesis using f' by auto
qed

text \<open>A directory the server creates for its socket is safe whatever the umask: owned by the
  server's uid and closed to group and others.\<close>

theorem created_dir_safe:
  assumes "mkdir euid 0x1C0 p f = Ok f'"
  shows "component_safe f' euid p"
  by (rule mkdir_safe [OF assms])

theorem created_dir_safe_witness:
  "\<exists>f'. mkdir 7 0x1C0 [''home'', ''a''] sample_fs = Ok f' \<and> component_safe f' 7 [''home'', ''a'']"
proof -
  have "\<exists>f'. mkdir 7 0x1C0 [''home'', ''a''] sample_fs = Ok f'" by (simp add: mkdir_def sample_fs_def Let_def)
  then show ?thesis using created_dir_safe by blast
qed

text \<open>C25: what acquiring the lock answers, exactly. An open that is denied is EACCES, one that fails otherwise keeps its
  error; an opened file that is not regular or not the server's own is EACCES, and a mode that cannot be set is that
  error. Otherwise the request is repeated while it meets contention and the clock has not passed the deadline, and the
  first attempt \<open>k\<close> for which this is not so decides: if it got the lock, the descriptor is returned, with mode 0600 on the
  file, and at that attempt no other descriptor held any lock on it; if it met contention, the start fails with
  EADDRINUSE; any other error is raised as it is. It never gives up before the deadline on contention alone.\<close>

theorem acquire_socket_lock_exclusive:
  assumes "acquire_socket_lock fuel euid w = Some r"
  shows "case lw_open w of
      Inl e \<Rightarrow> r = Raise (if e \<in> {EACCES, EPERM} then EACCES else e)
    | Inr fd \<Rightarrow>
        (if st_kind (lf_stat (lw_file w 0)) \<noteq> Regular \<or> st_uid (lf_stat (lw_file w 0)) \<noteq> euid then r = Raise EACCES
         else if st_perm (lf_stat (lw_file w 0)) \<noteq> 0x180 \<and> lw_fchmod_fails w \<noteq> None then r = Raise (the (lw_fchmod_fails w))
         else \<exists>k < fuel.
           list_all (\<lambda>i. contended w fd i \<and> lw_clock w (Suc i) < lw_clock w 0 + LOCK_RETRY_SECONDS) [0..<k] \<and>
           (r = Ok (fd, 0x180, k) \<and> flock_attempt w fd k = None \<and> list_all (\<lambda>(h, m). h = fd) (lf_holders (lw_file w k)) \<or>
            r = Raise EADDRINUSE \<and> contended w fd k \<and> lw_clock w 0 + LOCK_RETRY_SECONDS \<le> lw_clock w (Suc k) \<or>
            (\<exists>e. r = Raise e \<and> flock_attempt w fd k = Some e \<and> e \<noteq> EAGAIN \<and> e \<noteq> EACCES)))"
proof (cases "lw_open w")
  case (Inl e)
  then show ?thesis using assms by (auto simp: acquire_socket_lock_def)
next
  case (Inr fd)
  let ?d = "lw_clock w 0 + LOCK_RETRY_SECONDS"
  show ?thesis
  proof (cases "lock_file_mode euid w")
    case m: (Inl e)
    then show ?thesis using assms Inr by (auto simp: acquire_socket_lock_def lock_file_mode_def Let_def split: if_splits option.splits)
  next
    case m: (Inr mode)
    have f: "st_kind (lf_stat (lw_file w 0)) = Regular" "st_uid (lf_stat (lw_file w 0)) = euid" "mode = 0x180"
      "st_perm (lf_stat (lw_file w 0)) \<noteq> 0x180 \<longrightarrow> lw_fchmod_fails w = None"
      using m by (auto simp: lock_file_mode_def Let_def split: if_splits option.splits)
    obtain l where l: "flock_loop fuel w fd ?d 0 = Some l" "r = bind_result l (\<lambda>k. Ok (fd, 0x180, k))"
      using assms Inr m f(3) by (auto simp: acquire_socket_lock_def)
    obtain k where k: "k < fuel" "list_all (retries w fd ?d) [0..<k]" "\<not> retries w fd ?d k" "l = last_attempt w fd k"
      using l(1) unfolding flock_loop_iff by auto
    have a: "list_all (\<lambda>i. contended w fd i \<and> lw_clock w (Suc i) < ?d) [0..<k]" using k(2) by (simp add: retries_def [abs_def])
    have "r = Ok (fd, 0x180, k) \<and> flock_attempt w fd k = None \<and> list_all (\<lambda>(h, m). h = fd) (lf_holders (lw_file w k)) \<or>
      r = Raise EADDRINUSE \<and> contended w fd k \<and> ?d \<le> lw_clock w (Suc k) \<or>
      (\<exists>e. r = Raise e \<and> flock_attempt w fd k = Some e \<and> e \<noteq> EAGAIN \<and> e \<noteq> EACCES)"
    proof (cases "flock_attempt w fd k")
      case None
      then have "list_all (\<lambda>(h, m). h = fd) (lf_holders (lw_file w k))"
        by (auto simp: flock_attempt_def flock_free_def list_all_iff split: option.splits if_splits)
      then show ?thesis using None k(4) l(2) by (simp add: last_attempt_def)
    next
      case (Some e)
      then show ?thesis using k(3,4) l(2) by (auto simp: last_attempt_def retries_def contended_def)
    qed
    then show ?thesis using Inr f(1,2,4) k(1) a by auto
  qed
qed

theorem acquire_socket_lock_exclusive_witness:
  "acquire_socket_lock 1 7 (sample_lock []) = Some (Ok (3, 0x180, 0)) \<and>
   list_all (\<lambda>(h, m). h = 3) (lf_holders (lw_file (sample_lock []) 0))"
proof -
  have r: "acquire_socket_lock 1 7 (sample_lock []) = Some (Ok (3, 0x180, 0))"
    by (simp add: acquire_socket_lock_def lock_file_mode_def sample_lock_def sample_stat_def flock_attempt_def flock_free_def)
  have s: "lw_open (sample_lock []) = Ok 3" "lw_fchmod_fails (sample_lock []) = None"
    "st_kind (lf_stat (lw_file (sample_lock []) 0)) = Regular" "st_uid (lf_stat (lw_file (sample_lock []) 0)) = 7"
    by (simp_all add: sample_lock_def sample_stat_def)
  show ?thesis using acquire_socket_lock_exclusive [OF r] r s by auto
qed

text \<open>Acquiring ends: once the clock has passed the retry deadline by some attempt, that many
  attempts (plus one) are enough for a result.\<close>

theorem acquire_socket_lock_ends:
  assumes "lw_clock w (Suc n) \<ge> lw_clock w 0 + LOCK_RETRY_SECONDS"
  shows "acquire_socket_lock (Suc n) euid w \<noteq> None"
  using flock_loop_ends [of "lw_clock w 0 + LOCK_RETRY_SECONDS" w 0 n] assms
  by (auto simp: acquire_socket_lock_def split: sum.splits)

theorem acquire_socket_lock_ends_witness:
  "acquire_socket_lock 1 7 (sample_lock [(4, Exclusive)]) \<noteq> None"
  using acquire_socket_lock_ends [of "sample_lock [(4, Exclusive)]" 0 7]
  by (simp add: sample_lock_def LOCK_RETRY_SECONDS_def)

text \<open>The preflight probe and the lock agree: the probe answers yes exactly when the lock file
  could be opened, is a regular file of this user and another descriptor holds it exclusively (or
  \<open>flock\<close> itself reports contention); a second starter's exclusive request then fails too, while
  probes do not exclude each other.\<close>

theorem socket_lock_held_iff:
  "socket_lock_held euid w \<longleftrightarrow>
     (\<exists>fd. lw_open w = Ok fd \<and> st_kind (lf_stat (lw_file w 0)) = Regular \<and>
        st_uid (lf_stat (lw_file w 0)) = euid \<and>
        (case lw_flock_fails w 0 of
           Some e \<Rightarrow> e = EAGAIN \<or> e = EACCES
         | None \<Rightarrow> list_ex (\<lambda>(h, m). h \<noteq> fd \<and> m = Exclusive) (lf_holders (lw_file w 0)) \<and>
             flock_attempt w fd 0 = Some EAGAIN))"
proof -
  have m: "m \<noteq> Shared \<longleftrightarrow> m = Exclusive" for m by (cases m) simp_all
  have "list_ex (\<lambda>(h, m). h \<noteq> fd \<and> m = Exclusive) hs \<longleftrightarrow> \<not> flock_free fd Shared hs" for fd hs
    by (auto simp: flock_free_def list_ex_iff list_all_iff m [symmetric])
  moreover have "\<not> flock_free fd Shared hs \<longrightarrow> \<not> flock_free fd Exclusive hs" for fd hs
    by (auto simp: flock_free_def list_all_iff)
  ultimately show ?thesis
    by (auto simp: socket_lock_held_def flock_attempt_def Let_def split: sum.splits option.splits)
qed

end
