(* ===== verification/Auth.thy ===== *)
theory Auth
  imports Files Base64
begin

text \<open>
  The bearer-token file of \<open>stt_server/auth.py\<close>: the characters of a token, the ownership, mode
  and ACL policy of the file and of every directory above it, and the loading of the token.
  The file system, \<open>realpath\<close>, the ACL listing of \<open>/bin/ls -lde\<close> and the content of the opened
  file are inputs; a path is the list of its components (\<open>is_abs\<close> tells whether it is
  absolute).
\<close>

section \<open>Token characters\<close>

text \<open>Text is a list of code points here; the first result is the refusal.\<close>

definition check_token_chars :: "nat list \<Rightarrow> bool" where
  "check_token_chars token = list_all (\<lambda>n. 0x21 \<le> n \<and> n \<le> 0x7E) token"

section \<open>ACLs\<close>

definition ACL_WRITE_RIGHTS :: "string list" where
  "ACL_WRITE_RIGHTS =
     [''write'', ''append'', ''add_file'', ''add_subdirectory'', ''delete'', ''delete_child'',
      ''writeattr'', ''writeextattr'', ''writesecurity'', ''chown'']"

definition ROOT_GROUPS :: "int list" where
  "ROOT_GROUPS = [0, 80]"

text \<open>The two patterns on one line of the listing: an entry line, and its \<open>allow\<close> clause with the
  list of rights.\<close>

definition acl_entry_line :: "string \<Rightarrow> bool" where
  "acl_entry_line line =
     (let r = dropWhile is_space line; ds = takeWhile is_digit r; rest = dropWhile is_digit r
      in ds \<noteq> [] \<and> (case rest of c # d # _ \<Rightarrow> c = CHR '':'' \<and> is_space d | _ \<Rightarrow> False))"

definition right_char :: "char \<Rightarrow> bool" where
  "right_char c = (in_range 65 90 c \<or> in_range 97 122 c \<or> c = CHR ''_'' \<or> c = CHR '','')"

definition allow_here :: "string \<Rightarrow> string option" where
  "allow_here s =
     (case s of
        [] \<Rightarrow> None
      | c # cs \<Rightarrow>
          if \<not> is_space c \<or> \<not> prefix ''allow'' cs then None
          else let r = drop 5 cs; w = takeWhile right_char (dropWhile is_space r);
                   rest = dropWhile right_char (dropWhile is_space r)
               in if takeWhile is_space r \<noteq> [] \<and> w \<noteq> [] \<and> list_all is_space rest then Some w
                  else None)"

fun allow_clause :: "string \<Rightarrow> string option" where
  "allow_clause [] = None"
| "allow_clause (c # cs) =
     (case allow_here (c # cs) of Some w \<Rightarrow> Some w | None \<Rightarrow> allow_clause cs)"

text \<open>The answer is unknown (\<open>None\<close>, the exception \<open>_AclUnreadable\<close>) when the listing failed.
  \<open>want\<close> is the set of rights that count, \<open>None\<close> any right.\<close>

definition line_allows :: "string list option \<Rightarrow> string \<Rightarrow> bool" where
  "line_allows want line =
     (acl_entry_line line \<and>
      (case allow_clause line of
         None \<Rightarrow> False
       | Some w \<Rightarrow> (case want of
           None \<Rightarrow> True
         | Some rights \<Rightarrow> list_ex (\<lambda>r. r \<in> set rights) (split_on '','' w))))"

definition acl_allows :: "string \<Rightarrow> (int \<times> string) option \<Rightarrow> string list option \<Rightarrow> bool option" where
  "acl_allows platform listing want =
     (if platform \<noteq> ''darwin'' then Some False
      else case listing of
        None \<Rightarrow> None
      | Some (returncode, stdout) \<Rightarrow>
          if returncode \<noteq> 0 then None
          else Some (list_ex (line_allows want) (splitlines stdout)))"

section \<open>The policy\<close>

record token_world =
  tw_platform :: string
  tw_euid :: int
  tw_fs :: fs
  tw_realpath :: "path \<Rightarrow> os_error + path"
  tw_acl :: "path \<Rightarrow> (int \<times> string) option"
  tw_open :: "path \<Rightarrow> os_error + stat \<times> byte list"
  tw_read :: "path \<Rightarrow> os_error + byte list"

datatype token_problem =
    Token_Not_Absolute | Token_Missing | Token_Uninspectable os_error | Token_Symlink
  | Token_Not_Regular | Token_Parent_Unreadable | Token_Resolves_Elsewhere path
  | Token_Not_Owned int | Token_Mode "16 word" | Token_Acl
  | Dir_Uninspectable path | Dir_Not_Owned path int | Dir_Writable path "16 word" int | Dir_Acl path
  | Token_Unreadable | Token_Cannot_Open os_error | Token_Not_Utf8 | Token_Empty | Token_Bad_Chars

definition check_token_dir :: "token_world \<Rightarrow> int \<Rightarrow> path \<Rightarrow> token_problem option" where
  "check_token_dir w me d =
     (case fs_stat (tw_fs w) d of
        Inl e \<Rightarrow> Some (Dir_Uninspectable d)
      | Inr dst \<Rightarrow>
          if st_uid dst \<noteq> me \<and> st_uid dst \<noteq> 0 then Some (Dir_Not_Owned d (st_uid dst))
          else
            let group_ok = (st_uid dst = 0 \<and> st_gid dst \<in> set ROOT_GROUPS) in
            if st_perm dst AND 2 \<noteq> 0 \<or> (st_perm dst AND 0x10 \<noteq> 0 \<and> \<not> group_ok)
            then Some (Dir_Writable d (st_perm dst) (st_gid dst))
            else if acl_allows (tw_platform w) (tw_acl w d) (Some ACL_WRITE_RIGHTS) \<noteq> Some False
            then Some (Dir_Acl d)
            else None)"

definition check_token_file_policy ::
  "token_world \<Rightarrow> int option \<Rightarrow> stat option \<Rightarrow> bool \<Rightarrow> path \<Rightarrow> token_problem + path" where
  "check_token_file_policy w uid opened is_abs p =
     (let me = (case uid of None \<Rightarrow> tw_euid w | Some u \<Rightarrow> u)
      in if \<not> is_abs then Raise Token_Not_Absolute
      else bind_result
        (case opened of
           Some st \<Rightarrow> Ok st
         | None \<Rightarrow>
             (case fs_lstat (tw_fs w) p of
                Inl e \<Rightarrow> Raise (if e = ENOENT then Token_Missing else Token_Uninspectable e)
              | Inr st \<Rightarrow> if st_kind st = Symlink then Raise Token_Symlink else Ok st))
        (\<lambda>st.
          if st_kind st \<noteq> Regular then Raise Token_Not_Regular
          else case tw_realpath w (parent p) of
            Inl e \<Rightarrow> Raise Token_Parent_Unreadable
          | Inr par \<Rightarrow>
              let resolved = par @ [last p] in
              if (case fs_lstat (tw_fs w) resolved of
                    Inl e \<Rightarrow> True
                  | Inr rst \<Rightarrow> st_kind rst \<noteq> Regular \<or>
                      (st_dev rst, st_ino rst) \<noteq> (st_dev st, st_ino st))
              then Raise (Token_Resolves_Elsewhere resolved)
              else if st_uid st \<noteq> me then Raise (Token_Not_Owned (st_uid st))
              else if st_perm st AND 0x3F \<noteq> 0 then Raise (Token_Mode (st_perm st))
              else if acl_allows (tw_platform w) (tw_acl w resolved) None \<noteq> Some False
              then Raise Token_Acl
              else case walk_up (check_token_dir w me) [] par of
                Problem e \<Rightarrow> Raise e
              | _ \<Rightarrow> Ok resolved))"

text \<open>A directory of the chain in which nobody else can swap the file.\<close>

definition token_dir_safe :: "token_world \<Rightarrow> int \<Rightarrow> path \<Rightarrow> bool" where
  "token_dir_safe w me d =
     (case fs_stat (tw_fs w) d of
        Inl e \<Rightarrow> False
      | Inr st \<Rightarrow>
          (st_uid st = me \<or> st_uid st = 0) \<and> st_perm st AND 2 = 0 \<and>
          (st_perm st AND 0x10 = 0 \<or> (st_uid st = 0 \<and> st_gid st \<in> {0, 80})) \<and>
          acl_allows (tw_platform w) (tw_acl w d) (Some ACL_WRITE_RIGHTS) = Some False)"

interpretation token_walk: ancestor_walk "check_token_dir w me" "token_dir_safe w me"
  by unfold_locales
    (auto simp: check_token_dir_def token_dir_safe_def Let_def ROOT_GROUPS_def split: sum.splits)

section \<open>Reading the token\<close>

text \<open>\<open>bytes.decode("utf-8")\<close>, strict: shortest form, no surrogates, at most U+10FFFF.\<close>

definition tail_byte :: "nat \<Rightarrow> bool" where
  "tail_byte b \<longleftrightarrow> 0x80 \<le> b \<and> b < 0xC0"

fun utf8_decode :: "nat list \<Rightarrow> nat list option" where
  "utf8_decode [] = Some []"
| "utf8_decode (a # as) =
     (if a < 0x80 then map_option ((#) a) (utf8_decode as)
      else if 0xC2 \<le> a \<and> a < 0xE0 then
        (case as of
           b # bs \<Rightarrow> if tail_byte b
             then map_option ((#) ((a - 0xC0) * 64 + (b - 0x80))) (utf8_decode bs) else None
         | _ \<Rightarrow> None)
      else if 0xE0 \<le> a \<and> a < 0xF0 then
        (case as of
           b # c # cs \<Rightarrow>
             let n = (a - 0xE0) * 4096 + (b - 0x80) * 64 + (c - 0x80)
             in if tail_byte b \<and> tail_byte c \<and> 0x800 \<le> n \<and> \<not> (0xD800 \<le> n \<and> n < 0xE000)
                then map_option ((#) n) (utf8_decode cs) else None
         | _ \<Rightarrow> None)
      else if 0xF0 \<le> a \<and> a < 0xF5 then
        (case as of
           b # c # d # ds \<Rightarrow>
             let n = (a - 0xF0) * 262144 + (b - 0x80) * 4096 + (c - 0x80) * 64 + (d - 0x80)
             in if tail_byte b \<and> tail_byte c \<and> tail_byte d \<and> 0x10000 \<le> n \<and> n < 0x110000
                then map_option ((#) n) (utf8_decode ds) else None
         | _ \<Rightarrow> None)
      else None)"

text \<open>\<open>str.strip()\<close> on code points: all of Unicode's white space.\<close>

definition space_cp :: "nat \<Rightarrow> bool" where
  "space_cp n \<longleftrightarrow> (9 \<le> n \<and> n \<le> 13) \<or> (28 \<le> n \<and> n \<le> 32) \<or> n = 0x85 \<or> n = 0xA0 \<or> n = 0x1680 \<or>
     (0x2000 \<le> n \<and> n \<le> 0x200A) \<or> n = 0x2028 \<or> n = 0x2029 \<or> n = 0x202F \<or> n = 0x205F \<or> n = 0x3000"

definition strip_cp :: "nat list \<Rightarrow> nat list" where
  "strip_cp s = rev (dropWhile space_cp (rev (dropWhile space_cp s)))"

definition strict_token :: "nat list \<Rightarrow> token_problem + nat list" where
  "strict_token token =
     (if token = [] then Raise Token_Empty
      else if \<not> check_token_chars token then Raise Token_Bad_Chars
      else Ok token)"

definition load_token_file ::
  "token_world \<Rightarrow> int option \<Rightarrow> bool \<Rightarrow> path \<Rightarrow> token_problem + path \<times> nat list" where
  "load_token_file w uid is_abs p =
     (if \<not> is_abs then Raise Token_Not_Absolute
      else case tw_open w p of
        Inl e \<Rightarrow> Raise (if e = ENOENT then Token_Missing else if e = ELOOP then Token_Symlink
                      else if e = EACCES then Token_Unreadable else Token_Cannot_Open e)
      | Inr (st, content) \<Rightarrow>
          bind_result (check_token_file_policy w uid (Some st) is_abs p) (\<lambda>resolved.
            case utf8_decode (map unat content) of
              None \<Rightarrow> Raise Token_Not_Utf8
            | Some tx \<Rightarrow> bind_result (strict_token (strip_cp tx)) (\<lambda>token. Ok (resolved, token))))"

text \<open>\<open>read_token_file\<close>: strict applies the policy; the lenient reading of a probe client takes the
  content as it is, symlinks followed, and reads an empty file as no token. An unreadable file
  raises.\<close>

definition read_token_file ::
  "token_world \<Rightarrow> bool \<Rightarrow> bool \<Rightarrow> path \<Rightarrow> token_problem + nat list option" where
  "read_token_file w strict is_abs p =
     (if strict then bind_result (load_token_file w None is_abs p) (\<lambda>(_, token). Ok (Some token))
      else case tw_read w p of
        Inl e \<Rightarrow> Raise (Token_Cannot_Open e)
      | Inr content \<Rightarrow>
          (case utf8_decode (map unat content) of
             None \<Rightarrow> Raise Token_Not_Utf8
           | Some tx \<Rightarrow> let token = strip_cp tx in Ok (if token = [] then None else Some token)))"

section \<open>Facts\<close>

lemma policy_Ok_iff:
  "check_token_file_policy w uid (Some st) is_abs p = Ok r \<longleftrightarrow>
     (\<exists>par rst. is_abs \<and> st_kind st = Regular \<and> tw_realpath w (parent p) = Ok par \<and> r = par @ [last p] \<and>
        fs_lstat (tw_fs w) r = Ok rst \<and> st_kind rst = Regular \<and> st_dev rst = st_dev st \<and>
        st_ino rst = st_ino st \<and>
        st_uid st = (case uid of None \<Rightarrow> tw_euid w | Some u \<Rightarrow> u) \<and> st_perm st AND 0x3F = 0 \<and>
        acl_allows (tw_platform w) (tw_acl w r) None = Some False \<and>
        (\<forall>d. prefix d par \<longrightarrow> token_dir_safe w (case uid of None \<Rightarrow> tw_euid w | Some u \<Rightarrow> u) d))"
proof -
  have walk: "walk_up (check_token_dir w me) [] par = Clear \<longleftrightarrow> (\<forall>d. prefix d par \<longrightarrow> token_dir_safe w me d)"
    "walk_up (check_token_dir w me) [] par \<noteq> Endless" for me par
    using token_walk.walk_Clear [of "[]" par w me] token_walk.walk_not_Endless [of "[]" par w me] by simp_all
  show ?thesis
    by (auto simp: check_token_file_policy_def Let_def walk(1) [symmetric] walk(2)
        split: sum.splits walked.splits if_splits)
qed

lemma strict_token_Ok: "strict_token t = Ok u \<longleftrightarrow> u = t \<and> t \<noteq> [] \<and> check_token_chars t"
  by (auto simp: strict_token_def)

lemma utf8_decode_ascii: "list_all (\<lambda>n. n < 0x80) s \<Longrightarrow> utf8_decode s = Some s"
  by (induction s) auto

definition sample_file :: stat where
  "sample_file = \<lparr>st_kind = Regular, st_uid = 7, st_gid = 7, st_perm = 0x180, st_dev = 1, st_ino = 5\<rparr>"

definition sample_dir :: "int \<Rightarrow> stat" where
  "sample_dir uid = \<lparr>st_kind = Directory, st_uid = uid, st_gid = 0, st_perm = 0x1ED, st_dev = 1, st_ino = 2\<rparr>"

text \<open>A token file \<open>/home/tok\<close> of user 7 that holds \<open>s3\<close> and a line feed.\<close>

definition sample_tokens :: token_world where
  "sample_tokens = \<lparr>tw_platform = ''linux'', tw_euid = 7,
     tw_fs = \<lparr>fs_lstat = (\<lambda>p. if p = [''home'', ''tok''] then Ok sample_file else Ok (sample_dir 0)),
       fs_stat = (\<lambda>p. if p = [''home''] then Ok (sample_dir 7) else Ok (sample_dir 0)),
       fs_umask = 0, fs_mkdir_fails = (\<lambda>p. None)\<rparr>,
     tw_realpath = Ok, tw_acl = (\<lambda>p. None),
     tw_open = (\<lambda>p. Ok (sample_file, [115, 51, 10])), tw_read = (\<lambda>p. Ok [115, 51, 10])\<rparr>"

lemma sample_load: "load_token_file sample_tokens None True [''home'', ''tok''] = Ok ([''home'', ''tok''], [115, 51])"
  by (simp add: load_token_file_def sample_tokens_def check_token_file_policy_def Let_def sample_file_def
      sample_dir_def parent_def acl_allows_def walk_up.simps check_token_dir_def ROOT_GROUPS_def
      strict_token_def strip_cp_def space_cp_def check_token_chars_def)

section \<open>Properties\<close>

text \<open>C26: the token-file policy accepts an opened file exactly when the path is absolute, the
  descriptor is a regular file owned by the expected uid without group or other permission bits,
  the name under the resolved parent is that very file, it has no ACL allow entry, and every
  directory from the resolved parent to the root is owned by that uid or root and writable by
  nobody else (group write only for root's own groups), neither by mode nor by an ACL.\<close>

theorem token_policy_iff:
  "check_token_file_policy w uid (Some st) is_abs p = Ok r \<longleftrightarrow>
     (\<exists>par rst. is_abs \<and> st_kind st = Regular \<and> tw_realpath w (parent p) = Ok par \<and> r = par @ [last p] \<and>
        fs_lstat (tw_fs w) r = Ok rst \<and> st_kind rst = Regular \<and> st_dev rst = st_dev st \<and>
        st_ino rst = st_ino st \<and>
        st_uid st = (case uid of None \<Rightarrow> tw_euid w | Some u \<Rightarrow> u) \<and> st_perm st AND 0x3F = 0 \<and>
        acl_allows (tw_platform w) (tw_acl w r) None = Some False \<and>
        (\<forall>d. prefix d par \<longrightarrow> token_dir_safe w (case uid of None \<Rightarrow> tw_euid w | Some u \<Rightarrow> u) d))"
  by (rule policy_Ok_iff)

theorem token_policy_iff_witness:
  "check_token_file_policy sample_tokens None (Some sample_file) True [''home'', ''tok''] = Ok [''home'', ''tok''] \<and>
   token_dir_safe sample_tokens 7 [''home'']"
proof -
  have ok: "check_token_file_policy sample_tokens None (Some sample_file) True [''home'', ''tok''] = Ok [''home'', ''tok'']"
    using sample_load by (auto simp: load_token_file_def sample_tokens_def bind_result_Ok_iff)
  obtain par where par: "tw_realpath sample_tokens [''home''] = Ok par"
    "\<forall>d. prefix d par \<longrightarrow> token_dir_safe sample_tokens 7 d"
    using ok unfolding token_policy_iff by (auto simp: parent_def) (auto simp: sample_tokens_def)
  then show ?thesis using ok by (auto simp: sample_tokens_def)
qed

text \<open>A token the server loads can always be matched by a header: it is not empty, holds only
  visible ASCII characters, and is the stripped UTF-8 text of the very descriptor whose status
  passed the policy.\<close>

theorem loaded_token_usable:
  assumes "load_token_file w uid is_abs p = Ok (r, token)"
  shows "token \<noteq> [] \<and> list_all (\<lambda>n. 0x21 \<le> n \<and> n \<le> 0x7E) token \<and>
    (\<exists>st content tx. tw_open w p = Ok (st, content) \<and>
       check_token_file_policy w uid (Some st) True p = Ok r \<and>
       utf8_decode (map unat content) = Some tx \<and> strip_cp tx = token)"
  using assms
  by (auto simp: load_token_file_def bind_result_Ok_iff strict_token_Ok check_token_chars_def
      split: if_splits sum.splits option.splits)

theorem loaded_token_usable_witness:
  "\<exists>st content. tw_open sample_tokens [''home'', ''tok''] = Ok (st, content) \<and>
     check_token_file_policy sample_tokens None (Some st) True [''home'', ''tok''] = Ok [''home'', ''tok'']"
  using loaded_token_usable [OF sample_load] by blast

text \<open>Whatever ASCII token is written to the file with white space around it is the token that
  is loaded: reading undoes writing.\<close>

theorem token_file_round_trip:
  assumes "check_token_file_policy w None (Some st) True p = Ok r"
    and "tw_open w p = Ok (st, map word_of_nat (pre @ token @ post))"
    and "token \<noteq> []" "check_token_chars token"
    and "list_all (\<lambda>n. n \<in> {9, 10, 13, 32}) pre" "list_all (\<lambda>n. n \<in> {9, 10, 13, 32}) post"
  shows "read_token_file w True True p = Ok (Some token)"
proof -
  have small: "list_all (\<lambda>n. n < 0x80) (pre @ token @ post)"
    using assms(4-6) by (auto simp: list_all_iff check_token_chars_def)
  have byte_small: "unat (word_of_nat n :: byte) = n" if "n < 0x80" for n
    using that by (simp add: unat_of_nat)
  from small have "map unat (map (word_of_nat :: nat \<Rightarrow> byte) (pre @ token @ post)) = pre @ token @ post"
    using byte_small by (intro map_idI [THEN trans [OF map_map]]) (auto simp: list_all_iff simp del: unat_of_nat)
  then have dec: "utf8_decode (map unat (map (word_of_nat :: nat \<Rightarrow> byte) (pre @ token @ post))) = Some (pre @ token @ post)"
    using utf8_decode_ascii [OF small] by simp
  have sp: "\<forall>n \<in> set pre. space_cp n" "\<forall>n \<in> set (rev post). space_cp n"
    using assms(5,6) by (auto simp: list_all_iff space_cp_def)
  have nsp: "\<forall>n \<in> set token. \<not> space_cp n"
    using assms(4) by (auto simp: check_token_chars_def list_all_iff space_cp_def)
  have "dropWhile space_cp (pre @ token @ post) = token @ post"
    using sp(1) nsp assms(3) by (subst dropWhile_append2) (auto simp: neq_Nil_conv)
  moreover have "dropWhile space_cp (rev post @ rev token) = rev token"
    using sp(2) nsp assms(3) by (subst dropWhile_append2) (auto simp: neq_Nil_conv dropWhile_eq_self_iff hd_rev)
  ultimately have "strip_cp (pre @ token @ post) = token" by (simp add: strip_cp_def)
  then show ?thesis
    using assms(1-4) dec by (simp add: read_token_file_def load_token_file_def strict_token_def)
qed

theorem token_file_round_trip_witness:
  "read_token_file sample_tokens True True [''home'', ''tok''] = Ok (Some [115, 51])"
proof (rule token_file_round_trip [where pre = "[]" and post = "[10]" and st = sample_file])
  show "check_token_file_policy sample_tokens None (Some sample_file) True [''home'', ''tok''] = Ok [''home'', ''tok'']"
    using sample_load by (auto simp: load_token_file_def sample_tokens_def bind_result_Ok_iff)
qed (simp_all add: sample_tokens_def check_token_chars_def)

end
