(* ===== verification/Admission.thy ===== *)
theory Admission
  imports Protocol Base64
begin

unbundle bit_operations_syntax

text \<open>
  Who may connect: the policy of \<open>stt_server/server.py\<close> (\<open>ServerConfig\<close> and
  its validation, \<open>_process_request\<close>) and the peer credentials of
  \<open>stt_server/_peercred.py\<close>. The kernel's answers (\<open>SO_PEERCRED\<close>,
  \<open>getpeereid\<close>), the effective uid and the request's headers are inputs.
\<close>

section \<open>Server configuration\<close>

definition LOOPBACK_HOSTS :: "string list" where
  "LOOPBACK_HOSTS = [''127.0.0.1'', ''::1'', ''localhost'']"

record server_config =
  cfg_socket_path :: "string option"
  cfg_host :: "string option"
  cfg_port :: "int option"
  cfg_auth_token :: "string option"
  cfg_reject_browser_origins :: bool
  cfg_max_append_bytes :: int
  cfg_max_uncommitted_bytes :: int
  cfg_send_queue_high_water_bytes :: int
  cfg_drain_timeout_seconds :: rat
  cfg_unix_socket_mode :: "int option"

definition default_config :: server_config where
  "default_config = \<lparr>cfg_socket_path = None, cfg_host = None, cfg_port = None,
     cfg_auth_token = None, cfg_reject_browser_origins = True,
     cfg_max_append_bytes = int MAX_APPEND_BYTES,
     cfg_max_uncommitted_bytes = int MAX_UNCOMMITTED_BYTES,
     cfg_send_queue_high_water_bytes = int SEND_QUEUE_HIGH_WATER_BYTES,
     cfg_drain_timeout_seconds = SHUTDOWN_DRAIN_TIMEOUT_SECONDS,
     cfg_unix_socket_mode = Some 0x180\<rparr>"

text \<open>\<open>ServerConfig.__post_init__\<close>: \<open>Inl\<close> carries the message of the
  \<open>ConfigError\<close>.\<close>

definition post_init :: "server_config \<Rightarrow> string + server_config" where
  "post_init c =
     (if cfg_socket_path c = None \<and> (cfg_host c = None \<or> cfg_port c = None)
      then Raise ''ServerConfig requires socket_path or host+port''
      else if (case cfg_host c of None \<Rightarrow> False | Some h \<Rightarrow> h \<notin> set LOOPBACK_HOSTS)
      then Raise ''V1 only permits loopback binds (127.0.0.1/::1/localhost)''
      else Ok c)"

section \<open>Peer credentials\<close>

text \<open>What the kernel answers about the peer of a connected socket: the bytes of
  \<open>struct ucred\<close> (\<open>None\<close>: the call raised) and, on Darwin, the return code
  and the uid written by \<open>getpeereid\<close>.\<close>

record peer_socket =
  sock_is_unix :: bool
  sock_peercred :: "byte list option"
  sock_getpeereid :: "(int \<times> 32 word) option"

text \<open>\<open>struct.unpack("3I", buf)\<close>: three unsigned 32-bit integers, little endian
  (the native order of the supported machines); another length raises.\<close>

definition u32 :: "byte list \<Rightarrow> 32 word" where
  "u32 bs = ucast (bs ! 0) OR push_bit 8 (ucast (bs ! 1)) OR push_bit 16 (ucast (bs ! 2))
     OR push_bit 24 (ucast (bs ! 3))"

definition unpack_3I :: "byte list \<Rightarrow> (32 word \<times> 32 word \<times> 32 word) option" where
  "unpack_3I buf =
     (if length buf \<noteq> 12 then None
      else Some (u32 (take 4 buf), u32 (take 4 (drop 4 buf)), u32 (drop 8 buf)))"

definition peer_uid_linux :: "peer_socket \<Rightarrow> int option" where
  "peer_uid_linux s =
     (case sock_peercred s of
        None \<Rightarrow> None
      | Some buf \<Rightarrow> map_option (\<lambda>(pid, uid, gid). uint uid) (unpack_3I buf))"

definition peer_uid_darwin :: "peer_socket \<Rightarrow> int option" where
  "peer_uid_darwin s =
     (case sock_getpeereid s of
        None \<Rightarrow> None
      | Some (rc, uid) \<Rightarrow> if rc \<noteq> 0 then None else Some (uint uid))"

definition peer_uid :: "string \<Rightarrow> peer_socket \<Rightarrow> int option" where
  "peer_uid platform s =
     (if prefix ''linux'' platform then peer_uid_linux s
      else if platform = ''darwin'' then peer_uid_darwin s
      else None)"

section \<open>The admission check\<close>

text \<open>\<open>headers.get(name)\<close>: a header given more than once makes the lookup raise.\<close>

datatype header = Absent | Header string | Repeated

datatype admission = Admit | Respond nat string | Check_Raises

definition utf8_char :: "char \<Rightarrow> byte list" where
  "utf8_char c =
     (let n = (of_char c :: nat)
      in if n < 128 then [word_of_nat n]
         else [word_of_nat (192 + n div 64), word_of_nat (128 + n mod 64)])"

definition utf8 :: "string \<Rightarrow> byte list" where
  "utf8 s = concat (map utf8_char s)"

text \<open>The request as the handshake hands it over: the transport and its socket may be
  missing.\<close>

record request =
  req_transport :: bool
  req_socket :: "peer_socket option"
  req_header :: "string \<Rightarrow> header"

definition check_peer :: "string \<Rightarrow> int \<Rightarrow> request \<Rightarrow> admission" where
  "check_peer platform euid r =
     (if \<not> req_transport r then Respond 403 ''peer not permitted''
      else case req_socket r of
        None \<Rightarrow> Respond 403 ''peer not permitted''
      | Some s \<Rightarrow>
          if \<not> sock_is_unix s then Respond 403 ''peer not permitted''
          else if peer_uid platform s \<noteq> Some euid then Respond 403 ''peer not permitted''
          else Admit)"

definition check_headers :: "server_config \<Rightarrow> request \<Rightarrow> admission" where
  "check_headers c r =
     (case req_header r ''Origin'' of
        Repeated \<Rightarrow> Check_Raises
      | origin \<Rightarrow>
          if cfg_reject_browser_origins c \<and> (case origin of Header v \<Rightarrow> v \<noteq> [] | _ \<Rightarrow> False)
          then Respond 403 ''origin not permitted''
          else case cfg_auth_token c of
            None \<Rightarrow> Admit
          | Some token \<Rightarrow>
              if token = [] then Admit
              else case req_header r ''Authorization'' of
                Repeated \<Rightarrow> Check_Raises
              | auth \<Rightarrow>
                  let provided = (case auth of Header v \<Rightarrow> v | _ \<Rightarrow> [])
                  in if utf8 provided \<noteq> utf8 (''Bearer '' @ token)
                     then Respond 401 ''unauthorized'' else Admit)"

definition process_request :: "string \<Rightarrow> int \<Rightarrow> server_config \<Rightarrow> request \<Rightarrow> admission" where
  "process_request platform euid c r =
     (if cfg_socket_path c \<noteq> None then
        (case check_peer platform euid r of Admit \<Rightarrow> check_headers c r | x \<Rightarrow> x)
      else check_headers c r)"

section \<open>Facts\<close>

lemma utf8_char_ne: "utf8_char c \<noteq> []"
  by (simp add: utf8_char_def Let_def)

lemma of_char_bound: "(of_char c :: nat) < 256"
  using nat_of_char_less_256 .

lemma byte_nat: "n < 256 \<Longrightarrow> unat (word_of_nat n :: byte) = n"
  by (simp add: unat_of_nat)

lemma utf8_head:
  "unat (hd (utf8_char c)) < 128 \<longleftrightarrow> (of_char c :: nat) < 128"
proof -
  have "(of_char c :: nat) div 64 < 4" using of_char_bound [of c] by linarith
  then show ?thesis
    using of_char_bound [of c] by (simp add: utf8_char_def Let_def byte_nat del: of_nat_add)
qed

lemma word_of_nat_eq: "n < 256 \<Longrightarrow> m < 256 \<Longrightarrow> (word_of_nat n :: byte) = word_of_nat m \<longleftrightarrow> n = m"
  by (metis byte_nat)

lemma utf8_prefix_free:
  "utf8_char c @ xs = utf8_char d @ ys \<longleftrightarrow> c = d \<and> xs = ys"
proof
  assume e: "utf8_char c @ xs = utf8_char d @ ys"
  then have "hd (utf8_char c) = hd (utf8_char d)"
    by (metis hd_append2 utf8_char_ne)
  then have small: "(of_char c :: nat) < 128 \<longleftrightarrow> (of_char d :: nat) < 128"
    by (metis utf8_head)
  have "(of_char c :: nat) = of_char d \<and> xs = ys"
  proof (cases "(of_char c :: nat) < 128")
    case True
    then show ?thesis
      using e small by (simp add: utf8_char_def Let_def word_of_nat_eq del: of_nat_of_char)
  next
    case False
    have b: "(of_char c :: nat) div 64 < 4" "(of_char d :: nat) div 64 < 4"
      using of_char_bound [of c] of_char_bound [of d] by linarith+
    have m: "(of_char c :: nat) mod 64 < 64" "(of_char d :: nat) mod 64 < 64" by simp_all
    have "192 + (of_char c :: nat) div 64 = 192 + of_char d div 64"
      "128 + (of_char c :: nat) mod 64 = 128 + of_char d mod 64" "xs = ys"
      using e small False b m word_of_nat_eq [of "192 + of_char c div 64" "192 + of_char d div 64"]
        word_of_nat_eq [of "128 + of_char c mod 64" "128 + of_char d mod 64"]
      by (simp_all add: utf8_char_def Let_def del: of_nat_add)
    then show ?thesis by (metis add_left_cancel div_mult_mod_eq)
  qed
  then show "c = d \<and> xs = ys" by simp
qed simp

lemma utf8_inj: "utf8 s = utf8 t \<longleftrightarrow> s = t"
proof (induction s arbitrary: t)
  case Nil
  show ?case by (cases t) (auto simp: utf8_def utf8_char_ne)
next
  case (Cons c s)
  show ?case
  proof (cases t)
    case Nil
    then show ?thesis by (simp add: utf8_def utf8_char_ne)
  next
    case (Cons d t')
    have "utf8 (c # s) = utf8_char c @ utf8 s" "utf8 (d # t') = utf8_char d @ utf8 t'"
      by (simp_all add: utf8_def)
    then show ?thesis using Cons Cons.IH utf8_prefix_free by auto
  qed
qed

lemma check_headers_admit:
  "check_headers c r = Admit \<longleftrightarrow>
     req_header r ''Origin'' \<noteq> Repeated
     \<and> \<not> (cfg_reject_browser_origins c \<and> (\<exists>v. req_header r ''Origin'' = Header v \<and> v \<noteq> []))
     \<and> (case cfg_auth_token c of None \<Rightarrow> True | Some token \<Rightarrow>
          token = [] \<or> req_header r ''Authorization'' = Header (''Bearer '' @ token))"
  unfolding check_headers_def Let_def utf8_inj
  by (cases "req_header r ''Origin''"; cases "cfg_auth_token c"; cases "req_header r ''Authorization''")
    (auto split: if_splits)

lemma check_peer_admit:
  "check_peer platform euid r = Admit \<longleftrightarrow>
     req_transport r \<and> (\<exists>s. req_socket r = Some s \<and> sock_is_unix s \<and> peer_uid platform s = Some euid)"
  by (auto simp: check_peer_def split: option.splits)

text \<open>The bytes of a \<open>struct ucred\<close> on a little-endian machine.\<close>

definition le_bytes :: "32 word \<Rightarrow> byte list" where
  "le_bytes w = [ucast w, ucast (drop_bit 8 w), ucast (drop_bit 16 w), ucast (drop_bit 24 w)]"

lemma u32_le_bytes: "u32 (le_bytes w) = w"
  unfolding u32_def le_bytes_def
  by (rule bit_word_eqI) (auto simp: bit_simps less_diff_conv2 intro: ccontr)

section \<open>Properties\<close>

text \<open>C6: a connection is admitted exactly when, on a Unix socket, the kernel names a peer whose
  uid is the server's own effective uid (a missing transport or socket, another address
  family or an unresolved uid are all refused), and no browser Origin is presented where
  those are rejected, and a configured token is presented as the bearer of the
  Authorization header; a repeated header never admits.\<close>

theorem process_request_admits:
  "process_request platform euid c r = Admit \<longleftrightarrow>
     (cfg_socket_path c = None \<or>
        (req_transport r \<and>
         (\<exists>s. req_socket r = Some s \<and> sock_is_unix s \<and> peer_uid platform s = Some euid)))
     \<and> req_header r ''Origin'' \<noteq> Repeated
     \<and> \<not> (cfg_reject_browser_origins c \<and> (\<exists>v. req_header r ''Origin'' = Header v \<and> v \<noteq> []))
     \<and> (case cfg_auth_token c of None \<Rightarrow> True | Some token \<Rightarrow>
          token = [] \<or> req_header r ''Authorization'' = Header (''Bearer '' @ token))"
  unfolding process_request_def check_headers_admit [symmetric] check_peer_admit [symmetric]
  by (auto split: admission.splits)

text \<open>The uid of a Linux peer is read back exactly as the kernel wrote it, for every 32-bit
  uid: the unsigned unpacking never turns a uid of 2147483648 or more negative.\<close>

theorem peer_uid_linux_exact:
  "peer_uid ''linux'' (s\<lparr>sock_peercred := Some (le_bytes pid @ le_bytes uid @ le_bytes gid)\<rparr>)
     = Some (uint uid)"
proof -
  have "length (le_bytes w) = 4" for w by (simp add: le_bytes_def)
  then show ?thesis
    by (simp add: peer_uid_def peer_uid_linux_def unpack_3I_def u32_le_bytes)
qed

end
