(* ===== verification/Session.thy ===== *)
theory Session
  imports Protocol Json Base64 Admission
begin

text \<open>
  One client session of \<open>stt_server/server.py\<close>: \<open>_SessionState\<close>, the
  connection handler and its message handlers, the decode task, backpressure, close,
  cancel and teardown.

  A session is a record; what the world decides (uuids, the pending write bytes of the
  socket, the clock, the resource usage) is read from oracle streams, one position per
  call. The handler and its decode task are two coroutines of one event loop: a step is
  what runs between two points where a coroutine waits for the other, for the peer or for
  the backend, so their interleavings are the orders of steps. A frame is the payload
  handed to \<open>ws.send(json.dumps(payload))\<close>. A send whose socket is closed is
  swallowed, as in \<open>_send\<close>; a cancelled backend call is assumed to unwind, and
  \<open>stream.cancel()\<close> not to suspend (all streams of the repository).
\<close>

section \<open>State\<close>

record world =
  w_uuid :: "nat \<Rightarrow> string"
  w_pending :: "nat \<Rightarrow> int option"
  w_monotonic :: "nat \<Rightarrow> rat"
  w_pid :: int
  w_maxrss :: int
  w_platform :: string
  w_json_error :: "string \<Rightarrow> string"
  w_str_value :: "json \<Rightarrow> string"
  w_config :: server_config
  w_backend_name :: string
  w_backend_model :: json

text \<open>The decode task: created but not yet run, waiting for \<open>open_stream\<close>, consuming
  events; \<open>Finished\<close> is \<open>task.done()\<close>.\<close>

datatype decode_stage = Created | Opening | Streaming | Finished

record decode =
  d_item :: string
  d_audio :: "byte list"
  d_stage :: decode_stage
  d_language :: json
  d_final :: string
  d_cancel_requested :: bool

text \<open>Where the handler coroutine waits: for the next message, in \<open>_on_close\<close> for the
  decode (within the drain budget, then for its unwinding), in \<open>_on_cancel\<close> and in
  \<open>_teardown_session\<close> for the unwinding; \<open>Ended\<close> is the finished handler.\<close>

datatype phase = Receiving | Wait_Close | Wait_Close_Unwind | Wait_Cancel_Unwind | Wait_Teardown | Ended

record session =
  session_id :: string
  config :: "string \<Rightarrow> json option"
  buffer :: "byte list"
  in_flight :: "decode option"
  current_stream :: bool
  stream_cancels :: nat
  closed :: bool
  started :: rat
  phase :: phase
  ws_open :: bool
  ws_close :: "(nat \<times> string) option"
  sent :: "json list"
  calls :: nat
  shutting_down :: bool

definition busy :: "session \<Rightarrow> bool" where
  "busy s = (case in_flight s of None \<Rightarrow> False | Some d \<Rightarrow> d_stage d \<noteq> Finished)"

section \<open>Identifiers and payloads\<close>

definition event_id :: "world \<Rightarrow> session \<Rightarrow> string" where
  "event_id w s = ''evt_'' @ take 16 (w_uuid w (calls s))"

definition item_id :: "world \<Rightarrow> session \<Rightarrow> string" where
  "item_id w s = ''item_'' @ take 16 (w_uuid w (calls s))"

definition fresh_session_id :: "world \<Rightarrow> nat \<Rightarrow> string" where
  "fresh_session_id w n = ''session_'' @ take 16 (w_uuid w n)"

definition tick :: "session \<Rightarrow> session" where
  "tick s = s\<lparr>calls := Suc (calls s)\<rparr>"

definition process_peak_rss_bytes :: "world \<Rightarrow> int" where
  "process_peak_rss_bytes w =
     (if w_platform w = ''darwin'' then w_maxrss w else w_maxrss w * 1024)"

definition config_get :: "session \<Rightarrow> string \<Rightarrow> json" where
  "config_get s k = (case config s k of None \<Rightarrow> JNull | Some v \<Rightarrow> v)"

definition session_snapshot :: "session \<Rightarrow> json" where
  "session_snapshot s = JObj
     [(''id'', JStr (session_id s)),
      (''object'', JStr ''realtime.transcription_session''),
      (''type'', JStr ''transcription''),
      (''input_audio_format'', JStr AUDIO_FORMAT),
      (''turn_detection'', config_get s ''turn_detection''),
      (''input_audio_transcription'', JObj [(''language'', config_get s ''language'')]),
      (''audio'', JObj
         [(''input'', JObj
            [(''format'', JObj
                [(''encoding'', JStr AUDIO_FORMAT),
                 (''rate'', JInt (int AUDIO_SAMPLE_RATE_HZ)),
                 (''channels'', JInt (int AUDIO_CHANNELS))]),
             (''turn_detection'', config_get s ''turn_detection''),
             (''language'', config_get s ''language'')])])]"

definition hello_frame :: "world \<Rightarrow> string \<Rightarrow> json" where
  "hello_frame w eid = JObj
     [(''type'', JStr EVT_SERVER_HELLO), (''event_id'', JStr eid),
      (''protocol_version'', JStr PROTOCOL_VERSION),
      (''capabilities'', JObj [(''binary_audio'', JBool True),
         (''base64_audio_append'', JBool True), (''server_vad'', JBool False)]),
      (''audio'', JObj [(''format'', JStr AUDIO_FORMAT),
         (''rate'', JInt (int AUDIO_SAMPLE_RATE_HZ)), (''channels'', JInt (int AUDIO_CHANNELS))]),
      (''backend'', JObj [(''name'', JStr (w_backend_name w)), (''model'', w_backend_model w)])]"

definition session_frame :: "string \<Rightarrow> string \<Rightarrow> json \<Rightarrow> json" where
  "session_frame evt_type eid snapshot = JObj
     [(''type'', JStr evt_type), (''event_id'', JStr eid), (''session'', snapshot)]"

definition error_frame :: "error_code \<Rightarrow> string \<Rightarrow> string option \<Rightarrow> string \<Rightarrow> json" where
  "error_frame code message client_event_id eid = JObj
     [(''type'', JStr EVT_ERROR), (''event_id'', JStr eid),
      (''error'', JObj
        ([(''type'', JStr (error_type_for_code code)), (''code'', JStr (code_value code)),
          (''message'', JStr message)] @
         (case client_event_id of
            Some c \<Rightarrow> if c \<noteq> [] then [(''event_id'', JStr c)] else []
          | None \<Rightarrow> [])))]"

definition ack_frame :: "string \<Rightarrow> string \<Rightarrow> (string \<times> json) list \<Rightarrow> string option \<Rightarrow> json" where
  "ack_frame evt_type eid extra client_event_id = JObj
     ([(''type'', JStr evt_type), (''event_id'', JStr eid)] @ extra @
      (case client_event_id of
         Some c \<Rightarrow> if c \<noteq> [] then [(''previous_event_id'', JStr c)] else []
       | None \<Rightarrow> []))"

definition delta_frame :: "string \<Rightarrow> string \<Rightarrow> string \<Rightarrow> json" where
  "delta_frame item eid tx = JObj
     [(''type'', JStr EVT_TRANSCRIPT_DELTA), (''event_id'', JStr eid), (''item_id'', JStr item),
      (''content_index'', JInt 0), (''delta'', JStr tx)]"

definition completed_frame :: "string \<Rightarrow> string \<Rightarrow> string \<Rightarrow> json" where
  "completed_frame item eid tx = JObj
     [(''type'', JStr EVT_TRANSCRIPT_COMPLETED), (''event_id'', JStr eid),
      (''item_id'', JStr item), (''content_index'', JInt 0), (''transcript'', JStr tx)]"

definition failed_frame :: "string \<Rightarrow> string \<Rightarrow> json" where
  "failed_frame item eid = JObj
     [(''type'', JStr EVT_TRANSCRIPT_FAILED), (''event_id'', JStr eid), (''item_id'', JStr item),
      (''content_index'', JInt 0),
      (''error'', JObj
        [(''type'', JStr (error_type_for_code BACKEND_ERROR)),
         (''code'', JStr (code_value BACKEND_ERROR)),
         (''message'', JStr ''backend decode failed'')])]"

definition closed_frame :: "string \<Rightarrow> string \<Rightarrow> string \<Rightarrow> json" where
  "closed_frame sid eid reason = JObj
     [(''type'', JStr EVT_SESSION_CLOSED), (''event_id'', JStr eid), (''session_id'', JStr sid),
      (''reason'', JStr reason)]"

definition status_frame :: "world \<Rightarrow> session \<Rightarrow> json" where
  "status_frame w s = JObj
     [(''type'', JStr EVT_SERVER_STATUS), (''event_id'', JStr (event_id w s)),
      (''session_id'', JStr (session_id s)),
      (''backend'', JObj [(''name'', JStr (w_backend_name w)), (''model'', w_backend_model w)]),
      (''queue_depth'', JInt (if busy s then 1 else 0)),
      (''uncommitted_bytes'', JInt (int (length (buffer s)))),
      (''uptime_seconds'', JFloat (Fin (w_monotonic w (calls s) - started s))),
      (''pid'', JInt (w_pid w)),
      (''rss_bytes'', JInt (process_peak_rss_bytes w))]"

section \<open>Sending\<close>

text \<open>\<open>ws.close(code, reason)\<close>: the first close wins, a closed socket stays closed.\<close>

definition do_close :: "nat \<Rightarrow> string \<Rightarrow> session \<Rightarrow> session" where
  "do_close code reason s =
     (if ws_open s then s\<lparr>ws_open := False, ws_close := Some (code, reason)\<rparr> else s)"

text \<open>\<open>_send\<close>: unless forced or already closed, a write buffer above the high-water
  mark drops the payload and closes the session with 1011.\<close>

definition send :: "world \<Rightarrow> bool \<Rightarrow> json \<Rightarrow> session \<Rightarrow> session" where
  "send w force payload s =
     (let overflow = (\<not> force \<and> \<not> closed s \<and>
            (case w_pending w (calls s) of
               None \<Rightarrow> False
             | Some p \<Rightarrow> p > cfg_send_queue_high_water_bytes (w_config w)))
      in if overflow then do_close 1011 ''send_queue_overflow'' (s\<lparr>closed := True\<rparr>)
         else if ws_open s then s\<lparr>sent := sent s @ [payload]\<rparr> else s)"

text \<open>A payload with a fresh event id.\<close>

definition emit :: "world \<Rightarrow> bool \<Rightarrow> (string \<Rightarrow> json) \<Rightarrow> session \<Rightarrow> session" where
  "emit w force mk s = tick (send w force (mk (event_id w s)) s)"

definition send_error :: "world \<Rightarrow> error_code \<Rightarrow> string \<Rightarrow> string option \<Rightarrow> session \<Rightarrow> session" where
  "send_error w code message client_event_id s =
     emit w True (error_frame code message client_event_id) s"

section \<open>Message handlers\<close>

text \<open>A handler finishes, raises (the connection handler then answers
  \<open>internal_error\<close>), or meets a text the JSON model does not cover.\<close>

datatype outcome = Done session | Raised session | No_Model

definition handle_binary_audio :: "world \<Rightarrow> byte list \<Rightarrow> session \<Rightarrow> session" where
  "handle_binary_audio w data s =
     (if busy s then
        send_error w INVALID_EVENT ''audio append while previous decode in flight'' None s
      else if int (length data) > cfg_max_append_bytes (w_config w) then
        send_error w PAYLOAD_TOO_LARGE ''binary audio exceeds max_append_bytes'' None s
      else if length data mod AUDIO_SAMPLE_WIDTH_BYTES \<noteq> 0 then
        send_error w INVALID_EVENT
          (''audio length '' @ show_nat (length data) @ '' is not a multiple of '' @
             show_nat AUDIO_SAMPLE_WIDTH_BYTES) None s
      else if int (length (buffer s) + length data) > cfg_max_uncommitted_bytes (w_config w) then
        send_error w BUFFER_OVERFLOW ''uncommitted audio exceeds per-session cap'' None s
      else s\<lparr>buffer := buffer s @ data\<rparr>)"

text \<open>\<open>x or {}\<close> as a dict: a falsy value is the empty dict, a truthy value that is no
  dict has no \<open>get\<close> (\<open>None\<close>, the \<open>AttributeError\<close>).\<close>

definition or_dict :: "json \<Rightarrow> (string \<times> json) list option" where
  "or_dict j = (if \<not> truthy j then Some [] else case j of JObj kvs \<Rightarrow> Some kvs | _ \<Rightarrow> None)"

text \<open>The \<open>format\<close> checks: the message of the first one that fails.\<close>

definition format_problem :: "(string \<times> json) list \<Rightarrow> string option" where
  "format_problem fmt =
     (if fmt = [] then None
      else if \<not> equals_str (jget_or fmt ''encoding'' (JStr AUDIO_FORMAT)) AUDIO_FORMAT
      then Some ''only pcm16 encoding is supported''
      else if \<not> equals_int (jget_or fmt ''rate'' (JInt (int AUDIO_SAMPLE_RATE_HZ)))
                 (int AUDIO_SAMPLE_RATE_HZ)
      then Some ''only 16000 Hz sample rate is supported''
      else if \<not> equals_int (jget_or fmt ''channels'' (JInt (int AUDIO_CHANNELS)))
                 (int AUDIO_CHANNELS)
      then Some ''only mono audio is supported''
      else None)"

text \<open>The loop over the two places \<open>turn_detection\<close> may stand: the configuration so far,
  and whether a value other than null was met.\<close>

fun scan_turn_detection ::
  "(string \<times> json) list list \<Rightarrow> (string \<Rightarrow> json option) \<Rightarrow> (string \<Rightarrow> json option) \<times> bool" where
  "scan_turn_detection [] c = (c, False)"
| "scan_turn_detection (kvs # rest) c =
     (case jget kvs ''turn_detection'' of
        None \<Rightarrow> scan_turn_detection rest c
      | Some td \<Rightarrow> if td \<noteq> JNull then (c, True)
                   else scan_turn_detection rest (c(''turn_detection'' \<mapsto> JNull)))"

definition take_language ::
  "(string \<times> json) list \<Rightarrow> (string \<times> json) list \<Rightarrow> (string \<Rightarrow> json option) \<Rightarrow> string \<Rightarrow> json option" where
  "take_language sess audio_in c =
     (let c1 = (case jget audio_in ''language'' of None \<Rightarrow> c | Some l \<Rightarrow> c(''language'' \<mapsto> l))
      in case jget sess ''input_audio_transcription'' of
           Some (JObj tr) \<Rightarrow>
             (case jget tr ''language'' of None \<Rightarrow> c1 | Some l \<Rightarrow> c1(''language'' \<mapsto> l))
         | _ \<Rightarrow> c1)"

definition on_session_update ::
  "world \<Rightarrow> (string \<times> json) list \<Rightarrow> string option \<Rightarrow> session \<Rightarrow> outcome" where
  "on_session_update w msg cid s =
     (let reject = (\<lambda>m t. Done (send_error w INVALID_CONFIG m cid t))
      in case or_dict (jget_or msg ''session'' JNull) of None \<Rightarrow> Raised s | Some sess \<Rightarrow>
         case or_dict (jget_or sess ''audio'' JNull) of None \<Rightarrow> Raised s | Some audio \<Rightarrow>
         if (case jget sess ''input_audio_format'' of
               Some (JStr f) \<Rightarrow> f \<noteq> AUDIO_FORMAT | _ \<Rightarrow> False)
         then reject (''only '' @ [CHR 0x27] @ AUDIO_FORMAT @ [CHR 0x27] @
                      '' input_audio_format is supported'') s
         else case or_dict (jget_or audio ''input'' JNull) of None \<Rightarrow> Raised s | Some audio_in \<Rightarrow>
         case or_dict (jget_or audio_in ''format'' JNull) of None \<Rightarrow> Raised s | Some fmt \<Rightarrow>
         case format_problem fmt of Some m \<Rightarrow> reject m s | None \<Rightarrow>
         let (c, vad) = scan_turn_detection [sess, audio_in] (config s)
         in if vad then reject ''server VAD is not implemented; use turn_detection: null''
                          (s\<lparr>config := c\<rparr>)
            else let s1 = s\<lparr>config := take_language sess audio_in c\<rparr>;
                     snapshot = session_snapshot s1
                 in Done (emit w False
                      (\<lambda>eid. session_frame EVT_TRANSCRIPTION_SESSION_UPDATED eid snapshot)
                      (emit w False (\<lambda>eid. session_frame EVT_SESSION_UPDATED eid snapshot) s1)))"

definition on_audio_append_json :: "world \<Rightarrow> (string \<times> json) list \<Rightarrow> session \<Rightarrow> session" where
  "on_audio_append_json w msg s =
     (case jget msg ''audio'' of
        Some (JStr b64) \<Rightarrow>
          (case b64decode b64 of
             Inl e \<Rightarrow> send_error w INVALID_EVENT
                        (''audio base64 decode failed: '' @ b64_message e) None s
           | Inr data \<Rightarrow> handle_binary_audio w data s)
      | _ \<Rightarrow> send_error w INVALID_EVENT ''input_audio_buffer.append missing audio'' None s)"

definition on_commit :: "world \<Rightarrow> string option \<Rightarrow> session \<Rightarrow> session" where
  "on_commit w cid s =
     (if buffer s = [] then send_error w BUFFER_EMPTY ''commit on empty buffer'' cid s
      else if busy s then
        send_error w INVALID_EVENT ''commit while previous decode in flight'' cid s
      else
        let audio = buffer s; item = item_id w s;
            s1 = emit w False
                   (\<lambda>eid. ack_frame EVT_AUDIO_COMMITTED eid [(''item_id'', JStr item)] cid)
                   (tick (s\<lparr>buffer := []\<rparr>))
        in s1\<lparr>in_flight := Some \<lparr>d_item = item, d_audio = audio, d_stage = Created,
             d_language = JNull, d_final = [], d_cancel_requested = False\<rparr>\<rparr>)"

definition on_clear :: "world \<Rightarrow> string option \<Rightarrow> session \<Rightarrow> session" where
  "on_clear w cid s =
     (if busy s then
        send_error w INVALID_EVENT ''clear while decode in flight; use session.cancel to abort''
          cid s
      else emit w False (\<lambda>eid. ack_frame EVT_AUDIO_CLEARED eid [] cid) (s\<lparr>buffer := []\<rparr>))"

definition on_status :: "world \<Rightarrow> session \<Rightarrow> session" where
  "on_status w s = tick (send w False (status_frame w s) s)"

text \<open>\<open>in_flight_task.cancel()\<close>: a request; the task unwinds at its next step.\<close>

definition request_cancel :: "session \<Rightarrow> session" where
  "request_cancel s =
     (case in_flight s of
        None \<Rightarrow> s
      | Some d \<Rightarrow> s\<lparr>in_flight := Some (d\<lparr>d_cancel_requested := True\<rparr>)\<rparr>)"

text \<open>The common end of close and cancel: the last frame, then the closing handshake; the
  handler goes back to its loop, which ends with the socket.\<close>

definition finish_close :: "world \<Rightarrow> string \<Rightarrow> session \<Rightarrow> session" where
  "finish_close w reason s =
     (do_close 1000 [] (emit w True (\<lambda>eid. closed_frame (session_id s) eid reason)
        (s\<lparr>closed := True\<rparr>)))\<lparr>phase := Receiving\<rparr>"

definition on_close :: "world \<Rightarrow> session \<Rightarrow> session" where
  "on_close w s =
     (if closed s then s
      else if busy s then
        (if shutting_down s then finish_close w ''client_close'' (request_cancel s)
         else s\<lparr>phase := Wait_Close\<rparr>)
      else finish_close w ''client_close'' s)"

definition on_cancel :: "world \<Rightarrow> session \<Rightarrow> session" where
  "on_cancel w s =
     (if closed s then s
      else
        let s1 = s\<lparr>buffer := []\<rparr>;
            s2 = (if current_stream s1 then s1\<lparr>stream_cancels := Suc (stream_cancels s1)\<rparr> else s1)
        in if busy s2 then (request_cancel s2)\<lparr>phase := Wait_Cancel_Unwind\<rparr>
           else finish_close w ''client_cancel'' s2)"

definition teardown_session :: "session \<Rightarrow> session" where
  "teardown_session s =
     (if busy s then (request_cancel s)\<lparr>phase := Wait_Teardown\<rparr>
      else s\<lparr>closed := True, phase := Ended\<rparr>)"

text \<open>\<open>_handle_text\<close>: parse, check the type, dispatch.\<close>

definition dispatch ::
  "world \<Rightarrow> string \<Rightarrow> (string \<times> json) list \<Rightarrow> string option \<Rightarrow> session \<Rightarrow> outcome" where
  "dispatch w t msg cid s =
     (if t = EVT_SESSION_UPDATE \<or> t = EVT_TRANSCRIPTION_SESSION_UPDATE
      then on_session_update w msg cid s
      else if t = EVT_AUDIO_APPEND then Done (on_audio_append_json w msg s)
      else if t = EVT_AUDIO_COMMIT then Done (on_commit w cid s)
      else if t = EVT_AUDIO_CLEAR then Done (on_clear w cid s)
      else if t = EVT_SERVER_STATUS_REQ then Done (on_status w s)
      else if t = EVT_SESSION_CLOSE then Done (on_close w s)
      else if t = EVT_SESSION_CANCEL then Done (on_cancel w s)
      else Done s)"

fun unhashable :: "json \<Rightarrow> bool" where
  "unhashable (JArr _) = True"
| "unhashable (JObj _) = True"
| "unhashable _ = False"

definition handle_message :: "world \<Rightarrow> (string \<times> json) list \<Rightarrow> json \<Rightarrow> session \<Rightarrow> outcome" where
  "handle_message w msg t s =
     (let cid = (case jget msg ''event_id'' of Some (JStr c) \<Rightarrow> Some c | _ \<Rightarrow> None);
          unknown = (\<lambda>shown. Done (send_error w UNSUPPORTED_EVENT (''unknown event: '' @ shown) cid s))
      in if unhashable t then Raised s
         else case t of
           JStr name \<Rightarrow> if name \<in> set CLIENT_EVENT_TYPES then dispatch w name msg cid s
                        else unknown name
         | _ \<Rightarrow> unknown (w_str_value w t))"

definition handle_text :: "world \<Rightarrow> string \<Rightarrow> session \<Rightarrow> outcome" where
  "handle_text w raw s =
     (case loads raw of
        DecodeError \<Rightarrow> Done (send_error w INVALID_JSON (w_json_error w raw) None s)
      | LoadsValueError \<Rightarrow> Raised s
      | Unmodelled \<Rightarrow> No_Model
      | Loaded (JObj msg) \<Rightarrow>
          (case jget msg ''type'' of
             None \<Rightarrow> Done (send_error w INVALID_EVENT ''missing type'' None s)
           | Some t \<Rightarrow> handle_message w msg t s)
      | Loaded _ \<Rightarrow> Done (send_error w INVALID_EVENT ''missing type'' None s))"

section \<open>The connection handler and the decode task\<close>

definition open_session :: "world \<Rightarrow> nat \<Rightarrow> session" where
  "open_session w n =
     (let s0 = \<lparr>session_id = fresh_session_id w n, config = [''turn_detection'' \<mapsto> JNull],
                buffer = [], in_flight = None, current_stream = False, stream_cancels = 0,
                closed = False, started = w_monotonic w n, phase = Receiving, ws_open = True,
                ws_close = None, sent = [], calls = Suc n, shutting_down = False\<rparr>;
          s1 = emit w False (hello_frame w) s0;
          snapshot = session_snapshot s1
      in emit w False (\<lambda>eid. session_frame EVT_TRANSCRIPTION_SESSION_CREATED eid snapshot)
           (emit w False (\<lambda>eid. session_frame EVT_SESSION_CREATED eid snapshot) s1))"

datatype event =
    Binary "byte list" | Text string | Loop_End | Peer_Gone
  | Decode_Start | Decode_Opened | Decode_Event string string | Decode_End | Decode_Raise
  | Decode_Unwound | Drain_Timeout | Cancel_Decode | Cancel_Handler | Shutdown_Begins

text \<open>The decode task is over: whoever waits for it goes on. A cancelled task raises
  \<open>CancelledError\<close> into \<open>_on_close\<close> while that still waits for the result; the
  other waits swallow it.\<close>

definition resume_handler :: "world \<Rightarrow> bool \<Rightarrow> session \<Rightarrow> session" where
  "resume_handler w cancelled s =
     (case phase s of
        Wait_Close \<Rightarrow> if cancelled then teardown_session s else finish_close w ''client_close'' s
      | Wait_Close_Unwind \<Rightarrow> finish_close w ''client_close'' s
      | Wait_Cancel_Unwind \<Rightarrow> finish_close w ''client_cancel'' s
      | Wait_Teardown \<Rightarrow> s\<lparr>closed := True, phase := Ended\<rparr>
      | _ \<Rightarrow> s)"

definition finish_decode :: "world \<Rightarrow> bool \<Rightarrow> decode \<Rightarrow> session \<Rightarrow> session" where
  "finish_decode w cancelled d s =
     resume_handler w cancelled
       (s\<lparr>in_flight := Some (d\<lparr>d_stage := Finished\<rparr>), current_stream := False\<rparr>)"

text \<open>One step of \<open>_run_decode\<close> that is not the handling of a cancellation.\<close>

definition decode_step :: "world \<Rightarrow> event \<Rightarrow> decode \<Rightarrow> session \<Rightarrow> session option" where
  "decode_step w e d s =
     (if d_cancel_requested d then None
      else case (e, d_stage d) of
        (Decode_Start, Created) \<Rightarrow>
          Some (s\<lparr>in_flight :=
            Some (d\<lparr>d_stage := Opening, d_language := config_get s ''language''\<rparr>)\<rparr>)
      | (Decode_Opened, Opening) \<Rightarrow>
          Some (s\<lparr>in_flight := Some (d\<lparr>d_stage := Streaming\<rparr>), current_stream := True\<rparr>)
      | (Decode_Event kind tx, Streaming) \<Rightarrow>
          Some (if kind = ''delta'' then emit w False (\<lambda>eid. delta_frame (d_item d) eid tx) s
                else if kind = ''completed'' then s\<lparr>in_flight := Some (d\<lparr>d_final := tx\<rparr>)\<rparr>
                else s)
      | (Decode_End, Streaming) \<Rightarrow>
          Some (finish_decode w False d
            (emit w False (\<lambda>eid. completed_frame (d_item d) eid (d_final d)) s))
      | (Decode_Raise, Opening) \<Rightarrow>
          Some (finish_decode w False d (emit w True (failed_frame (d_item d)) s))
      | (Decode_Raise, Streaming) \<Rightarrow>
          Some (finish_decode w False d (emit w True (failed_frame (d_item d)) s))
      | _ \<Rightarrow> None)"

text \<open>The \<open>except asyncio.CancelledError\<close> branch: cancel the stream, re-raise.\<close>

definition decode_unwind :: "world \<Rightarrow> decode \<Rightarrow> session \<Rightarrow> session option" where
  "decode_unwind w d s =
     (if d_cancel_requested d then
        Some (finish_decode w True d
          (if d_stage d = Streaming then s\<lparr>stream_cancels := Suc (stream_cancels s)\<rparr> else s))
      else None)"

text \<open>One message of the handler's loop. A handler that raises is answered with
  \<open>internal_error\<close>; a closed session leaves the loop.\<close>

definition on_message :: "world \<Rightarrow> (session \<Rightarrow> outcome) \<Rightarrow> session \<Rightarrow> session option" where
  "on_message w handler s =
     (if phase s \<noteq> Receiving then None
      else if closed s then Some (teardown_session s)
      else case handler s of
        Done s' \<Rightarrow> Some s'
      | Raised s' \<Rightarrow> Some (send_error w INTERNAL_ERROR ''internal error'' None s')
      | No_Model \<Rightarrow> None)"

definition with_decode :: "(decode \<Rightarrow> session \<Rightarrow> session option) \<Rightarrow> session \<Rightarrow> session option" where
  "with_decode f s =
     (case in_flight s of
        None \<Rightarrow> None
      | Some d \<Rightarrow> if d_stage d = Finished then None else f d s)"

definition session_step :: "world \<Rightarrow> event \<Rightarrow> session \<Rightarrow> session option" where
  "session_step w e s =
     (case e of
        Binary data \<Rightarrow> on_message w (\<lambda>s. Done (handle_binary_audio w data s)) s
      | Text raw \<Rightarrow> on_message w (handle_text w raw) s
      | Loop_End \<Rightarrow> if phase s = Receiving \<and> \<not> ws_open s then Some (teardown_session s) else None
      | Peer_Gone \<Rightarrow> Some (s\<lparr>ws_open := False\<rparr>)
      | Drain_Timeout \<Rightarrow>
          if phase s = Wait_Close then Some ((request_cancel s)\<lparr>phase := Wait_Close_Unwind\<rparr>)
          else None
      | Cancel_Decode \<Rightarrow> with_decode (\<lambda>d s. Some (request_cancel s)) s
      | Cancel_Handler \<Rightarrow>
          (case phase s of
             Receiving \<Rightarrow> Some (teardown_session s)
           | Wait_Close \<Rightarrow> Some (teardown_session s)
           | Ended \<Rightarrow> None
           | _ \<Rightarrow> Some (request_cancel s))
      | Shutdown_Begins \<Rightarrow> Some (s\<lparr>shutting_down := True\<rparr>)
      | Decode_Unwound \<Rightarrow> with_decode (decode_unwind w) s
      | _ \<Rightarrow> with_decode (decode_step w e) s)"

text \<open>The states a session passes through.\<close>

definition session_init :: "world \<Rightarrow> session \<Rightarrow> bool" where
  "session_init w s \<longleftrightarrow> (\<exists>n. s = open_session w n)"

inductive session_next :: "world \<Rightarrow> session \<Rightarrow> session \<Rightarrow> bool" for w where
  session_nextI: "session_step w e s = Some s' \<Longrightarrow> session_next w s s'"

inductive_cases session_nextE: "session_next w s s'"

section \<open>Reading frames\<close>

definition frame_type :: "json \<Rightarrow> string" where
  "frame_type f = (case f of JObj kvs \<Rightarrow> (case jget kvs ''type'' of Some (JStr t) \<Rightarrow> t | _ \<Rightarrow> []) | _ \<Rightarrow> [])"

definition frame_item :: "json \<Rightarrow> string option" where
  "frame_item f =
     (case f of JObj kvs \<Rightarrow> (case jget kvs ''item_id'' of Some (JStr i) \<Rightarrow> Some i | _ \<Rightarrow> None) | _ \<Rightarrow> None)"

text \<open>Frames that belong to no committed utterance and do not close the session.\<close>

definition neutral :: "json \<Rightarrow> bool" where
  "neutral f \<longleftrightarrow> frame_item f = None \<and> frame_type f \<noteq> EVT_SESSION_CLOSED"

definition is_terminal :: "json \<Rightarrow> bool" where
  "is_terminal f \<longleftrightarrow> frame_type f = EVT_TRANSCRIPT_COMPLETED \<or> frame_type f = EVT_TRANSCRIPT_FAILED"

lemma frame_types [simp]:
  "frame_type (hello_frame w e) = EVT_SERVER_HELLO"
  "frame_type (session_frame t e j) = t"
  "frame_type (error_frame c m cid e) = EVT_ERROR"
  "frame_type (ack_frame t e [] cid) = t"
  "frame_type (ack_frame t e [(''item_id'', i)] cid) = t"
  "frame_type (delta_frame i' e tx) = EVT_TRANSCRIPT_DELTA"
  "frame_type (completed_frame i' e tx) = EVT_TRANSCRIPT_COMPLETED"
  "frame_type (failed_frame i' e) = EVT_TRANSCRIPT_FAILED"
  "frame_type (closed_frame sid e r) = EVT_SESSION_CLOSED"
  "frame_type (status_frame w s) = EVT_SERVER_STATUS"
  by (simp_all add: frame_type_def hello_frame_def session_frame_def error_frame_def ack_frame_def
      delta_frame_def completed_frame_def failed_frame_def closed_frame_def status_frame_def jget_def
      split: option.splits)

lemma frame_items [simp]:
  "frame_item (hello_frame w e) = None"
  "frame_item (session_frame t e j) = None"
  "frame_item (error_frame c m cid e) = None"
  "frame_item (ack_frame t e [] cid) = None"
  "frame_item (ack_frame t e [(''item_id'', JStr i)] cid) = Some i"
  "frame_item (delta_frame i e tx) = Some i"
  "frame_item (completed_frame i e tx) = Some i"
  "frame_item (failed_frame i e) = Some i"
  "frame_item (closed_frame sid e r) = None"
  "frame_item (status_frame w s) = None"
  by (simp_all add: frame_item_def hello_frame_def session_frame_def error_frame_def ack_frame_def
      delta_frame_def completed_frame_def failed_frame_def closed_frame_def status_frame_def jget_def
      split: option.splits)

section \<open>Sends leave the session's data alone\<close>

lemma emit_cases:
  obtains (overflow) x where "emit w force mk s = s\<lparr>calls := Suc (calls s), closed := True, ws_open := False, ws_close := x\<rparr>"
  | (silent) "\<not> ws_open s" "emit w force mk s = s\<lparr>calls := Suc (calls s)\<rparr>"
  | (sent) "ws_open s" "emit w force mk s = s\<lparr>calls := Suc (calls s), sent := sent s @ [mk (event_id w s)]\<rparr>"
proof (cases "\<not> force \<and> \<not> closed s \<and> (case w_pending w (calls s) of None \<Rightarrow> False
     | Some p \<Rightarrow> p > cfg_send_queue_high_water_bytes (w_config w))")
  case True
  then have "emit w force mk s = s\<lparr>calls := Suc (calls s), closed := True, ws_open := False,
      ws_close := (if ws_open s then Some (1011, ''send_queue_overflow'') else ws_close s)\<rparr>"
    by (auto simp: emit_def send_def tick_def do_close_def Let_def intro!: session.equality)
  then show ?thesis by (rule overflow)
next
  case False
  then have "emit w force mk s =
    (if ws_open s then s\<lparr>calls := Suc (calls s), sent := sent s @ [mk (event_id w s)]\<rparr> else s\<lparr>calls := Suc (calls s)\<rparr>)"
    by (auto simp: emit_def send_def tick_def Let_def)
  then show ?thesis using silent sent by (cases "ws_open s") simp_all
qed

text \<open>What every reply that is not about an utterance leaves as it was.\<close>

definition quiet :: "session \<Rightarrow> session \<Rightarrow> bool" where
  "quiet s t \<longleftrightarrow>
     buffer t = buffer s \<and> in_flight t = in_flight s \<and> current_stream t = current_stream s \<and>
     phase t = phase s \<and> calls s \<le> calls t \<and> (closed s \<longrightarrow> closed t) \<and> (ws_open t \<longrightarrow> ws_open s) \<and>
     (config s ''turn_detection'' = Some JNull \<longrightarrow> config t ''turn_detection'' = Some JNull) \<and>
     (\<exists>fs. sent t = sent s @ fs \<and> (\<forall>f \<in> set fs. neutral f) \<and> (fs \<noteq> [] \<longrightarrow> ws_open s))"

lemma quiet_refl [simp]: "quiet s s"
  by (simp add: quiet_def)

lemma quiet_trans: "quiet s t \<Longrightarrow> quiet t u \<Longrightarrow> quiet s u"
proof -
  assume a: "quiet s t" and b: "quiet t u"
  obtain fs where fs: "sent t = sent s @ fs" "\<forall>f \<in> set fs. neutral f" "fs \<noteq> [] \<longrightarrow> ws_open s"
    using a by (auto simp: quiet_def)
  obtain gs where gs: "sent u = sent t @ gs" "\<forall>f \<in> set gs. neutral f" "gs \<noteq> [] \<longrightarrow> ws_open t"
    using b by (auto simp: quiet_def)
  have "\<exists>hs. sent u = sent s @ hs \<and> (\<forall>f \<in> set hs. neutral f) \<and> (hs \<noteq> [] \<longrightarrow> ws_open s)"
    by (rule exI [of _ "fs @ gs"]) (use fs gs a in \<open>auto simp: quiet_def\<close>)
  moreover have "calls s \<le> calls u" using a b unfolding quiet_def by linarith
  ultimately show ?thesis using a b unfolding quiet_def by simp
qed

lemma quiet_emit:
  assumes "neutral (mk (event_id w s))"
  shows "quiet s (emit w force mk s)"
  by (cases w force mk s rule: emit_cases) (auto simp: quiet_def assms)

lemma quiet_emit_after:
  "quiet s t \<Longrightarrow> neutral (mk (event_id w t)) \<Longrightarrow> quiet s (emit w force mk t)"
  by (blast intro: quiet_trans quiet_emit)

lemma neutral_frames [simp]:
  "neutral (hello_frame w e)"
  "neutral (session_frame EVT_SESSION_CREATED e j)"
  "neutral (session_frame EVT_TRANSCRIPTION_SESSION_CREATED e j)"
  "neutral (session_frame EVT_SESSION_UPDATED e j)"
  "neutral (session_frame EVT_TRANSCRIPTION_SESSION_UPDATED e j)"
  "neutral (error_frame c m cid e)"
  "neutral (ack_frame EVT_AUDIO_CLEARED e [] cid)"
  "neutral (status_frame w s)"
  by (simp_all add: neutral_def event_defs)

lemma quiet_error [simp]: "quiet s (send_error w c m cid s)"
  by (simp add: send_error_def quiet_emit)

lemma quiet_error_after: "quiet s t \<Longrightarrow> quiet s (send_error w c m cid t)"
  by (blast intro: quiet_trans quiet_error)

lemma on_status_emit: "on_status w s = emit w False (\<lambda>_. status_frame w s) s"
  by (simp add: on_status_def emit_def)

lemma quiet_status [simp]: "quiet s (on_status w s)"
  by (simp add: on_status_emit quiet_emit)

lemma scan_turn_detection_config:
  "scan_turn_detection ks c = (c', b) \<Longrightarrow> c ''turn_detection'' = Some JNull \<Longrightarrow> c' ''turn_detection'' = Some JNull"
  by (induction ks c rule: scan_turn_detection.induct) (auto split: option.splits if_splits)

lemma take_language_config: "take_language a b c ''turn_detection'' = c ''turn_detection''"
  by (auto simp: take_language_def Let_def split: option.splits json.splits)

lemma quiet_config:
  "c ''turn_detection'' = Some JNull \<or> config s ''turn_detection'' \<noteq> Some JNull \<Longrightarrow> quiet s (s\<lparr>config := c\<rparr>)"
  by (auto simp: quiet_def)

lemma quiet_session_update:
  assumes "on_session_update w msg cid s = Done t"
  shows "quiet s t"
proof -
  have c: "quiet s (s\<lparr>config := c\<rparr>)" "quiet s (s\<lparr>config := take_language x y c\<rparr>)"
    if "scan_turn_detection ks (config s) = (c, b)" for ks c b x y
    using scan_turn_detection_config [OF that] by (auto intro!: quiet_config simp: take_language_config)
  show ?thesis
    using assms
    by (auto simp: on_session_update_def Let_def split: option.splits prod.splits if_splits
        intro!: quiet_error_after quiet_emit_after intro: c simp del: scan_turn_detection.simps)
qed

lemma on_session_update_raised: "on_session_update w msg cid s = Raised t \<Longrightarrow> t = s"
  by (auto simp: on_session_update_def Let_def split: option.splits prod.splits if_splits)

lemma on_session_update_model: "on_session_update w msg cid s \<noteq> No_Model"
  by (auto simp: on_session_update_def Let_def split: option.splits prod.splits if_splits)

section \<open>The session invariant\<close>

abbreviation utterance_ok :: "world \<Rightarrow> byte list \<Rightarrow> bool" where
  "utterance_ok w a \<equiv> (a = [] \<or> int (length a) \<le> cfg_max_uncommitted_bytes (w_config w)) \<and> even (length a)"

definition data_inv :: "world \<Rightarrow> session \<Rightarrow> bool" where
  "data_inv w s \<longleftrightarrow>
     utterance_ok w (buffer s) \<and> config s ''turn_detection'' = Some JNull \<and>
     (\<forall>f \<in> set (butlast (sent s)). frame_type f \<noteq> EVT_SESSION_CLOSED) \<and>
     (ws_open s \<longrightarrow> (\<forall>f \<in> set (sent s). frame_type f \<noteq> EVT_SESSION_CLOSED)) \<and>
     (case in_flight s of
        None \<Rightarrow> \<not> current_stream s
      | Some d \<Rightarrow> d_audio d \<noteq> [] \<and> utterance_ok w (d_audio d) \<and>
          (d_stage d \<noteq> Finished \<longrightarrow> buffer s = []) \<and>
          current_stream s = (d_stage d = Streaming))"

definition phase_inv :: "session \<Rightarrow> bool" where
  "phase_inv s \<longleftrightarrow>
     (phase s = Ended \<longrightarrow> closed s \<and> \<not> busy s) \<and>
     (phase s \<in> {Wait_Close, Wait_Close_Unwind, Wait_Cancel_Unwind, Wait_Teardown} \<longrightarrow> busy s) \<and>
     (phase s \<in> {Wait_Close_Unwind, Wait_Cancel_Unwind, Wait_Teardown} \<longrightarrow>
        (\<forall>d. in_flight s = Some d \<longrightarrow> d_cancel_requested d))"

definition session_inv :: "world \<Rightarrow> session \<Rightarrow> bool" where
  "session_inv w s \<longleftrightarrow> data_inv w s \<and> phase_inv s"

lemma butlast_snoc_all:
  "(\<forall>f \<in> set xs. P f) \<Longrightarrow> \<forall>f \<in> set (butlast (xs @ ys)). f \<in> set xs \<or> f \<in> set ys"
  using in_set_butlastD by fastforce

lemma data_quiet:
  assumes "quiet s t" "data_inv w s"
  shows "data_inv w t"
proof -
  obtain fs where fs: "sent t = sent s @ fs" "\<forall>f \<in> set fs. neutral f" "fs \<noteq> [] \<longrightarrow> ws_open s"
    using assms(1) by (auto simp: quiet_def)
  have "\<forall>f \<in> set (butlast (sent t)). frame_type f \<noteq> EVT_SESSION_CLOSED"
    using fs assms(2) by (cases "fs = []") (auto simp: data_inv_def neutral_def butlast_append dest: in_set_butlastD)
  moreover have "ws_open t \<longrightarrow> (\<forall>f \<in> set (sent t). frame_type f \<noteq> EVT_SESSION_CLOSED)"
    using fs assms by (auto simp: data_inv_def quiet_def neutral_def)
  ultimately show ?thesis using assms by (auto simp: data_inv_def quiet_def split: option.splits)
qed

lemma phase_quiet: "quiet s t \<Longrightarrow> phase_inv s \<Longrightarrow> phase_inv t"
  by (auto simp: phase_inv_def quiet_def busy_def)

lemma session_quiet: "quiet s t \<Longrightarrow> session_inv w s \<Longrightarrow> session_inv w t"
  by (auto simp: session_inv_def intro: data_quiet phase_quiet)

lemma emit_fields [simp]:
  "buffer (emit w f mk s) = buffer s" "in_flight (emit w f mk s) = in_flight s"
  "current_stream (emit w f mk s) = current_stream s" "phase (emit w f mk s) = phase s"
  "config (emit w f mk s) = config s" "shutting_down (emit w f mk s) = shutting_down s"
  "calls (emit w f mk s) = Suc (calls s)" "session_id (emit w f mk s) = session_id s"
  by (cases w f mk s rule: emit_cases; simp)+

lemma emit_forced_closed [simp]: "closed (emit w True mk s) = closed s"
  by (simp add: emit_def send_def tick_def Let_def)

lemma emit_closed: "closed s \<Longrightarrow> closed (emit w f mk s)"
  by (cases w f mk s rule: emit_cases) simp_all

lemma busy_emit [simp]: "busy (emit w f mk s) = busy s"
  by (simp add: busy_def)

text \<open>A frame about an utterance keeps the invariant as a neutral one does.\<close>

lemma data_emit:
  assumes "data_inv w s" "frame_type (mk (event_id w s)) \<noteq> EVT_SESSION_CLOSED"
  shows "data_inv w (emit w f mk s)"
  using assms
  by (cases w f mk s rule: emit_cases)
    (auto simp: data_inv_def butlast_append dest: in_set_butlastD split: option.splits)

lemma phase_emit: "phase_inv s \<Longrightarrow> phase_inv (emit w f mk s)"
  by (auto simp: phase_inv_def emit_closed)

lemma data_fields:
  "data_inv w (s\<lparr>closed := b\<rparr>) = data_inv w s" "data_inv w (s\<lparr>phase := p\<rparr>) = data_inv w s"
  "data_inv w (s\<lparr>stream_cancels := n\<rparr>) = data_inv w s" "data_inv w (s\<lparr>calls := n\<rparr>) = data_inv w s"
  "data_inv w (s\<lparr>shutting_down := b\<rparr>) = data_inv w s"
  by (simp_all add: data_inv_def cong: option.case_cong)

lemma busy_fields [simp]:
  "busy (s\<lparr>closed := b\<rparr>) = busy s" "busy (s\<lparr>phase := p\<rparr>) = busy s"
  "busy (s\<lparr>stream_cancels := n\<rparr>) = busy s" "busy (s\<lparr>calls := n\<rparr>) = busy s"
  "busy (s\<lparr>shutting_down := f\<rparr>) = busy s" "busy (s\<lparr>buffer := a\<rparr>) = busy s"
  "busy (s\<lparr>ws_open := f\<rparr>) = busy s" "busy (s\<lparr>current_stream := f\<rparr>) = busy s"
  by (simp_all add: busy_def)

lemma request_cancel_data: "data_inv w s \<Longrightarrow> data_inv w (request_cancel s)"
  by (auto simp: data_inv_def request_cancel_def split: option.splits)

lemma request_cancel_busy [simp]: "busy (request_cancel s) = busy s"
  by (simp add: busy_def request_cancel_def split: option.splits)

lemma request_cancel_fields [simp]:
  "phase (request_cancel s) = phase s" "closed (request_cancel s) = closed s"
  "buffer (request_cancel s) = buffer s" "sent (request_cancel s) = sent s"
  "ws_open (request_cancel s) = ws_open s" "calls (request_cancel s) = calls s"
  "in_flight (request_cancel s) = Some d \<Longrightarrow> d_cancel_requested d"
  by (auto simp: request_cancel_def split: option.splits)

lemma wait_inv:
  assumes "data_inv w s" "busy s" "p \<noteq> Ended"
  shows "session_inv w ((request_cancel s)\<lparr>phase := p\<rparr>)"
  using request_cancel_data [OF assms(1)] assms(2,3)
  by (auto simp: session_inv_def phase_inv_def data_fields)

lemma finish_close_inv:
  assumes "data_inv w s"
  shows "session_inv w (finish_close w r s)"
proof -
  let ?t = "emit w True (\<lambda>eid. closed_frame (session_id s) eid r) (s\<lparr>closed := True\<rparr>)"
  have "data_inv w (do_close 1000 [] ?t)"
    using assms
    by (cases w True "\<lambda>eid. closed_frame (session_id s) eid r" "s\<lparr>closed := True\<rparr>" rule: emit_cases)
      (auto simp: data_inv_def do_close_def split: option.splits)
  then show ?thesis by (simp add: session_inv_def finish_close_def phase_inv_def data_fields)
qed

lemma teardown_inv: "data_inv w s \<Longrightarrow> session_inv w (teardown_session s)"
  by (auto simp: teardown_session_def wait_inv) (auto simp: session_inv_def phase_inv_def data_fields)

lemma resume_handler_inv:
  "data_inv w s \<Longrightarrow> \<not> busy s \<Longrightarrow> phase s = Ended \<longrightarrow> closed s \<Longrightarrow> session_inv w (resume_handler w c s)"
  by (auto simp: resume_handler_def finish_close_inv teardown_inv split: phase.splits)
    (auto simp: session_inv_def phase_inv_def data_fields busy_def)

lemma finish_decode_inv:
  assumes "data_inv w s" "in_flight s = Some d" "d_stage d \<noteq> Finished" "phase s = Ended \<longrightarrow> closed s"
  shows "session_inv w (finish_decode w c d s)"
  unfolding finish_decode_def
  by (rule resume_handler_inv) (use assms in \<open>auto simp: data_inv_def busy_def\<close>)

lemma handle_binary_audio_inv:
  "session_inv w s \<Longrightarrow> session_inv w (handle_binary_audio w data s)"
  by (auto simp: handle_binary_audio_def session_quiet [OF quiet_error])
    (auto simp: session_inv_def data_inv_def phase_inv_def busy_def AUDIO_SAMPLE_WIDTH_BYTES_def
      split: option.splits)

lemma on_audio_append_json_inv:
  "session_inv w s \<Longrightarrow> session_inv w (on_audio_append_json w msg s)"
  by (auto simp: on_audio_append_json_def session_quiet [OF quiet_error] handle_binary_audio_inv
      split: option.splits json.splits sum.splits)

lemma on_commit_inv:
  assumes "session_inv w s" "phase s = Receiving"
  shows "session_inv w (on_commit w cid s)"
proof (cases "buffer s = [] \<or> busy s")
  case True
  then show ?thesis using assms by (auto simp: on_commit_def session_quiet [OF quiet_error])
next
  case False
  let ?s1 = "emit w False (\<lambda>eid. ack_frame EVT_AUDIO_COMMITTED eid [(''item_id'', JStr (item_id w s))] cid)
     (tick (s\<lparr>buffer := []\<rparr>))"
  have "data_inv w (tick (s\<lparr>buffer := []\<rparr>))"
    using assms False by (auto simp: session_inv_def data_inv_def tick_def busy_def split: option.splits)
  then have "data_inv w ?s1" by (rule data_emit) (simp add: event_defs)
  then show ?thesis
    using assms False
    by (auto simp: on_commit_def Let_def session_inv_def data_inv_def phase_inv_def busy_def tick_def
        split: option.splits)
qed

lemma on_clear_inv:
  assumes "session_inv w s"
  shows "session_inv w (on_clear w cid s)"
proof (cases "busy s")
  case True
  then show ?thesis using assms by (simp add: on_clear_def session_quiet [OF quiet_error])
next
  case False
  have "session_inv w (s\<lparr>buffer := []\<rparr>)"
    using assms by (auto simp: session_inv_def data_inv_def phase_inv_def busy_def split: option.splits)
  then show ?thesis using False by (simp add: on_clear_def session_quiet [OF quiet_emit])
qed

lemma on_close_inv:
  assumes "session_inv w s"
  shows "session_inv w (on_close w s)"
proof -
  have d: "data_inv w s" using assms by (simp add: session_inv_def)
  have "busy s \<Longrightarrow> session_inv w (s\<lparr>phase := Wait_Close\<rparr>)"
    using d by (simp add: session_inv_def phase_inv_def data_fields)
  then show ?thesis
    using assms finish_close_inv [OF d] finish_close_inv [OF request_cancel_data [OF d]]
    by (simp add: on_close_def)
qed

lemma on_cancel_inv:
  assumes "session_inv w s"
  shows "session_inv w (on_cancel w s)"
proof -
  have "data_inv w (s\<lparr>buffer := []\<rparr>)"
    using assms by (auto simp: session_inv_def data_inv_def split: option.splits)
  then have "data_inv w (if current_stream s then s\<lparr>buffer := [], stream_cancels := Suc (stream_cancels s)\<rparr>
      else s\<lparr>buffer := []\<rparr>)"
    using data_fields(3) [where s = "s\<lparr>buffer := []\<rparr>"] by simp
  then show ?thesis
    using assms wait_inv [of w _ Wait_Cancel_Unwind] finish_close_inv [of w]
    by (cases "current_stream s"; cases "busy s"; cases "closed s") (simp_all add: on_cancel_def Let_def)
qed

lemma dispatch_inv:
  assumes "session_inv w s" "phase s = Receiving" "dispatch w t msg cid s = Done s'"
  shows "session_inv w s'"
  using assms quiet_session_update [of w msg cid s s']
  by (auto simp: dispatch_def on_audio_append_json_inv on_commit_inv on_clear_inv on_close_inv
      on_cancel_inv session_quiet [OF quiet_status] intro: session_quiet split: if_splits)

lemma dispatch_raised: "dispatch w t msg cid s = Raised s' \<Longrightarrow> s' = s"
  by (auto simp: dispatch_def dest: on_session_update_raised split: if_splits)

lemma handle_text_inv:
  assumes "session_inv w s" "phase s = Receiving" "handle_text w raw s = Done s'"
  shows "session_inv w s'"
  using assms dispatch_inv [OF assms(1,2)]
  by (auto simp: handle_text_def handle_message_def Let_def session_quiet [OF quiet_error]
      split: loaded.splits json.splits option.splits if_splits)

lemma handle_text_raised: "handle_text w raw s = Raised s' \<Longrightarrow> s' = s"
  by (auto simp: handle_text_def handle_message_def Let_def dest: dispatch_raised
      split: loaded.splits json.splits option.splits if_splits)

lemma on_message_inv:
  assumes "session_inv w s" "on_message w h s = Some t"
    and "\<And>s'. h s = Done s' \<Longrightarrow> phase s = Receiving \<Longrightarrow> session_inv w s'" "\<And>s'. h s = Raised s' \<Longrightarrow> s' = s"
  shows "session_inv w t"
proof -
  have d: "data_inv w s" using assms(1) by (simp add: session_inv_def)
  show ?thesis
    using assms(2) teardown_inv [OF d] session_quiet [OF quiet_error assms(1)] assms(3,4)
    by (auto simp: on_message_def split: if_splits outcome.splits)
qed

lemma decode_step_inv:
  assumes "session_inv w s" "in_flight s = Some d" "d_stage d \<noteq> Finished" "decode_step w e d s = Some t"
  shows "session_inv w t"
proof -
  have d: "data_inv w s" and e: "phase s = Ended \<longrightarrow> closed s" and nc: "\<not> d_cancel_requested d"
    using assms by (auto simp: session_inv_def phase_inv_def decode_step_def)
  have upd: "session_inv w (s\<lparr>in_flight := Some d', current_stream := b\<rparr>)"
    if "d_audio d' = d_audio d" "d_stage d' \<noteq> Finished" "b = (d_stage d' = Streaming)" for d' b
    using assms(1-3) nc that by (auto simp: session_inv_def data_inv_def phase_inv_def busy_def)
  have same: "s\<lparr>in_flight := Some d', current_stream := current_stream s\<rparr> = s\<lparr>in_flight := Some d'\<rparr>" for d'
    by simp
  have stream: "current_stream s = (d_stage d = Streaming)" using d assms(2) by (simp add: data_inv_def)
  have fin: "session_inv w (finish_decode w False d (emit w f mk s))"
    if "\<And>i. frame_type (mk i) \<noteq> EVT_SESSION_CLOSED" for f mk
    by (rule finish_decode_inv) (use assms(2,3) d e that in \<open>auto intro: data_emit emit_closed\<close>)
  have em: "session_inv w (emit w f mk s)" if "\<And>i. frame_type (mk i) \<noteq> EVT_SESSION_CLOSED" for f mk
    using assms(1) that by (auto simp: session_inv_def intro: data_emit phase_emit)
  show ?thesis
    using assms(4) nc assms(1,3) stream upd [of _ "current_stream s", unfolded same] upd [of _ True]
    by (auto simp: decode_step_def event_defs intro!: fin em split: event.splits decode_stage.splits if_splits)
qed

lemma decode_unwind_inv:
  assumes "session_inv w s" "in_flight s = Some d" "d_stage d \<noteq> Finished" "decode_unwind w d s = Some t"
  shows "session_inv w t"
  using assms
  by (auto simp: decode_unwind_def session_inv_def [of w s] data_fields phase_inv_def intro!: finish_decode_inv
      split: if_splits)

lemma with_decode_inv:
  assumes "with_decode f s = Some t" "\<And>d. in_flight s = Some d \<Longrightarrow> d_stage d \<noteq> Finished \<Longrightarrow> f d s = Some t \<Longrightarrow> P"
  shows P
  using assms by (auto simp: with_decode_def split: option.splits if_splits)

lemma request_cancel_inv: "session_inv w s \<Longrightarrow> session_inv w (request_cancel s)"
  by (auto simp: session_inv_def request_cancel_data phase_inv_def)

lemma session_step_inv:
  assumes "session_inv w s" "session_step w e s = Some t"
  shows "session_inv w t"
proof -
  have d: "data_inv w s" using assms(1) by (simp add: session_inv_def)
  have dec: "session_inv w t" if "with_decode (decode_step w e') s = Some t" for e'
    using that by (rule with_decode_inv) (rule decode_step_inv [OF assms(1)])
  have unw: "session_inv w t" if "with_decode (decode_unwind w) s = Some t"
    using that by (rule with_decode_inv) (rule decode_unwind_inv [OF assms(1)])
  have bin: "session_inv w t" if "on_message w (\<lambda>s. Done (handle_binary_audio w b s)) s = Some t" for b
    by (rule on_message_inv [OF assms(1) that]) (auto intro: handle_binary_audio_inv [OF assms(1)])
  have tex: "session_inv w t" if "on_message w (handle_text w r) s = Some t" for r
    by (rule on_message_inv [OF assms(1) that]) (auto intro: handle_text_inv [OF assms(1)] dest: handle_text_raised)
  have gone: "session_inv w (s\<lparr>ws_open := False\<rparr>)" "session_inv w (s\<lparr>shutting_down := True\<rparr>)"
    using assms(1) by (auto simp: session_inv_def phase_inv_def data_inv_def split: option.splits)
  have wait: "busy s \<Longrightarrow> session_inv w ((request_cancel s)\<lparr>phase := Wait_Close_Unwind\<rparr>)"
    using wait_inv [OF d] by simp
  have b: "phase s = Wait_Close \<Longrightarrow> busy s" using assms(1) by (simp add: session_inv_def phase_inv_def)
  show ?thesis
    using assms(2) bin tex dec unw gone teardown_inv [OF d] wait b request_cancel_inv [OF assms(1)]
    by (cases e) (auto simp: session_step_def with_decode_def split: if_splits phase.splits option.splits)
qed

lemma open_session_inv: "session_inv w (open_session w n)"
proof -
  let ?s0 = "\<lparr>session_id = fresh_session_id w n, config = [''turn_detection'' \<mapsto> JNull],
                buffer = [], in_flight = None, current_stream = False, stream_cancels = 0,
                closed = False, started = w_monotonic w n, phase = Receiving, ws_open = True,
                ws_close = None, sent = [], calls = Suc n, shutting_down = False\<rparr>"
  have "session_inv w ?s0" by (simp add: session_inv_def data_inv_def phase_inv_def busy_def)
  then show ?thesis
    unfolding open_session_def Let_def by (rule session_quiet [rotated]) (intro quiet_emit_after quiet_emit neutral_frames)
qed

interpretation session: invariant_system "session_init w" "session_next w" "session_inv w"
  by unfold_locales (auto simp: session_init_def open_session_inv elim!: session_nextE intro: session_step_inv)

abbreviation session_reach :: "world \<Rightarrow> session \<Rightarrow> bool" where
  "session_reach w \<equiv> reach (session_init w) (session_next w)"

end
