(* ===== verification/Session_Turns.thy ===== *)
theory Session_Turns
  imports Session
begin

text \<open>
  The contract of a session towards its client, stated as a small abstract machine of
  turns: audio is collected, a commit names the utterance and starts its decode, the decode
  reports deltas and ends once. The session of \<open>Session\<close> is shown to implement it,
  so what the machine promises of the frames about an utterance (an acknowledgement first,
  at most one terminal frame, fresh names) holds of every session.
\<close>

section \<open>The abstract machine\<close>

datatype turn = Collecting "byte list" | Decoding string "byte list"

text \<open>The state: the turn, the uuids drawn so far, whether the socket is open, and the frames
  about utterances sent so far.\<close>

type_synonym turns = "turn \<times> nat \<times> bool \<times> json list"

definition item_name :: "world \<Rightarrow> nat \<Rightarrow> string" where
  "item_name w n = ''item_'' @ take 16 (w_uuid w n)"

definition about_item :: "json \<Rightarrow> bool" where
  "about_item f \<longleftrightarrow> frame_item f \<noteq> None"

text \<open>A frame goes out on an open socket; one that does not leaves the socket closed.\<close>

definition goes_out :: "bool \<Rightarrow> json \<Rightarrow> json list \<Rightarrow> bool \<Rightarrow> bool" where
  "goes_out o1 f fs o2 \<longleftrightarrow> (fs = [f] \<and> o1) \<or> (fs = [] \<and> \<not> o2)"

inductive turn_step :: "world \<Rightarrow> turns \<Rightarrow> turns \<Rightarrow> bool" for w where
  stay: "n \<le> n' \<Longrightarrow> (o2 \<longrightarrow> o1) \<Longrightarrow> turn_step w (t, n, o1, h) (t, n', o2, h)"
| collect: "n \<le> n' \<Longrightarrow> (o2 \<longrightarrow> o1) \<Longrightarrow> even (length data) \<Longrightarrow>
    int (length (b @ data)) \<le> cfg_max_uncommitted_bytes (w_config w) \<Longrightarrow>
    turn_step w (Collecting b, n, o1, h) (Collecting (b @ data), n', o2, h)"
| discard: "n \<le> n' \<Longrightarrow> (o2 \<longrightarrow> o1) \<Longrightarrow>
    turn_step w (Collecting b, n, o1, h) (Collecting [], n', o2, h)"
| commit: "n \<le> k \<Longrightarrow> k < n' \<Longrightarrow> (o2 \<longrightarrow> o1) \<Longrightarrow> b \<noteq> [] \<Longrightarrow>
    frame_type f = EVT_AUDIO_COMMITTED \<Longrightarrow> frame_item f = Some (item_name w k) \<Longrightarrow>
    goes_out o1 f fs o2 \<Longrightarrow>
    turn_step w (Collecting b, n, o1, h) (Decoding (item_name w k) b, n', o2, h @ fs)"
| report: "n \<le> n' \<Longrightarrow> (o2 \<longrightarrow> o1) \<Longrightarrow>
    frame_type f = EVT_TRANSCRIPT_DELTA \<Longrightarrow> frame_item f = Some i \<Longrightarrow> goes_out o1 f fs o2 \<Longrightarrow>
    turn_step w (Decoding i a, n, o1, h) (Decoding i a, n', o2, h @ fs)"
| finish: "n \<le> n' \<Longrightarrow> (o2 \<longrightarrow> o1) \<Longrightarrow> is_terminal f \<Longrightarrow> frame_item f = Some i \<Longrightarrow>
    goes_out o1 f fs o2 \<Longrightarrow>
    turn_step w (Decoding i a, n, o1, h) (Collecting [], n', o2, h @ fs)"
| abort: "n \<le> n' \<Longrightarrow> (o2 \<longrightarrow> o1) \<Longrightarrow>
    turn_step w (Decoding i a, n, o1, h) (Collecting [], n', o2, h)"

inductive_cases turn_stepE: "turn_step w s t"

definition turns_init :: "turns \<Rightarrow> bool" where
  "turns_init s \<longleftrightarrow> (\<exists>n b. s = (Collecting [], n, b, []))"

definition terminals :: "string \<Rightarrow> json list \<Rightarrow> nat" where
  "terminals i fs = length (filter (\<lambda>f. is_terminal f \<and> frame_item f = Some i) fs)"

text \<open>Every frame about an utterance, other than its acknowledgement, follows it.\<close>

fun announced_after :: "json list \<Rightarrow> json list \<Rightarrow> bool" where
  "announced_after seen [] = True"
| "announced_after seen (f # fs) =
     ((case frame_item f of
         None \<Rightarrow> True
       | Some i \<Rightarrow> frame_type f = EVT_AUDIO_COMMITTED \<or>
           list_ex (\<lambda>g. frame_type g = EVT_AUDIO_COMMITTED \<and> frame_item g = Some i) seen)
      \<and> announced_after (f # seen) fs)"

abbreviation announced :: "json list \<Rightarrow> bool" where
  "announced \<equiv> announced_after []"

definition turns_inv :: "world \<Rightarrow> turns \<Rightarrow> bool" where
  "turns_inv w s = (case s of (t, n, op, h) \<Rightarrow>
     (\<forall>f \<in> set h. \<forall>i. frame_item f = Some i \<longrightarrow> (\<exists>k < n. i = item_name w k)) \<and>
     (\<forall>i. terminals i h \<le> 1) \<and> announced h \<and>
     (case t of Collecting b \<Rightarrow> True
      | Decoding i a \<Rightarrow> (\<exists>k < n. i = item_name w k) \<and> terminals i h = 0 \<and>
          (op \<longrightarrow> (\<exists>f \<in> set h. frame_type f = EVT_AUDIO_COMMITTED \<and> frame_item f = Some i))))"

lemma terminals_Nil [simp]: "terminals i [] = 0"
  by (simp add: terminals_def)

lemma terminals_append: "terminals i (h @ fs) = terminals i h + terminals i fs"
  by (simp add: terminals_def)

lemma terminals_single: "terminals i [f] = (if is_terminal f \<and> frame_item f = Some i then 1 else 0)"
  by (simp add: terminals_def)

lemma terminals_zero: "(\<forall>f \<in> set h. frame_item f \<noteq> Some i) \<Longrightarrow> terminals i h = 0"
  by (auto simp: terminals_def filter_empty_conv)

lemma announced_after_snoc:
  "announced_after seen (h @ [f]) \<longleftrightarrow> announced_after seen h \<and>
     (case frame_item f of
        None \<Rightarrow> True
      | Some i \<Rightarrow> frame_type f = EVT_AUDIO_COMMITTED \<or>
          (\<exists>g \<in> set seen \<union> set h. frame_type g = EVT_AUDIO_COMMITTED \<and> frame_item g = Some i))"
  by (induction seen h rule: announced_after.induct) (auto simp: list_ex_iff split: option.splits)

lemmas announced_snoc = announced_after_snoc [of "[]", simplified]

text \<open>The uuids drawn so far are pairwise different in the sixteen digits that are used.\<close>

definition distinct_draws :: "world \<Rightarrow> nat \<Rightarrow> bool" where
  "distinct_draws w n \<longleftrightarrow> distinct (map (\<lambda>k. take 16 (w_uuid w k)) [0..<n])"

lemma item_name_inj:
  assumes "distinct_draws w n" "j < n" "k < n"
  shows "item_name w j = item_name w k \<longleftrightarrow> j = k"
  using assms nth_eq_iff_index_eq [of "map (\<lambda>k. take 16 (w_uuid w k)) [0..<n]" j k]
  by (auto simp: item_name_def distinct_draws_def)

lemma distinct_draws_less: "distinct_draws w n' \<Longrightarrow> n \<le> n' \<Longrightarrow> distinct_draws w n"
proof -
  assume a: "distinct_draws w n'" "n \<le> n'"
  have "[0..<n'] = [0..<n] @ [n..<n']" using a(2) by (metis add_diff_inverse_nat le0 not_less upt_add_eq_append)
  then show ?thesis using a(1) by (simp add: distinct_draws_def)
qed

lemma weaken_names:
  "k < n \<Longrightarrow> n \<le> n' \<Longrightarrow> (\<exists>j < n'. item_name w k = item_name w j)"
  by (rule exI [of _ k]) simp

lemma turns_inv_step:
  assumes inj: "distinct_draws w (fst (snd t))" and inv: "turns_inv w s" and step: "turn_step w s t"
  shows "turns_inv w t"
  using step
proof (cases rule: turn_step.cases)
  case (commit n k n' o2 o1 b f fs h)
  have "item_name w k \<noteq> item_name w j" if "j < n" for j
    using item_name_inj [OF inj, of k j] commit that by simp
  then have fresh: "terminals (item_name w k) h = 0"
    using inv commit by (intro terminals_zero) (fastforce simp: turns_inv_def)
  have nt: "\<not> is_terminal f" using commit by (simp add: is_terminal_def event_defs)
  have old: "\<forall>g \<in> set h. \<forall>i. frame_item g = Some i \<longrightarrow> (\<exists>j < n'. i = item_name w j)"
    using inv commit by (fastforce simp: turns_inv_def intro: weaken_names)
  show ?thesis
  proof (cases "fs = []")
    case True
    then show ?thesis using inv commit fresh old by (auto simp: turns_inv_def goes_out_def)
  next
    case False
    then have "fs = [f]" using commit by (auto simp: goes_out_def)
    then show ?thesis
      using inv commit fresh nt old
      by (auto simp: turns_inv_def terminals_append terminals_single announced_snoc)
  qed
next
  case (report n n' o2 o1 f i fs a h)
  have nt: "\<not> is_terminal f" using report by (simp add: is_terminal_def event_defs)
  have nc: "frame_type f \<noteq> EVT_AUDIO_COMMITTED" using report by (simp add: event_defs)
  show ?thesis
    using inv report nt nc
    by (auto simp: turns_inv_def goes_out_def terminals_append terminals_single announced_snoc
        intro: less_le_trans weaken_names)
next
  case (finish n n' o2 o1 f i fs a h)
  have nc: "frame_type f \<noteq> EVT_AUDIO_COMMITTED" using finish by (auto simp: is_terminal_def event_defs)
  show ?thesis
    using inv finish nc
    by (auto simp: turns_inv_def goes_out_def terminals_append terminals_single announced_snoc
        intro: less_le_trans weaken_names)
qed (use inv in \<open>auto simp: turns_inv_def split: turn.splits intro: less_le_trans weaken_names\<close>)

section \<open>Every session implements it\<close>

definition turn_of :: "session \<Rightarrow> turn" where
  "turn_of s =
     (case in_flight s of
        None \<Rightarrow> Collecting (buffer s)
      | Some d \<Rightarrow> if d_stage d = Finished then Collecting (buffer s)
                  else Decoding (d_item d) (d_audio d))"

definition turns_of :: "session \<Rightarrow> turns" where
  "turns_of s = (turn_of s, calls s, ws_open s, filter about_item (sent s))"

lemma turn_idle: "\<not> busy s \<Longrightarrow> turn_of s = Collecting (buffer s)"
  by (auto simp: turn_of_def busy_def split: option.splits)

lemma turn_busy: "in_flight s = Some d \<Longrightarrow> d_stage d \<noteq> Finished \<Longrightarrow> turn_of s = Decoding (d_item d) (d_audio d)"
  by (simp add: turn_of_def)

lemma turn_of_same: "buffer t = buffer s \<Longrightarrow> in_flight t = in_flight s \<Longrightarrow> turn_of t = turn_of s"
  by (auto simp: turn_of_def split: option.splits)

lemma filter_neutral: "(\<forall>f \<in> set fs. neutral f) \<Longrightarrow> filter about_item fs = []"
  by (auto simp: filter_empty_conv neutral_def about_item_def)

text \<open>A step of the session that keeps the turn.\<close>

definition keeps_turn :: "session \<Rightarrow> session \<Rightarrow> bool" where
  "keeps_turn s t \<longleftrightarrow> turn_of t = turn_of s \<and> calls s \<le> calls t \<and> (ws_open t \<longrightarrow> ws_open s) \<and>
     filter about_item (sent t) = filter about_item (sent s)"

lemma keeps_turn_step: "keeps_turn s t \<Longrightarrow> turn_step w (turns_of s) (turns_of t)"
  by (auto simp: keeps_turn_def turns_of_def intro: stay)

lemma keeps_turn_trans: "keeps_turn s t \<Longrightarrow> keeps_turn t u \<Longrightarrow> keeps_turn s u"
  by (auto simp: keeps_turn_def)

lemma keeps_turn_refl [simp]: "keeps_turn s s"
  by (simp add: keeps_turn_def)

lemma keeps_quiet: "quiet s t \<Longrightarrow> keeps_turn s t"
  by (auto simp: quiet_def keeps_turn_def filter_neutral intro: turn_of_same)

lemma turn_of_fields [simp]:
  "turn_of (s\<lparr>closed := b\<rparr>) = turn_of s" "turn_of (s\<lparr>phase := p\<rparr>) = turn_of s"
  "turn_of (s\<lparr>stream_cancels := n\<rparr>) = turn_of s" "turn_of (s\<lparr>calls := n\<rparr>) = turn_of s"
  "turn_of (s\<lparr>ws_open := b\<rparr>) = turn_of s" "turn_of (s\<lparr>ws_close := x\<rparr>) = turn_of s"
  "turn_of (s\<lparr>shutting_down := b\<rparr>) = turn_of s" "turn_of (s\<lparr>config := c\<rparr>) = turn_of s"
  "turn_of (s\<lparr>sent := fs\<rparr>) = turn_of s" "turn_of (s\<lparr>current_stream := b\<rparr>) = turn_of s"
  by (rule turn_of_same; simp)+

lemma turn_request_cancel [simp]: "turn_of (request_cancel s) = turn_of s"
  by (simp add: turn_of_def request_cancel_def split: option.splits)

lemma keeps_request_cancel: "keeps_turn s (request_cancel s)"
  by (simp add: keeps_turn_def)

lemma keeps_fields:
  "keeps_turn s (t\<lparr>closed := b\<rparr>) = keeps_turn s t" "keeps_turn s (t\<lparr>phase := p\<rparr>) = keeps_turn s t"
  "keeps_turn s (t\<lparr>stream_cancels := n\<rparr>) = keeps_turn s t"
  "keeps_turn s (t\<lparr>shutting_down := b\<rparr>) = keeps_turn s t"
  by (simp_all add: keeps_turn_def)

lemma emit_turn [simp]: "turn_of (emit w f mk s) = turn_of s"
  by (rule turn_of_same) simp_all

text \<open>The frames about utterances a send adds.\<close>

lemma emit_item:
  assumes "frame_item (mk (event_id w s)) \<noteq> None"
  obtains fs where "filter about_item (sent (emit w f mk s)) = filter about_item (sent s) @ fs"
    "goes_out (ws_open s) (mk (event_id w s)) fs (ws_open (emit w f mk s))"
    "ws_open (emit w f mk s) \<longrightarrow> ws_open s"
  using assms
  by (cases w f mk s rule: emit_cases) (auto simp: goes_out_def about_item_def)

lemma emit_none:
  assumes "frame_item (mk (event_id w s)) = None"
  shows "keeps_turn s (emit w f mk s)"
  using assms
  by (cases w f mk s rule: emit_cases) (auto simp: keeps_turn_def about_item_def)

lemma keeps_do_close: "keeps_turn s t \<Longrightarrow> keeps_turn s (do_close c r t)"
  by (auto simp: do_close_def keeps_turn_def)

lemma keeps_finish_close: "keeps_turn s (finish_close w r s)"
proof -
  have "keeps_turn (s\<lparr>closed := True\<rparr>)
      (emit w True (\<lambda>eid. closed_frame (session_id s) eid r) (s\<lparr>closed := True\<rparr>))"
    by (rule emit_none) simp
  then have "keeps_turn s (emit w True (\<lambda>eid. closed_frame (session_id s) eid r) (s\<lparr>closed := True\<rparr>))"
    by (simp add: keeps_turn_def)
  then show ?thesis by (simp add: finish_close_def keeps_fields keeps_do_close)
qed

lemma keeps_teardown: "keeps_turn s (teardown_session s)"
  using keeps_request_cancel [of s] by (simp add: teardown_session_def keeps_fields)

lemma keeps_resume: "keeps_turn s (resume_handler w c s)"
  using keeps_finish_close [of s] keeps_teardown [of s]
  by (simp add: resume_handler_def keeps_fields split: phase.splits)

lemma goes_out_closes: "goes_out o1 f fs o2 \<Longrightarrow> (o3 \<longrightarrow> o2) \<Longrightarrow> goes_out o1 f fs o3"
  by (auto simp: goes_out_def)

lemma turn_step_closes:
  assumes "turn_step w s (t, n, o2, h)" "n \<le> n'" "o3 \<longrightarrow> o2"
  shows "turn_step w s (t, n', o3, h)"
  using assms(1)
proof (cases rule: turn_step.cases)
  case (commit m k o1 b f fs h0)
  then show ?thesis
    using assms(2,3) turn_step.commit [of m k n' o3 o1 b f w fs h0] goes_out_closes [of o1 f fs o2 o3] by auto
next
  case (report m o1 f i fs a h0)
  then show ?thesis
    using assms(2,3) turn_step.report [of m n' o3 o1 f i fs w a h0] goes_out_closes [of o1 f fs o2 o3] by auto
next
  case (finish m o1 f i fs a h0)
  then show ?thesis
    using assms(2,3) turn_step.finish [of m n' o3 o1 f i fs w a h0] goes_out_closes [of o1 f fs o2 o3] by auto
qed (use assms(2,3) in \<open>auto intro: turn_step.intros\<close>)

lemma keeps_then:
  assumes "turn_step w (turns_of s) (turns_of t)" "keeps_turn t u"
  shows "turn_step w (turns_of s) (turns_of u)"
proof -
  have "turns_of u = (turn_of t, calls u, ws_open u, filter about_item (sent t))"
    "calls t \<le> calls u" "ws_open u \<longrightarrow> ws_open t"
    using assms(2) by (auto simp: keeps_turn_def turns_of_def)
  then show ?thesis using turn_step_closes [OF assms(1) [unfolded turns_of_def [of t]]] by simp
qed

subsection \<open>Operation by operation\<close>

lemma handle_binary_audio_turn:
  "turn_step w (turns_of s) (turns_of (handle_binary_audio w data s))"
proof -
  have err: "turn_step w (turns_of s) (turns_of (send_error w c m cid s))" for c m cid
    by (intro keeps_turn_step keeps_quiet quiet_error)
  have add: "turn_step w (turns_of s) (turns_of (s\<lparr>buffer := buffer s @ data\<rparr>))"
    if "\<not> busy s" "even (length data)"
      "int (length (buffer s @ data)) \<le> cfg_max_uncommitted_bytes (w_config w)"
  proof -
    have "turn_of (s\<lparr>buffer := buffer s @ data\<rparr>) = Collecting (buffer s @ data)"
      using that(1) by (auto simp: turn_of_def busy_def split: option.splits)
    then show ?thesis using that turn_idle [OF that(1)] by (auto simp: turns_of_def intro: collect)
  qed
  show ?thesis
    using err add by (simp add: handle_binary_audio_def AUDIO_SAMPLE_WIDTH_BYTES_def even_iff_mod_2_eq_zero)
qed

lemma on_audio_append_json_turn:
  "turn_step w (turns_of s) (turns_of (on_audio_append_json w msg s))"
  using handle_binary_audio_turn keeps_turn_step [OF keeps_quiet [OF quiet_error]]
  by (auto simp: on_audio_append_json_def split: option.splits json.splits sum.splits)

lemma on_commit_turn: "turn_step w (turns_of s) (turns_of (on_commit w cid s))"
proof (cases "buffer s = [] \<or> busy s")
  case True
  then show ?thesis by (auto simp: on_commit_def intro!: keeps_turn_step keeps_quiet)
next
  case False
  let ?mk = "\<lambda>eid. ack_frame EVT_AUDIO_COMMITTED eid [(''item_id'', JStr (item_id w s))] cid"
  let ?s0 = "tick (s\<lparr>buffer := []\<rparr>)"
  let ?s1 = "emit w False ?mk ?s0"
  have ne: "frame_item (?mk (event_id w ?s0)) \<noteq> None" by simp
  obtain fs where fs: "filter about_item (sent ?s1) = filter about_item (sent ?s0) @ fs"
    "goes_out (ws_open ?s0) (?mk (event_id w ?s0)) fs (ws_open ?s1)" "ws_open ?s1 \<longrightarrow> ws_open ?s0"
    by (rule emit_item [where w = w and mk = ?mk and s = ?s0 and f = False, OF ne])
  have item: "item_id w s = item_name w (calls s)" by (simp add: item_id_def item_name_def)
  have "turns_of (on_commit w cid s) =
      (Decoding (item_name w (calls s)) (buffer s), Suc (Suc (calls s)), ws_open ?s1,
       filter about_item (sent s) @ fs)"
    using False fs(1) by (simp add: on_commit_def Let_def turns_of_def turn_of_def item tick_def)
  moreover have "turns_of s = (Collecting (buffer s), calls s, ws_open s, filter about_item (sent s))"
    using False by (simp add: turns_of_def turn_idle)
  moreover have "turn_step w (Collecting (buffer s), calls s, ws_open s, filter about_item (sent s))
      (Decoding (item_name w (calls s)) (buffer s), Suc (Suc (calls s)), ws_open ?s1,
       filter about_item (sent s) @ fs)"
    by (rule turn_step.commit [where f = "?mk (event_id w ?s0)"])
      (use False fs(2,3) in \<open>simp_all add: tick_def item\<close>)
  ultimately show ?thesis by simp
qed

lemma clear_buffer_turn:
  "\<not> busy s \<Longrightarrow> turn_step w (turns_of s) (turns_of (s\<lparr>buffer := []\<rparr>))"
  using turn_idle [of s] turn_idle [of "s\<lparr>buffer := []\<rparr>"] by (auto simp: turns_of_def intro: discard)

lemma on_clear_turn: "turn_step w (turns_of s) (turns_of (on_clear w cid s))"
proof (cases "busy s")
  case True
  then show ?thesis by (simp add: on_clear_def keeps_turn_step keeps_quiet)
next
  case False
  have "keeps_turn (s\<lparr>buffer := []\<rparr>) (on_clear w cid s)"
    using False by (auto simp: on_clear_def intro: emit_none)
  then show ?thesis by (rule keeps_then [OF clear_buffer_turn [OF False]])
qed

lemma on_close_turn: "turn_step w (turns_of s) (turns_of (on_close w s))"
  by (auto simp: on_close_def keeps_fields intro!: keeps_turn_step keeps_finish_close
      keeps_turn_trans [OF keeps_request_cancel keeps_finish_close])

lemma on_cancel_turn:
  assumes "busy s \<longrightarrow> buffer s = []"
  shows "turn_step w (turns_of s) (turns_of (on_cancel w s))"
proof (cases "closed s")
  case True
  then show ?thesis by (auto simp: on_cancel_def intro: keeps_turn_step)
next
  case False
  let ?s1 = "s\<lparr>buffer := []\<rparr>"
  let ?s2 = "if current_stream ?s1 then ?s1\<lparr>stream_cancels := Suc (stream_cancels ?s1)\<rparr> else ?s1"
  have "turn_step w (turns_of s) (turns_of ?s1)"
  proof (cases "busy s")
    case True
    with assms have "buffer s = []" by simp
    then have "?s1 = s" by simp
    then show ?thesis by (simp add: keeps_turn_step)
  qed (rule clear_buffer_turn)
  moreover have "keeps_turn ?s1 ?s2" by (simp add: keeps_fields)
  moreover have "keeps_turn ?s2 (on_cancel w s)"
    using False keeps_request_cancel [of ?s2] keeps_finish_close [of ?s2]
    by (simp add: on_cancel_def Let_def keeps_fields)
  ultimately show ?thesis by (meson keeps_then keeps_turn_trans)
qed

lemma turn_replies [simp]:
  "turn_step w (turns_of s) (turns_of (send_error w' c m cid s))"
  "turn_step w (turns_of s) (turns_of (on_status w' s))"
  by (intro keeps_turn_step keeps_quiet quiet_error quiet_status)+

lemma dispatch_turn:
  assumes "busy s \<longrightarrow> buffer s = []" "dispatch w t msg cid s = Done s'"
  shows "turn_step w (turns_of s) (turns_of s')"
  using assms keeps_turn_step [OF keeps_quiet [OF quiet_session_update [of w msg cid s s']]]
  by (auto simp: dispatch_def intro: on_audio_append_json_turn on_commit_turn on_clear_turn
      on_close_turn on_cancel_turn keeps_turn_step split: if_splits)

lemma handle_text_turn:
  assumes "busy s \<longrightarrow> buffer s = []" "handle_text w raw s = Done s'"
  shows "turn_step w (turns_of s) (turns_of s')"
  using assms dispatch_turn [OF assms(1)]
  by (auto simp: handle_text_def handle_message_def Let_def
      split: loaded.splits json.splits option.splits if_splits)

lemma on_message_turn:
  assumes "on_message w h s = Some t"
    and "\<And>s'. h s = Done s' \<Longrightarrow> turn_step w (turns_of s) (turns_of s')" "\<And>s'. h s = Raised s' \<Longrightarrow> s' = s"
  shows "turn_step w (turns_of s) (turns_of t)"
  using assms keeps_turn_step [OF keeps_teardown, of w s] keeps_turn_step [OF keeps_quiet [OF quiet_error], of w s]
  by (auto simp: on_message_def split: if_splits outcome.splits)

lemma finish_decode_turn:
  assumes "in_flight s = Some d" "d_stage d \<noteq> Finished" "buffer s = []"
    and "\<And>i. is_terminal (mk i) \<and> frame_item (mk i) = Some (d_item d)"
  shows "turn_step w (turns_of s) (turns_of (finish_decode w c d (emit w f mk s)))"
proof -
  let ?s1 = "emit w f mk s"
  have ne: "frame_item (mk (event_id w s)) \<noteq> None" using assms(4) by simp
  obtain fs where fs: "filter about_item (sent ?s1) = filter about_item (sent s) @ fs"
    "goes_out (ws_open s) (mk (event_id w s)) fs (ws_open ?s1)" "ws_open ?s1 \<longrightarrow> ws_open s"
    by (rule emit_item [where w = w and mk = mk and s = s and f = f, OF ne])
  let ?s2 = "?s1\<lparr>in_flight := Some (d\<lparr>d_stage := Finished\<rparr>), current_stream := False\<rparr>"
  have "turns_of ?s2 = (Collecting [], Suc (calls s), ws_open ?s1, filter about_item (sent s) @ fs)"
    using assms(3) fs(1) by (simp add: turns_of_def turn_of_def)
  moreover have "turns_of s = (Decoding (d_item d) (d_audio d), calls s, ws_open s, filter about_item (sent s))"
    using assms(1,2) by (simp add: turns_of_def turn_busy)
  moreover have "turn_step w (Decoding (d_item d) (d_audio d), calls s, ws_open s, filter about_item (sent s))
      (Collecting [], Suc (calls s), ws_open ?s1, filter about_item (sent s) @ fs)"
    by (rule turn_step.finish [where f = "mk (event_id w s)"]) (use assms(4) fs(2,3) in simp_all)
  ultimately have "turn_step w (turns_of s) (turns_of ?s2)" by simp
  then show ?thesis unfolding finish_decode_def by (rule keeps_then) (rule keeps_resume)
qed

lemma decode_step_turn:
  assumes "in_flight s = Some d" "d_stage d \<noteq> Finished" "buffer s = []" "decode_step w e d s = Some t"
  shows "turn_step w (turns_of s) (turns_of t)"
proof -
  have same: "turn_step w (turns_of s) (turns_of (s\<lparr>in_flight := Some d', current_stream := b\<rparr>))"
    if "d_item d' = d_item d" "d_audio d' = d_audio d" "d_stage d' \<noteq> Finished" for d' b
    using assms(1,2) that by (intro keeps_turn_step) (simp add: keeps_turn_def turn_of_def)
  have keep: "s\<lparr>in_flight := Some d', current_stream := current_stream s\<rparr> = s\<lparr>in_flight := Some d'\<rparr>" for d'
    by simp
  have delta: "turn_step w (turns_of s) (turns_of (emit w False (\<lambda>eid. delta_frame (d_item d) eid tx) s))" for tx
  proof -
    let ?mk = "\<lambda>eid. delta_frame (d_item d) eid tx"
    obtain fs where fs: "filter about_item (sent (emit w False ?mk s)) = filter about_item (sent s) @ fs"
      "goes_out (ws_open s) (?mk (event_id w s)) fs (ws_open (emit w False ?mk s))"
      "ws_open (emit w False ?mk s) \<longrightarrow> ws_open s"
      by (rule emit_item [where w = w and mk = ?mk and s = s and f = False]) simp
    show ?thesis
      using turn_step.report [of "calls s" "Suc (calls s)" "ws_open (emit w False ?mk s)" "ws_open s"
          "?mk (event_id w s)" "d_item d" fs w "d_audio d" "filter about_item (sent s)"]
        fs turn_busy [OF assms(1,2)]
      by (simp add: turns_of_def)
  qed
  have fin: "turn_step w (turns_of s) (turns_of (finish_decode w False d
      (emit w False (\<lambda>eid. completed_frame (d_item d) eid tx) s)))"
    "turn_step w (turns_of s) (turns_of (finish_decode w False d (emit w True (failed_frame (d_item d)) s)))" for tx
    by (rule finish_decode_turn; use assms in \<open>simp add: is_terminal_def\<close>)+
  show ?thesis
    using assms(4) same [of _ True] same [of _ "current_stream s", unfolded keep] delta fin assms(2)
      keeps_turn_step [OF keeps_turn_refl]
    by (auto simp: decode_step_def split: event.splits decode_stage.splits if_splits)
qed

lemma decode_unwind_turn:
  assumes "in_flight s = Some d" "d_stage d \<noteq> Finished" "buffer s = []" "decode_unwind w d s = Some t"
  shows "turn_step w (turns_of s) (turns_of t)"
proof -
  let ?s1 = "if d_stage d = Streaming then s\<lparr>stream_cancels := Suc (stream_cancels s)\<rparr> else s"
  let ?s2 = "?s1\<lparr>in_flight := Some (d\<lparr>d_stage := Finished\<rparr>), current_stream := False\<rparr>"
  have "turns_of ?s2 = (Collecting [], calls s, ws_open s, filter about_item (sent s))"
    using assms(3) by (simp add: turns_of_def turn_of_def)
  then have "turn_step w (turns_of s) (turns_of ?s2)"
    using turn_busy [OF assms(1,2)] by (auto simp: turns_of_def [of s] intro: abort)
  then have "turn_step w (turns_of s) (turns_of (finish_decode w True d ?s1))"
    unfolding finish_decode_def by (rule keeps_then) (rule keeps_resume)
  then show ?thesis using assms(4) by (simp add: decode_unwind_def split: if_splits)
qed

lemma session_step_turn:
  assumes "session_inv w s" "session_step w e s = Some t"
  shows "turn_step w (turns_of s) (turns_of t)"
proof -
  have b: "busy s \<longrightarrow> buffer s = []" and bd: "\<And>d. in_flight s = Some d \<Longrightarrow> d_stage d \<noteq> Finished \<Longrightarrow> buffer s = []"
    using assms(1) by (auto simp: session_inv_def data_inv_def busy_def split: option.splits)
  have dec: "turn_step w (turns_of s) (turns_of t)" if "with_decode (decode_step w e') s = Some t" for e'
    using that by (rule with_decode_inv) (auto intro: decode_step_turn dest: bd)
  have unw: "turn_step w (turns_of s) (turns_of t)" if "with_decode (decode_unwind w) s = Some t"
    using that by (rule with_decode_inv) (auto intro: decode_unwind_turn dest: bd)
  have bin: "turn_step w (turns_of s) (turns_of t)" if "on_message w (\<lambda>s. Done (handle_binary_audio w x s)) s = Some t" for x
    by (rule on_message_turn [OF that]) (auto intro: handle_binary_audio_turn)
  have tex: "turn_step w (turns_of s) (turns_of t)" if "on_message w (handle_text w r) s = Some t" for r
    by (rule on_message_turn [OF that]) (auto intro: handle_text_turn [OF b] dest: handle_text_raised)
  have keep: "turn_step w (turns_of s) (turns_of u)" if "keeps_turn s u" for u
    using that by (rule keeps_turn_step)
  have small: "keeps_turn s (s\<lparr>ws_open := False\<rparr>)" "keeps_turn s (s\<lparr>shutting_down := True\<rparr>)"
    "keeps_turn s ((request_cancel s)\<lparr>phase := p\<rparr>)" for p
    using keeps_request_cancel [of s] by (simp_all add: keeps_turn_def)
  show ?thesis
    using assms(2) bin tex dec unw keep [OF keeps_teardown] keep [OF small(1)] keep [OF small(2)]
      keep [OF small(3)] keep [OF keeps_request_cancel]
    by (cases e) (auto simp: session_step_def with_decode_def split: if_splits phase.splits option.splits)
qed

lemma open_session_turn: "turns_init (turns_of (open_session w n))"
proof -
  let ?s0 = "\<lparr>session_id = fresh_session_id w n, config = [''turn_detection'' \<mapsto> JNull],
                buffer = [], in_flight = None, current_stream = False, stream_cancels = 0,
                closed = False, started = w_monotonic w n, phase = Receiving, ws_open = True,
                ws_close = None, sent = [], calls = Suc n, shutting_down = False\<rparr>"
  have "quiet ?s0 (open_session w n)"
    unfolding open_session_def Let_def by (intro quiet_emit_after quiet_emit neutral_frames)
  then have "turn_of (open_session w n) = Collecting []" "filter about_item (sent (open_session w n)) = []"
    using keeps_quiet [of ?s0 "open_session w n"] by (auto simp: keeps_turn_def turn_of_def)
  then show ?thesis by (auto simp: turns_init_def turns_of_def)
qed

section \<open>The machine's promises, and their transfer\<close>

definition turns_promise :: "world \<Rightarrow> turns \<Rightarrow> bool" where
  "turns_promise w s \<longleftrightarrow> \<not> distinct_draws w (fst (snd s)) \<or> turns_inv w s"

lemma turn_step_draws: "turn_step w s t \<Longrightarrow> fst (snd s) \<le> fst (snd t)"
  by (auto elim: turn_stepE)

interpretation turns: invariant_system turns_init "turn_step w" "turns_promise w"
proof
  fix s assume "turns_init s"
  then show "turns_promise w s" by (auto simp: turns_init_def turns_promise_def turns_inv_def)
next
  fix s t assume "turns_promise w s" "turn_step w s t"
  then show "turns_promise w t"
    using turns_inv_step [of w t s] distinct_draws_less [OF _ turn_step_draws, of w t w s]
    by (auto simp: turns_promise_def)
qed

interpretation session_turns:
  simulation "session_init w" "session_next w" "session_inv w" turns_of turns_init "turn_step w"
  by unfold_locales
    (auto simp: session_init_def open_session_turn elim!: session_nextE intro: session_step_turn)

lemma terminals_about: "terminals i (filter about_item fs) = terminals i fs"
  by (auto simp: terminals_def about_item_def intro: arg_cong [where f = length] filter_cong)

lemma announced_about:
  "announced_after (filter about_item seen) (filter about_item fs) = announced_after seen fs"
proof (induction fs arbitrary: seen)
  case (Cons f fs)
  have "list_ex (\<lambda>g. frame_type g = EVT_AUDIO_COMMITTED \<and> frame_item g = Some i) (filter about_item seen) =
      list_ex (\<lambda>g. frame_type g = EVT_AUDIO_COMMITTED \<and> frame_item g = Some i) seen" for i
    by (auto simp: list_ex_iff about_item_def)
  moreover have "about_item f \<longleftrightarrow> frame_item f \<noteq> None" by (simp add: about_item_def)
  ultimately show ?case using Cons [of "f # seen"] by (cases "frame_item f") simp_all
qed simp

lemma session_promises:
  assumes "session_reach w s" "distinct_draws w (calls s)"
  shows "terminals i (sent s) \<le> 1 \<and> announced (sent s)"
proof -
  have "reach turns_init (turn_step w) (turns_of s)" by (rule session_turns.abs_reachable) (rule assms(1))
  then have "turns_promise w (turns_of s)" by (rule turns.reachable)
  then show ?thesis
    using assms(2) announced_about [of "[]" "sent s"]
    by (auto simp: turns_promise_def turns_inv_def turns_of_def terminals_about split: turn.splits)
qed

section \<open>Runs\<close>

fun session_run :: "world \<Rightarrow> event list \<Rightarrow> session \<Rightarrow> session option" where
  "session_run w [] s = Some s"
| "session_run w (e # es) s =
     (case session_step w e s of None \<Rightarrow> None | Some t \<Rightarrow> session_run w es t)"

lemma session_run_reach: "session_run w es s = Some t \<Longrightarrow> session_reach w s \<Longrightarrow> session_reach w t"
  by (induction es arbitrary: s) (fastforce split: option.splits intro: reach_step session_nextI)+

lemma open_reach: "session_reach w (open_session w n)"
  by (auto intro!: reach_init simp: session_init_def)

text \<open>A sample world and session: two bytes are appended and committed, the decode reports
  and completes, and the client closes.\<close>

definition sample_world :: world where
  "sample_world = \<lparr>w_uuid = show_nat, w_pending = (\<lambda>n. Some 0), w_monotonic = of_nat, w_pid = 7,
     w_maxrss = 1, w_platform = ''linux'', w_json_error = (\<lambda>s. ''bad''), w_str_value = (\<lambda>j. ''value''),
     w_config = default_config\<lparr>cfg_socket_path := Some ''/tmp/s''\<rparr>, w_backend_name = ''echo'',
     w_backend_model = JNull\<rparr>"

definition client_event :: "string \<Rightarrow> event" where
  "client_event t = Text (type_message t)"

definition sample_turn :: "event list" where
  "sample_turn = [Binary [1, 2], client_event ''input_audio_buffer.commit'', Decode_Start, Decode_Opened,
     Decode_Event ''delta'' ''hi'']"

definition sample_finish :: "event list" where
  "sample_finish = [Decode_Event ''completed'' ''hi'', Decode_End, client_event ''session.close'']"

lemma sample_emit [simp]:
  "emit sample_world f mk s =
     s\<lparr>calls := Suc (calls s),
       sent := (if ws_open s then sent s @ [mk (event_id sample_world s)] else sent s)\<rparr>"
  by (auto simp: emit_def send_def tick_def Let_def sample_world_def default_config_def
      SEND_QUEUE_HIGH_WATER_BYTES_def)

lemma plain_commit [simp]: "plain ''input_audio_buffer.commit''" "plain ''session.close''"
  by (simp_all add: plain_def)

lemmas session_eval =
  session_step_def on_message_def handle_text_def handle_message_def dispatch_def
  loads_type_message client_event_def with_decode_def decode_step_def decode_unwind_def
  busy_def jget_def Let_def CLIENT_EVENT_TYPES_def event_defs

definition sample_start :: session where
  "sample_start = open_session sample_world 0"

lemma sample_start_fields [simp]:
  "buffer sample_start = []" "in_flight sample_start = None" "closed sample_start = False"
  "phase sample_start = Receiving" "ws_open sample_start" "calls sample_start = 4"
  "length (sent sample_start) = 3"
  by (simp_all add: sample_start_def open_session_def Let_def)

lemma sample_config [simp]:
  "cfg_max_append_bytes (w_config sample_world) = 1048576"
  "cfg_max_uncommitted_bytes (w_config sample_world) = 9600000"
  by (simp_all add: sample_world_def default_config_def MAX_APPEND_BYTES_def MAX_UNCOMMITTED_BYTES_def
      MAX_UNCOMMITTED_SECONDS_def AUDIO_SAMPLE_RATE_HZ_def AUDIO_CHANNELS_def AUDIO_SAMPLE_WIDTH_BYTES_def)

lemma sample_uuid [simp]: "w_uuid sample_world = show_nat"
  by (simp add: sample_world_def)

definition sample_busy :: session where
  "sample_busy = the (session_run sample_world sample_turn sample_start)"

definition sample_done :: session where
  "sample_done = the (session_run sample_world (sample_finish @ [Loop_End]) sample_busy)"

lemma sample_turn_run:
  "\<exists>s l. session_run sample_world sample_turn sample_start = Some s \<and> buffer s = [] \<and>
     phase s = Receiving \<and> ws_open s \<and> closed s = False \<and> calls s = 7 \<and>
     in_flight s = Some \<lparr>d_item = ''item_'' @ take 16 (show_nat 4), d_audio = [1, 2],
       d_stage = Streaming, d_language = l, d_final = [], d_cancel_requested = False\<rparr>"
  by (simp add: sample_turn_def session_eval handle_binary_audio_def AUDIO_SAMPLE_WIDTH_BYTES_def on_commit_def
      tick_def item_id_def)

lemma sample_busy_state:
  "session_run sample_world sample_turn sample_start = Some sample_busy"
  "buffer sample_busy = []" "phase sample_busy = Receiving" "ws_open sample_busy"
  "closed sample_busy = False" "calls sample_busy = 7"
  "\<exists>l. in_flight sample_busy = Some \<lparr>d_item = ''item_'' @ take 16 (show_nat 4), d_audio = [1, 2],
     d_stage = Streaming, d_language = l, d_final = [], d_cancel_requested = False\<rparr>"
  using sample_turn_run unfolding sample_busy_def by auto

lemma finish_close_fields [simp]:
  "ws_open (finish_close w r s) = False" "phase (finish_close w r s) = Receiving"
  "closed (finish_close w r s)" "busy (finish_close w r s) = busy s"
  "calls (finish_close w r s) = Suc (calls s)" "in_flight (finish_close w r s) = in_flight s"
  by (auto simp: finish_close_def do_close_def busy_def)

lemma sample_finish_run:
  "\<exists>s. session_run sample_world (sample_finish @ [Loop_End]) sample_busy = Some s \<and>
     phase s = Ended \<and> calls s = 9"
proof -
  obtain l where l: "in_flight sample_busy = Some \<lparr>d_item = ''item_'' @ take 16 (show_nat 4), d_audio = [1, 2],
     d_stage = Streaming, d_language = l, d_final = [], d_cancel_requested = False\<rparr>"
    using sample_busy_state(7) by blast
  show ?thesis
    by (simp add: sample_finish_def session_eval sample_busy_state(2-6) l finish_decode_def
        resume_handler_def on_close_def teardown_session_def)
qed

lemma sample_done_state:
  "session_run sample_world (sample_finish @ [Loop_End]) sample_busy = Some sample_done"
  "phase sample_done = Ended" "calls sample_done = 9"
  using sample_finish_run unfolding sample_done_def by auto

lemma sample_reach [simp]: "session_reach sample_world sample_busy" "session_reach sample_world sample_done"
proof -
  have "session_reach sample_world sample_start" by (simp add: sample_start_def open_reach)
  then show "session_reach sample_world sample_busy" by (rule session_run_reach [OF sample_busy_state(1)])
  then show "session_reach sample_world sample_done" by (rule session_run_reach [OF sample_done_state(1)])
qed

lemma show_nat_digit: "n < 10 \<Longrightarrow> show_nat n = [char_of (48 + n)]"
  by (simp add: show_nat.simps)

lemma sample_draws: "distinct_draws sample_world 9"
  by (simp add: distinct_draws_def upt_rec show_nat_digit)

section \<open>Ending\<close>

lemma unwind_ends:
  assumes "session_inv w s" "phase s = Wait_Teardown"
  shows "\<exists>t. session_run w [Decode_Unwound] s = Some t \<and> phase t = Ended"
proof -
  obtain d where d: "in_flight s = Some d" "d_stage d \<noteq> Finished" "d_cancel_requested d"
    using assms by (auto simp: session_inv_def phase_inv_def busy_def split: option.splits)
  then show ?thesis
    using assms(2)
    by (auto simp: session_step_def with_decode_def decode_unwind_def finish_decode_def resume_handler_def)
qed

lemma session_run_append:
  "session_run w (es @ fs) s = (case session_run w es s of None \<Rightarrow> None | Some t \<Rightarrow> session_run w fs t)"
  by (induction es arbitrary: s) (auto split: option.splits)

lemma loop_ends:
  assumes "session_inv w s" "phase s = Receiving"
  shows "\<exists>es t. length es \<le> 3 \<and> set es \<subseteq> {Peer_Gone, Loop_End, Decode_Unwound}
    \<and> session_run w es s = Some t \<and> phase t = Ended"
proof -
  let ?s1 = "s\<lparr>ws_open := False\<rparr>"
  have step: "session_run w [Peer_Gone, Loop_End] s = Some (teardown_session ?s1)"
    using assms(2) by (simp add: session_step_def)
  have inv: "session_inv w (teardown_session ?s1)"
    using assms by (intro teardown_inv) (auto simp: session_inv_def data_inv_def split: option.splits)
  show ?thesis
  proof (cases "busy s")
    case True
    then have "phase (teardown_session ?s1) = Wait_Teardown" by (simp add: teardown_session_def)
    then obtain t where "session_run w [Decode_Unwound] (teardown_session ?s1) = Some t" "phase t = Ended"
      using unwind_ends [OF inv] by blast
    then have "session_run w ([Peer_Gone, Loop_End] @ [Decode_Unwound]) s = Some t"
      unfolding session_run_append step by simp
    then show ?thesis using \<open>phase t = Ended\<close> by (intro exI [of _ "[Peer_Gone, Loop_End] @ [Decode_Unwound]"]) auto
  next
    case False
    then have "phase (teardown_session ?s1) = Ended" by (simp add: teardown_session_def)
    then show ?thesis using step by (intro exI [of _ "[Peer_Gone, Loop_End]"]) auto
  qed
qed

lemma wait_close_unwind:
  assumes "session_inv w s" "phase s = Wait_Close"
  shows "\<exists>t. session_run w [Drain_Timeout, Decode_Unwound] s = Some t \<and> phase t = Receiving \<and> \<not> ws_open t \<and> \<not> busy t"
proof -
  obtain d where d: "in_flight s = Some d" "d_stage d \<noteq> Finished"
    using assms by (auto simp: session_inv_def phase_inv_def busy_def split: option.splits)
  then show ?thesis
    using assms(2)
    by (auto simp: session_step_def with_decode_def decode_unwind_def finish_decode_def
        resume_handler_def request_cancel_def busy_def)
qed

lemma wait_unwind:
  assumes "session_inv w s" "phase s = Wait_Close_Unwind \<or> phase s = Wait_Cancel_Unwind"
  shows "\<exists>t. session_run w [Decode_Unwound] s = Some t \<and> phase t = Receiving \<and> \<not> ws_open t \<and> \<not> busy t"
proof -
  obtain d where d: "in_flight s = Some d" "d_stage d \<noteq> Finished" "d_cancel_requested d"
    using assms by (auto simp: session_inv_def phase_inv_def busy_def split: option.splits)
  then show ?thesis
    using assms(2)
    by (auto simp: session_step_def with_decode_def decode_unwind_def finish_decode_def
        resume_handler_def busy_def)
qed

lemma then_loop_end:
  assumes "session_run w es s = Some t" "phase t = Receiving" "\<not> ws_open t" "\<not> busy t"
  shows "\<exists>u. session_run w (es @ [Loop_End]) s = Some u \<and> phase u = Ended"
  using assms by (simp add: session_run_append session_step_def teardown_session_def)

lemma session_ends:
  assumes "session_inv w s"
  shows "\<exists>es t. length es \<le> 3 \<and> set es \<subseteq> {Peer_Gone, Loop_End, Drain_Timeout, Decode_Unwound}
    \<and> session_run w es s = Some t \<and> phase t = Ended"
proof (cases "phase s")
  case Receiving
  then show ?thesis using loop_ends [OF assms] by fast
next
  case Wait_Close
  obtain t where t: "session_run w [Drain_Timeout, Decode_Unwound] s = Some t"
    "phase t = Receiving" "\<not> ws_open t" "\<not> busy t"
    using wait_close_unwind [OF assms Wait_Close] by blast
  show ?thesis
    using then_loop_end [OF t] by (intro exI [of _ "[Drain_Timeout, Decode_Unwound] @ [Loop_End]"]) auto
next
  case Wait_Teardown
  then show ?thesis using unwind_ends [OF assms] by (intro exI [of _ "[Decode_Unwound]"]) auto
next
  case Ended
  then show ?thesis by (intro exI [of _ "[]"]) simp
next
  case Wait_Close_Unwind
  then obtain t where t: "session_run w [Decode_Unwound] s = Some t"
    "phase t = Receiving" "\<not> ws_open t" "\<not> busy t"
    using wait_unwind [OF assms] by blast
  show ?thesis using then_loop_end [OF t] by (intro exI [of _ "[Decode_Unwound] @ [Loop_End]"]) auto
next
  case Wait_Cancel_Unwind
  then obtain t where t: "session_run w [Decode_Unwound] s = Some t"
    "phase t = Receiving" "\<not> ws_open t" "\<not> busy t"
    using wait_unwind [OF assms] by blast
  show ?thesis using then_loop_end [OF t] by (intro exI [of _ "[Decode_Unwound] @ [Loop_End]"]) auto
qed

section \<open>Properties\<close>

text \<open>C3: in every reachable state of a session the uncommitted audio is empty or within the
  per-session cap and holds whole samples; while a decode runs the buffer is empty and the
  utterance being decoded is non-empty, within the cap and made of whole samples.\<close>

theorem session_audio_bounded:
  assumes "session_reach w s"
  shows "utterance_ok w (buffer s) \<and>
    (case in_flight s of None \<Rightarrow> True | Some d \<Rightarrow>
       d_audio d \<noteq> [] \<and> utterance_ok w (d_audio d) \<and> (d_stage d = Finished \<or> buffer s = []))"
  using session.reachable [OF assms] by (auto simp: session_inv_def data_inv_def split: option.splits)

theorem session_audio_bounded_witness:
  "utterance_ok sample_world (buffer sample_busy) \<and> busy sample_busy"
  using session_audio_bounded [of sample_world sample_busy] sample_busy_state(7) by (auto simp: busy_def)

text \<open>C1: refinement: every step of a reachable session (a message, a step of the decode, a
  cancellation, a timeout) is a step of the abstract machine of turns, so audio is only ever
  appended to an open turn, a commit hands over exactly the collected audio under a fresh
  name, and the frames about utterances are those of the turn.\<close>

theorem session_implements_turns:
  assumes "session_reach w s" "session_step w e s = Some t"
  shows "turn_step w (turns_of s) (turns_of t)"
  using session_step_turn [OF session.reachable [OF assms(1)] assms(2)] .

theorem session_implements_turns_witness:
  "turn_step sample_world (turns_of sample_busy) (turns_of (request_cancel sample_busy))"
proof -
  have "session_step sample_world Cancel_Decode sample_busy = Some (request_cancel sample_busy)"
    using sample_busy_state(7) by (auto simp: session_eval)
  then show ?thesis by (rule session_implements_turns [OF sample_reach(1)])
qed

text \<open>C2: as long as the uuids drawn are different, each committed item gets at most one terminal
  frame (completed or failed), and every delta or terminal frame about an item comes after
  the acknowledgement of its commit.\<close>

theorem session_one_outcome_per_item:
  assumes "session_reach w s" "distinct_draws w (calls s)"
  shows "terminals i (sent s) \<le> 1 \<and> announced (sent s)"
  by (rule session_promises [OF assms])

theorem session_one_outcome_per_item_witness:
  "terminals (''item_'' @ take 16 (show_nat 4)) (sent sample_done) \<le> 1 \<and> announced (sent sample_done)"
  by (rule session_one_outcome_per_item [where w = sample_world]) (simp_all add: sample_done_state sample_draws)

text \<open>Nothing follows \<open>session.closed\<close>: it is the last frame of a session that sends
  it, and the socket is closed from then on.\<close>

theorem session_closed_is_last:
  assumes "session_reach w s"
  shows "(\<forall>f \<in> set (butlast (sent s)). frame_type f \<noteq> EVT_SESSION_CLOSED) \<and>
    \<not> (ws_open s \<and> (\<exists>f \<in> set (sent s). frame_type f = EVT_SESSION_CLOSED))"
  using session.reachable [OF assms] by (auto simp: session_inv_def data_inv_def)

theorem session_closed_is_last_witness:
  "\<not> (ws_open sample_done \<and> (\<exists>f \<in> set (sent sample_done). frame_type f = EVT_SESSION_CLOSED))"
  using session_closed_is_last [OF sample_reach(2)] by blast

text \<open>A decode never outlives its session: when the handler has ended, the session is closed
  and no decode is running.\<close>

theorem session_decode_confined:
  assumes "session_reach w s" "phase s = Ended"
  shows "closed s \<and> \<not> busy s"
  using session.reachable [OF assms(1)] assms(2) by (auto simp: session_inv_def phase_inv_def)

theorem session_decode_confined_witness: "closed sample_done \<and> \<not> busy sample_done"
  by (rule session_decode_confined [OF sample_reach(2) sample_done_state(2)])

text \<open>C4: every session can end: from any reachable state the handler ends within three of its own
  steps once the peer is gone, the drain budget has run out where it was waiting, and the
  cancelled decode has unwound; no client message is needed.\<close>

theorem session_can_end:
  assumes "session_reach w s"
  shows "\<exists>es t. length es \<le> 3 \<and> set es \<subseteq> {Peer_Gone, Loop_End, Drain_Timeout, Decode_Unwound}
    \<and> session_run w es s = Some t \<and> phase t = Ended"
  by (rule session_ends [OF session.reachable [OF assms]])

theorem session_can_end_witness:
  "\<exists>es t. length es \<le> 3 \<and> set es \<subseteq> {Peer_Gone, Loop_End, Drain_Timeout, Decode_Unwound}
    \<and> session_run sample_world es sample_busy = Some t \<and> phase t = Ended"
  by (rule session_can_end [OF sample_reach(1)])

text \<open>Server-side voice detection is never switched on: in every reachable state the
  configuration holds \<open>turn_detection: null\<close>, and an update that asks for anything
  else, at the session root or under \<open>audio.input\<close>, is answered with an error and
  changes nothing of the configuration.\<close>

theorem session_update_turn_detection:
  assumes "session_reach w s"
  shows "config s ''turn_detection'' = Some JNull \<and>
    (case on_session_update w [(''session'', JObj [(''turn_detection'', td), (''language'', l)])] cid s of
       Done t \<Rightarrow> config t ''turn_detection'' = Some JNull \<and>
         (td = JNull \<or> t = send_error w INVALID_CONFIG
            ''server VAD is not implemented; use turn_detection: null'' cid s)
     | _ \<Rightarrow> False)"
proof -
  have c: "config s ''turn_detection'' = Some JNull"
    using session.reachable [OF assms] by (simp add: session_inv_def data_inv_def)
  show ?thesis
    using c by (auto simp: on_session_update_def jget_or_def jget_def or_dict_def format_problem_def
        take_language_def send_error_def Let_def)
qed

theorem session_update_turn_detection_witness:
  "config sample_busy ''turn_detection'' = Some JNull"
  using session_update_turn_detection [OF sample_reach(1)] by blast

text \<open>Whatever bytes a client encodes with base64 and sends as
  \<open>input_audio_buffer.append\<close> reach the buffer handler unchanged: the JSON path and
  the binary path are the same operation.\<close>

theorem append_json_is_binary:
  "on_audio_append_json w [(''type'', JStr EVT_AUDIO_APPEND), (''audio'', JStr (b64encode data))] s
     = handle_binary_audio w data s"
  by (simp add: on_audio_append_json_def jget_def b64decode_encode)

text \<open>Backpressure: a frame that may be dropped is dropped exactly when the session is open
  and the pending write bytes exceed the high-water mark; the session is then closed with
  code 1011, and a forced frame always goes out on an open socket.\<close>

theorem send_backpressure:
  "send w force p s =
     (if \<not> force \<and> \<not> closed s \<and> (\<exists>n. w_pending w (calls s) = Some n \<and>
           n > cfg_send_queue_high_water_bytes (w_config w))
      then s\<lparr>closed := True, ws_open := False,
             ws_close := (if ws_open s then Some (1011, ''send_queue_overflow'') else ws_close s)\<rparr>
      else s\<lparr>sent := sent s @ (if ws_open s then [p] else [])\<rparr>)"
  by (auto simp: send_def do_close_def Let_def split: option.splits intro!: session.equality)

lemma dispatch_model: "dispatch w t msg cid s \<noteq> No_Model"
  using on_session_update_model by (auto simp: dispatch_def)

lemma handle_message_model: "handle_message w msg t s \<noteq> No_Model"
  using dispatch_model by (auto simp: handle_message_def Let_def split: json.splits)

text \<open>The message handler is total: every text frame is handled (with a result or an
  exception that is answered), and the parser never runs out of fuel; the only texts the model
  leaves out are those with an escape for a code point above 255.\<close>

theorem handle_text_total:
  "handle_text w raw s = No_Model \<longleftrightarrow> scan_value (2 * length raw + 2) (skip_ws raw) = Foreign"
  using loads_fuel [of raw] handle_message_model
  by (auto simp: handle_text_def loads_def split: scan.splits loaded.splits json.splits option.splits if_splits)

end
