(* ===== verification/Lifecycle.thy ===== *)
theory Lifecycle
  imports Prelude
begin

text \<open>
  The lifecycle of \<open>TranscriptionServer\<close> (\<open>stt_server/server.py\<close>): the explicit state machine
  \<open>NEW, STARTING, RUNNING, STOPPING, STOPPED\<close>, the single-server lock, the live-work ledger with
  its futures and done-callbacks, \<open>start()\<close> with its unwinding, the listener bind and its
  cancellation, \<open>shutdown()\<close> and the drain.

  The event loop is explicit: a future is a number with an outcome; completing one and running
  its done-callback \<open>_retire\<close> are separate steps, as they are on the loop. A coroutine runs from
  one \<open>await\<close> to the next in one step; where it waits is a program counter of the state. A bind
  future and the listener it yields have the same number. What the embedder, the peers, the
  backend and the timers do are events.
\<close>

section \<open>State machine and ledger entries\<close>

datatype lifecycle = NEW | STARTING | RUNNING | STOPPING | STOPPED

fun TRANSITIONS :: "lifecycle \<Rightarrow> lifecycle list" where
  "TRANSITIONS NEW = [STARTING, STOPPED]"
| "TRANSITIONS STARTING = [RUNNING, NEW, STOPPING]"
| "TRANSITIONS RUNNING = [STOPPING]"
| "TRANSITIONS STOPPING = [STOPPED]"
| "TRANSITIONS STOPPED = []"

definition UNLOCKED_STATES :: "lifecycle list" where "UNLOCKED_STATES = [NEW, STOPPED]"
definition ADOPTABLE_STATES :: "lifecycle list" where "ADOPTABLE_STATES = [STARTING, RUNNING, STOPPING]"

fun state_value :: "lifecycle \<Rightarrow> string" where
  "state_value NEW = ''new''"
| "state_value STARTING = ''starting''"
| "state_value RUNNING = ''running''"
| "state_value STOPPING = ''stopping''"
| "state_value STOPPED = ''stopped''"

datatype kind =
  K_listener | K_session | K_step | K_close | K_bind | K_listener_close | K_adopted | K_thread

fun WORK_LABELS :: "kind \<Rightarrow> string" where
  "WORK_LABELS K_listener = ''listener bound''"
| "WORK_LABELS K_session = ''session/decode tasks''"
| "WORK_LABELS K_step = ''start/drain steps''"
| "WORK_LABELS K_close = ''backend close''"
| "WORK_LABELS K_bind = ''listener bind''"
| "WORK_LABELS K_listener_close = ''listener close''"
| "WORK_LABELS K_adopted = ''adopted''"
| "WORK_LABELS K_thread = ''backend worker thread''"

text \<open>Keys of the ledger: a step token, a bound listener, a future. The only cleanup in the program
  is the closing of an orphan listener (\<open>wk_then\<close>); \<open>wk_callback\<close>: \<open>_retire\<close> is registered as
  done-callback and has not run.\<close>

datatype key = Token nat | Listener nat | Fut nat

record work =
  wk_kind :: kind
  wk_stuck :: bool
  wk_then :: bool
  wk_label :: "string option"
  wk_callback :: bool

type_synonym ledger = "(key \<times> work) list"

datatype outcome = Pending | Result | Error | Cancelled

text \<open>Where \<open>start()\<close> waits: for the backend, for the shielded bind, for the bind after a
  cancellation, or in the drain of its unwinding. The token is its ledger key.\<close>

datatype start_pc =
    S_idle
  | S_backend nat
  | S_bind nat nat
  | S_bind_cancelled nat nat
  | S_unwinding nat

text \<open>Where the drain waits: for the sessions (the set it drains), for the cancelled ones, for the
  listener's close, for the backend's close. The token is its ledger key; \<open>dr_owner\<close> is the stop
  task that runs it (\<open>None\<close>: the unwinding start).\<close>

datatype drain_wait = D_sessions "nat list" | D_grace | D_listener nat | D_close nat

record drain =
  dr_token :: nat
  dr_close_backend :: bool
  dr_closer :: "nat option"
  dr_wait :: drain_wait
  dr_owner :: "nat option"

text \<open>The optional \<open>idle()\<close> hook: absent, a completed or a pending future, or it raises.\<close>

datatype idle_answer = No_Hook | Idle | Busy | Idle_Raises

record server =
  lstate :: lifecycle
  lock_fd :: "nat option"
  ledger :: ledger
  requested :: bool
  unlocked :: bool
  listener :: "nat option"
  bound_id :: "(int \<times> int) option"
  close_task :: "nat option"
  stop_task :: "nat option"
  shutdown_event :: bool
  fut :: "nat \<Rightarrow> outcome"
  asked :: "nat \<Rightarrow> bool"
  fresh :: nat
  starting :: start_pc
  draining :: "drain option"
  uds :: bool
  sock_file :: "(int \<times> int) option"
  backend_open :: bool
  idle_hook :: idle_answer

text \<open>A refused transition is the \<open>RuntimeError\<close> of \<open>_transition\<close>.\<close>

datatype refusal = Illegal lifecycle lifecycle | Live_Work "string list"

section \<open>The ledger\<close>

definition ledger_get :: "key \<Rightarrow> ledger \<Rightarrow> work option" where
  "ledger_get k l = map_of l k"

definition ledger_pop :: "key \<Rightarrow> ledger \<Rightarrow> ledger" where
  "ledger_pop k l = filter (\<lambda>(k', w). k' \<noteq> k) l"

text \<open>Update in place, or append: a dict keeps the position of an existing key.\<close>

fun ledger_put :: "key \<Rightarrow> work \<Rightarrow> ledger \<Rightarrow> ledger" where
  "ledger_put k w [] = [(k, w)]"
| "ledger_put k w ((k', w') # l) = (if k = k' then (k, w) # l else (k', w') # ledger_put k w l)"

text \<open>\<open>_live_reasons\<close>: the entries counted by kind and own label, in order of first occurrence.\<close>

fun count_reason :: "work \<Rightarrow> ((kind \<times> string option) \<times> nat \<times> nat) list \<Rightarrow> ((kind \<times> string option) \<times> nat \<times> nat) list" where
  "count_reason w [] = [((wk_kind w, wk_label w), 1, if wk_stuck w then 1 else 0)]"
| "count_reason w ((k, n, s) # r) =
     (if k = (wk_kind w, wk_label w) then (k, Suc n, if wk_stuck w then Suc s else s) # r
      else (k, n, s) # count_reason w r)"

definition reason_text :: "(kind \<times> string option) \<times> nat \<times> nat \<Rightarrow> string" where
  "reason_text e =
     (case e of ((k, own), n, stuck) \<Rightarrow>
        let label = WORK_LABELS k @ (case own of None \<Rightarrow> [] | Some o1 \<Rightarrow> '': '' @ o1);
            reason = (if k = K_listener then label else show_nat n @ '' '' @ label)
        in if stuck \<noteq> 0 then reason @ '' ('' @ show_nat stuck @ '' stuck)'' else reason)"

definition live_reasons :: "ledger \<Rightarrow> string list" where
  "live_reasons l = map reason_text (fold (\<lambda>(k, w). count_reason w) l [])"

definition live_work_count :: "server \<Rightarrow> nat" where
  "live_work_count s = length (ledger s)"

definition stuck_work_count :: "server \<Rightarrow> nat" where
  "stuck_work_count s = length (filter (\<lambda>(k, w). wk_stuck w) (ledger s))"

definition holds_socket_lock :: "server \<Rightarrow> bool" where
  "holds_socket_lock s = (lock_fd s \<noteq> None)"

text \<open>\<open>_sessions\<close>: the session and decode tasks in the ledger that are not done.\<close>

definition sessions :: "server \<Rightarrow> nat list" where
  "sessions s =
     concat (map (\<lambda>(k, w). case k of
       Fut n \<Rightarrow> if wk_kind w = K_session \<and> fut s n = Pending then [n] else []
     | _ \<Rightarrow> []) (ledger s))"

section \<open>Transitions\<close>

definition reset_attempt :: "server \<Rightarrow> server" where
  "reset_attempt s = s\<lparr>listener := None, bound_id := None, close_task := None, stop_task := None,
     shutdown_event := False\<rparr>"

definition release_lock :: "server \<Rightarrow> server" where
  "release_lock s = s\<lparr>lock_fd := None\<rparr>"

definition transition :: "lifecycle \<Rightarrow> server \<Rightarrow> refusal + server" where
  "transition new s =
     (if new \<notin> set (TRANSITIONS (lstate s)) then Raise (Illegal (lstate s) new)
      else if new \<in> set UNLOCKED_STATES \<and> live_reasons (ledger s) \<noteq> []
      then Raise (Live_Work (live_reasons (ledger s)))
      else
        let s1 = s\<lparr>lstate := new\<rparr>
        in if new \<in> set UNLOCKED_STATES then
             let s2 = release_lock s1;
                 s3 = (if new = NEW then reset_attempt s2 else s2)
             in Ok (s3\<lparr>unlocked := True\<rparr>)
           else Ok (s1\<lparr>unlocked := False\<rparr>))"

definition settle :: "server \<Rightarrow> refusal + server" where
  "settle s =
     (if lstate s = STOPPING \<and> live_reasons (ledger s) = [] then transition STOPPED s else Ok s)"

definition end_work :: "key \<Rightarrow> server \<Rightarrow> refusal + server" where
  "end_work k s = settle (s\<lparr>ledger := ledger_pop k (ledger s)\<rparr>)"

section \<open>The socket file\<close>

text \<open>The file at the configured path is a socket with an identity, or not one of ours to see.\<close>

definition record_bound_socket :: "server \<Rightarrow> server" where
  "record_bound_socket s =
     (if \<not> uds s then s
      else case sock_file s of None \<Rightarrow> s | Some i \<Rightarrow> s\<lparr>bound_id := Some i\<rparr>)"

definition unlink_own_socket :: "server \<Rightarrow> server" where
  "unlink_own_socket s =
     (if bound_id s \<noteq> None \<and> uds s \<and> sock_file s = bound_id s then s\<lparr>sock_file := None\<rparr> else s)"

section \<open>Tracking futures\<close>

definition new_work :: "kind \<Rightarrow> string option \<Rightarrow> bool \<Rightarrow> work" where
  "new_work k label cb =
     \<lparr>wk_kind = k, wk_stuck = False, wk_then = False, wk_label = label, wk_callback = cb\<rparr>"

text \<open>\<open>_track\<close> of a pending future; a completed one adds nothing.\<close>

definition track :: "nat \<Rightarrow> kind \<Rightarrow> bool \<Rightarrow> bool \<Rightarrow> string option \<Rightarrow> server \<Rightarrow> server" where
  "track n k stuck orphan label s =
     (if fut s n \<noteq> Pending then s
      else
        let e = (case ledger_get (Fut n) (ledger s) of
                   None \<Rightarrow> new_work k label True | Some e \<Rightarrow> e);
            e1 = (if orphan then e\<lparr>wk_then := True\<rparr> else e);
            e2 = (if stuck then e1\<lparr>wk_stuck := True\<rparr> else e1)
        in s\<lparr>ledger := ledger_put (Fut n) e2 (ledger s)\<rparr>)"

definition linger :: "nat \<Rightarrow> kind \<Rightarrow> server \<Rightarrow> server" where
  "linger n k s = track n k True False None s"

text \<open>\<open>_hand_off\<close>: the successor is registered before the predecessor is dropped.\<close>

definition hand_off :: "key option \<Rightarrow> key \<Rightarrow> kind \<Rightarrow> bool \<Rightarrow> server \<Rightarrow> refusal + server" where
  "hand_off pred succ k stuck s =
     (let s1 = (case succ of
                  Fut n \<Rightarrow> track n k stuck False None s
                | _ \<Rightarrow>
                    let e = (case ledger_get succ (ledger s) of
                               None \<Rightarrow> new_work k None False | Some e \<Rightarrow> e)
                    in s\<lparr>ledger := ledger_put succ (e\<lparr>wk_stuck := wk_stuck e \<or> stuck\<rparr>) (ledger s)\<rparr>)
      in case pred of
           None \<Rightarrow> Ok s1
         | Some p \<Rightarrow> if p \<noteq> succ then end_work p s1 else Ok s1)"

text \<open>A new future, pending.\<close>

definition spawn :: "server \<Rightarrow> nat \<times> server" where
  "spawn s = (fresh s, s\<lparr>fresh := Suc (fresh s), fut := (fut s)(fresh s := Pending),
     asked := (asked s)(fresh s := False)\<rparr>)"

definition begin_work :: "server \<Rightarrow> nat \<times> (refusal + server)" where
  "begin_work s = (fresh s, hand_off None (Token (fresh s)) K_step False (s\<lparr>fresh := Suc (fresh s)\<rparr>))"

text \<open>\<open>_begin_listener_close\<close>: close the listener, unlink our own inode, and register the close.\<close>

definition begin_listener_close :: "nat \<Rightarrow> bool \<Rightarrow> server \<Rightarrow> nat \<times> (refusal + server)" where
  "begin_listener_close n stuck s =
     (let (closer, s1) = spawn (unlink_own_socket s)
      in (closer, hand_off (Some (Listener n)) (Fut closer) K_listener_close stuck s1))"

definition close_orphan_listener :: "nat \<Rightarrow> server \<Rightarrow> refusal + server" where
  "close_orphan_listener n s =
     (if fut s n \<noteq> Result then Ok s
      else snd (begin_listener_close n True (record_bound_socket s)))"

text \<open>\<open>_retire\<close>: run the cleanup, then drop the entry. \<open>fails\<close>: closing the orphan listener raised;
  the entry stays, stuck.\<close>

definition retire :: "nat \<Rightarrow> bool \<Rightarrow> server \<Rightarrow> refusal + server" where
  "retire n fails s =
     (case ledger_get (Fut n) (ledger s) of
        None \<Rightarrow> end_work (Fut n) s
      | Some e \<Rightarrow>
          let e' = e\<lparr>wk_callback := False, wk_then := False\<rparr>;
              s1 = s\<lparr>ledger := ledger_put (Fut n) e' (ledger s)\<rparr>
          in if \<not> wk_then e then end_work (Fut n) s1
             else if fails \<and> fut s n = Result then
               Ok ((record_bound_socket s1)\<lparr>ledger :=
                      ledger_put (Fut n) (e'\<lparr>wk_stuck := True\<rparr>) (ledger s1)\<rparr>)
             else bind_result (close_orphan_listener n s1) (end_work (Fut n)))"

definition adopt_listener :: "nat \<Rightarrow> server \<Rightarrow> refusal + server" where
  "adopt_listener n s =
     bind_result (hand_off None (Listener n) K_listener False (s\<lparr>listener := Some n\<rparr>))
       (\<lambda>s1. Ok (record_bound_socket s1))"

section \<open>The drain\<close>

definition cancel_one :: "nat \<Rightarrow> server \<Rightarrow> server" where
  "cancel_one n s = linger n K_session (s\<lparr>asked := (asked s)(n := True)\<rparr>)"

definition cancel_sessions :: "server \<Rightarrow> server" where
  "cancel_sessions s = fold cancel_one (sessions s) s"

text \<open>Starting \<open>backend.close()\<close>, once per attempt.\<close>

definition start_close :: "server \<Rightarrow> server" where
  "start_close s =
     (case close_task s of
        Some c \<Rightarrow> s
      | None \<Rightarrow> let (c, s1) = spawn s in s1\<lparr>close_task := Some c, backend_open := False\<rparr>)"

definition keep_lock_for_leftover_work :: "bool \<Rightarrow> server \<Rightarrow> server" where
  "keep_lock_for_leftover_work close_backend s =
     (let s1 = cancel_sessions s;
          s2 = (if close_backend then start_close s1 else s1);
          s3 = (case close_task s2 of None \<Rightarrow> s2 | Some c \<Rightarrow> linger c K_close s2)
      in case idle_hook s3 of
           Busy \<Rightarrow> let (n, s4) = spawn s3 in linger n K_thread s4
         | _ \<Rightarrow> s3)"

text \<open>The \<open>finally\<close> of \<open>start()\<close>: drop the start's token, decide between \<open>NEW\<close> and \<open>STOPPING\<close> if
  the start did not get anywhere else, and settle.\<close>

definition finish_start :: "nat \<Rightarrow> server \<Rightarrow> refusal + server" where
  "finish_start tok s =
     bind_result (end_work (Token tok) (s\<lparr>starting := S_idle\<rparr>)) (\<lambda>s1.
       bind_result
         (if lstate s1 = STARTING
          then transition (if live_reasons (ledger s1) \<noteq> [] then STOPPING else NEW) s1 else Ok s1)
         settle)"

text \<open>The end of the drain, on every path; a stop task is then done, an unwinding start goes on.\<close>

definition finish_drain :: "drain \<Rightarrow> outcome \<Rightarrow> server \<Rightarrow> refusal + server" where
  "finish_drain d oc s =
     bind_result
       (end_work (Token (dr_token d))
          ((keep_lock_for_leftover_work (dr_close_backend d) s)\<lparr>draining := None\<rparr>))
       (\<lambda>s1. case dr_owner d of
          Some n \<Rightarrow> Ok (s1\<lparr>fut := (fut s1)(n := oc)\<rparr>)
        | None \<Rightarrow> (case starting s1 of S_unwinding tok \<Rightarrow> finish_start tok s1 | _ \<Rightarrow> Ok s1))"

definition drain_backend :: "drain \<Rightarrow> server \<Rightarrow> refusal + server" where
  "drain_backend d s =
     (if \<not> dr_close_backend d then finish_drain d Result s
      else
        let s1 = (case close_task s of
                    Some c \<Rightarrow> s
                  | None \<Rightarrow> track (fresh s) K_close False False None (start_close s))
        in Ok (s1\<lparr>draining := Some (d\<lparr>dr_wait := D_close (the (close_task s1))\<rparr>)\<rparr>))"

definition drain_listener :: "drain \<Rightarrow> server \<Rightarrow> refusal + server" where
  "drain_listener d s =
     (case dr_closer d of
        None \<Rightarrow> drain_backend d s
      | Some c \<Rightarrow> Ok (s\<lparr>draining := Some (d\<lparr>dr_wait := D_listener c\<rparr>)\<rparr>))"

definition close_listener :: "server \<Rightarrow> refusal + (nat option \<times> server)" where
  "close_listener s =
     (case listener s of
        None \<Rightarrow> Ok (None, s)
      | Some n \<Rightarrow> let (c, r) = begin_listener_close n False s
                  in bind_result r (\<lambda>s1. Ok (Some c, s1)))"

definition begin_drain :: "bool \<Rightarrow> nat option \<Rightarrow> server \<Rightarrow> refusal + server" where
  "begin_drain close_backend owner s =
     (let (tok, r) = begin_work (s\<lparr>shutdown_event := True\<rparr>)
      in bind_result r (\<lambda>s1.
           let pending = sessions s1
           in bind_result (close_listener s1) (\<lambda>(closer, s2).
                let d = \<lparr>dr_token = tok, dr_close_backend = close_backend, dr_closer = closer,
                         dr_wait = D_sessions pending, dr_owner = owner\<rparr>
                in if pending \<noteq> [] then Ok (s2\<lparr>draining := Some d\<rparr>) else drain_listener d s2)))"

text \<open>A wait of the drain ends because what it waits for is done (\<open>expired = False\<close>) or because its
  bound has passed.\<close>

definition ask_cancel :: "nat list \<Rightarrow> server \<Rightarrow> server" where
  "ask_cancel ns s = s\<lparr>asked := (\<lambda>n. asked s n \<or> (n \<in> set ns \<and> fut s n = Pending))\<rparr>"

definition drain_step :: "bool \<Rightarrow> drain \<Rightarrow> server \<Rightarrow> (refusal + server) option" where
  "drain_step expired d s =
     (case dr_wait d of
        D_sessions ns \<Rightarrow>
          if list_ex (\<lambda>n. fut s n = Pending) ns then
            (if expired then Some (Ok ((ask_cancel ns s)\<lparr>draining := Some (d\<lparr>dr_wait := D_grace\<rparr>)\<rparr>))
             else None)
          else Some (drain_listener d s)
      | D_grace \<Rightarrow> Some (drain_listener d s)
      | D_listener c \<Rightarrow>
          if fut s c = Pending then
            (if expired then Some (drain_backend d (linger c K_listener_close s)) else None)
          else Some (drain_backend d s)
      | D_close c \<Rightarrow>
          if fut s c = Pending then
            (if expired then Some (finish_drain d Result (linger c K_close s)) else None)
          else Some (finish_drain d (if fut s c = Result then Result else Error) s))"

section \<open>\<open>start()\<close>\<close>

text \<open>Why \<open>start()\<close> is refused, and when it returns at once.\<close>

definition start_refusal :: "server \<Rightarrow> string option" where
  "start_refusal s =
     (if lstate s = RUNNING \<or> lstate s = NEW then None
      else if lstate s = STARTING then Some ''stt_server: start() is already in progress''
      else Some (''stt_server: '' @
        (if requested s then ''start() after shutdown()''
         else ''start() after a failed start that left work running'') @
        '' (state '' @ state_value (lstate s) @ ''); a TranscriptionServer is single-use''))"

definition unwind_failed_start :: "bool \<Rightarrow> nat \<Rightarrow> server \<Rightarrow> refusal + server" where
  "unwind_failed_start backend_started tok s =
     begin_drain backend_started None (s\<lparr>starting := S_unwinding tok\<rparr>)"

text \<open>The first part of \<open>start()\<close>: \<open>lock\<close> is what \<open>_lock_for_start\<close> got, \<open>None\<close> when it raised.\<close>

definition start_call :: "nat option \<Rightarrow> server \<Rightarrow> refusal + server" where
  "start_call lock s =
     (if lstate s \<noteq> NEW then Ok s
      else bind_result (transition STARTING s) (\<lambda>s1.
        let (tok, r) = begin_work s1
        in bind_result r (\<lambda>s2.
             if \<not> uds s2 then Ok (s2\<lparr>starting := S_backend tok\<rparr>)
             else case lock of
               None \<Rightarrow> unwind_failed_start False tok s2
             | Some fd \<Rightarrow> Ok (s2\<lparr>lock_fd := Some fd, starting := S_backend tok\<rparr>))))"

text \<open>\<open>backend.start()\<close> returned: the checkpoint, then the bind task.\<close>

definition backend_started :: "nat \<Rightarrow> server \<Rightarrow> refusal + server" where
  "backend_started tok s0 =
     (let s = s0\<lparr>backend_open := True\<rparr>
      in if lstate s \<noteq> STARTING then unwind_failed_start True tok s
         else let (n, s1) = spawn s
              in Ok ((track n K_bind False False None s1)\<lparr>starting := S_bind tok n\<rparr>))"

text \<open>The bind is over (or its wait was cancelled and it is over): record its listener; a start
  that goes on passes the second checkpoint.\<close>

definition bind_over :: "bool \<Rightarrow> nat \<Rightarrow> nat \<Rightarrow> server \<Rightarrow> refusal + server" where
  "bind_over cancelled tok n s =
     (if fut s n \<noteq> Result then unwind_failed_start True tok s
      else bind_result (adopt_listener n s) (\<lambda>s1.
        if cancelled \<or> lstate s1 \<noteq> STARTING then unwind_failed_start True tok s1
        else bind_result (transition RUNNING s1) (finish_start tok)))"

definition start_resume :: "server \<Rightarrow> (refusal + server) option" where
  "start_resume s =
     (case starting s of
        S_bind tok n \<Rightarrow> if fut s n = Pending then None else Some (bind_over False tok n s)
      | S_bind_cancelled tok n \<Rightarrow> if fut s n = Pending then None else Some (bind_over True tok n s)
      | _ \<Rightarrow> None)"

text \<open>A cancellation of the task that runs \<open>start()\<close>, where it waits. In the unwinding it lands in
  the drain.\<close>

definition start_cancel :: "server \<Rightarrow> (refusal + server) option" where
  "start_cancel s =
     (case starting s of
        S_backend tok \<Rightarrow> Some (unwind_failed_start False tok s)
      | S_bind tok n \<Rightarrow>
          if fut s n = Pending then Some (Ok (s\<lparr>starting := S_bind_cancelled tok n\<rparr>))
          else Some (bind_over True tok n s)
      | S_bind_cancelled tok n \<Rightarrow>
          if fut s n = Pending then
            Some (unwind_failed_start True tok (track n K_bind True True None s))
          else Some (bind_over True tok n s)
      | _ \<Rightarrow> None)"

section \<open>\<open>shutdown()\<close>, adoption and the events\<close>

definition shutdown_call :: "server \<Rightarrow> refusal + server" where
  "shutdown_call s0 =
     (let s = s0\<lparr>requested := True\<rparr>
      in case lstate s of
           NEW \<Rightarrow> transition STOPPED s
         | STARTING \<Rightarrow> transition STOPPING s
         | RUNNING \<Rightarrow> bind_result (transition STOPPING s) (\<lambda>s1.
             let (n, s2) = spawn s1
             in Ok (track n K_step False False None (s2\<lparr>stop_task := Some n\<rparr>)))
         | _ \<Rightarrow> Ok s)"

definition can_adopt :: "server \<Rightarrow> bool" where
  "can_adopt s = (lstate s \<in> set ADOPTABLE_STATES)"

definition adopt :: "bool \<Rightarrow> string \<Rightarrow> server \<Rightarrow> server" where
  "adopt abandoned label s =
     (if strip label = [] \<or> \<not> can_adopt s then s
      else let (n, s1) = spawn s in track n K_adopted abandoned False (Some label) s1)"

text \<open>Adopting a tracked future again only adds the stuck mark.\<close>

definition adopt_again :: "nat \<Rightarrow> string \<Rightarrow> server \<Rightarrow> server" where
  "adopt_again n label s =
     (if strip label = [] \<or> \<not> can_adopt s then s else track n K_adopted True False (Some label) s)"

text \<open>Sessions exist only under a listener that is bound, being bound or closing (its
  \<open>wait_closed\<close> waits for the handlers), and decodes under a session.\<close>

definition serving :: "server \<Rightarrow> bool" where
  "serving s = list_ex (\<lambda>(k, w). wk_kind w \<in> {K_listener, K_listener_close, K_bind, K_session}) (ledger s)"

text \<open>A bind completes with \<open>Bind_Done\<close>, any other future with \<open>Future_Done\<close>; the stop task only
  through its drain.\<close>

datatype levent =
    Start_Call "nat option" | Backend_Started | Start_Fails | Start_Cancel | Start_Resume
  | Bind_Done nat "int \<times> int" | Future_Done nat outcome | Callback nat bool
  | Session_Begins | Adopt bool string | Adopt_Again nat string | Shutdown_Call | Shutdown_Cancelled | Stop_Task_Runs
  | Drain_Step bool | Drain_Cancelled | Hook idle_answer | File "(int \<times> int) option"

definition future_kind :: "nat \<Rightarrow> server \<Rightarrow> kind option" where
  "future_kind n s = map_option wk_kind (ledger_get (Fut n) (ledger s))"

definition lifecycle_step :: "levent \<Rightarrow> server \<Rightarrow> (refusal + server) option" where
  "lifecycle_step e s =
     (case e of
        Start_Call lock \<Rightarrow> Some (start_call lock s)
      | Backend_Started \<Rightarrow>
          (case starting s of S_backend tok \<Rightarrow> Some (backend_started tok s) | _ \<Rightarrow> None)
      | Start_Fails \<Rightarrow>
          (case starting s of S_backend tok \<Rightarrow> Some (unwind_failed_start False tok s) | _ \<Rightarrow> None)
      | Start_Cancel \<Rightarrow> start_cancel s
      | Start_Resume \<Rightarrow> start_resume s
      | Bind_Done n i \<Rightarrow>
          if fut s n = Pending \<and> future_kind n s = Some K_bind \<and> stop_task s \<noteq> Some n then
            Some (Ok (record_bound_socket
              (s\<lparr>fut := (fut s)(n := Result), sock_file := (if uds s then Some i else sock_file s)\<rparr>)))
          else None
      | Future_Done n oc \<Rightarrow>
          if fut s n = Pending \<and> oc \<noteq> Pending \<and> stop_task s \<noteq> Some n \<and>
             (case future_kind n s of None \<Rightarrow> False | Some k \<Rightarrow> k = K_bind \<longrightarrow> oc \<noteq> Result)
          then Some (Ok (s\<lparr>fut := (fut s)(n := oc)\<rparr>)) else None
      | Callback n fails \<Rightarrow>
          (case ledger_get (Fut n) (ledger s) of
             None \<Rightarrow> None
           | Some w \<Rightarrow> if wk_callback w \<and> fut s n \<noteq> Pending then Some (retire n fails s) else None)
      | Session_Begins \<Rightarrow>
          if serving s then
            Some (Ok (let (n, s1) = spawn s in track n K_session False False None s1)) else None
      | Adopt abandoned label \<Rightarrow> Some (Ok (adopt abandoned label s))
      | Adopt_Again n label \<Rightarrow>
          if future_kind n s = Some K_adopted then Some (Ok (adopt_again n label s)) else None
      | Shutdown_Call \<Rightarrow> Some (shutdown_call s)
      | Shutdown_Cancelled \<Rightarrow>
          (case stop_task s of
             None \<Rightarrow> None
           | Some n \<Rightarrow> if fut s n = Pending then Some (Ok (cancel_sessions s)) else None)
      | Stop_Task_Runs \<Rightarrow>
          (case stop_task s of
             None \<Rightarrow> None
           | Some n \<Rightarrow> if fut s n = Pending \<and> draining s = None
                       then Some (begin_drain True (Some n) s) else None)
      | Drain_Step expired \<Rightarrow>
          (case draining s of None \<Rightarrow> None | Some d \<Rightarrow> drain_step expired d s)
      | Drain_Cancelled \<Rightarrow>
          (case draining s of None \<Rightarrow> None | Some d \<Rightarrow> Some (finish_drain d Cancelled s))
      | Hook a \<Rightarrow> Some (Ok (s\<lparr>idle_hook := a\<rparr>))
      | File f \<Rightarrow> Some (Ok (s\<lparr>sock_file := f\<rparr>)))"

definition new_server :: "bool \<Rightarrow> (int \<times> int) option \<Rightarrow> idle_answer \<Rightarrow> server" where
  "new_server is_uds file hook = reset_attempt
     \<lparr>lstate = NEW, lock_fd = None, ledger = [], requested = False, unlocked = True, listener = None,
      bound_id = None, close_task = None, stop_task = None, shutdown_event = False,
      fut = (\<lambda>n. Pending), asked = (\<lambda>n. False), fresh = 0, starting = S_idle, draining = None,
      uds = is_uds, sock_file = file, backend_open = False, idle_hook = hook\<rparr>"

definition lifecycle_init :: "server \<Rightarrow> bool" where
  "lifecycle_init s \<longleftrightarrow> (\<exists>b f h. s = new_server b f h)"

inductive lifecycle_next :: "server \<Rightarrow> server \<Rightarrow> bool" where
  lifecycle_nextI: "lifecycle_step e s = Some (Ok s') \<Longrightarrow> lifecycle_next s s'"

inductive_cases lifecycle_nextE: "lifecycle_next s s'"

end
