(* ===== verification/Lifecycle_Inv.thy ===== *)
theory Lifecycle_Inv
  imports Lifecycle
begin

text \<open>
  The invariant of the server's lifecycle and its preservation: which keys protect which
  state, when the lock is held, who still has to close the backend. From it follow the
  lock rules of the class docstring, that no transition is ever refused, and the orderly
  end of every start and shutdown.
\<close>

section \<open>Ledger facts\<close>

definition keys :: "server \<Rightarrow> key set" where
  "keys s = fst ` set (ledger s)"

definition kinds :: "server \<Rightarrow> kind set" where
  "kinds s = wk_kind ` snd ` set (ledger s)"

fun key_num :: "key \<Rightarrow> nat" where
  "key_num (Token n) = n"
| "key_num (Listener n) = n"
| "key_num (Fut n) = n"

lemma put_keys: "fst ` set (ledger_put k w l) = insert k (fst ` set l)"
  by (induction k w l rule: ledger_put.induct) auto

lemma put_set: "set (ledger_put k w l) \<subseteq> insert (k, w) (set l)"
  by (induction k w l rule: ledger_put.induct) auto

lemma put_ne [simp]: "ledger_put k w l \<noteq> []"
  by (cases l) (auto split: if_splits)

lemma pop_keys: "fst ` set (ledger_pop k l) = fst ` set l - {k}"
  by (auto simp: ledger_pop_def image_iff)

lemma pop_set: "set (ledger_pop k l) \<subseteq> set l"
  by (auto simp: ledger_pop_def)

lemma count_reason_ne: "count_reason w r \<noteq> []"
  by (cases "(w, r)" rule: count_reason.cases) auto

lemma fold_count_ne: "r \<noteq> [] \<Longrightarrow> fold (\<lambda>(k, w). count_reason w) l r \<noteq> []"
proof (induction l arbitrary: r)
  case (Cons e l)
  then show ?case using count_reason_ne by (cases e) simp
qed simp

lemma live_reasons_Nil [simp]: "live_reasons l = [] \<longleftrightarrow> l = []"
proof (cases l)
  case (Cons e es)
  then show ?thesis
    using fold_count_ne [of "count_reason (snd e) []" es] count_reason_ne [of "snd e" "[]"]
    by (auto simp: live_reasons_def split: prod.splits)
qed (simp add: live_reasons_def)

lemma keys_empty: "keys s = {} \<longleftrightarrow> ledger s = []"
  by (simp add: keys_def)

lemma keys_ledger [simp]:
  "keys (s\<lparr>ledger := ledger_put k w (ledger s')\<rparr>) = insert k (keys s')"
  "keys (s\<lparr>ledger := ledger_pop k (ledger s')\<rparr>) = keys s' - {k}"
  by (simp_all add: keys_def put_keys pop_keys)

lemma kinds_pop: "kinds (s\<lparr>ledger := ledger_pop k (ledger s)\<rparr>) \<subseteq> kinds s"
  using pop_set [of k "ledger s"] by (auto simp: kinds_def)

lemma kinds_put:
  fixes s s' :: server
  shows "kinds (s\<lparr>ledger := ledger_put k w (ledger s')\<rparr>) \<subseteq> insert (wk_kind w) (kinds s')"
  by (auto simp: kinds_def dest!: subsetD [OF put_set])

lemma keys_same: "ledger t = ledger s \<Longrightarrow> keys t = keys s"
  by (simp add: keys_def)

lemma kinds_same: "ledger t = ledger s \<Longrightarrow> kinds t = kinds s"
  by (simp add: kinds_def)

section \<open>What the small operations leave alone\<close>

lemma track_fields [simp]:
  "lstate (track n k b o1 l s) = lstate s" "lock_fd (track n k b o1 l s) = lock_fd s"
  "requested (track n k b o1 l s) = requested s" "unlocked (track n k b o1 l s) = unlocked s"
  "listener (track n k b o1 l s) = listener s" "bound_id (track n k b o1 l s) = bound_id s"
  "close_task (track n k b o1 l s) = close_task s" "stop_task (track n k b o1 l s) = stop_task s"
  "shutdown_event (track n k b o1 l s) = shutdown_event s" "fut (track n k b o1 l s) = fut s"
  "fresh (track n k b o1 l s) = fresh s" "starting (track n k b o1 l s) = starting s"
  "draining (track n k b o1 l s) = draining s" "uds (track n k b o1 l s) = uds s"
  "backend_open (track n k b o1 l s) = backend_open s" "idle_hook (track n k b o1 l s) = idle_hook s"
  "sock_file (track n k b o1 l s) = sock_file s"
  by (simp_all add: track_def Let_def)

lemma track_keys:
  "keys (track n k b o1 l s) = (if fut s n = Pending then insert (Fut n) (keys s) else keys s)"
  by (simp add: track_def Let_def)

lemma track_put:
  assumes "fut s n = Pending"
  obtains e where "track n k b o1 l s = s\<lparr>ledger := ledger_put (Fut n) e (ledger s)\<rparr>"
    "wk_kind e = (case ledger_get (Fut n) (ledger s) of None \<Rightarrow> k | Some e \<Rightarrow> wk_kind e)"
  using assms by (simp add: track_def Let_def new_work_def split: option.splits)

lemma get_kind: "ledger_get k (ledger s) = Some e \<Longrightarrow> wk_kind e \<in> kinds s"
  by (force simp: ledger_get_def kinds_def dest: map_of_SomeD)

lemma track_kinds: "kinds (track n k b o1 l s) \<subseteq> insert k (kinds s)"
proof (cases "fut s n = Pending")
  case True
  obtain e where e: "track n k b o1 l s = s\<lparr>ledger := ledger_put (Fut n) e (ledger s)\<rparr>"
    "wk_kind e = (case ledger_get (Fut n) (ledger s) of None \<Rightarrow> k | Some e \<Rightarrow> wk_kind e)"
    by (rule track_put [OF True])
  have "wk_kind e \<in> insert k (kinds s)" using e(2) get_kind by (auto split: option.splits)
  then show ?thesis using kinds_put [of "Fut n" e s s] e(1) by auto
qed (auto simp: track_def)

lemma track_kinds_old:
  assumes "ledger_get (Fut n) (ledger s) \<noteq> None"
  shows "kinds (track n k b o1 l s) \<subseteq> kinds s"
proof (cases "fut s n = Pending")
  case True
  obtain e where e: "track n k b o1 l s = s\<lparr>ledger := ledger_put (Fut n) e (ledger s)\<rparr>"
    "wk_kind e = (case ledger_get (Fut n) (ledger s) of None \<Rightarrow> k | Some e \<Rightarrow> wk_kind e)"
    by (rule track_put [OF True])
  have "wk_kind e \<in> kinds s" using e(2) assms get_kind by (auto split: option.splits)
  then show ?thesis using kinds_put [of "Fut n" e s s] e(1) by auto
qed (auto simp: track_def)

lemma spawn_eq: "spawn s = (fresh s, snd (spawn s))"
  by (simp add: spawn_def)

lemma spawn_fields [simp]:
  "lstate (snd (spawn s)) = lstate s" "lock_fd (snd (spawn s)) = lock_fd s"
  "requested (snd (spawn s)) = requested s" "unlocked (snd (spawn s)) = unlocked s"
  "listener (snd (spawn s)) = listener s" "bound_id (snd (spawn s)) = bound_id s"
  "close_task (snd (spawn s)) = close_task s" "stop_task (snd (spawn s)) = stop_task s"
  "shutdown_event (snd (spawn s)) = shutdown_event s" "ledger (snd (spawn s)) = ledger s"
  "fresh (snd (spawn s)) = Suc (fresh s)" "starting (snd (spawn s)) = starting s"
  "draining (snd (spawn s)) = draining s" "uds (snd (spawn s)) = uds s"
  "backend_open (snd (spawn s)) = backend_open s" "idle_hook (snd (spawn s)) = idle_hook s"
  "sock_file (snd (spawn s)) = sock_file s" "fut (snd (spawn s)) = (fut s)(fresh s := Pending)"
  "fst (spawn s) = fresh s" "keys (snd (spawn s)) = keys s" "kinds (snd (spawn s)) = kinds s"
  by (simp_all add: spawn_def keys_def kinds_def)

lemma unlink_fields [simp]:
  "lstate (unlink_own_socket s) = lstate s" "lock_fd (unlink_own_socket s) = lock_fd s"
  "requested (unlink_own_socket s) = requested s" "unlocked (unlink_own_socket s) = unlocked s"
  "listener (unlink_own_socket s) = listener s" "bound_id (unlink_own_socket s) = bound_id s"
  "close_task (unlink_own_socket s) = close_task s" "stop_task (unlink_own_socket s) = stop_task s"
  "shutdown_event (unlink_own_socket s) = shutdown_event s" "ledger (unlink_own_socket s) = ledger s"
  "fresh (unlink_own_socket s) = fresh s" "starting (unlink_own_socket s) = starting s"
  "draining (unlink_own_socket s) = draining s" "uds (unlink_own_socket s) = uds s"
  "backend_open (unlink_own_socket s) = backend_open s" "fut (unlink_own_socket s) = fut s"
  "keys (unlink_own_socket s) = keys s" "kinds (unlink_own_socket s) = kinds s"
  by (simp_all add: unlink_own_socket_def keys_def kinds_def)

lemma record_fields [simp]:
  "lstate (record_bound_socket s) = lstate s" "lock_fd (record_bound_socket s) = lock_fd s"
  "requested (record_bound_socket s) = requested s" "unlocked (record_bound_socket s) = unlocked s"
  "listener (record_bound_socket s) = listener s" "sock_file (record_bound_socket s) = sock_file s"
  "close_task (record_bound_socket s) = close_task s" "stop_task (record_bound_socket s) = stop_task s"
  "shutdown_event (record_bound_socket s) = shutdown_event s" "ledger (record_bound_socket s) = ledger s"
  "fresh (record_bound_socket s) = fresh s" "starting (record_bound_socket s) = starting s"
  "draining (record_bound_socket s) = draining s" "uds (record_bound_socket s) = uds s"
  "backend_open (record_bound_socket s) = backend_open s" "fut (record_bound_socket s) = fut s"
  "keys (record_bound_socket s) = keys s" "kinds (record_bound_socket s) = kinds s"
  by (simp_all add: record_bound_socket_def keys_def kinds_def split: option.splits)

section \<open>The invariant\<close>

definition bounded :: "server \<Rightarrow> bool" where
  "bounded s \<longleftrightarrow> (\<forall>k \<in> keys s. key_num k < fresh s)"

definition locked :: "server \<Rightarrow> bool" where
  "locked s \<longleftrightarrow> (uds s \<longrightarrow> lock_fd s \<noteq> None)"

text \<open>Without the lock only steps, worker threads and adopted tasks are in the ledger, and no
  orphan bind: those exist only while a start unwinds or the server is stopping.\<close>

definition no_then :: "server \<Rightarrow> bool" where
  "no_then s \<longleftrightarrow> (\<forall>w \<in> snd ` set (ledger s). \<not> wk_then w)"

definition lock_inv :: "server \<Rightarrow> bool" where
  "lock_inv s \<longleftrightarrow> locked s \<or> (kinds s \<subseteq> {K_step, K_thread, K_adopted} \<and> no_then s)"

definition unwinding :: "server \<Rightarrow> bool" where
  "unwinding s \<longleftrightarrow> (case starting s of S_unwinding t \<Rightarrow> True | _ \<Rightarrow> False)"

definition base_inv :: "server \<Rightarrow> bool" where
  "base_inv s \<longleftrightarrow> bounded s \<and> lock_inv s \<and> (requested s \<longrightarrow> lstate s \<in> {STOPPING, STOPPED}) \<and>
     unlocked s = (lstate s \<in> {NEW, STOPPED}) \<and>
     (lstate s = STOPPING \<or> unwinding s \<or> no_then s)"

text \<open>A drain in progress: its token, its owner, and the backend it still has to close.\<close>

definition drain_pre :: "drain \<Rightarrow> server \<Rightarrow> bool" where
  "drain_pre d s \<longleftrightarrow>
     Token (dr_token d) \<in> keys s \<and> (backend_open s \<longrightarrow> dr_close_backend d \<and> close_task s = None) \<and>
     (case dr_owner d of
        None \<Rightarrow> (\<exists>tok. starting s = S_unwinding tok \<and> Token tok \<in> keys s \<and> tok \<noteq> dr_token d) \<and>
          stop_task s = None \<and> lstate s \<in> {STARTING, STOPPING}
      | Some n \<Rightarrow> starting s = S_idle \<and> stop_task s = Some n \<and> fut s n = Pending \<and> Fut n \<in> keys s \<and>
          lstate s = STOPPING)"

text \<open>The futures a drain waits for, and close tasks, are old.\<close>

definition close_old :: "server \<Rightarrow> bool" where
  "close_old s \<longleftrightarrow> (\<forall>c. close_task s = Some c \<longrightarrow> c < fresh s)"

definition wait_old :: "drain \<Rightarrow> server \<Rightarrow> bool" where
  "wait_old d s \<longleftrightarrow>
     (\<forall>c. dr_closer d = Some c \<or> dr_wait d = D_listener c \<or> dr_wait d = D_close c \<longrightarrow> c < fresh s)"

definition start_pre :: "server \<Rightarrow> bool" where
  "start_pre s \<longleftrightarrow> locked s \<and> close_task s = None \<and> listener s = None \<and> stop_task s = None \<and>
     (\<exists>tok. Token tok \<in> keys s \<and>
        (starting s = S_backend tok \<and> \<not> backend_open s \<or>
         (\<exists>n < fresh s. starting s = S_bind tok n \<or> starting s = S_bind_cancelled tok n)))"

definition leftover :: "server \<Rightarrow> bool" where
  "leftover s \<longleftrightarrow> starting s = S_idle \<and> ledger s \<noteq> [] \<and>
     (case stop_task s of
        None \<Rightarrow> \<not> backend_open s
      | Some n \<Rightarrow> n < fresh s \<and>
          (if fut s n = Pending then Fut n \<in> keys s \<and> close_task s = None \<and> locked s
           else \<not> backend_open s))"

definition quiescent :: "server \<Rightarrow> bool" where
  "quiescent s \<longleftrightarrow> ledger s = [] \<and> lock_fd s = None \<and> starting s = S_idle \<and> \<not> backend_open s"

definition lifecycle_inv :: "server \<Rightarrow> bool" where
  "lifecycle_inv s \<longleftrightarrow> base_inv s \<and>
     (case draining s of
        Some d \<Rightarrow> drain_pre d s \<and> locked s \<and> close_old s \<and> wait_old d s
      | None \<Rightarrow>
          (case lstate s of
             NEW \<Rightarrow> quiescent s \<and> listener s = None \<and> bound_id s = None \<and> close_task s = None \<and>
               stop_task s = None \<and> \<not> shutdown_event s
           | STOPPED \<Rightarrow> quiescent s \<and> (\<forall>n. stop_task s = Some n \<longrightarrow> n < fresh s \<and> fut s n \<noteq> Pending)
           | STARTING \<Rightarrow> start_pre s
           | RUNNING \<Rightarrow> starting s = S_idle \<and> close_task s = None \<and> stop_task s = None \<and> locked s \<and>
               (\<exists>n. listener s = Some n \<and> Listener n \<in> keys s)
           | STOPPING \<Rightarrow> start_pre s \<or> leftover s))"

lemmas inv_defs = lifecycle_inv_def base_inv_def bounded_def lock_inv_def locked_def quiescent_def

lemma inv_init: "lifecycle_init s \<Longrightarrow> lifecycle_inv s"
  by (auto simp: lifecycle_init_def new_server_def reset_attempt_def inv_defs keys_def kinds_def no_then_def)

lemma live_nonempty: "lifecycle_inv s \<Longrightarrow> lstate s \<notin> {NEW, STOPPED} \<Longrightarrow> ledger s \<noteq> []"
  by (auto simp: lifecycle_inv_def drain_pre_def start_pre_def leftover_def keys_def split: option.splits lifecycle.splits)

text \<open>A change that keeps the control state and only adds to the ledger keeps the invariant.\<close>

definition extends :: "server \<Rightarrow> server \<Rightarrow> bool" where
  "extends s t \<longleftrightarrow>
     lstate t = lstate s \<and> lock_fd t = lock_fd s \<and> requested t = requested s \<and>
     unlocked t = unlocked s \<and> listener t = listener s \<and> close_task t = close_task s \<and>
     stop_task t = stop_task s \<and> starting t = starting s \<and> draining t = draining s \<and> uds t = uds s \<and>
     backend_open t = backend_open s \<and> fresh s \<le> fresh t \<and> keys s \<subseteq> keys t \<and>
     (\<forall>n. stop_task s = Some n \<longrightarrow> (fut t n = Pending \<longleftrightarrow> fut s n = Pending)) \<and>
     (no_then s \<longrightarrow> no_then t) \<and>
     (lstate s \<in> {NEW, STOPPED} \<longrightarrow> ledger t = ledger s) \<and>
     (lstate s = NEW \<longrightarrow> bound_id t = bound_id s \<and> shutdown_event t = shutdown_event s)"

lemma inv_extends:
  assumes "lifecycle_inv s" "extends s t" "bounded t" "lock_inv t"
  shows "lifecycle_inv t"
proof -
  have "keys s \<subseteq> keys t" using assms(2) by (simp add: extends_def)
  then have sub: "k \<in> keys s \<Longrightarrow> k \<in> keys t" for k by blast
  have eq: "lstate t = lstate s" "lock_fd t = lock_fd s" "listener t = listener s"
    "close_task t = close_task s" "stop_task t = stop_task s" "starting t = starting s"
    "draining t = draining s" "uds t = uds s" "backend_open t = backend_open s" "fresh s \<le> fresh t"
    using assms(2) by (simp_all add: extends_def)
  have pend: "stop_task s = Some n \<Longrightarrow> (fut t n = Pending) = (fut s n = Pending)" for n
    using assms(2) by (simp add: extends_def)
  have l: "locked t = locked s" using eq by (simp add: locked_def)
  have dp: "drain_pre d t" if "drain_pre d s" for d
    using that by (cases "dr_owner d") (auto simp: drain_pre_def eq pend intro: sub)
  have sp: "start_pre s \<Longrightarrow> start_pre t"
    unfolding start_pre_def l eq by (blast intro: sub less_le_trans [OF _ eq(10)])
  have ne: "ledger s \<noteq> [] \<Longrightarrow> ledger t \<noteq> []"
    using keys_empty [of s] keys_empty [of t] sub by auto
  have lo: "leftover t" if "leftover s" "lstate s = STOPPING"
    using that ne eq(10) by (cases "stop_task s") (auto simp: leftover_def l eq pend intro: sub less_le_trans [OF _ eq(10)])
  have run: "Listener n \<in> keys s \<Longrightarrow> Listener n \<in> keys t" for n by (rule sub)
  have base: "base_inv t"
    using assms unfolding lifecycle_inv_def base_inv_def extends_def unwinding_def by auto
  show ?thesis
  proof (cases "draining s")
    case (Some d)
    then have "draining t = Some d" "drain_pre d s \<and> locked s" "close_old s" "wait_old d s"
      using assms(1,2) by (simp_all add: lifecycle_inv_def extends_def)
    moreover have "close_old t" "wait_old d t"
      using \<open>close_old s\<close> \<open>wait_old d s\<close> eq by (auto simp: close_old_def wait_old_def intro: less_le_trans [OF _ eq(10)])
    ultimately show ?thesis using base dp l by (simp add: lifecycle_inv_def)
  next
    case None
    then have "draining t = None" "lstate t = lstate s" using assms(2) by (simp_all add: extends_def)
    then show ?thesis
      using assms(1,2) base sp lo run l None pend
      by (cases "lstate s") (auto simp: lifecycle_inv_def quiescent_def extends_def intro: less_le_trans [OF _ eq(10)])
  qed
qed

section \<open>Single operations\<close>

lemma settle_go: "lstate s \<noteq> STOPPING \<or> ledger s \<noteq> [] \<Longrightarrow> settle s = Ok s"
  by (auto simp: settle_def)

lemma settle_stop:
  "lstate s = STOPPING \<Longrightarrow> ledger s = [] \<Longrightarrow>
     settle s = Ok (s\<lparr>lstate := STOPPED, lock_fd := None, unlocked := True\<rparr>)"
  by (simp add: settle_def transition_def UNLOCKED_STATES_def release_lock_def Let_def)

lemma no_then_track: "no_then s \<Longrightarrow> no_then (track n k b False l s)"
proof (cases "fut s n = Pending")
  case True
  assume nt: "no_then s"
  have "ledger_get (Fut n) (ledger s) = Some e \<Longrightarrow> \<not> wk_then e" for e
    using nt by (force simp: no_then_def ledger_get_def dest: map_of_SomeD)
  then show ?thesis
    using True nt put_set [of "Fut n" _ "ledger s"]
    by (fastforce simp: no_then_def track_def Let_def new_work_def split: option.splits)
qed (simp add: track_def)

lemma no_then_same: "ledger t = ledger s \<Longrightarrow> no_then t = no_then s"
  by (simp add: no_then_def)

lemma no_then_pop: "no_then s \<Longrightarrow> no_then (s\<lparr>ledger := ledger_pop k (ledger s)\<rparr>)"
  by (auto simp: no_then_def ledger_pop_def)

lemma no_then_put: "no_then s \<Longrightarrow> \<not> wk_then w \<Longrightarrow> no_then (t\<lparr>ledger := ledger_put k w (ledger s)\<rparr>)"
  using put_set [of k w "ledger s"] by (fastforce simp: no_then_def)

lemma locked_track [simp]: "locked (track n k b o1 l s) = locked s"
  by (simp add: locked_def)

lemma locked_spawn [simp]: "locked (snd (spawn s)) = locked s"
  by (simp add: locked_def)

lemma inv_bounded: "lifecycle_inv s \<Longrightarrow> bounded s" "lifecycle_inv s \<Longrightarrow> lock_inv s"
  by (simp_all add: lifecycle_inv_def base_inv_def)

lemma lock_inv_track:
  "lock_inv s \<Longrightarrow> locked s \<or> (k \<in> {K_step, K_thread, K_adopted} \<and> \<not> o1) \<Longrightarrow> lock_inv (track n k b o1 l s)"
  using track_kinds [of n k b o1 l s] no_then_track [of s n k b l] by (auto simp: lock_inv_def)

lemma bounded_track: "bounded s \<Longrightarrow> n < fresh s \<Longrightarrow> bounded (track n k b o1 l s)"
  by (auto simp: bounded_def track_keys)

lemma bounded_spawn: "bounded s \<Longrightarrow> bounded (snd (spawn s))"
  by (auto simp: bounded_def less_Suc_eq)

lemma extends_track:
  "lstate s \<notin> {NEW, STOPPED} \<Longrightarrow> \<not> o1 \<Longrightarrow> extends s (track n k b o1 l s)"
  using no_then_track [of s n k b l] by (auto simp: extends_def track_keys)

text \<open>The stop task of a live server is an old future.\<close>

lemma stop_task_old:
  "lifecycle_inv s \<Longrightarrow> stop_task s = Some n \<Longrightarrow> n < fresh s"
  by (auto simp: lifecycle_inv_def base_inv_def bounded_def drain_pre_def start_pre_def leftover_def
      split: option.splits lifecycle.splits)

lemma extends_spawn: "lifecycle_inv s \<Longrightarrow> extends s (snd (spawn s))"
  using stop_task_old [of s] no_then_same [of "snd (spawn s)" s] by (auto simp: extends_def)

lemma lock_inv_spawn: "lock_inv (snd (spawn s)) = lock_inv s"
  by (simp add: lock_inv_def no_then_same [of "snd (spawn s)" s])

lemma inv_spawn: "lifecycle_inv s \<Longrightarrow> lifecycle_inv (snd (spawn s))"
  by (rule inv_extends [OF _ extends_spawn]) (simp_all add: lock_inv_spawn bounded_spawn inv_bounded)

lemma inv_track:
  assumes "lifecycle_inv s" "lstate s \<notin> {NEW, STOPPED}" "n < fresh s"
    "locked s \<or> k \<in> {K_step, K_thread, K_adopted}"
  shows "lifecycle_inv (track n k b False l s)"
  by (rule inv_extends [OF assms(1) extends_track])
    (use assms in \<open>auto intro!: bounded_track lock_inv_track dest: inv_bounded\<close>)

text \<open>Removing a key that protects nothing.\<close>

definition unprotected :: "key \<Rightarrow> server \<Rightarrow> bool" where
  "unprotected k s \<longleftrightarrow>
     (case k of Token n \<Rightarrow> False | Fut n \<Rightarrow> fut s n \<noteq> Pending | Listener n \<Rightarrow> lstate s \<noteq> RUNNING)"

lemma inv_end_work:
  assumes inv: "lifecycle_inv s" and un: "unprotected k s"
  shows "\<exists>t. end_work k s = Ok t \<and> lifecycle_inv t"
proof -
  let ?t = "s\<lparr>ledger := ledger_pop k (ledger s)\<rparr>"
  have base: "base_inv s" using inv by (simp add: lifecycle_inv_def)
  have bt: "base_inv ?t"
    using base kinds_pop [of k s] no_then_pop [of s k]
    by (auto simp: base_inv_def bounded_def lock_inv_def locked_def unwinding_def)
  have tok: "Token n \<in> keys s \<Longrightarrow> Token n \<in> keys ?t" for n
    using un by (auto simp: unprotected_def)
  have fu: "Fut n \<in> keys s \<Longrightarrow> fut s n = Pending \<Longrightarrow> Fut n \<in> keys ?t" for n
    using un by (auto simp: unprotected_def)
  have lock: "locked ?t = locked s" by (simp add: locked_def)
  show ?thesis
  proof (cases "draining s")
    case (Some d)
    then have dp: "drain_pre d ?t" "locked ?t" "close_old ?t" "wait_old d ?t"
      using inv tok fu lock by (auto simp: lifecycle_inv_def drain_pre_def close_old_def wait_old_def split: option.splits)
    then have "keys ?t \<noteq> {}" by (auto simp: drain_pre_def)
    then have "ledger ?t \<noteq> []" using keys_empty by blast
    then show ?thesis using dp Some bt by (simp add: end_work_def settle_go lifecycle_inv_def)
  next
    case None
    have sp: "start_pre s \<Longrightarrow> start_pre ?t"
      using tok unfolding start_pre_def lock by (simp del: keys_ledger) blast
    have run: "Listener n \<in> keys s \<Longrightarrow> Listener n \<in> keys ?t" if "lstate s = RUNNING" for n
      using that un by (auto simp: unprotected_def)
    show ?thesis
    proof (cases "lstate s = STOPPING \<and> ledger ?t = []")
      case True
      then have e: "keys ?t = {}" using keys_empty by blast
      then have "\<not> start_pre ?t" by (simp add: start_pre_def del: keys_ledger)
      then have "\<not> start_pre s" using sp by blast
      then have lo: "leftover s" using inv None True by (simp add: lifecycle_inv_def)
      have st: "fut s n \<noteq> Pending \<and> n < fresh s" if "stop_task s = Some n" for n
        using that lo fu [of n] e by (auto simp: leftover_def)
      then have "\<not> backend_open s" using lo by (auto simp: leftover_def split: option.splits if_splits)
      then show ?thesis
        using True lo None bt st
        by (auto simp: end_work_def settle_stop lifecycle_inv_def base_inv_def bounded_def keys_def lock_inv_def
            kinds_def no_then_def quiescent_def leftover_def)
    next
      case False
      then have "end_work k s = Ok ?t" by (auto simp: end_work_def intro!: settle_go)
      moreover have "leftover ?t" if "leftover s" "lstate s = STOPPING"
        using that False fu lock by (auto simp: leftover_def split: option.splits if_splits simp del: keys_ledger)
      moreover have "ledger s = [] \<Longrightarrow> ledger ?t = []" by (simp add: ledger_pop_def)
      ultimately show ?thesis
        using inv None bt sp run lock False
        by (cases "lstate s") (auto simp: lifecycle_inv_def quiescent_def simp del: keys_ledger)
    qed
  qed
qed

section \<open>The end of a start and of a drain\<close>

lemma finish_start_ok:
  assumes "base_inv s" "draining s = None" "\<not> backend_open s" "stop_task s = None"
    "lstate s \<in> {STARTING, STOPPING}" "\<not> requested s \<or> lstate s = STOPPING"
    and nt: "lstate s = STOPPING \<or> starting s = S_unwinding tok"
  shows "\<exists>t. finish_start tok s = Ok t \<and> lifecycle_inv t"
proof -
  let ?l = "ledger_pop (Token tok) (ledger s)"
  let ?s1 = "s\<lparr>starting := S_idle, ledger := ?l\<rparr>"
  have set: "set ?l \<subseteq> set (ledger s)" by (rule pop_set)
  have b: "bounded ?s1" using assms(1) set by (auto simp: base_inv_def bounded_def keys_def)
  have li: "lock_inv ?s1"
    using assms(1) set by (fastforce simp: base_inv_def lock_inv_def locked_def kinds_def no_then_def)
  have lo: "leftover ((?s1)\<lparr>lstate := STOPPING, unlocked := False\<rparr>)" if "?l \<noteq> []"
    using that assms(3,4) by (simp add: leftover_def)
  have lift: "bounded (?s1\<lparr>lstate := l, unlocked := u\<rparr>)" "lock_inv (?s1\<lparr>lstate := l, unlocked := u\<rparr>)" for l u
    using b li by (simp_all add: bounded_def lock_inv_def locked_def kinds_def no_then_def keys_def)
  show ?thesis
  proof (cases "lstate s = STOPPING")
    case True
    show ?thesis
    proof (cases "?l = []")
      case True
      then show ?thesis
        using \<open>lstate s = STOPPING\<close> assms(1-4)
        by (auto simp: finish_start_def end_work_def settle_stop settle_go lifecycle_inv_def base_inv_def bounded_def
            keys_def lock_inv_def kinds_def no_then_def quiescent_def)
    next
      case False
      have "finish_start tok s = Ok ?s1"
        using True False by (simp add: finish_start_def end_work_def settle_go)
      moreover have "?s1\<lparr>lstate := STOPPING, unlocked := False\<rparr> = ?s1"
        using True assms(1) by (auto simp: base_inv_def intro!: server.equality)
      ultimately show ?thesis
        using lo [OF False] b li assms(1,2) True by (simp add: lifecycle_inv_def base_inv_def)
    qed
  next
    case False
    then have st: "lstate s = STARTING" "\<not> requested s" using assms(5,6) by auto
    then have e: "end_work (Token tok) (s\<lparr>starting := S_idle\<rparr>) = Ok ?s1"
      by (simp add: end_work_def settle_go)
    show ?thesis
    proof (cases "?l = []")
      case True
      then show ?thesis
        using st e assms(2,3)
        by (simp add: finish_start_def transition_def UNLOCKED_STATES_def release_lock_def reset_attempt_def Let_def
            settle_go lifecycle_inv_def base_inv_def bounded_def keys_def lock_inv_def kinds_def no_then_def quiescent_def)
    next
      case False
      have "finish_start tok s = Ok (?s1\<lparr>lstate := STOPPING, unlocked := False\<rparr>)"
        using st e False by (simp add: finish_start_def transition_def UNLOCKED_STATES_def settle_go Let_def)
      then show ?thesis
        using lo [OF False] lift [where l = STOPPING and u = False] assms(2) by (simp add: lifecycle_inv_def base_inv_def)
    qed
  qed
qed

text \<open>What the bookkeeping at the end of a drain keeps.\<close>

definition kept :: "server \<Rightarrow> server \<Rightarrow> bool" where
  "kept s t \<longleftrightarrow> lstate t = lstate s \<and> lock_fd t = lock_fd s \<and> requested t = requested s \<and>
     unlocked t = unlocked s \<and> listener t = listener s \<and> stop_task t = stop_task s \<and>
     starting t = starting s \<and> draining t = draining s \<and> uds t = uds s \<and> fresh s \<le> fresh t \<and>
     keys s \<subseteq> keys t \<and> (\<forall>n < fresh s. fut t n = fut s n)"

lemma kept_refl [simp]: "kept s s"
  by (simp add: kept_def)

lemma kept_trans: "kept s t \<Longrightarrow> kept t u \<Longrightarrow> kept s u"
proof -
  assume a: "kept s t" "kept t u"
  then have "keys s \<subseteq> keys u" "fresh s \<le> fresh u" unfolding kept_def by (blast, linarith)
  moreover have "fut u n = fut s n" if "n < fresh s" for n
    using a that unfolding kept_def by (metis less_le_trans)
  ultimately show ?thesis using a unfolding kept_def by simp
qed

lemma kept_track: "kept s (track n k b o1 l s)"
  by (auto simp: kept_def track_keys)

lemma kept_spawn: "kept s (snd (spawn s))"
  by (auto simp: kept_def)

lemma kept_start_close: "kept s (start_close s)"
  by (auto simp: kept_def start_close_def spawn_def Let_def keys_def split: option.splits)

lemma start_close_facts:
  "close_task (start_close s) \<noteq> None"
  "close_task s = None \<Longrightarrow> \<not> backend_open (start_close s)"
  "close_task s = Some c \<Longrightarrow> start_close s = s"
  "close_task s = None \<Longrightarrow> close_task (start_close s) = Some (fresh s) \<and> fresh (start_close s) = Suc (fresh s)
     \<and> fut (start_close s) (fresh s) = Pending"
  "ledger (start_close s) = ledger s"
  by (auto simp: start_close_def spawn_def split: option.splits)

lemma cancel_one_kept:
  "kept s (cancel_one n s) \<and> close_task (cancel_one n s) = close_task s \<and> backend_open (cancel_one n s) = backend_open s \<and>
   idle_hook (cancel_one n s) = idle_hook s"
  by (auto simp: cancel_one_def linger_def kept_def track_keys) (auto simp: keys_def)

lemma fold_cancel_kept:
  "kept s (fold cancel_one ns s) \<and> close_task (fold cancel_one ns s) = close_task s \<and>
   backend_open (fold cancel_one ns s) = backend_open s \<and> idle_hook (fold cancel_one ns s) = idle_hook s"
proof (induction ns arbitrary: s)
  case (Cons n ns)
  show ?case using Cons [of "cancel_one n s"] cancel_one_kept [of s n] by (auto intro: kept_trans)
qed simp

lemma bounded_asked: "bounded (s\<lparr>asked := a\<rparr>) = bounded s" "locked (s\<lparr>asked := a\<rparr>) = locked s"
  by (simp_all add: bounded_def keys_def locked_def)

lemma cancel_one_bounded: "bounded s \<Longrightarrow> n < fresh s \<Longrightarrow> bounded (cancel_one n s) \<and> fresh (cancel_one n s) = fresh s"
  using bounded_track [of "s\<lparr>asked := (asked s)(n := True)\<rparr>" n K_session True False None]
  by (simp add: cancel_one_def linger_def bounded_asked)

lemma fold_cancel_bounded:
  "bounded s \<Longrightarrow> \<forall>n \<in> set ns. n < fresh s \<Longrightarrow> bounded (fold cancel_one ns s)"
proof (induction ns arbitrary: s)
  case (Cons n ns)
  show ?case using Cons.IH [of "cancel_one n s"] cancel_one_bounded [of s n] Cons.prems by simp
qed simp

lemma sessions_keys: "n \<in> set (sessions s) \<Longrightarrow> Fut n \<in> keys s \<and> K_session \<in> kinds s"
  by (force simp: sessions_def keys_def kinds_def split: key.splits if_splits)

lemma cancel_sessions_facts:
  assumes "bounded s"
  shows "kept s (cancel_sessions s)" "close_task (cancel_sessions s) = close_task s"
    "backend_open (cancel_sessions s) = backend_open s" "idle_hook (cancel_sessions s) = idle_hook s"
    "bounded (cancel_sessions s)"
proof -
  have "\<forall>n \<in> set (sessions s). n < fresh s"
    using assms sessions_keys [of _ s] by (fastforce simp: bounded_def)
  then show "bounded (cancel_sessions s)"
    using fold_cancel_bounded [OF assms] by (simp add: cancel_sessions_def)
qed (use fold_cancel_kept [where s = s and ns = "sessions s"] in \<open>simp_all add: cancel_sessions_def\<close>)

lemma cancel_sessions_none: "K_session \<notin> kinds s \<Longrightarrow> cancel_sessions s = s"
  using sessions_keys [of _ s] by (cases "sessions s") (auto simp: cancel_sessions_def)

lemma kept_locked: "kept s t \<Longrightarrow> locked t = locked s"
  by (simp add: kept_def locked_def)

lemma close_linger_facts:
  assumes "bounded s" "close_task s \<noteq> None \<longrightarrow> the (close_task s) < fresh s"
  shows "kept s (case close_task s of None \<Rightarrow> s | Some c \<Rightarrow> linger c K_close s)"
    "bounded (case close_task s of None \<Rightarrow> s | Some c \<Rightarrow> linger c K_close s)"
  using assms by (auto simp: linger_def kept_track bounded_track split: option.splits)

text \<open>The bookkeeping at the end of a drain.\<close>

lemma close_old_kept: "kept s t \<Longrightarrow> close_task t = close_task s \<Longrightarrow> close_old s \<Longrightarrow> close_old t"
  by (auto simp: close_old_def kept_def)

lemma start_close_more:
  "bounded s \<Longrightarrow> bounded (start_close s)" "close_old s \<Longrightarrow> close_old (start_close s)"
  by (auto simp: start_close_def spawn_def bounded_def keys_def close_old_def split: option.splits)

definition after_close :: "bool \<Rightarrow> server \<Rightarrow> server" where
  "after_close cb s =
     (let s2 = (if cb then start_close (cancel_sessions s) else cancel_sessions s)
      in case close_task s2 of None \<Rightarrow> s2 | Some c \<Rightarrow> linger c K_close s2)"

lemma keep_lock_eq:
  "keep_lock_for_leftover_work cb s =
     (if idle_hook (after_close cb s) = Busy
      then linger (fresh (after_close cb s)) K_thread (snd (spawn (after_close cb s)))
      else after_close cb s)"
  by (simp add: keep_lock_for_leftover_work_def after_close_def Let_def spawn_def split: idle_answer.splits)

lemma after_close_facts:
  assumes "bounded s" "close_old s"
  shows "kept s (after_close cb s)" "bounded (after_close cb s)"
    "(backend_open s \<longrightarrow> cb \<and> close_task s = None) \<Longrightarrow> \<not> backend_open (after_close cb s)"
    "\<not> cb \<Longrightarrow> close_task s = None \<Longrightarrow> K_session \<notin> kinds s \<Longrightarrow> after_close cb s = s"
proof -
  let ?s1 = "cancel_sessions s"
  let ?s2 = "if cb then start_close ?s1 else ?s1"
  note c = cancel_sessions_facts [OF assms(1)]
  have o1: "close_old ?s1" using close_old_kept [OF c(1,2) assms(2)] .
  have k2: "kept s ?s2" using c(1) kept_trans [OF c(1) kept_start_close] by simp
  have b2: "bounded ?s2" using c(5) start_close_more(1) by simp
  have o2: "close_old ?s2" using o1 start_close_more(2) by simp
  have l: "kept ?s2 (after_close cb s)" "bounded (after_close cb s)"
    unfolding after_close_def Let_def
    using close_linger_facts [OF b2] o2 by (auto simp: close_old_def)
  show "kept s (after_close cb s)" "bounded (after_close cb s)" using kept_trans [OF k2 l(1)] l(2) by auto
  have "backend_open (after_close cb s) = backend_open ?s2"
    unfolding after_close_def Let_def linger_def by (auto split: option.splits)
  moreover have "\<not> backend_open ?s2" if "backend_open s \<longrightarrow> cb \<and> close_task s = None"
    using that c(2,3) start_close_facts(2,3) [of ?s1] by (cases "close_task s") auto
  ultimately show "(backend_open s \<longrightarrow> cb \<and> close_task s = None) \<Longrightarrow> \<not> backend_open (after_close cb s)"
    by simp
  show "\<not> cb \<Longrightarrow> close_task s = None \<Longrightarrow> K_session \<notin> kinds s \<Longrightarrow> after_close cb s = s"
    by (simp add: after_close_def cancel_sessions_none)
qed

lemma keep_lock_facts:
  assumes "bounded s" "close_old s" "backend_open s \<longrightarrow> cb \<and> close_task s = None"
    and "locked s \<or> (\<not> cb \<and> close_task s = None)" "lock_inv s"
  defines "t \<equiv> keep_lock_for_leftover_work cb s"
  shows "kept s t" "bounded t" "\<not> backend_open t" "lock_inv t"
    "no_then s \<Longrightarrow> \<not> locked s \<Longrightarrow> no_then t"
proof -
  let ?a = "after_close cb s"
  note a = after_close_facts [OF assms(1,2), of cb]
  have sp: "snd (spawn ?a) = snd (spawn ?a)" ..
  have "kept ?a t" unfolding t_def keep_lock_eq linger_def
    using kept_trans [OF kept_spawn kept_track] by simp
  then show k: "kept s t" using a(1) kept_trans by blast
  show "bounded t"
    unfolding t_def keep_lock_eq linger_def using a(2) by (simp add: bounded_track bounded_spawn)
  show "\<not> backend_open t"
    unfolding t_def keep_lock_eq linger_def using a(3) [OF assms(3)] by simp
  show "lock_inv t"
  proof (cases "locked s")
    case True
    then show ?thesis using kept_locked [OF k] by (simp add: lock_inv_def)
  next
    case False
    then have w: "kinds s \<subseteq> {K_step, K_thread, K_adopted}" and c: "\<not> cb" "close_task s = None"
      using assms(4,5) by (auto simp: lock_inv_def)
    have "K_session \<notin> kinds s" using w by auto
    then have "?a = s" using a(4) c by blast
    then show ?thesis
      unfolding t_def keep_lock_eq linger_def
      using assms(5) by (simp add: lock_inv_track lock_inv_spawn)
  qed
  show "no_then t" if "no_then s" "\<not> locked s"
  proof -
    have w: "kinds s \<subseteq> {K_step, K_thread, K_adopted}" and c: "\<not> cb" "close_task s = None"
      using assms(4,5) that(2) by (auto simp: lock_inv_def)
    have "K_session \<notin> kinds s" using w by auto
    then have "?a = s" using a(4) c by blast
    then show ?thesis
      unfolding t_def keep_lock_eq linger_def using that(1) no_then_same [of "snd (spawn s)" s]
      by (simp add: no_then_track)
  qed
qed

text \<open>The state a drain runs in; \<open>locked\<close> unless nothing of it needs the lock.\<close>

definition drain_state :: "drain \<Rightarrow> server \<Rightarrow> bool" where
  "drain_state d s \<longleftrightarrow> base_inv s \<and> drain_pre d s \<and> close_old s \<and> wait_old d s \<and>
     (locked s \<or> (\<not> dr_close_backend d \<and> close_task s = None \<and> dr_closer d = None))"

lemma finish_drain_ok:
  assumes "drain_state d s" "oc \<noteq> Pending"
  shows "\<exists>t. finish_drain d oc s = Ok t \<and> lifecycle_inv t"
proof -
  let ?k = "keep_lock_for_leftover_work (dr_close_backend d) s"
  let ?p = "?k\<lparr>draining := None, ledger := ledger_pop (Token (dr_token d)) (ledger ?k)\<rparr>"
  have base: "base_inv s" and pre: "drain_pre d s" and old: "close_old s"
    using assms(1) by (simp_all add: drain_state_def)
  have b: "bounded s" and li: "lock_inv s" using base by (simp_all add: base_inv_def)
  note k = keep_lock_facts [OF b old _ _ li, of "dr_close_backend d"]
  have bo: "backend_open s \<longrightarrow> dr_close_backend d \<and> close_task s = None"
    using pre by (simp add: drain_pre_def)
  have lk: "locked s \<or> (\<not> dr_close_backend d \<and> close_task s = None)"
    using assms(1) by (auto simp: drain_state_def)
  note kk = k(1-4) [OF bo lk]
  have fields: "lstate ?k = lstate s" "stop_task ?k = stop_task s" "starting ?k = starting s"
    "requested ?k = requested s" "unlocked ?k = unlocked s"
    using kk(1) by (simp_all add: kept_def)
  have sub: "keys s \<subseteq> keys ?k" using kk(1) by (simp add: kept_def)
  have keysp: "keys ?p = keys ?k - {Token (dr_token d)}" by (simp add: keys_def pop_keys)
  have bp: "bounded ?p" using kk(2) keysp by (auto simp: bounded_def)
  have lp: "lock_inv ?p"
    using kk(4) pop_set [of "Token (dr_token d)" "ledger ?k"]
    by (fastforce simp: lock_inv_def locked_def kinds_def no_then_def)
  show ?thesis
  proof (cases "dr_owner d")
    case (Some n)
    then have n: "starting s = S_idle" "stop_task s = Some n" "fut s n = Pending" "Fut n \<in> keys s" "lstate s = STOPPING"
      using pre by (simp_all add: drain_pre_def)
    then have "Fut n \<in> keys ?p" using sub keysp by auto
    then have ne: "ledger ?p \<noteq> []" using keys_empty [of ?p] by auto
    have nf: "n < fresh ?p" using bspec [OF kk(2) [unfolded bounded_def], of "Fut n"] sub n(4) by auto
    have e: "end_work (Token (dr_token d)) (?k\<lparr>draining := None\<rparr>) = Ok ?p"
      using ne by (simp add: end_work_def settle_go)
    let ?t = "?p\<lparr>fut := (fut ?p)(n := oc)\<rparr>"
    have "leftover ?t"
      using n nf ne fields assms(2) kk(3) by (simp add: leftover_def)
    moreover have "base_inv ?t"
      using bp lp base n(5) fields by (simp add: base_inv_def bounded_def lock_inv_def locked_def keys_def kinds_def no_then_def)
    ultimately have "lifecycle_inv ?t" using n fields by (simp add: lifecycle_inv_def)
    then show ?thesis using e Some by (simp add: finish_drain_def)
  next
    case None
    then obtain tok where tok: "starting s = S_unwinding tok" "Token tok \<in> keys s" "tok \<noteq> dr_token d"
      "stop_task s = None" "lstate s \<in> {STARTING, STOPPING}"
      using pre by (auto simp: drain_pre_def)
    then have "Token tok \<in> keys ?p" using sub keysp by auto
    then have ne: "ledger ?p \<noteq> []" using keys_empty [of ?p] by auto
    have e: "end_work (Token (dr_token d)) (?k\<lparr>draining := None\<rparr>) = Ok ?p"
      using ne by (simp add: end_work_def settle_go)
    have "base_inv ?p" using bp lp base tok fields by (auto simp: base_inv_def unwinding_def)
    then have "\<exists>t. finish_start tok ?p = Ok t \<and> lifecycle_inv t"
      by (rule finish_start_ok) (use tok fields kk(3) base in \<open>auto simp: base_inv_def\<close>)
    then show ?thesis using e None tok fields by (simp add: finish_drain_def)
  qed
qed

lemma drain_state_inv: "drain_state d s \<Longrightarrow> locked s \<Longrightarrow> lifecycle_inv (s\<lparr>draining := Some d\<rparr>)"
  by (auto simp: drain_state_def lifecycle_inv_def base_inv_def bounded_def lock_inv_def locked_def keys_def
      unwinding_def drain_pre_def no_then_def close_old_def wait_old_def split: option.splits)

lemma drain_state_wait:
  "drain_state d s \<Longrightarrow> (\<And>c. x = D_listener c \<or> x = D_close c \<Longrightarrow> c < fresh s) \<Longrightarrow> drain_state (d\<lparr>dr_wait := x\<rparr>) s"
  by (cases "dr_owner d") (auto simp: drain_state_def drain_pre_def wait_old_def)

lemma drain_backend_ok:
  assumes "drain_state d s"
  shows "\<exists>t. drain_backend d s = Ok t \<and> lifecycle_inv t"
proof (cases "dr_close_backend d")
  case False
  then show ?thesis using finish_drain_ok [OF assms, of Result] by (simp add: drain_backend_def)
next
  case True
  let ?s1 = "case close_task s of Some c \<Rightarrow> s | None \<Rightarrow> track (fresh s) K_close False False None (start_close s)"
  have l: "locked s" using assms True by (simp add: drain_state_def)
  have b: "bounded s" "close_old s" using assms by (simp_all add: drain_state_def base_inv_def)
  have k: "kept s ?s1"
    using kept_trans [OF kept_start_close kept_track] by (auto split: option.splits)
  have bo: "backend_open s \<longrightarrow> close_task s = None" using assms by (simp add: drain_state_def drain_pre_def)
  have nb: "\<not> backend_open ?s1" using start_close_facts(2) [of s] bo by (auto split: option.splits)
  have bounded: "bounded ?s1"
    using b start_close_more(1) start_close_facts(4) [of s] by (auto split: option.splits intro!: bounded_track)
  have old: "close_old ?s1"
    using b start_close_more(2) [of s] by (auto simp: close_old_def split: option.splits)
  have ls: "locked ?s1" using l kept_locked [OF k] by simp
  have nt: "lstate s = STOPPING \<or> unwinding s"
    using assms by (auto simp: drain_state_def drain_pre_def unwinding_def split: option.splits)
  have "base_inv ?s1"
    using assms k bounded ls nt by (auto simp: drain_state_def base_inv_def kept_def lock_inv_def unwinding_def)
  moreover have "drain_pre d ?s1"
  proof -
    have sub: "x \<in> keys s \<Longrightarrow> x \<in> keys ?s1" for x using k by (auto simp: kept_def)
    have f: "starting ?s1 = starting s" "stop_task ?s1 = stop_task s" "lstate ?s1 = lstate s"
      using k by (simp_all add: kept_def)
    have fu: "fut ?s1 n = fut s n" if "Fut n \<in> keys s" for n
      using k that b(1) by (auto simp: kept_def bounded_def)
    have "drain_pre d s" using assms by (simp add: drain_state_def)
    then show ?thesis using nb f fu sub by (auto simp: drain_pre_def split: option.splits)
  qed
  moreover have "wait_old d ?s1" using assms k by (auto simp: drain_state_def wait_old_def kept_def)
  ultimately have "drain_state d ?s1" using ls old by (simp add: drain_state_def)
  moreover have "close_task ?s1 \<noteq> None" using start_close_facts(1) [of s] by (auto split: option.splits)
  ultimately have "drain_state (d\<lparr>dr_wait := D_close (the (close_task ?s1))\<rparr>) ?s1"
    using old by (auto intro!: drain_state_wait simp: close_old_def)
  from drain_state_inv [OF this ls] show ?thesis using True by (simp add: drain_backend_def Let_def)
qed

lemma drain_listener_ok:
  assumes "drain_state d s"
  shows "\<exists>t. drain_listener d s = Ok t \<and> lifecycle_inv t"
proof (cases "dr_closer d")
  case None
  then show ?thesis using drain_backend_ok [OF assms] by (simp add: drain_listener_def)
next
  case (Some c)
  then have l: "locked s" using assms by (simp add: drain_state_def)
  have "drain_state (d\<lparr>dr_wait := D_listener c\<rparr>) s" 
    by (rule drain_state_wait [OF assms]) (use assms Some in \<open>auto simp: drain_state_def wait_old_def\<close>)
  from drain_state_inv [OF this l] show ?thesis using Some by (simp add: drain_listener_def)
qed

end
