(* ===== verification/Lifecycle_Steps.thy ===== *)
theory Lifecycle_Steps
  imports Lifecycle_Inv
begin

text \<open>
  Every event of the server keeps the lifecycle invariant, and none is refused; what follows from
  it for the lock, the ledger, the backend and the socket file.
\<close>

section \<open>Entering the drain\<close>

lemma get_None: "k \<notin> keys s \<Longrightarrow> ledger_get k (ledger s) = None"
  by (auto simp: ledger_get_def keys_def map_of_eq_None_iff)

lemma fresh_not_key: "bounded s \<Longrightarrow> Token (fresh s) \<notin> keys s" "bounded s \<Longrightarrow> Fut (fresh s) \<notin> keys s"
  by (auto simp: bounded_def)

definition begun :: "server \<Rightarrow> server" where
  "begun s = s\<lparr>fresh := Suc (fresh s),
     ledger := ledger_put (Token (fresh s)) (new_work K_step None False) (ledger s)\<rparr>"

lemma begin_work_eq: "bounded s \<Longrightarrow> begin_work s = (fresh s, Ok (begun s))"
  using get_None [OF fresh_not_key(1), of s] by (simp add: begin_work_def hand_off_def begun_def new_work_def Let_def)

lemma begun_fields [simp]:
  "lstate (begun s) = lstate s" "lock_fd (begun s) = lock_fd s" "requested (begun s) = requested s"
  "unlocked (begun s) = unlocked s" "listener (begun s) = listener s" "close_task (begun s) = close_task s"
  "stop_task (begun s) = stop_task s" "fut (begun s) = fut s" "fresh (begun s) = Suc (fresh s)"
  "starting (begun s) = starting s" "draining (begun s) = draining s" "uds (begun s) = uds s"
  "backend_open (begun s) = backend_open s" "keys (begun s) = insert (Token (fresh s)) (keys s)"
  "locked (begun s) = locked s"
  by (simp_all add: begun_def keys_def put_keys locked_def)

lemma begun_kinds: "kinds (begun s) \<subseteq> insert K_step (kinds s)"
  using kinds_put [where s = "s\<lparr>fresh := Suc (fresh s)\<rparr>" and s' = s and k = "Token (fresh s)" and w = "new_work K_step None False"]
  by (simp add: begun_def new_work_def)

lemma begun_inv: "bounded s \<Longrightarrow> bounded (begun s)" "no_then s \<Longrightarrow> no_then (begun s)" "lock_inv s \<Longrightarrow> lock_inv (begun s)"
proof -
  show nt: "no_then s \<Longrightarrow> no_then (begun s)"
    using put_set [of "Token (fresh s)" "new_work K_step None False" "ledger s"]
    by (auto simp: no_then_def begun_def new_work_def)
  show "lock_inv s \<Longrightarrow> lock_inv (begun s)" using nt begun_kinds [of s] by (auto simp: lock_inv_def)
qed (auto simp: bounded_def less_Suc_eq)

lemma begun_base: "base_inv s \<Longrightarrow> base_inv (begun s)"
  using begun_inv [of s] by (auto simp: base_inv_def unwinding_def)

text \<open>The listener's close: its future replaces the bound listener.\<close>

definition closing :: "nat \<Rightarrow> bool \<Rightarrow> server \<Rightarrow> server" where
  "closing n b s =
     (let t = track (fresh s) K_listener_close b False None (snd (spawn (unlink_own_socket s)))
      in t\<lparr>ledger := ledger_pop (Listener n) (ledger t)\<rparr>)"

lemma closing_fields [simp]:
  "lstate (closing n b s) = lstate s" "lock_fd (closing n b s) = lock_fd s" "requested (closing n b s) = requested s"
  "unlocked (closing n b s) = unlocked s" "listener (closing n b s) = listener s" "close_task (closing n b s) = close_task s"
  "stop_task (closing n b s) = stop_task s" "fut (closing n b s) = (fut s)(fresh s := Pending)"
  "fresh (closing n b s) = Suc (fresh s)" "starting (closing n b s) = starting s" "draining (closing n b s) = draining s"
  "uds (closing n b s) = uds s" "backend_open (closing n b s) = backend_open s"
  "keys (closing n b s) = insert (Fut (fresh s)) (keys s) - {Listener n}" "locked (closing n b s) = locked s"
  by (simp_all add: closing_def Let_def locked_def track_keys)

lemma closing_eq: "begin_listener_close n b s = (fresh s, Ok (closing n b s))"
proof -
  have "keys (closing n b s) \<noteq> {}" by auto
  then have "ledger (closing n b s) \<noteq> []" using keys_empty by blast
  then have "settle (closing n b s) = Ok (closing n b s)" by (simp add: settle_go)
  then show ?thesis
    using spawn_eq [of "unlink_own_socket s"]
    by (auto simp: begin_listener_close_def hand_off_def end_work_def closing_def Let_def split: prod.splits)
qed

lemma closing_bounded: "bounded s \<Longrightarrow> bounded (closing n b s)"
  by (auto simp: bounded_def less_Suc_eq)

lemma closing_no_then: "no_then s \<Longrightarrow> no_then (closing n b s)"
  using no_then_pop [OF no_then_track [where s = "snd (spawn (unlink_own_socket s))"]] no_then_same [of "snd (spawn (unlink_own_socket s))" s]
  by (simp add: closing_def Let_def)

lemma closing_base:
  assumes "base_inv s" "locked s"
  shows "base_inv (closing n b s)"
  using assms closing_bounded [of s n b] closing_no_then [of s n b] by (auto simp: base_inv_def lock_inv_def unwinding_def)

text \<open>What a drain needs when it begins.\<close>

definition drain_ready :: "bool \<Rightarrow> nat option \<Rightarrow> server \<Rightarrow> bool" where
  "drain_ready cb owner s \<longleftrightarrow> base_inv s \<and> draining s = None \<and> close_task s = None \<and> (backend_open s \<longrightarrow> cb) \<and>
     (locked s \<or> \<not> cb \<and> listener s = None) \<and>
     (case owner of
        None \<Rightarrow> stop_task s = None \<and> lstate s \<in> {STARTING, STOPPING} \<and>
          (\<exists>tok. starting s = S_unwinding tok \<and> Token tok \<in> keys s)
      | Some n \<Rightarrow> starting s = S_idle \<and> stop_task s = Some n \<and> fut s n = Pending \<and> Fut n \<in> keys s \<and>
          lstate s = STOPPING)"

lemma drain_ready_pre:
  assumes "drain_ready cb owner s" "base_inv t" "locked t \<or> \<not> cb \<and> closer = None"
    "starting t = starting s" "stop_task t = stop_task s" "lstate t = lstate s" "close_task t = None"
    "backend_open t = backend_open s" "fresh s < fresh t" "\<forall>n < fresh s. fut t n = fut s n"
    "insert (Token (fresh s)) (keys s) \<subseteq> insert (Listener l) (keys t)" "\<forall>c. closer = Some c \<longrightarrow> c < fresh t"
  shows "drain_state \<lparr>dr_token = fresh s, dr_close_backend = cb, dr_closer = closer, dr_wait = D_sessions ns,
           dr_owner = owner\<rparr> t"
proof -
  have b: "bounded s" using assms(1) by (simp add: drain_ready_def base_inv_def)
  have nf: "n < fresh s" if "Fut n \<in> keys s \<or> Token n \<in> keys s" for n
    using that b by (auto simp: bounded_def)
  have k: "Token n \<in> keys s \<Longrightarrow> Token n \<in> keys t" "Fut n \<in> keys s \<Longrightarrow> Fut n \<in> keys t" "Token (fresh s) \<in> keys t" for n
    using assms(11) by auto
  show ?thesis
  proof (cases owner)
    case None
    then show ?thesis using assms(1-9,12) k nf
      by (fastforce simp: drain_state_def drain_ready_def drain_pre_def close_old_def wait_old_def)
  next
    case (Some n)
    then show ?thesis using assms k nf [of n]
      by (auto simp: drain_state_def drain_ready_def drain_pre_def close_old_def wait_old_def)
  qed
qed

lemma begin_drain_ok:
  assumes ready: "drain_ready cb owner s"
  shows "\<exists>t. begin_drain cb owner s = Ok t \<and> lifecycle_inv t"
proof -
  let ?s0 = "s\<lparr>shutdown_event := True\<rparr>"
  let ?b = "begun ?s0"
  have r0: "drain_ready cb owner ?s0"
    using ready by (cases owner)
      (simp_all add: drain_ready_def base_inv_def bounded_def lock_inv_def locked_def unwinding_def no_then_def keys_def kinds_def)
  have b0: "base_inv ?s0" "bounded ?s0" using r0 by (simp_all add: drain_ready_def base_inv_def)
  have bb: "base_inv ?b" by (rule begun_base [OF b0(1)])
  have ct: "close_task ?s0 = None" and cb: "locked ?s0 \<or> \<not> cb \<and> listener ?s0 = None" using r0 by (simp_all add: drain_ready_def)
  have none: "sessions u = []" if "\<not> locked u" "lock_inv u" for u
    using that sessions_keys [of _ u] by (cases "sessions u") (auto simp: lock_inv_def)
  show ?thesis
  proof (cases "listener s")
    case None
    let ?d = "\<lparr>dr_token = fresh ?s0, dr_close_backend = cb, dr_closer = None, dr_wait = D_sessions (sessions ?b), dr_owner = owner\<rparr>"
    have ds: "drain_state ?d ?b" by (rule drain_ready_pre [OF r0 bb]) (use cb ct in auto)
    have "\<exists>t. drain_listener ?d ?b = Ok t \<and> lifecycle_inv t" by (rule drain_listener_ok [OF ds])
    moreover have "lifecycle_inv (?b\<lparr>draining := Some ?d\<rparr>)" if "sessions ?b \<noteq> []"
      using drain_state_inv [OF ds] none [of ?b] that bb by (auto simp: base_inv_def)
    ultimately show ?thesis
      using None b0(2)
      by (cases "sessions ?b = []") (auto simp: begin_drain_def begin_work_eq close_listener_def Let_def)
  next
    case (Some n)
    let ?c = "closing n False ?b"
    let ?d = "\<lparr>dr_token = fresh ?s0, dr_close_backend = cb, dr_closer = Some (fresh ?b), dr_wait = D_sessions (sessions ?b), dr_owner = owner\<rparr>"
    have l: "locked ?b" using cb Some by simp
    have ds: "drain_state ?d ?c"
      by (rule drain_ready_pre [OF r0 closing_base [OF bb l], where l = n]) (use l ct in auto)
    have "\<exists>t. drain_listener ?d ?c = Ok t \<and> lifecycle_inv t" by (rule drain_listener_ok [OF ds])
    moreover have "lifecycle_inv (?c\<lparr>draining := Some ?d\<rparr>)" using drain_state_inv [OF ds] l by simp
    ultimately show ?thesis
      using Some b0(2)
      by (cases "sessions ?b = []") (auto simp: begin_drain_def begin_work_eq close_listener_def closing_eq Let_def)
  qed
qed

section \<open>\<open>start()\<close>\<close>

lemma unwind_ok:
  assumes "base_inv (s\<lparr>starting := S_unwinding tok\<rparr>)" "draining s = None" "close_task s = None" "backend_open s \<longrightarrow> cb"
    "locked s \<or> \<not> cb \<and> listener s = None" "stop_task s = None" "lstate s \<in> {STARTING, STOPPING}" "Token tok \<in> keys s"
  shows "\<exists>t. unwind_failed_start cb tok s = Ok t \<and> lifecycle_inv t"
  unfolding unwind_failed_start_def
  by (rule begin_drain_ok) (use assms in \<open>simp add: drain_ready_def locked_def keys_def\<close>)

lemma base_unwinding: "base_inv s \<Longrightarrow> base_inv (s\<lparr>starting := S_unwinding tok\<rparr>)"
  by (auto simp: base_inv_def bounded_def lock_inv_def locked_def keys_def kinds_def no_then_def unwinding_def)

text \<open>Where a start waits, the invariant says what it has.\<close>

definition start_at :: "nat \<Rightarrow> server \<Rightarrow> bool" where
  "start_at tok s \<longleftrightarrow> base_inv s \<and> draining s = None \<and> lstate s \<in> {STARTING, STOPPING} \<and> locked s \<and>
     close_task s = None \<and> listener s = None \<and> stop_task s = None \<and> Token tok \<in> keys s"

lemma inv_start_at:
  assumes "lifecycle_inv s"
  shows "starting s = S_backend tok \<Longrightarrow> start_at tok s \<and> \<not> backend_open s"
    "starting s \<in> {S_bind tok n, S_bind_cancelled tok n} \<Longrightarrow> start_at tok s \<and> n < fresh s"
  using assms
  by (auto simp: start_at_def lifecycle_inv_def drain_pre_def start_pre_def leftover_def quiescent_def
      split: option.splits lifecycle.splits)

lemma start_at_unwind:
  "start_at tok s \<Longrightarrow> (backend_open s \<longrightarrow> cb) \<Longrightarrow> \<exists>t. unwind_failed_start cb tok s = Ok t \<and> lifecycle_inv t"
  by (rule unwind_ok) (auto simp: start_at_def base_unwinding)

lemma base_backend: "base_inv (s\<lparr>backend_open := b\<rparr>) = base_inv s"
  by (simp add: base_inv_def bounded_def lock_inv_def locked_def keys_def kinds_def no_then_def unwinding_def)

lemma start_at_backend: "start_at tok (s\<lparr>backend_open := b\<rparr>) = start_at tok s"
  by (simp add: start_at_def base_backend) (simp add: locked_def keys_def)

lemma start_call_ok:
  assumes "lifecycle_inv s"
  shows "\<exists>t. start_call lock s = Ok t \<and> lifecycle_inv t"
proof (cases "lstate s = NEW")
  case True
  then have q: "ledger s = []" "draining s = None" "lock_fd s = None" "\<not> backend_open s" "listener s = None"
    "close_task s = None" "stop_task s = None" "\<not> requested s" "starting s = S_idle"
    using assms by (auto simp: lifecycle_inv_def base_inv_def quiescent_def drain_pre_def split: option.splits)
  let ?s1 = "s\<lparr>lstate := STARTING, unlocked := False\<rparr>"
  have t1: "transition STARTING s = Ok ?s1" using True by (simp add: transition_def UNLOCKED_STATES_def)
  have base: "base_inv ?s1"
    using q by (simp add: base_inv_def bounded_def lock_inv_def keys_def kinds_def no_then_def)
  let ?s2 = "begun ?s1"
  have b2: "base_inv ?s2" by (rule begun_base [OF base])
  have bd: "bounded ?s1" using base by (simp add: base_inv_def)
  have e: "start_call lock s =
      (if \<not> uds s then Ok (?s2\<lparr>starting := S_backend (fresh s)\<rparr>)
       else case lock of None \<Rightarrow> unwind_failed_start False (fresh s) ?s2
         | Some fd \<Rightarrow> Ok (?s2\<lparr>lock_fd := Some fd, starting := S_backend (fresh s)\<rparr>))"
    using True t1 bd by (simp add: start_call_def begin_work_eq)
  have lk: "lifecycle_inv (?s2\<lparr>lock_fd := l, starting := S_backend (fresh s)\<rparr>)" if "uds s \<longrightarrow> l \<noteq> None" for l
  proof -
    have "base_inv (?s2\<lparr>lock_fd := l, starting := S_backend (fresh s)\<rparr>)"
      using b2 begun_inv(2) [of ?s1] that q
      by (auto simp: base_inv_def bounded_def lock_inv_def locked_def keys_def no_then_def unwinding_def)
    moreover have "Token (fresh s) \<in> keys (?s2\<lparr>lock_fd := l, starting := S_backend (fresh s)\<rparr>)"
      by (simp add: begun_def keys_def put_keys)
    ultimately show ?thesis using that q by (simp add: lifecycle_inv_def start_pre_def locked_def)
  qed
  have un: "\<exists>t. unwind_failed_start False (fresh s) ?s2 = Ok t \<and> lifecycle_inv t"
    by (rule unwind_ok) (use base_unwinding [OF b2] q in simp_all)
  have same: "?s2\<lparr>starting := S_backend (fresh s)\<rparr> = ?s2\<lparr>lock_fd := None, starting := S_backend (fresh s)\<rparr>"
    using q by (auto intro!: server.equality)
  show ?thesis
  proof (cases "uds s")
    case False
    then show ?thesis using e lk [of None] same by simp
  next
    case True
    then show ?thesis using e lk [of lock] un by (cases lock) auto
  qed
qed (use assms in \<open>simp add: start_call_def\<close>)

text \<open>The listener of a bind that is over joins the ledger.\<close>

definition adopted :: "nat \<Rightarrow> server \<Rightarrow> server" where
  "adopted n s = record_bound_socket (s\<lparr>listener := Some n, ledger := ledger_put (Listener n)
     (case ledger_get (Listener n) (ledger s) of None \<Rightarrow> new_work K_listener None False | Some e \<Rightarrow> e) (ledger s)\<rparr>)"

lemma adopt_listener_eq: "adopt_listener n s = Ok (adopted n s)"
  by (auto simp: adopt_listener_def hand_off_def adopted_def new_work_def Let_def split: option.splits)

lemma adopted_fields [simp]:
  "lstate (adopted n s) = lstate s" "lock_fd (adopted n s) = lock_fd s" "requested (adopted n s) = requested s"
  "unlocked (adopted n s) = unlocked s" "listener (adopted n s) = Some n" "close_task (adopted n s) = close_task s"
  "stop_task (adopted n s) = stop_task s" "fut (adopted n s) = fut s" "fresh (adopted n s) = fresh s"
  "starting (adopted n s) = starting s" "draining (adopted n s) = draining s" "uds (adopted n s) = uds s"
  "backend_open (adopted n s) = backend_open s" "keys (adopted n s) = insert (Listener n) (keys s)"
  "locked (adopted n s) = locked s"
  by (simp_all add: adopted_def keys_def put_keys locked_def split: option.splits)

lemma adopted_no_then: "no_then s \<Longrightarrow> no_then (adopted n s)"
proof -
  assume nt: "no_then s"
  then have "ledger_get k (ledger s) = Some e \<Longrightarrow> \<not> wk_then e" for k e
    by (force simp: no_then_def ledger_get_def dest: map_of_SomeD)
  then have w: "\<not> wk_then (case ledger_get (Listener n) (ledger s) of None \<Rightarrow> new_work K_listener None False | Some e \<Rightarrow> e)"
    by (auto simp: new_work_def split: option.splits)
  show ?thesis
    using no_then_put [OF nt w, where t = "s\<lparr>listener := Some n\<rparr>"] by (simp add: adopted_def no_then_def)
qed

lemma adopted_start:
  assumes "start_at tok s" "n < fresh s"
  shows "base_inv (adopted n s)"
  using assms adopted_no_then [of s n] by (auto simp: start_at_def base_inv_def bounded_def lock_inv_def unwinding_def)

lemma bind_over_ok:
  assumes "lifecycle_inv s" "starting s \<in> {S_bind tok n, S_bind_cancelled tok n}"
  shows "\<exists>t. bind_over cancelled tok n s = Ok t \<and> lifecycle_inv t"
proof -
  have at: "start_at tok s" and nf: "n < fresh s" using inv_start_at(2) [OF assms] by auto
  have b: "base_inv (adopted n s)" by (rule adopted_start [OF at nf])
  have un: "\<exists>t. unwind_failed_start True tok (adopted n s) = Ok t \<and> lifecycle_inv t"
    by (rule unwind_ok) (use at base_unwinding [OF b] in \<open>auto simp: start_at_def\<close>)
  show ?thesis
  proof (cases "fut s n \<noteq> Result \<or> cancelled \<or> lstate s \<noteq> STARTING")
    case True
    then show ?thesis using start_at_unwind [OF at] un by (auto simp: bind_over_def adopt_listener_eq)
  next
    case False
    let ?r = "adopted n s\<lparr>lstate := RUNNING, unlocked := False\<rparr>"
    let ?t = "?r\<lparr>starting := S_idle, ledger := ledger_pop (Token tok) (ledger ?r)\<rparr>"
    have "transition RUNNING (adopted n s) = Ok ?r" using False by (simp add: transition_def UNLOCKED_STATES_def)
    moreover have "finish_start tok ?r = Ok ?t" by (simp add: finish_start_def end_work_def settle_go)
    ultimately have e: "bind_over cancelled tok n s = Ok ?t" using False by (simp add: bind_over_def adopt_listener_eq)
    have sub: "set (ledger ?t) \<subseteq> set (ledger (adopted n s))" using pop_set by simp
    have nt: "no_then (adopted n s)"
      using b False at assms(2) by (auto simp: base_inv_def unwinding_def)
    have "base_inv ?t"
      using b sub nt False at
      by (auto simp: base_inv_def bounded_def keys_def lock_inv_def locked_def no_then_def start_at_def)
    moreover have "Listener n \<in> keys ?t" by (simp add: keys_def pop_keys) (simp add: keys_def [symmetric])
    moreover have "locked ?t" using at by (simp add: locked_def start_at_def)
    ultimately have "lifecycle_inv ?t" using at by (simp add: lifecycle_inv_def start_at_def)
    then show ?thesis using e by blast
  qed
qed

lemma starting_update [simp]:
  fixes s :: server
  shows "keys (s\<lparr>starting := p\<rparr>) = keys s" "locked (s\<lparr>starting := p\<rparr>) = locked s"
  by (simp_all add: keys_def locked_def)

lemma base_starting: "base_inv s \<Longrightarrow> no_then s \<or> lstate s = STOPPING \<Longrightarrow> base_inv (s\<lparr>starting := p\<rparr>)"
  by (auto simp: base_inv_def bounded_def lock_inv_def no_then_def kinds_def)

lemma start_at_bind:
  assumes "start_at tok s" "n < fresh s" "no_then s \<or> lstate s = STOPPING"
  shows "lifecycle_inv (s\<lparr>starting := S_bind tok n\<rparr>)" "lifecycle_inv (s\<lparr>starting := S_bind_cancelled tok n\<rparr>)"
  using assms base_starting [of s] by (auto simp: start_at_def lifecycle_inv_def start_pre_def)

lemma start_no_then:
  "lifecycle_inv s \<Longrightarrow> \<not> unwinding s \<Longrightarrow> no_then s \<or> lstate s = STOPPING"
  by (auto simp: lifecycle_inv_def base_inv_def)

lemma backend_started_ok:
  assumes "lifecycle_inv s" "starting s = S_backend tok"
  shows "\<exists>t. backend_started tok s = Ok t \<and> lifecycle_inv t"
proof -
  let ?s = "s\<lparr>backend_open := True\<rparr>"
  have at: "start_at tok ?s" using inv_start_at(1) [OF assms] start_at_backend by blast
  have un: "\<exists>t. unwind_failed_start True tok ?s = Ok t \<and> lifecycle_inv t" by (rule start_at_unwind [OF at]) simp
  let ?t = "track (fresh ?s) K_bind False False None (snd (spawn ?s))"
  have b: "base_inv ?s" and bd: "bounded ?s" and lk: "locked ?s"
    using at by (simp_all add: start_at_def base_inv_def)
  have bt: "bounded ?t" by (rule bounded_track) (use bounded_spawn [OF bd] in simp_all)
  have nt: "no_then ?s \<Longrightarrow> no_then ?t"
    using no_then_track no_then_same [of "snd (spawn ?s)" ?s] by simp
  have "base_inv ?t" using b lk bt nt by (auto simp: base_inv_def lock_inv_def unwinding_def)
  then have st: "start_at tok ?t" using at by (auto simp: start_at_def track_keys)
  have "no_then ?s \<or> lstate ?s = STOPPING"
    using start_no_then [OF assms(1)] assms(2) by (simp add: no_then_def unwinding_def)
  then have "lifecycle_inv (?t\<lparr>starting := S_bind tok (fresh s)\<rparr>)"
    using nt by (intro start_at_bind(1) [OF st]) auto
  then show ?thesis using un by (auto simp: backend_started_def spawn_def Let_def)
qed

lemma start_resume_ok: "lifecycle_inv s \<Longrightarrow> start_resume s = Some r \<Longrightarrow> \<exists>t. r = Ok t \<and> lifecycle_inv t"
  using bind_over_ok [of s] by (auto simp: start_resume_def split: start_pc.splits if_splits)

lemma start_cancel_ok:
  assumes "lifecycle_inv s" "start_cancel s = Some r"
  shows "\<exists>t. r = Ok t \<and> lifecycle_inv t"
proof (cases "starting s")
  case (S_backend tok)
  then show ?thesis
    using assms start_at_unwind [of tok s False] inv_start_at(1) [OF assms(1), of tok] by (auto simp: start_cancel_def)
next
  case (S_bind tok n)
  then have at: "start_at tok s" "n < fresh s" using inv_start_at(2) [OF assms(1), of tok n] by auto
  have "lifecycle_inv (s\<lparr>starting := S_bind_cancelled tok n\<rparr>)"
    using start_at_bind(2) [OF at] start_no_then [OF assms(1)] S_bind by (simp add: unwinding_def)
  moreover have "\<exists>t. bind_over True tok n s = Ok t \<and> lifecycle_inv t"
    by (rule bind_over_ok [OF assms(1)]) (simp add: S_bind)
  ultimately show ?thesis using assms S_bind by (cases "fut s n = Pending") (auto simp: start_cancel_def)
next
  case (S_bind_cancelled tok n)
  then have at: "start_at tok s" "n < fresh s" using inv_start_at(2) [OF assms(1), of tok n] by auto
  let ?t = "track n K_bind True True None s"
  have "bounded ?t" using at by (auto simp: start_at_def base_inv_def intro: bounded_track)
  then have "base_inv (?t\<lparr>starting := S_unwinding tok\<rparr>)"
    using at by (auto simp: start_at_def base_inv_def bounded_def lock_inv_def unwinding_def)
  then have "\<exists>u. unwind_failed_start True tok ?t = Ok u \<and> lifecycle_inv u"
    using at by (intro unwind_ok) (auto simp: start_at_def track_keys)
  moreover have "\<exists>t. bind_over True tok n s = Ok t \<and> lifecycle_inv t"
    by (rule bind_over_ok [OF assms(1)]) (simp add: S_bind_cancelled)
  ultimately show ?thesis using assms S_bind_cancelled by (cases "fut s n = Pending") (auto simp: start_cancel_def)
qed (use assms in \<open>simp_all add: start_cancel_def\<close>)

section \<open>Done-callbacks\<close>

lemma end_work_fut: "end_work k s = Ok t \<Longrightarrow> fut t = fut s"
  by (auto simp: end_work_def settle_def transition_def release_lock_def reset_attempt_def Let_def UNLOCKED_STATES_def
      split: if_splits)

lemma inv_listener_close:
  assumes "lifecycle_inv s" "lstate s \<notin> {NEW, STOPPED, RUNNING}" "locked s"
  shows "lifecycle_inv (closing n b s)"
proof -
  let ?u = "snd (spawn (unlink_own_socket s))"
  let ?t = "track (fresh s) K_listener_close b False None ?u"
  have "extends s (unlink_own_socket s)"
    using assms(2) no_then_same [of "unlink_own_socket s" s] by (simp add: extends_def)
  then have "lifecycle_inv (unlink_own_socket s)"
    using assms(1) inv_bounded [OF assms(1)]
    by (intro inv_extends [OF assms(1)]) (simp_all add: bounded_def lock_inv_def locked_def no_then_def)
  then have t: "lifecycle_inv ?t"
    using assms by (intro inv_track [OF inv_spawn]) (simp_all add: locked_def)
  have "\<exists>r. end_work (Listener n) ?t = Ok r \<and> lifecycle_inv r"
    by (rule inv_end_work [OF t]) (use assms(2) in \<open>simp add: unprotected_def\<close>)
  moreover have "end_work (Listener n) ?t = Ok (closing n b s)"
    using closing_eq [of n b s] spawn_eq [of "unlink_own_socket s"]
    by (simp add: begin_listener_close_def hand_off_def split: prod.splits)
  ultimately show ?thesis by simp
qed

lemma then_locked:
  assumes "lifecycle_inv s" "\<not> no_then s"
  shows "locked s" "lstate s \<in> {STARTING, STOPPING}"
  using assms
  by (auto simp: lifecycle_inv_def base_inv_def lock_inv_def unwinding_def drain_pre_def no_then_def quiescent_def
      start_pre_def leftover_def split: option.splits lifecycle.splits start_pc.splits)

lemma inv_put:
  assumes "lifecycle_inv s" "ledger_get k (ledger s) = Some e" "wk_kind w = wk_kind e" "\<not> wk_then w"
  shows "lifecycle_inv (s\<lparr>ledger := ledger_put k w (ledger s)\<rparr>)"
proof -
  let ?t = "s\<lparr>ledger := ledger_put k w (ledger s)\<rparr>"
  have ks: "keys ?t = keys s"
    using assms(2) get_None [of k s] by (cases "k \<in> keys s") (auto simp: insert_absorb)
  have kn: "kinds ?t \<subseteq> kinds s"
    using kinds_put [where s = s and s' = s and k = k and w = w] get_kind [OF assms(2)] assms(3) by auto
  have nt: "no_then s \<Longrightarrow> no_then ?t" using no_then_put [where t = s, OF _ assms(4)] by simp
  have ne: "lstate s \<notin> {NEW, STOPPED}"
    using assms(1,2) by (auto simp: lifecycle_inv_def quiescent_def ledger_get_def drain_pre_def split: option.splits)
  have b: "bounded s" "lock_inv s" using inv_bounded [OF assms(1)] by auto
  show ?thesis
  proof (rule inv_extends [OF assms(1)])
    show "extends s ?t" using ks nt ne by (simp add: extends_def del: keys_ledger)
    show "bounded ?t" using b(1) ks by (simp add: bounded_def del: keys_ledger)
    show "lock_inv ?t" using b(2) kn nt by (auto simp: lock_inv_def locked_def)
  qed
qed

lemma inv_record:
  assumes "lifecycle_inv s" "lstate s \<noteq> NEW"
  shows "lifecycle_inv (record_bound_socket s)"
  by (rule inv_extends [OF assms(1)])
    (use assms inv_bounded [OF assms(1)] no_then_same [of "record_bound_socket s" s]
      in \<open>simp_all add: extends_def bounded_def lock_inv_def locked_def\<close>)

lemma map_of_put: "map_of (ledger_put k w l) = (map_of l)(k \<mapsto> w)"
  by (induction k w l rule: ledger_put.induct) (auto simp: fun_upd_twist)

lemma retire_ok:
  assumes inv: "lifecycle_inv s" and e: "ledger_get (Fut n) (ledger s) = Some e" and "fut s n \<noteq> Pending"
  shows "\<exists>t. retire n fails s = Ok t \<and> lifecycle_inv t"
proof -
  let ?e = "e\<lparr>wk_callback := False, wk_then := False\<rparr>"
  let ?s1 = "s\<lparr>ledger := ledger_put (Fut n) ?e (ledger s)\<rparr>"
  have i1: "lifecycle_inv ?s1" by (rule inv_put [OF inv e]) simp_all
  have get: "(Fut n, e) \<in> set (ledger s)" using e by (auto simp: ledger_get_def dest: map_of_SomeD)
  have nf: "n < fresh s"
    using inv_bounded(1) [OF inv] get by (force simp: bounded_def keys_def)
  have un: "\<exists>t. end_work (Fut n) u = Ok t \<and> lifecycle_inv t" if "lifecycle_inv u" "fut u n \<noteq> Pending" for u
    by (rule inv_end_work) (use that in \<open>simp_all add: unprotected_def\<close>)
  show ?thesis
  proof (cases "wk_then e")
    case False
    then show ?thesis using un [OF i1] assms(3) e by (simp add: retire_def)
  next
    case True
    then have "\<not> no_then s" using get by (force simp: no_then_def)
    note lk = then_locked [OF inv this]
    have i2: "lifecycle_inv (record_bound_socket ?s1)" by (rule inv_record [OF i1]) (use lk(2) in auto)
    have lk1: "locked (record_bound_socket ?s1)" using lk(1) by (simp add: locked_def)
    show ?thesis
    proof (cases "fails \<and> fut s n = Result")
      case True
      have g: "ledger_get (Fut n) (ledger (record_bound_socket ?s1)) = Some ?e"
        by (simp add: ledger_get_def map_of_put)
      have "lifecycle_inv ((record_bound_socket ?s1)\<lparr>ledger := ledger_put (Fut n) (?e\<lparr>wk_stuck := True\<rparr>) (ledger (record_bound_socket ?s1))\<rparr>)"
        by (rule inv_put [OF i2 g]) simp_all
      then show ?thesis using True \<open>wk_then e\<close> e by (simp add: retire_def Let_def)
    next
      case False
      let ?c = "closing n True (record_bound_socket ?s1)"
      have c: "lifecycle_inv ?c" by (rule inv_listener_close [OF i2 _ lk1]) (use lk(2) in auto)
      have "fut ?c n \<noteq> Pending" using nf assms(3) by simp
      then show ?thesis
        using False \<open>wk_then e\<close> e un [OF c] un [OF i1] assms(3)
        by (auto simp: retire_def close_orphan_listener_def closing_eq Let_def)
    qed
  qed
qed

section \<open>Drain, shutdown and the rest\<close>

lemma inv_drain_state: "lifecycle_inv s \<Longrightarrow> draining s = Some d \<Longrightarrow> drain_state d s \<and> locked s"
  by (simp add: lifecycle_inv_def drain_state_def)

lemma drain_state_linger:
  assumes "drain_state d s" "locked s" "n < fresh s"
  shows "drain_state d (linger n k s)"
proof -
  have b: "base_inv (linger n k s)"
    using assms bounded_track [of s n k True False None] no_then_track [of s n k True None]
    by (auto simp: drain_state_def base_inv_def linger_def lock_inv_def unwinding_def)
  have "drain_pre d s" using assms(1) by (simp add: drain_state_def)
  then have "drain_pre d (linger n k s)"
    by (cases "dr_owner d") (auto simp: drain_pre_def linger_def track_keys)
  then show ?thesis using b assms by (simp add: drain_state_def linger_def close_old_def wait_old_def)
qed

lemma drain_state_asked:
  "drain_state d s \<Longrightarrow> drain_state d (s\<lparr>asked := a\<rparr>)"
  by (cases "dr_owner d")
    (simp_all add: drain_state_def base_inv_def bounded_def lock_inv_def locked_def keys_def kinds_def no_then_def unwinding_def
      drain_pre_def close_old_def wait_old_def)

lemma drain_step_ok:
  assumes "lifecycle_inv s" "draining s = Some d" "drain_step expired d s = Some r"
  shows "\<exists>t. r = Ok t \<and> lifecycle_inv t"
proof -
  have ds: "drain_state d s" "locked s" using inv_drain_state [OF assms(1,2)] by auto
  have dl: "\<exists>t. drain_listener d s = Ok t \<and> lifecycle_inv t" by (rule drain_listener_ok [OF ds(1)])
  have db: "\<exists>t. drain_backend d u = Ok t \<and> lifecycle_inv t" if "drain_state d u" for u by (rule drain_backend_ok [OF that])
  have fd: "\<exists>t. finish_drain d oc u = Ok t \<and> lifecycle_inv t" if "drain_state d u" "oc \<noteq> Pending" for u oc
    by (rule finish_drain_ok [OF that])
  have old: "dr_wait d = D_listener c \<or> dr_wait d = D_close c \<Longrightarrow> c < fresh s" for c
    using ds(1) by (auto simp: drain_state_def wait_old_def)
  show ?thesis
  proof (cases "dr_wait d")
    case (D_sessions ns)
    have "drain_state (d\<lparr>dr_wait := D_grace\<rparr>) (ask_cancel ns s)"
      unfolding ask_cancel_def by (rule drain_state_asked [OF drain_state_wait [OF ds(1)]]) auto
    from drain_state_inv [OF this] have "lifecycle_inv (ask_cancel ns s\<lparr>draining := Some (d\<lparr>dr_wait := D_grace\<rparr>)\<rparr>)"
      using ds(2) by (simp add: ask_cancel_def locked_def)
    moreover have "r = Ok (ask_cancel ns s\<lparr>draining := Some (d\<lparr>dr_wait := D_grace\<rparr>)\<rparr>) \<or> r = drain_listener d s"
      using assms(3) D_sessions by (auto simp: drain_step_def split: if_splits)
    ultimately show ?thesis using dl by auto
  next
    case D_grace
    then show ?thesis using assms(3) dl by (auto simp: drain_step_def)
  next
    case (D_listener c)
    then have "r = drain_backend d (linger c K_listener_close s) \<or> r = drain_backend d s"
      using assms(3) by (auto simp: drain_step_def split: if_splits)
    then show ?thesis
      using db [OF ds(1)] db [OF drain_state_linger [OF ds], of c K_listener_close] old [of c] D_listener by auto
  next
    case (D_close c)
    have "r = finish_drain d Result (linger c K_close s) \<or> r = finish_drain d Result s \<or> r = finish_drain d Error s"
      using assms(3) D_close by (auto simp: drain_step_def split: if_splits)
    then show ?thesis
      using fd [OF ds(1), of Result] fd [OF ds(1), of Error] fd [OF drain_state_linger [OF ds], of c Result K_close] old [of c] D_close
      by auto
  qed
qed

lemma inv_cancel_one:
  assumes "lifecycle_inv s" "lstate s \<notin> {NEW, STOPPED}" "locked s" "n < fresh s"
  shows "lifecycle_inv (cancel_one n s)"
proof -
  let ?a = "s\<lparr>asked := (asked s)(n := True)\<rparr>"
  have "extends s ?a" using no_then_same [of ?a s] by (simp add: extends_def keys_def)
  moreover have "bounded ?a" "lock_inv ?a"
    using inv_bounded [OF assms(1)] by (simp_all add: bounded_def keys_def lock_inv_def locked_def kinds_def no_then_def)
  ultimately have i: "lifecycle_inv ?a" by (rule inv_extends [OF assms(1)])
  have "lifecycle_inv (track n K_session True False None ?a)"
    by (rule inv_track [OF i]) (use assms in \<open>simp_all add: locked_def\<close>)
  then show ?thesis by (simp add: cancel_one_def linger_def)
qed

lemma fold_cancel_inv:
  "lifecycle_inv s \<Longrightarrow> lstate s \<notin> {NEW, STOPPED} \<Longrightarrow> locked s \<Longrightarrow> \<forall>n \<in> set ns. n < fresh s \<Longrightarrow>
     lifecycle_inv (fold cancel_one ns s)"
proof (induction ns arbitrary: s)
  case (Cons n ns)
  have k: "kept s (cancel_one n s)" using cancel_one_kept by blast
  have "lifecycle_inv (cancel_one n s)" by (rule inv_cancel_one) (use Cons.prems in auto)
  moreover have "lstate (cancel_one n s) = lstate s" "locked (cancel_one n s)" "fresh s \<le> fresh (cancel_one n s)"
    using k Cons.prems(3) kept_locked [OF k] by (simp_all add: kept_def)
  ultimately show ?case using Cons.IH [of "cancel_one n s"] Cons.prems by (auto intro: less_le_trans)
qed simp

lemma kinds_locked:
  assumes "lifecycle_inv s" "k \<in> kinds s" "k \<notin> {K_step, K_thread, K_adopted}"
  shows "locked s" "lstate s \<notin> {NEW, STOPPED}"
proof -
  show "locked s" using inv_bounded(2) [OF assms(1)] assms(2,3) by (auto simp: lock_inv_def)
  have "ledger s \<noteq> []" using assms(2) by (auto simp: kinds_def)
  then show "lstate s \<notin> {NEW, STOPPED}"
    using assms(1) by (auto simp: lifecycle_inv_def quiescent_def drain_pre_def split: option.splits)
qed

lemma inv_cancel_sessions: "lifecycle_inv s \<Longrightarrow> lifecycle_inv (cancel_sessions s)"
proof (cases "sessions s")
  case (Cons m ms)
  assume i: "lifecycle_inv s"
  have "K_session \<in> kinds s" using sessions_keys [of m s] Cons by simp
  note l = kinds_locked [OF i this]
  have "\<forall>n \<in> set (sessions s). n < fresh s"
    using inv_bounded(1) [OF i] sessions_keys [of _ s] by (fastforce simp: bounded_def)
  then show ?thesis using fold_cancel_inv [OF i] l by (simp add: cancel_sessions_def)
qed (simp add: cancel_sessions_def)

lemma requested_update [simp]:
  fixes s :: server
  shows "keys (s\<lparr>requested := r\<rparr>) = keys s" "kinds (s\<lparr>requested := r\<rparr>) = kinds s"
    "locked (s\<lparr>requested := r\<rparr>) = locked s" "no_then (s\<lparr>requested := r\<rparr>) = no_then s"
    "bounded (s\<lparr>requested := r\<rparr>) = bounded s" "unwinding (s\<lparr>requested := r\<rparr>) = unwinding s"
    "drain_pre d (s\<lparr>requested := r\<rparr>) = drain_pre d s"
  by (cases "dr_owner d"; simp add: keys_def kinds_def locked_def no_then_def bounded_def unwinding_def drain_pre_def)+

lemma inv_requested:
  assumes "lifecycle_inv s" "lstate s \<in> {STOPPING, STOPPED}"
  shows "lifecycle_inv (s\<lparr>requested := True\<rparr>)"
proof -
  have "base_inv (s\<lparr>requested := True\<rparr>)" using assms by (auto simp: lifecycle_inv_def base_inv_def lock_inv_def)
  then show ?thesis
    using assms by (cases "draining s")
      (auto simp: lifecycle_inv_def close_old_def wait_old_def quiescent_def start_pre_def leftover_def split: option.splits)
qed

lemma shutdown_call_ok:
  assumes "lifecycle_inv s"
  shows "\<exists>t. shutdown_call s = Ok t \<and> lifecycle_inv t"
proof (cases "lstate s")
  case NEW
  then have n: "ledger s = []" "draining s = None" "starting s = S_idle" "\<not> backend_open s" "stop_task s = None"
    using assms by (auto simp: lifecycle_inv_def quiescent_def drain_pre_def split: option.splits)
  let ?t = "s\<lparr>requested := True, lstate := STOPPED, lock_fd := None, unlocked := True\<rparr>"
  have "shutdown_call s = Ok ?t"
    using NEW n by (simp add: shutdown_call_def transition_def UNLOCKED_STATES_def release_lock_def Let_def)
  moreover have "lifecycle_inv ?t"
    using n by (simp add: lifecycle_inv_def quiescent_def base_inv_def bounded_def lock_inv_def keys_def kinds_def no_then_def)
  ultimately show ?thesis by blast
next
  case STARTING
  let ?t = "s\<lparr>requested := True, lstate := STOPPING, unlocked := False\<rparr>"
  have e: "shutdown_call s = Ok ?t" using STARTING by (simp add: shutdown_call_def transition_def UNLOCKED_STATES_def)
  have k: "keys ?t = keys s" "locked ?t = locked s" by (simp_all add: keys_def locked_def)
  have b: "base_inv ?t"
    using assms by (simp add: lifecycle_inv_def base_inv_def bounded_def lock_inv_def k) (simp add: kinds_def no_then_def)
  have "lifecycle_inv ?t"
  proof (cases "draining s")
    case None
    then show ?thesis using assms b STARTING by (simp add: lifecycle_inv_def start_pre_def k)
  next
    case (Some d)
    then have "drain_pre d s" using assms by (simp add: lifecycle_inv_def)
    then have "drain_pre d ?t" using STARTING by (cases "dr_owner d") (simp_all add: drain_pre_def k)
    then show ?thesis using Some assms b by (simp add: lifecycle_inv_def k close_old_def wait_old_def)
  qed
  then show ?thesis using e by blast
next
  case RUNNING
  then have s: "draining s = None" "starting s = S_idle" "close_task s = None" "stop_task s = None" "locked s"
    "base_inv s" "bounded s" "no_then s"
    using assms by (auto simp: lifecycle_inv_def base_inv_def unwinding_def drain_pre_def split: option.splits)
  let ?p = "s\<lparr>requested := True, lstate := STOPPING, unlocked := False\<rparr>"
  let ?u = "(snd (spawn ?p))\<lparr>stop_task := Some (fresh s)\<rparr>"
  let ?t = "track (fresh s) K_step False False None ?u"
  have e: "shutdown_call s = Ok ?t"
    using RUNNING by (simp add: shutdown_call_def transition_def UNLOCKED_STATES_def spawn_def Let_def)
  have ku: "keys ?u = keys s" "locked ?u = locked s" "no_then ?u" "ledger ?u = ledger s" "fut ?u = (fut s)(fresh s := Pending)"
    using s(8) by (simp_all add: keys_def locked_def no_then_def spawn_def)
  have kt: "keys ?t = insert (Fut (fresh s)) (keys s)" using ku by (simp add: track_keys)
  then have ne: "ledger ?t \<noteq> []" using keys_empty [of ?t] by auto
  have "bounded ?t" using s(7) kt by (auto simp: bounded_def less_Suc_eq)
  then have "base_inv ?t" using s ku by (simp add: base_inv_def lock_inv_def)
  moreover have "leftover ?t" using s ku kt ne by (simp add: leftover_def)
  ultimately have "lifecycle_inv ?t" using s by (simp add: lifecycle_inv_def)
  then show ?thesis using e by blast
next
  case STOPPING
  then show ?thesis using inv_requested [OF assms] by (simp add: shutdown_call_def)
next
  case STOPPED
  then show ?thesis using inv_requested [OF assms] by (simp add: shutdown_call_def)
qed

lemma no_key_new: "lifecycle_inv s \<Longrightarrow> k \<in> keys s \<Longrightarrow> lstate s \<notin> {NEW, STOPPED}"
  by (auto simp: lifecycle_inv_def quiescent_def drain_pre_def keys_def split: option.splits)

text \<open>Completing a future that is not the stop task.\<close>

lemma inv_future:
  assumes "lifecycle_inv s" "stop_task s \<noteq> Some n"
  shows "lifecycle_inv (s\<lparr>fut := (fut s)(n := oc), sock_file := f\<rparr>)"
proof -
  let ?t = "s\<lparr>fut := (fut s)(n := oc), sock_file := f\<rparr>"
  have "extends s ?t" using assms(2) no_then_same [of ?t s] by (simp add: extends_def keys_def)
  moreover have "bounded ?t" "lock_inv ?t"
    using inv_bounded [OF assms(1)] by (simp_all add: bounded_def keys_def lock_inv_def locked_def kinds_def no_then_def)
  ultimately show ?thesis by (rule inv_extends [OF assms(1)])
qed

lemma inv_world:
  assumes "lifecycle_inv s"
  shows "lifecycle_inv (s\<lparr>idle_hook := h\<rparr>)" "lifecycle_inv (s\<lparr>sock_file := f\<rparr>)"
proof -
  have "extends s (s\<lparr>idle_hook := h\<rparr>)" "extends s (s\<lparr>sock_file := f\<rparr>)"
    using no_then_same [of "s\<lparr>idle_hook := h\<rparr>" s] no_then_same [of "s\<lparr>sock_file := f\<rparr>" s]
    by (simp_all add: extends_def keys_def)
  moreover have "bounded (s\<lparr>idle_hook := h\<rparr>)" "lock_inv (s\<lparr>idle_hook := h\<rparr>)" "bounded (s\<lparr>sock_file := f\<rparr>)" "lock_inv (s\<lparr>sock_file := f\<rparr>)"
    using inv_bounded [OF assms] by (simp_all add: bounded_def keys_def lock_inv_def locked_def kinds_def no_then_def)
  ultimately show "lifecycle_inv (s\<lparr>idle_hook := h\<rparr>)" "lifecycle_inv (s\<lparr>sock_file := f\<rparr>)"
    using inv_extends [OF assms] by auto
qed

lemma inv_new_work:
  assumes "lifecycle_inv s" "lstate s \<notin> {NEW, STOPPED}" "locked s \<or> k \<in> {K_step, K_thread, K_adopted}"
  shows "lifecycle_inv (let (n, s1) = spawn s in track n k b False l s1)"
  using inv_track [OF inv_spawn [OF assms(1)], of "fresh s" k b l] assms(2,3)
  by (simp add: case_prod_beta)

lemma future_kind_facts:
  "future_kind n s = Some k \<Longrightarrow> Fut n \<in> keys s"
  using get_None [of "Fut n" s] by (cases "Fut n \<in> keys s") (auto simp: future_kind_def)

lemma serving_kind:
  "serving s \<Longrightarrow> \<exists>k \<in> kinds s. k \<notin> {K_step, K_thread, K_adopted}"
  by (force simp: serving_def kinds_def list_ex_iff)

lemma stop_task_ready:
  assumes "lifecycle_inv s" "stop_task s = Some n" "fut s n = Pending" "draining s = None"
  shows "drain_ready True (Some n) s"
  using assms
  by (auto simp: lifecycle_inv_def drain_ready_def start_pre_def leftover_def quiescent_def split: lifecycle.splits)

lemma sock_file_same: "(s :: server)\<lparr>fut := f, sock_file := sock_file s\<rparr> = s\<lparr>fut := f\<rparr>"
  by (auto intro!: server.equality)

lemma lifecycle_step_ok:
  assumes inv: "lifecycle_inv s" and st: "lifecycle_step e s = Some r"
  shows "\<exists>t. r = Ok t \<and> lifecycle_inv t"
proof (cases e)
  case (Start_Call lock)
  then show ?thesis using start_call_ok [OF inv, of lock] st by (auto simp: lifecycle_step_def)
next
  case Backend_Started
  then show ?thesis using backend_started_ok [OF inv] st by (auto simp: lifecycle_step_def split: start_pc.splits)
next
  case Start_Fails
  then obtain tok where "starting s = S_backend tok" "r = unwind_failed_start False tok s"
    using st by (auto simp: lifecycle_step_def split: start_pc.splits)
  then show ?thesis using start_at_unwind [of tok s False] inv_start_at(1) [OF inv] by auto
next
  case Start_Cancel
  then show ?thesis using start_cancel_ok [OF inv] st by (simp add: lifecycle_step_def)
next
  case Start_Resume
  then show ?thesis using start_resume_ok [OF inv] st by (simp add: lifecycle_step_def)
next
  case (Bind_Done n i)
  then have b: "stop_task s \<noteq> Some n" "Fut n \<in> keys s"
    "r = Ok (record_bound_socket (s\<lparr>fut := (fut s)(n := Result), sock_file := (if uds s then Some i else sock_file s)\<rparr>))"
    using st future_kind_facts [of n s] by (auto simp: lifecycle_step_def split: if_splits)
  then have "lifecycle_inv (s\<lparr>fut := (fut s)(n := Result), sock_file := (if uds s then Some i else sock_file s)\<rparr>)"
    using inv_future [OF inv] by blast
  then show ?thesis using b no_key_new [OF inv b(2)] by (auto intro!: inv_record)
next
  case (Future_Done n oc)
  then have "stop_task s \<noteq> Some n" "r = Ok (s\<lparr>fut := (fut s)(n := oc)\<rparr>)"
    using st by (auto simp: lifecycle_step_def split: if_splits)
  then show ?thesis using inv_future [OF inv, where n = n and oc = oc and f = "sock_file s"] by (simp add: sock_file_same)
next
  case (Callback n fails)
  then show ?thesis
    using st retire_ok [OF inv, of n] by (auto simp: lifecycle_step_def split: option.splits if_splits)
next
  case Session_Begins
  then have sv: "serving s" "r = Ok (let (n, s1) = spawn s in track n K_session False False None s1)"
    using st by (auto simp: lifecycle_step_def split: if_splits)
  obtain k where k: "k \<in> kinds s" "k \<notin> {K_step, K_thread, K_adopted}" using serving_kind [OF sv(1)] by blast
  show ?thesis using sv(2) inv_new_work [OF inv kinds_locked(2) [OF inv k]] kinds_locked(1) [OF inv k] by blast
next
  case (Adopt abandoned label)
  moreover have "lifecycle_inv (adopt abandoned label s)"
    using inv inv_new_work [OF inv, of K_adopted abandoned "Some label"]
    by (auto simp: adopt_def can_adopt_def ADOPTABLE_STATES_def)
  ultimately show ?thesis using st by (auto simp: lifecycle_step_def)
next
  case (Adopt_Again n label)
  then have k: "Fut n \<in> keys s" "r = Ok (adopt_again n label s)"
    using st future_kind_facts by (auto simp: lifecycle_step_def split: if_splits)
  then have "n < fresh s" using inv_bounded(1) [OF inv] by (force simp: bounded_def)
  then show ?thesis
    using k no_key_new [OF inv k(1)] inv_track [OF inv, of n K_adopted True "Some label"] inv by (simp add: adopt_again_def)
next
  case Shutdown_Call
  then show ?thesis using shutdown_call_ok [OF inv] st by (auto simp: lifecycle_step_def)
next
  case Shutdown_Cancelled
  then show ?thesis
    using inv_cancel_sessions [OF inv] st by (auto simp: lifecycle_step_def split: option.splits if_splits)
next
  case Stop_Task_Runs
  then obtain n where n: "stop_task s = Some n" "fut s n = Pending" "draining s = None" "r = begin_drain True (Some n) s"
    using st by (auto simp: lifecycle_step_def split: option.splits if_splits)
  then show ?thesis using begin_drain_ok [OF stop_task_ready [OF inv n(1-3)]] by simp
next
  case (Drain_Step expired)
  then show ?thesis using drain_step_ok [OF inv] st by (auto simp: lifecycle_step_def split: option.splits)
next
  case Drain_Cancelled
  then obtain d where "draining s = Some d" "r = finish_drain d Cancelled s"
    using st by (auto simp: lifecycle_step_def split: option.splits)
  then show ?thesis using finish_drain_ok [of d s Cancelled] inv_drain_state [OF inv] by auto
next
  case (Hook a)
  then show ?thesis using inv_world(1) [OF inv] st by (auto simp: lifecycle_step_def)
next
  case (File f)
  then show ?thesis using inv_world(2) [OF inv] st by (auto simp: lifecycle_step_def)
qed

section \<open>The state diagram\<close>

text \<open>Every operation moves along \<open>_TRANSITIONS\<close>, and a requested shutdown stays requested.\<close>

definition allowed :: "lifecycle \<Rightarrow> lifecycle \<Rightarrow> bool" where
  "allowed a b \<longleftrightarrow> b \<in> set (TRANSITIONS a)"

definition moves :: "server \<Rightarrow> server \<Rightarrow> bool" where
  "moves s t \<longleftrightarrow> allowed\<^sup>*\<^sup>* (lstate s) (lstate t) \<and> (requested s \<longrightarrow> requested t)"

lemma moves_same: "lstate t = lstate s \<Longrightarrow> requested t = requested s \<Longrightarrow> moves s t"
  by (simp add: moves_def)

lemma moves_trans [trans]: "moves s t \<Longrightarrow> moves t u \<Longrightarrow> moves s u"
  by (auto simp: moves_def)

lemma kept_moves: "kept s t \<Longrightarrow> moves s t"
  by (rule moves_same) (simp_all add: kept_def)

lemma transition_moves: "transition new s = Ok t \<Longrightarrow> moves s t"
  by (auto simp: moves_def transition_def allowed_def release_lock_def reset_attempt_def Let_def split: if_splits
      intro!: r_into_rtranclp)

lemma settle_moves: "settle s = Ok t \<Longrightarrow> moves s t"
  by (auto simp: settle_def moves_same split: if_splits dest: transition_moves)

lemma end_work_moves: "end_work k s = Ok t \<Longrightarrow> moves s t"
  using settle_moves [of "s\<lparr>ledger := ledger_pop k (ledger s)\<rparr>" t] by (simp add: end_work_def moves_def)

lemma finish_start_moves: "finish_start tok s = Ok t \<Longrightarrow> moves s t"
proof -
  assume "finish_start tok s = Ok t"
  then obtain u v where u: "end_work (Token tok) (s\<lparr>starting := S_idle\<rparr>) = Ok u"
    "(if lstate u = STARTING then transition (if live_reasons (ledger u) \<noteq> [] then STOPPING else NEW) u else Ok u) = Ok v"
    "settle v = Ok t"
    by (auto simp: finish_start_def bind_result_Ok_iff)
  have "moves s (s\<lparr>starting := S_idle\<rparr>)" by (rule moves_same) simp_all
  also have "moves (s\<lparr>starting := S_idle\<rparr>) u" by (rule end_work_moves [OF u(1)])
  also have "moves u v" using u(2) by (auto simp: moves_same split: if_splits dest: transition_moves)
  also have "moves v t" by (rule settle_moves [OF u(3)])
  finally show ?thesis .
qed

lemma keep_lock_moves: "moves s (keep_lock_for_leftover_work cb s)"
proof -
  have "moves s (cancel_sessions s)"
    using fold_cancel_kept [where s = s and ns = "sessions s"] kept_moves by (simp add: cancel_sessions_def)
  also have "moves (cancel_sessions s) (if cb then start_close (cancel_sessions s) else cancel_sessions s)"
    using kept_moves [OF kept_start_close] by (simp add: moves_same)
  also have "moves \<dots> (after_close cb s)"
    by (rule moves_same) (auto simp: after_close_def linger_def Let_def split: option.splits)
  also have "moves \<dots> (keep_lock_for_leftover_work cb s)"
    by (rule moves_same) (simp_all add: keep_lock_eq linger_def)
  finally show ?thesis .
qed

lemma finish_drain_moves: "finish_drain d oc s = Ok t \<Longrightarrow> moves s t"
proof -
  let ?k = "keep_lock_for_leftover_work (dr_close_backend d) s"
  assume "finish_drain d oc s = Ok t"
  then obtain u where u: "end_work (Token (dr_token d)) (?k\<lparr>draining := None\<rparr>) = Ok u"
    "(case dr_owner d of Some n \<Rightarrow> Ok (u\<lparr>fut := (fut u)(n := oc)\<rparr>)
      | None \<Rightarrow> (case starting u of S_unwinding tok \<Rightarrow> finish_start tok u | _ \<Rightarrow> Ok u)) = Ok t"
    by (auto simp: finish_drain_def bind_result_Ok_iff)
  note keep_lock_moves [of s "dr_close_backend d"]
  also have "moves ?k (?k\<lparr>draining := None\<rparr>)" by (rule moves_same) simp_all
  also note end_work_moves [OF u(1)]
  also have "moves u t"
    using u(2) by (auto simp: moves_same split: option.splits start_pc.splits dest: finish_start_moves)
  finally show ?thesis .
qed

lemma drain_backend_moves: "drain_backend d s = Ok t \<Longrightarrow> moves s t"
proof (cases "dr_close_backend d")
  case True
  assume "drain_backend d s = Ok t"
  then show ?thesis
    using True by (auto simp: drain_backend_def Let_def start_close_def spawn_def moves_same split: option.splits)
qed (auto simp: drain_backend_def dest: finish_drain_moves)

lemma drain_listener_moves: "drain_listener d s = Ok t \<Longrightarrow> moves s t"
  by (auto simp: drain_listener_def moves_same split: option.splits dest: drain_backend_moves)

lemma begin_work_moves: "begin_work s = (tok, Ok t) \<Longrightarrow> moves s t"
  by (auto simp: begin_work_def hand_off_def Let_def moves_def)

lemma close_listener_moves: "close_listener s = Ok (c, t) \<Longrightarrow> moves s t"
proof (cases "listener s")
  case (Some n)
  assume "close_listener s = Ok (c, t)"
  then show ?thesis using Some by (auto simp: close_listener_def closing_eq Let_def intro!: moves_same)
qed (auto simp: close_listener_def moves_same)

lemma begin_drain_moves: "begin_drain cb owner s = Ok t \<Longrightarrow> moves s t"
proof -
  let ?s = "s\<lparr>shutdown_event := True\<rparr>"
  assume "begin_drain cb owner s = Ok t"
  then obtain tok u c v d where u: "begin_work ?s = (tok, Ok u)" "close_listener u = Ok (c, v)"
    "t = v\<lparr>draining := Some d\<rparr> \<or> drain_listener d v = Ok t"
    by (cases "begin_work ?s") (auto simp: begin_drain_def bind_result_Ok_iff Let_def split: if_splits)
  have "moves s ?s" by (rule moves_same) simp_all
  also note begin_work_moves [OF u(1)]
  also note close_listener_moves [OF u(2)]
  also have "moves v t" using u(3) by (auto simp: moves_same dest: drain_listener_moves)
  finally show ?thesis .
qed

lemma unwind_moves: "unwind_failed_start cb tok s = Ok t \<Longrightarrow> moves s t"
  using begin_drain_moves [of cb None "s\<lparr>starting := S_unwinding tok\<rparr>" t]
  by (simp add: unwind_failed_start_def moves_def)

lemma start_call_moves: "start_call lock s = Ok t \<Longrightarrow> moves s t"
proof (cases "lstate s = NEW")
  case True
  assume "start_call lock s = Ok t"
  then obtain u tok v where u: "transition STARTING s = Ok u" "begin_work u = (tok, Ok v)"
    "moves v t \<or> unwind_failed_start False tok v = Ok t"
    using True by (cases "transition STARTING s"; cases "begin_work (projr (transition STARTING s))")
      (auto simp: start_call_def bind_result_Ok_iff moves_same split: if_splits option.splits)
  note transition_moves [OF u(1)]
  also note begin_work_moves [OF u(2)]
  also have "moves v t" using u(3) unwind_moves by blast
  finally show ?thesis .
qed (simp add: start_call_def moves_same)

lemma backend_started_moves: "backend_started tok s = Ok t \<Longrightarrow> moves s t"
  using unwind_moves [of True tok "s\<lparr>backend_open := True\<rparr>" t]
  by (auto simp: backend_started_def Let_def moves_def spawn_def split: if_splits)

lemma bind_over_moves:
  assumes "bind_over c tok n s = Ok t"
  shows "moves s t"
proof (cases "fut s n = Result")
  case True
  have a: "moves s (adopted n s)" by (rule moves_same) simp_all
  have "moves (adopted n s) t"
  proof (cases "c \<or> lstate s \<noteq> STARTING")
    case False
    then obtain u where "transition RUNNING (adopted n s) = Ok u" "finish_start tok u = Ok t"
      using True assms by (auto simp: bind_over_def adopt_listener_eq bind_result_Ok_iff)
    then show ?thesis using transition_moves finish_start_moves moves_trans by blast
  qed (use True assms in \<open>auto simp: bind_over_def adopt_listener_eq dest: unwind_moves\<close>)
  then show ?thesis by (rule moves_trans [OF a])
qed (use assms in \<open>simp add: bind_over_def unwind_moves\<close>)

lemma start_cancel_moves: "start_cancel s = Some (Ok t) \<Longrightarrow> moves s t"
  by (auto simp: start_cancel_def moves_def split: start_pc.splits if_splits
      dest!: unwind_moves bind_over_moves [unfolded moves_def] dest: unwind_moves)

lemma retire_moves: "retire n fails s = Ok t \<Longrightarrow> moves s t"
proof (cases "ledger_get (Fut n) (ledger s)")
  case (Some e)
  let ?s1 = "s\<lparr>ledger := ledger_put (Fut n) (e\<lparr>wk_callback := False, wk_then := False\<rparr>) (ledger s)\<rparr>"
  assume "retire n fails s = Ok t"
  then have "lstate t = lstate s \<and> requested t = requested s \<or> end_work (Fut n) ?s1 = Ok t \<or>
      end_work (Fut n) (closing n True (record_bound_socket ?s1)) = Ok t"
    using Some by (auto simp: retire_def close_orphan_listener_def closing_eq Let_def split: if_splits)
  then show ?thesis using end_work_moves [of "Fut n" ?s1 t] end_work_moves [of "Fut n" "closing n True (record_bound_socket ?s1)" t]
    by (auto simp: moves_def)
qed (auto simp: retire_def dest: end_work_moves)

lemma drain_step_moves: "drain_step x d s = Some (Ok t) \<Longrightarrow> moves s t"
proof -
  have l: "drain_backend d (linger c k s) = Ok t \<Longrightarrow> moves s t" "finish_drain d oc (linger c k s) = Ok t \<Longrightarrow> moves s t" for c k oc
    using drain_backend_moves [of d "linger c k s" t] finish_drain_moves [of d oc "linger c k s" t]
    by (simp_all add: moves_def linger_def)
  assume "drain_step x d s = Some (Ok t)"
  then show ?thesis
    by (auto simp: drain_step_def ask_cancel_def moves_same split: drain_wait.splits if_splits
        dest: l drain_listener_moves drain_backend_moves finish_drain_moves)
qed

lemma shutdown_call_moves: "shutdown_call s = Ok t \<Longrightarrow> moves s t \<and> requested t"
proof -
  have tr: "transition l (s\<lparr>requested := True\<rparr>) = Ok u \<Longrightarrow> moves s u \<and> requested u" for l u
    using transition_moves [of l "s\<lparr>requested := True\<rparr>" u] by (auto simp: moves_def)
  assume "shutdown_call s = Ok t"
  then show ?thesis
    by (auto simp: shutdown_call_def bind_result_Ok_iff Let_def moves_def spawn_def split: lifecycle.splits dest!: tr)
qed

lemma lifecycle_step_moves:
  assumes "lifecycle_step e s = Some (Ok t)"
  shows "moves s t"
proof (cases e)
  case (Start_Call lock)
  then show ?thesis using assms by (auto simp: lifecycle_step_def dest: start_call_moves)
next
  case Backend_Started
  then show ?thesis using assms by (auto simp: lifecycle_step_def split: start_pc.splits dest: backend_started_moves)
next
  case Start_Fails
  then show ?thesis using assms by (auto simp: lifecycle_step_def split: start_pc.splits dest: unwind_moves)
next
  case Start_Cancel
  then show ?thesis using assms by (auto simp: lifecycle_step_def dest: start_cancel_moves)
next
  case Start_Resume
  then show ?thesis
    using assms by (auto simp: lifecycle_step_def start_resume_def split: start_pc.splits if_splits dest: bind_over_moves)
next
  case (Callback n f)
  then show ?thesis using assms by (auto simp: lifecycle_step_def split: option.splits if_splits dest: retire_moves)
next
  case Shutdown_Call
  then show ?thesis using assms by (auto simp: lifecycle_step_def dest: shutdown_call_moves)
next
  case Shutdown_Cancelled
  have "moves s (cancel_sessions s)"
    using fold_cancel_kept [where s = s and ns = "sessions s"] kept_moves by (simp add: cancel_sessions_def)
  then show ?thesis using assms Shutdown_Cancelled by (auto simp: lifecycle_step_def split: option.splits if_splits)
next
  case Stop_Task_Runs
  then show ?thesis using assms by (auto simp: lifecycle_step_def split: option.splits if_splits dest: begin_drain_moves)
next
  case (Drain_Step x)
  then show ?thesis using assms by (auto simp: lifecycle_step_def split: option.splits dest: drain_step_moves)
next
  case Drain_Cancelled
  then show ?thesis using assms by (auto simp: lifecycle_step_def split: option.splits dest: finish_drain_moves)
qed (use assms in \<open>auto simp: lifecycle_step_def moves_def adopt_def adopt_again_def spawn_def Let_def split: if_splits\<close>)

end
