(* ===== verification/Lifecycle_Props.thy ===== *)
theory Lifecycle_Props
  imports Lifecycle_Steps
begin

text \<open>
  The contract of the server's lifecycle, as its class docstring states it: the single-server lock
  is tied to the ledger, no transition is ever refused, the state follows the diagram, a requested
  shutdown is final, a running server serves, and every drain ends.
\<close>

section \<open>Runs\<close>

interpretation lifecycle: invariant_system lifecycle_init lifecycle_next lifecycle_inv
  by unfold_locales (auto simp: inv_init elim!: lifecycle_nextE dest: lifecycle_step_ok)

interpretation diagram: simulation lifecycle_init lifecycle_next lifecycle_inv lstate "\<lambda>l. l = NEW" "allowed\<^sup>*\<^sup>*"
  by unfold_locales
    (auto simp: lifecycle_init_def new_server_def reset_attempt_def moves_def elim!: lifecycle_nextE dest: lifecycle_step_moves)

abbreviation server_reach :: "server \<Rightarrow> bool" where
  "server_reach \<equiv> reach lifecycle_init lifecycle_next"

fun lifecycle_run :: "levent list \<Rightarrow> server \<Rightarrow> server option" where
  "lifecycle_run [] s = Some s"
| "lifecycle_run (e # es) s =
     (case lifecycle_step e s of Some (Inr t) \<Rightarrow> lifecycle_run es t | _ \<Rightarrow> None)"

lemma run_steps: "lifecycle_run es s = Some t \<Longrightarrow> lifecycle_next\<^sup>*\<^sup>* s t"
proof (induction es arbitrary: s)
  case (Cons e es)
  then obtain u where "lifecycle_step e s = Some (Ok u)" "lifecycle_run es u = Some t"
    by (auto split: option.splits sum.splits)
  then show ?case using Cons.IH by (auto intro: converse_rtranclp_into_rtranclp lifecycle_nextI)
qed simp

lemma run_reach:
  assumes "lifecycle_run es (new_server b f h) = Some t"
  shows "server_reach t"
proof -
  have "lifecycle_init (new_server b f h)" by (auto simp: lifecycle_init_def)
  then have "server_reach (new_server b f h)" by (rule reach_init)
  then show ?thesis by (rule reach_steps [OF run_steps [OF assms]])
qed

section \<open>How long a drain can wait\<close>

fun drain_rank :: "drain_wait \<Rightarrow> nat" where
  "drain_rank (D_sessions ns) = 4"
| "drain_rank D_grace = 3"
| "drain_rank (D_listener c) = 2"
| "drain_rank (D_close c) = 1"

definition drain_left :: "server \<Rightarrow> nat" where
  "drain_left s = (case draining s of None \<Rightarrow> 0 | Some d \<Rightarrow> drain_rank (dr_wait d))"

lemma transition_draining: "transition l s = Ok t \<Longrightarrow> draining t = draining s"
  by (auto simp: transition_def release_lock_def reset_attempt_def Let_def split: if_splits)

lemma settle_draining: "settle s = Ok t \<Longrightarrow> draining t = draining s"
  by (auto simp: settle_def split: if_splits dest: transition_draining)

lemma end_work_draining: "end_work k s = Ok t \<Longrightarrow> draining t = draining s"
  by (auto simp: end_work_def dest: settle_draining)

lemma finish_start_draining: "finish_start tok s = Ok t \<Longrightarrow> draining t = draining s"
  by (auto simp: finish_start_def bind_result_Ok_iff split: if_splits
      dest!: settle_draining end_work_draining transition_draining)

lemma finish_drain_draining: "finish_drain d oc s = Ok t \<Longrightarrow> draining t = None"
  by (auto simp: finish_drain_def bind_result_Ok_iff split: option.splits start_pc.splits
      dest!: end_work_draining finish_start_draining)

lemma drain_backend_left: "drain_backend d s = Ok t \<Longrightarrow> drain_left t \<le> 1"
  by (auto simp: drain_backend_def drain_left_def Let_def split: if_splits dest: finish_drain_draining)

lemma drain_listener_left: "drain_listener d s = Ok t \<Longrightarrow> drain_left t \<le> 2"
  by (auto simp: drain_listener_def split: option.splits dest: drain_backend_left) (simp add: drain_left_def)

lemma drain_step_left:
  assumes "drain_step True d s = Some (Ok t)"
  shows "drain_left t < drain_rank (dr_wait d)"
proof (cases "dr_wait d")
  case (D_sessions ns)
  then show ?thesis
    using assms drain_listener_left [of d s t] by (auto simp: drain_step_def split: if_splits) (simp add: drain_left_def)
next
  case D_grace
  then show ?thesis using assms drain_listener_left [of d s t] by (simp add: drain_step_def)
next
  case (D_listener c)
  then show ?thesis
    using assms drain_backend_left [of d s t] drain_backend_left [of d "linger c K_listener_close s" t]
    by (auto simp: drain_step_def split: if_splits)
next
  case (D_close c)
  then have "draining t = None" using assms by (auto simp: drain_step_def split: if_splits dest: finish_drain_draining)
  then show ?thesis using D_close by (simp add: drain_left_def)
qed

lemma drain_step_enabled: "drain_step True d s \<noteq> None"
  by (auto simp: drain_step_def split: drain_wait.splits)

lemma expired_drain:
  assumes "lifecycle_inv s"
  shows "\<exists>k t. k \<le> drain_left s \<and> lifecycle_run (replicate k (Drain_Step True)) s = Some t \<and> draining t = None"
  using assms
proof (induction "drain_left s" arbitrary: s rule: less_induct)
  case less
  show ?case
  proof (cases "draining s")
    case None
    then show ?thesis by (intro exI [of _ 0]) simp
  next
    case (Some d)
    then obtain r where r: "lifecycle_step (Drain_Step True) s = Some r" "drain_step True d s = Some r"
      using drain_step_enabled [of d s] by (auto simp: lifecycle_step_def)
    obtain u where u: "r = Ok u" "lifecycle_inv u" using lifecycle_step_ok [OF less.prems r(1)] by blast
    have "drain_left u < drain_left s" using drain_step_left r(2) u(1) Some by (simp add: drain_left_def)
    moreover obtain k t where k: "k \<le> drain_left u" "lifecycle_run (replicate k (Drain_Step True)) u = Some t" "draining t = None"
      using less.hyps [OF calculation u(2)] by blast
    ultimately show ?thesis
      using r u by (intro exI [of _ "Suc k"] exI [of _ t]) simp
  qed
qed

lemma drain_left_le: "drain_left s \<le> 4"
proof (cases "draining s")
  case (Some d)
  then show ?thesis by (cases "dr_wait d") (simp_all add: drain_left_def)
qed (simp add: drain_left_def)

section \<open>Samples\<close>

text \<open>A server on a Unix socket that has started and serves one session; then \<open>shutdown()\<close> was called
  and the drain waits for the session.\<close>

definition sample_events :: "levent list" where
  "sample_events = [Start_Call (Some 3), Backend_Started, Bind_Done 1 (7, 9), Callback 1 False, Start_Resume, Session_Begins]"

definition sample_serving :: server where
  "sample_serving = the (lifecycle_run sample_events (new_server True None No_Hook))"

definition sample_draining :: server where
  "sample_draining = the (lifecycle_run [Shutdown_Call, Stop_Task_Runs] sample_serving)"

lemmas sample_simps = lifecycle_step_def start_call_def transition_def UNLOCKED_STATES_def begin_work_def hand_off_def Let_def
  ledger_get_def new_work_def new_server_def reset_attempt_def backend_started_def spawn_def track_def future_kind_def
  record_bound_socket_def retire_def end_work_def ledger_pop_def settle_def start_resume_def bind_over_def adopt_listener_def
  finish_start_def serving_def shutdown_call_def begin_drain_def sessions_def close_listener_def begin_listener_close_def
  unlink_own_socket_def drain_listener_def

lemma sample_serving_run:
  "lifecycle_run sample_events (new_server True None No_Hook) = Some sample_serving \<and>
   lstate sample_serving = RUNNING \<and> lock_fd sample_serving = Some 3 \<and> map fst (ledger sample_serving) = [Listener 1, Fut 2]"
  by (simp add: sample_serving_def sample_events_def sample_simps)

lemma sample_draining_run:
  "lifecycle_run [Shutdown_Call, Stop_Task_Runs] sample_serving = Some sample_draining \<and>
   lstate sample_draining = STOPPING \<and> requested sample_draining \<and> \<not> requested sample_serving \<and>
   map_option dr_wait (draining sample_draining) = Some (D_sessions [2])"
  by (simp add: sample_draining_def sample_serving_def sample_events_def sample_simps)

lemma sample_server_reach: "server_reach sample_serving" "server_reach sample_draining"
proof -
  show r: "server_reach sample_serving" using run_reach sample_serving_run by blast
  show "server_reach sample_draining" using reach_steps [OF run_steps r] sample_draining_run by blast
qed

section \<open>The contract\<close>

text \<open>C7: no step of the server is ever refused: in no reachable state does an operation attempt an
  illegal transition, or a transition to \<open>new\<close> or \<open>stopped\<close> while live work remains, so
  the \<open>RuntimeError\<close> of \<open>_transition\<close> is never raised.\<close>

theorem lifecycle_never_refused:
  assumes "server_reach s" "lifecycle_step e s = Some r"
  shows "\<exists>t. r = Ok t \<and> server_reach t"
proof -
  obtain t where "r = Ok t" using lifecycle_step_ok [OF lifecycle.reachable [OF assms(1)] assms(2)] by blast
  then show ?thesis using assms by (auto intro: reach_step lifecycle_nextI)
qed

theorem lifecycle_never_refused_witness:
  "\<exists>t. shutdown_call sample_serving = Ok t \<and> server_reach t"
  by (rule lifecycle_never_refused [OF sample_server_reach(1), of Shutdown_Call]) (simp add: lifecycle_step_def)

text \<open>C8: the lock rule: the ledger is empty exactly in \<open>new\<close> and \<open>stopped\<close>; there the lock is
  released, the backend is closed and \<open>wait_stopped()\<close> returns; and on a Unix socket the lock is
  held as long as anything that touches the socket or the backend is in the ledger: a bind, a
  listener or its close, a session or decode, a backend close.\<close>

theorem lifecycle_lock_rule:
  assumes "server_reach s"
  shows "(ledger s = [] \<longleftrightarrow> lstate s \<in> {NEW, STOPPED}) \<and> unlocked s = (ledger s = []) \<and>
    (ledger s = [] \<longrightarrow> lock_fd s = None \<and> \<not> backend_open s) \<and>
    (uds s \<and> (\<exists>(k, w) \<in> set (ledger s). wk_kind w \<in> {K_bind, K_listener, K_listener_close, K_session, K_close}) \<longrightarrow>
       holds_socket_lock s)"
proof -
  note inv = lifecycle.reachable [OF assms]
  have "ledger s = [] \<longleftrightarrow> lstate s \<in> {NEW, STOPPED}"
    using live_nonempty [OF inv] no_key_new [OF inv] keys_empty [of s] by blast
  moreover have "unlocked s = (lstate s \<in> {NEW, STOPPED})" using inv by (simp add: lifecycle_inv_def base_inv_def)
  moreover have "lock_fd s = None \<and> \<not> backend_open s" if "lstate s \<in> {NEW, STOPPED}"
    using inv that by (auto simp: lifecycle_inv_def quiescent_def drain_pre_def split: option.splits)
  moreover have "holds_socket_lock s" if "uds s" "(k, w) \<in> set (ledger s)"
      "wk_kind w \<in> {K_bind, K_listener, K_listener_close, K_session, K_close}" for k w
  proof -
    have "wk_kind w \<in> kinds s" using that(2) by (force simp: kinds_def)
    then have "locked s" by (rule kinds_locked(1) [OF inv]) (use that(3) in auto)
    then show ?thesis using that(1) by (simp add: locked_def holds_socket_lock_def)
  qed
  ultimately show ?thesis by blast
qed

theorem lifecycle_lock_rule_witness:
  "(ledger sample_serving = [] \<longleftrightarrow> lstate sample_serving \<in> {NEW, STOPPED}) \<and> holds_socket_lock sample_serving"
  using lifecycle_lock_rule [OF sample_server_reach(1)] sample_serving_run by (simp add: holds_socket_lock_def)

text \<open>A running server serves: it holds the lock of its Unix socket, its bound listener is in the
  ledger, no start, drain or backend close is in progress, and no shutdown was requested.\<close>

theorem running_serves:
  assumes "server_reach s" "lstate s = RUNNING"
  shows "(\<exists>n w. listener s = Some n \<and> (Listener n, w) \<in> set (ledger s)) \<and> (uds s \<longrightarrow> holds_socket_lock s) \<and>
    starting s = S_idle \<and> draining s = None \<and> close_task s = None \<and> \<not> requested s"
  using lifecycle.reachable [OF assms(1)] assms(2)
  by (auto simp: lifecycle_inv_def base_inv_def drain_pre_def locked_def keys_def holds_socket_lock_def split: option.splits)

theorem running_serves_witness: "\<exists>n w. listener sample_serving = Some n \<and> (Listener n, w) \<in> set (ledger sample_serving)"
  using running_serves [OF sample_server_reach(1)] sample_serving_run by blast

text \<open>C9: the state follows the diagram of \<open>_TRANSITIONS\<close>, and a requested shutdown is final: whatever
  happens after \<open>shutdown()\<close> was called, the server is \<open>stopping\<close> or \<open>stopped\<close> (it is
  single-use), and a \<open>stopped\<close> server stays stopped.\<close>

theorem shutdown_is_final:
  assumes "server_reach s" "lifecycle_next\<^sup>*\<^sup>* s t"
  shows "allowed\<^sup>*\<^sup>* (lstate s) (lstate t) \<and> (requested s \<longrightarrow> requested t \<and> lstate t \<in> {STOPPING, STOPPED}) \<and>
    (lstate s = STOPPED \<longrightarrow> lstate t = STOPPED)"
proof -
  have m: "moves s t"
    using assms(2) by induction (auto intro: moves_same moves_trans lifecycle_step_moves elim!: lifecycle_nextE)
  have inv: "lifecycle_inv t" by (rule lifecycle.steps [OF assms(2) lifecycle.reachable [OF assms(1)]])
  have "lstate t = STOPPED" if "allowed\<^sup>*\<^sup>* STOPPED (lstate t)"
    using that by (auto elim: converse_rtranclpE simp: allowed_def)
  then show ?thesis using m inv by (auto simp: moves_def lifecycle_inv_def base_inv_def)
qed

theorem shutdown_is_final_witness: "allowed\<^sup>*\<^sup>* RUNNING (lstate sample_draining)"
  using shutdown_is_final [OF sample_server_reach(1) run_steps] sample_draining_run sample_serving_run by metis

text \<open>C10: every drain ends: in any reachable state with a drain in progress, at most four expired
  timers (drain timeout, cancel grace, listener grace, close bound) end it, whatever the
  sessions, the listener and the backend do.\<close>

theorem drain_is_bounded:
  assumes "server_reach s"
  shows "\<exists>k t. k \<le> 4 \<and> lifecycle_run (replicate k (Drain_Step True)) s = Some t \<and> draining t = None"
  using expired_drain [OF lifecycle.reachable [OF assms]] drain_left_le [of s] by (meson le_trans)

theorem drain_is_bounded_witness:
  "\<exists>k t. k \<le> 4 \<and> lifecycle_run (replicate k (Drain_Step True)) sample_draining = Some t \<and> draining t = None"
  by (rule drain_is_bounded [OF sample_server_reach(2)])

section \<open>The public counts\<close>

lemma count_reason_keys: "fst ` set (count_reason w r) = insert (wk_kind w, wk_label w) (fst ` set r)"
  by (induction w r rule: count_reason.induct) auto

lemma count_reason_sums:
  "sum_list (map (\<lambda>(k, n, st). n) (count_reason w r)) = Suc (sum_list (map (\<lambda>(k, n, st). n) r))"
  "sum_list (map (\<lambda>(k, n, st). st) (count_reason w r)) = sum_list (map (\<lambda>(k, n, st). st) r) + (if wk_stuck w then 1 else 0)"
  by (induction w r rule: count_reason.induct) simp_all

lemma count_reason_distinct: "distinct (map fst r) \<Longrightarrow> distinct (map fst (count_reason w r))"
proof (induction w r rule: count_reason.induct)
  case (2 w k n s r)
  have "fst ` set (count_reason w r) = insert (wk_kind w, wk_label w) (fst ` set r)" by (rule count_reason_keys)
  then show ?case using 2 by auto
qed simp

text \<open>\<open>live_work_reasons\<close> breaks \<open>live_work_count\<close> down: with \<open>counts\<close> the table it is
  printed from, every entry is counted once under its kind and label, the stuck ones once more, no
  kind and label has two lines, and the list is empty exactly when nothing is live.\<close>

theorem live_reasons_partition:
  "(let counts = fold (\<lambda>(k, w). count_reason w) (ledger s) [] in
     live_reasons (ledger s) = map reason_text counts \<and>
     sum_list (map (\<lambda>(k, n, st). n) counts) = live_work_count s \<and>
     sum_list (map (\<lambda>(k, n, st). st) counts) = stuck_work_count s \<and>
     distinct (map fst counts)) \<and>
   (live_reasons (ledger s) = [] \<longleftrightarrow> live_work_count s = 0)"
proof -
  have "sum_list (map (\<lambda>(k, n, st). n) (fold (\<lambda>(k, w). count_reason w) l r)) = length l + sum_list (map (\<lambda>(k, n, st). n) r) \<and>
     sum_list (map (\<lambda>(k, n, st). st) (fold (\<lambda>(k, w). count_reason w) l r)) =
       length (filter (\<lambda>(k, w). wk_stuck w) l) + sum_list (map (\<lambda>(k, n, st). st) r) \<and>
     (distinct (map fst r) \<longrightarrow> distinct (map fst (fold (\<lambda>(k, w). count_reason w) l r)))" for l :: ledger and r
    by (induction l arbitrary: r) (auto simp: count_reason_sums count_reason_distinct)
  from this [of "ledger s" "[]"] live_reasons_Nil [of "ledger s", unfolded live_reasons_def] show ?thesis
    by (simp add: live_work_count_def stuck_work_count_def live_reasons_def Let_def)
qed

end
