(* ===== verification/Json_Text.thy ===== *)
theory Json_Text
  imports Json
begin

text \<open>
  The JSON printer: \<open>json.dumps(x)\<close> of the server and its client, whose separators end in a blank,
  and \<open>json.dumps(event, separators=(",", ":"))\<close> of the event channel, both with the default
  \<open>ensure_ascii=True\<close>; and their round trip through the decoder of \<open>Json\<close>.
\<close>

section \<open>Printing\<close>

definition hex_digit :: "nat \<Rightarrow> char" where
  "hex_digit d = (if d < 10 then char_of (48 + d) else char_of (87 + d))"

text \<open>The escapes of one character (code points up to 255).\<close>

definition escape :: "char \<Rightarrow> string" where
  "escape c =
     (let n = (of_char c :: nat)
      in if n = 34 then [CHR 0x5C, CHR 0x22]
         else if n = 92 then [CHR 0x5C, CHR 0x5C]
         else if n = 10 then [CHR 0x5C, CHR ''n'']
         else if n = 13 then [CHR 0x5C, CHR ''r'']
         else if n = 9 then [CHR 0x5C, CHR ''t'']
         else if n = 12 then [CHR 0x5C, CHR ''f'']
         else if n = 8 then [CHR 0x5C, CHR ''b'']
         else if 32 \<le> n \<and> n \<le> 126 then [c]
         else [CHR 0x5C, CHR ''u'', CHR ''0'', CHR ''0'', hex_digit (n div 16), hex_digit (n mod 16)])"

definition dump_str :: "string \<Rightarrow> string" where
  "dump_str s = CHR 0x22 # concat (map escape s) @ [CHR 0x22]"

fun join :: "string \<Rightarrow> string list \<Rightarrow> string" where
  "join sep [] = []"
| "join sep [x] = x"
| "join sep (x # y # zs) = x @ sep @ join sep (y # zs)"

text \<open>\<open>None\<close>: the value holds a finite float (whose \<open>repr\<close> is not modelled) or an integer of
  more than 4300 digits (\<open>ValueError\<close>). \<open>sp\<close> is what follows a comma and a colon.\<close>

fun dump_json :: "string \<Rightarrow> json \<Rightarrow> string option" where
  "dump_json sp JNull = Some ''null''"
| "dump_json sp (JBool b) = Some (if b then ''true'' else ''false'')"
| "dump_json sp (JInt i) = (if 4300 < length (show_nat (nat \<bar>i\<bar>)) then None else Some (show_int i))"
| "dump_json sp (JFloat x) =
     (case x of Fin q \<Rightarrow> None | PosInf \<Rightarrow> Some ''Infinity'' | NegInf \<Rightarrow> Some ''-Infinity'' | NaN \<Rightarrow> Some ''NaN'')"
| "dump_json sp (JStr s) = Some (dump_str s)"
| "dump_json sp (JArr xs) =
     map_option (\<lambda>ts. ''['' @ join ('','' @ sp) ts @ '']'') (those (map (dump_json sp) xs))"
| "dump_json sp (JObj kvs) =
     map_option (\<lambda>ts. ''{'' @ join ('','' @ sp) ts @ ''}'')
       (those (map (\<lambda>(k, v). map_option (\<lambda>t. dump_str k @ '':'' @ sp @ t) (dump_json sp v)) kvs))"

abbreviation dumps :: "json \<Rightarrow> string option" where "dumps \<equiv> dump_json []"
abbreviation json_text :: "json \<Rightarrow> string option" where "json_text \<equiv> dump_json '' ''"

definition blanks :: "string \<Rightarrow> bool" where "blanks sp \<longleftrightarrow> set sp \<subseteq> {CHR 0x20}"

lemma blanks_simps [simp]: "blanks []" "blanks '' ''"
  by (simp_all add: blanks_def)

lemma skip_blanks: "blanks sp \<Longrightarrow> skip_ws (sp @ r) = skip_ws r"
  by (induction sp) (auto simp: blanks_def skip_ws_def)

section \<open>Round trip\<close>

lemma of_char_lt: "(of_char c :: nat) < 256"
  using nat_of_char_less_256 [of c] by simp

lemma hex_val_digit: "d < 16 \<Longrightarrow> hex_val (hex_digit d) = Some d"
  by (auto simp: hex_val_def hex_digit_def in_range_def)

lemma hex4_byte:
  assumes "n < 256"
  shows "hex4 4 0 (CHR ''0'' # CHR ''0'' # hex_digit (n div 16) # hex_digit (n mod 16) # rest) = Some (n, rest)"
proof -
  have z: "hex_val (CHR ''0'') = Some 0" by (simp add: hex_val_def in_range_def)
  have d: "hex_val (hex_digit (n div 16)) = Some (n div 16)" "hex_val (hex_digit (n mod 16)) = Some (n mod 16)"
    using assms by (simp_all add: hex_val_digit)
  have four: "(4::nat) = Suc (Suc (Suc (Suc 0)))" by simp
  show ?thesis unfolding four by (simp add: z d del: of_char_of)
qed

lemma scan_escape: "scan_str (Suc f) acc (escape c @ rest) = scan_str f (acc @ [c]) rest"
proof -
  define n where "n = (of_char c :: nat)"
  have c: "c = char_of n" by (simp add: n_def)
  have lt: "n < 256" unfolding n_def by (rule of_char_lt)
  note h = hex4_byte [OF lt, of rest]
  show ?thesis
  proof (cases "n \<in> {34, 92, 10, 13, 9, 12, 8}")
    case True
    then show ?thesis using c by (auto simp: escape_def escape_char_def)
  next
    case False
    show ?thesis
    proof (cases "32 \<le> n \<and> n \<le> 126")
      case True
      then have "escape c = [c]" "(of_char c :: nat) = n" using False by (simp_all add: escape_def n_def Let_def)
      then show ?thesis using False True by simp
    next
      case out: False
      have "escape c = [CHR 0x5C, CHR ''u'', CHR ''0'', CHR ''0'', hex_digit (n div 16), hex_digit (n mod 16)]"
        using False out unfolding escape_def Let_def n_def [symmetric] by simp
      then show ?thesis using h lt c by simp
    qed
  qed
qed

lemma escape_length: "0 < length (escape c)"
  by (simp add: escape_def Let_def)

lemma scan_dump_str: "length (concat (map escape s)) < f \<Longrightarrow>
    scan_str f acc (concat (map escape s) @ CHR 0x22 # r) = Got (acc @ s) r"
proof (induction s arbitrary: f acc)
  case Nil
  then show ?case by (cases f) auto
next
  case (Cons c s)
  then obtain g where g: "f = Suc g" by (cases f) auto
  have "length (escape c) + length (concat (map escape s)) < Suc g" using Cons.prems g by simp
  then have "length (concat (map escape s)) < g" using escape_length [of c] by linarith
  then show ?case using Cons.IH [of g "acc @ [c]"] scan_escape [of g acc c] g by simp
qed

text \<open>What may follow a printed value.\<close>

definition closes :: "string \<Rightarrow> bool" where
  "closes r \<longleftrightarrow> (case r of [] \<Rightarrow> True | c # cs \<Rightarrow> (of_char c :: nat) \<in> {44, 93, 125, 10})"

lemma show_nat_digits: "list_all is_digit (show_nat n)"
proof (induction n rule: show_nat.induct)
  case (1 n)
  then show ?case by (cases "n < 10") (simp_all add: show_nat.simps [of n])
qed

lemma digits_val_show: "digits_val (show_nat n) = n"
proof (induction n rule: show_nat.induct)
  case (1 n)
  then show ?case by (cases "n < 10") (simp_all add: show_nat.simps [of n] digits_val_def)
qed

lemma show_nat_head: "show_nat n = c # cs \<Longrightarrow> c = CHR ''0'' \<Longrightarrow> cs = []"
proof (induction n arbitrary: c cs rule: show_nat.induct)
  case (1 n)
  show ?case
  proof (cases "n < 10")
    case True
    then show ?thesis using 1 by (simp add: show_nat.simps [of n])
  next
    case False
    then obtain d ds where d: "show_nat (n div 10) = d # ds" using digits_show_nat [of "n div 10"] by (cases "show_nat (n div 10)") auto
    then have "ds = []" "d = CHR ''0''" using 1 False by (auto simp: show_nat.simps [of n])
    then have "n div 10 = 0" using digits_val_show [of "n div 10"] d by (simp add: digits_val_def digit_val_def)
    then show ?thesis using False by simp
  qed
qed

lemma closes_no_digit: "closes (c # r) \<Longrightarrow> \<not> is_digit c \<and> c \<noteq> CHR ''.'' \<and> c \<noteq> CHR ''e'' \<and> c \<noteq> CHR ''E''"
  by (auto simp: closes_def is_digit_def in_range_def)

lemma take_show_nat: "closes r \<Longrightarrow> take_digits (show_nat n @ r) = (show_nat n, r)"
  using show_nat_digits [of n] closes_no_digit
  by (cases r) (auto simp: take_digits_def list_all_iff takeWhile_append dropWhile_append)

lemma scan_show_nat:
  assumes "closes r" "length (show_nat n) \<le> 4300"
  shows "scan_int_part (show_nat n @ r) = Some (show_nat n, r)"
proof -
  obtain c cs where c: "show_nat n = c # cs" using digits_show_nat [of n] by (cases "show_nat n") auto
  have dig: "is_digit c" using show_nat_digits [of n] c by simp
  show ?thesis
    using show_nat_head [OF c] dig take_show_nat [OF assms(1), of n] c by (auto simp: scan_int_part_def)
qed

lemma closes_no_frac: "closes r \<Longrightarrow> scan_frac r = ([], r) \<and> scan_exp r = (None, r)"
  using closes_no_digit by (cases r) (auto simp: scan_frac_def scan_exp_def Let_def split: prod.splits)

lemma digit_char:
  assumes "is_digit c"
  shows "CHR ''n'' \<noteq> c" "CHR ''t'' \<noteq> c" "CHR ''f'' \<noteq> c" "CHR ''N'' \<noteq> c" "CHR ''I'' \<noteq> c" "CHR ''-'' \<noteq> c"
  using assms by (auto simp: is_digit_def in_range_def)

lemma digit_not_literal:
  assumes "is_digit c"
  shows "find (\<lambda>(w, v). prefix w (c # cs)) LITERALS = None"
    "find (\<lambda>(w, v). prefix w (CHR ''-'' # c # cs)) LITERALS = None"
  by (simp_all add: LITERALS_def digit_char [OF assms])

lemma scan_show_int:
  assumes "closes r" "length (show_nat (nat \<bar>i\<bar>)) \<le> 4300"
  shows "scan_atom (show_int i @ r) = Got (JInt i) r"
proof -
  let ?n = "nat \<bar>i\<bar>"
  obtain c cs where c: "show_nat ?n = c # cs" using digits_show_nat [of ?n] by (cases "show_nat ?n") auto
  have dig: "is_digit c" using show_nat_digits [of ?n] c by simp
  have nm: "c \<noteq> CHR ''-''" using dig by (auto simp: is_digit_def in_range_def)
  have n: "scan_int_part (show_nat ?n @ r) = Some (show_nat ?n, r)" by (rule scan_show_nat [OF assms])
  show ?thesis
  proof (cases "i < 0")
    case True
    then have s: "show_int i = CHR ''-'' # show_nat ?n" by (simp add: show_int_def)
    have "find (\<lambda>(w, v). prefix w (CHR ''-'' # show_nat ?n @ r)) LITERALS = None"
      using digit_not_literal(2) [OF dig] c by simp
    then show ?thesis
      using s n closes_no_frac [OF assms(1)] assms(2) True digits_val_show [of ?n]
      by (simp add: scan_atom_def scan_number_def Let_def)
  next
    case False
    then have s: "show_int i = show_nat ?n" by (simp add: show_int_def)
    have "find (\<lambda>(w, v). prefix w (show_nat ?n @ r)) LITERALS = None"
      using digit_not_literal(1) [OF dig] c by simp
    then show ?thesis
      using s n closes_no_frac [OF assms(1)] assms(2) False digits_val_show [of ?n] c nm
      by (simp add: scan_atom_def scan_number_def Let_def)
  qed
qed

lemma those_Some: "those (x # xs) = Some ys \<longleftrightarrow> (\<exists>y zs. x = Some y \<and> those xs = Some zs \<and> ys = y # zs)"
  by (auto split: option.splits)

definition opens :: "string \<Rightarrow> bool" where
  "opens t \<longleftrightarrow> (case t of [] \<Rightarrow> False | c # cs \<Rightarrow> (of_char c :: nat) \<notin> {32, 9, 10, 13, 93, 125, 44})"

lemma opens_skip: "opens t \<Longrightarrow> skip_ws (t @ r) = t @ r"
  by (cases t) (auto simp: opens_def skip_ws_def)

lemma opens_show_int: "opens (show_int i)"
proof -
  obtain c cs where c: "show_nat (nat i) = c # cs" using digits_show_nat [of "nat i"] by (cases "show_nat (nat i)") auto
  have "is_digit c" using show_nat_digits [of "nat i"] c by simp
  then show ?thesis using c by (auto simp: opens_def show_int_def is_digit_def in_range_def)
qed

lemma dumps_opens: "dump_json sp j = Some t \<Longrightarrow> opens t"
  by (cases j) (auto simp: opens_show_int dump_str_def split: pyfloat.splits if_splits, auto simp: opens_def)

text \<open>A printed value scans back, whatever closes it; \<open>2 * length + 2\<close> is enough fuel.\<close>

definition scans :: "string \<Rightarrow> json \<Rightarrow> bool" where
  "scans sp j \<longleftrightarrow> (\<forall>t r f. dump_json sp j = Some t \<longrightarrow> closes r \<longrightarrow> 2 * length t + 1 < f \<longrightarrow> scan_value f (t @ r) = Got j r)"

lemma scans_elements:
  assumes sp: "blanks sp" and "\<And>v. v \<in> set vs \<Longrightarrow> scans sp v" "those (map (dump_json sp) vs) = Some ts" "vs \<noteq> []"
    "2 * length (join ('','' @ sp) ts) + 2 < f"
  shows "scan_elements f xs (join ('','' @ sp) ts @ '']'' @ r) = Got (JArr (xs @ vs)) r"
  using assms(2-5)
proof (induction vs arbitrary: ts xs f)
  case (Cons v vs)
  then obtain t us where t: "dump_json sp v = Some t" "those (map (dump_json sp) vs) = Some us" "ts = t # us"
    by (auto simp: those_Some simp del: those.simps)
  obtain g where g: "f = Suc g" using Cons.prems(4) by (cases f) auto
  have sv: "scans sp v" using Cons.prems(1) by simp
  show ?case
  proof (cases vs)
    case Nil
    then have us: "us = []" using t(2) by simp
    then have "scan_value g (t @ '']'' @ r) = Got v ('']'' @ r)"
      using sv t Cons.prems(4) g by (simp add: scans_def closes_def)
    then show ?thesis using us t g Nil by (simp add: skip_ws_def)
  next
    case (Cons w ws)
    then obtain u us' where us: "us = u # us'" "dump_json sp w = Some u" using t(2) by (auto simp: those_Some simp del: those.simps)
    let ?rest = "join ('','' @ sp) us @ '']'' @ r"
    have j: "join ('','' @ sp) ts = t @ '','' @ sp @ join ('','' @ sp) us" using t us by simp
    have "scan_value g (t @ '','' @ sp @ ?rest) = Got v ('','' @ sp @ ?rest)"
      using sv t(1) Cons.prems(4) g j by (simp add: scans_def closes_def)
    moreover have "skip_ws (sp @ ?rest) = ?rest"
      using dumps_opens [OF us(2)] us by (cases us') (simp_all add: opens_skip skip_blanks [OF sp])
    moreover have "scan_elements g (xs @ [v]) ?rest = Got (JArr ((xs @ [v]) @ vs)) r"
      by (rule Cons.IH) (use Cons.prems t g j Cons in auto)
    ultimately show ?thesis using j g by (simp add: skip_ws_def)
  qed
qed simp

definition dump_member :: "string \<Rightarrow> string \<times> json \<Rightarrow> string option" where
  "dump_member sp kv = (case kv of (k, v) \<Rightarrow> map_option (\<lambda>t. dump_str k @ '':'' @ sp @ t) (dump_json sp v))"

lemma scans_members:
  assumes sp: "blanks sp" and "\<And>k v. (k, v) \<in> set vs \<Longrightarrow> scans sp v" "those (map (dump_member sp) vs) = Some ts" "vs \<noteq> []"
    "2 * length (join ('','' @ sp) ts) + 2 < f"
  shows "scan_members f xs (join ('','' @ sp) ts @ ''}'' @ r) = Got (JObj (xs @ vs)) r"
  using assms(2-5)
proof (induction vs arbitrary: ts xs f)
  case (Cons kv vs)
  obtain k v where kv: "kv = (k, v)" by (cases kv)
  obtain y us where y: "dump_member sp kv = Some y" "those (map (dump_member sp) vs) = Some us" "ts = y # us"
    using Cons.prems(2) by (auto simp: those_Some simp del: those.simps)
  then obtain t where t': "dump_json sp v = Some t" "y = dump_str k @ '':'' @ sp @ t" using kv by (auto simp: dump_member_def)
  then have t: "dump_json sp v = Some t" "those (map (dump_member sp) vs) = Some us" "ts = (dump_str k @ '':'' @ sp @ t) # us"
    using y by simp_all
  obtain g where g: "f = Suc g" using Cons.prems(4) by (cases f) auto
  have sv: "scans sp v" using Cons.prems(1) kv by auto
  have key: "scan_str g [] (concat (map escape k) @ CHR 0x22 # '':'' @ sp @ t @ r') = Got k ('':'' @ sp @ t @ r')" for r'
    using scan_dump_str [of k g "[]"] Cons.prems(4) g t(3) by (cases us) (simp_all add: dump_str_def)
  have ws: "skip_ws (sp @ t @ r') = t @ r'" for r'
    using opens_skip [OF dumps_opens [OF t(1)]] by (simp add: skip_blanks [OF sp])
  have colon: "skip_ws (CHR '':'' # x) = CHR '':'' # x" for x by (simp add: skip_ws_def)
  show ?case
  proof (cases vs)
    case Nil
    then have us: "us = []" using t(2) by simp
    then have "scan_value g (t @ ''}'' @ r) = Got v (''}'' @ r)"
      using sv t Cons.prems(4) g by (simp add: scans_def closes_def dump_str_def)
    then show ?thesis using us t g Nil kv key [of "''}'' @ r"] ws [of "''}'' @ r"] by (simp add: skip_ws_def dump_str_def)
  next
    case (Cons w ws')
    then obtain u us' where us: "us = u # us'" "dump_member sp w = Some u"
      using t(2) by (auto simp: those_Some simp del: those.simps)
    let ?rest = "join ('','' @ sp) us @ ''}'' @ r"
    have j: "join ('','' @ sp) ts = dump_str k @ '':'' @ sp @ t @ '','' @ sp @ join ('','' @ sp) us" using t us by simp
    have "scan_value g (t @ '','' @ sp @ ?rest) = Got v ('','' @ sp @ ?rest)"
      using sv t(1) Cons.prems(4) g j by (simp add: scans_def closes_def)
    moreover have "opens u" using us(2) by (cases w) (auto simp: dump_member_def dump_str_def opens_def)
    then have "skip_ws (sp @ ?rest) = ?rest" using us by (cases us') (simp_all add: opens_skip skip_blanks [OF sp])
    moreover have "scan_members g (xs @ [(k, v)]) ?rest = Got (JObj ((xs @ [(k, v)]) @ vs)) r"
      by (rule Cons.IH) (use Cons.prems t g j Cons in auto)
    ultimately show ?thesis
      using j g kv key [of "'','' @ sp @ ?rest"] ws [of "'','' @ sp @ ?rest"] by (simp add: skip_ws_def dump_str_def)
  qed
qed simp

lemma scan_value_atom:
  "0 < f \<Longrightarrow> (of_char c :: nat) \<notin> {34, 123, 91} \<Longrightarrow> scan_value f (c # cs) = scan_atom (c # cs)"
  by (cases f) auto

lemma dumps_scans:
  assumes sp: "blanks sp"
  shows "scans sp j"
proof (induction j)
  case (JInt i)
  show ?case unfolding scans_def
  proof (intro allI impI)
    fix t r f
    assume a: "dump_json sp (JInt i) = Some t" "closes r" "2 * length t + 1 < f"
    then have t: "t = show_int i" "length (show_nat (nat \<bar>i\<bar>)) \<le> 4300" by (auto split: if_splits)
    obtain g where g: "f = Suc g" using a(3) by (cases f) auto
    obtain c cs where c: "show_int i = c # cs" using opens_show_int [of i] by (cases "show_int i") (auto simp: opens_def)
    have "of_char c \<notin> {34, 123, 91 :: nat}"
    proof (cases "i < 0")
      case False
      then have "is_digit c" using c show_nat_digits [of "nat i"] by (simp add: show_int_def)
      then show ?thesis by (auto simp: is_digit_def in_range_def)
    qed (use c in \<open>auto simp: show_int_def\<close>)
    then show "scan_value f (t @ r) = Got (JInt i) r"
      using scan_show_int [OF a(2) t(2)] c g t(1) by simp
  qed
next
  case (JStr s)
  show ?case unfolding scans_def
  proof (intro allI impI)
    fix t r f
    assume a: "dump_json sp (JStr s) = Some t" "closes r" "2 * length t + 1 < f"
    then obtain g where g: "f = Suc g" by (cases f) auto
    then show "scan_value f (t @ r) = Got (JStr s) r"
      using a scan_dump_str [of s g "[]" r] by (auto simp: dump_str_def)
  qed
next
  case (JArr xs)
  show ?case unfolding scans_def
  proof (intro allI impI)
    fix t r f
    assume a: "dump_json sp (JArr xs) = Some t" "closes r" "2 * length t + 1 < f"
    then obtain ts g where ts: "those (map (dump_json sp) xs) = Some ts" "t = ''['' @ join ('','' @ sp) ts @ '']''" and g: "f = Suc g"
      by (cases f) auto
    show "scan_value f (t @ r) = Got (JArr xs) r"
    proof (cases "xs = []")
      case True
      then show ?thesis using ts g by (simp add: skip_ws_def)
    next
      case False
      then obtain u us w where u: "ts = u # us" "dump_json sp w = Some u"
        using ts(1) by (cases xs) (auto simp: those_Some simp del: those.simps)
      have ou: "opens (join ('','' @ sp) ts)" using dumps_opens [OF u(2)] u(1) by (cases us) (auto simp: opens_def split: list.splits)
      have "scan_elements g [] (join ('','' @ sp) ts @ '']'' @ r) = Got (JArr xs) r"
        using scans_elements [OF sp JArr.IH ts(1) False, of g "[]" r] a(3) ts(2) g by simp
      then show ?thesis
        using ts(2) g ou opens_skip [OF ou, of "'']'' @ r"]
        by (cases "join ('','' @ sp) ts") (auto simp: opens_def)
    qed
  qed
next
  case (JObj kvs)
  show ?case unfolding scans_def
  proof (intro allI impI)
    fix t r f
    assume a: "dump_json sp (JObj kvs) = Some t" "closes r" "2 * length t + 1 < f"
    then obtain ts g where ts: "those (map (dump_member sp) kvs) = Some ts" "t = ''{'' @ join ('','' @ sp) ts @ ''}''" and g: "f = Suc g"
      by (cases f) (auto simp: dump_member_def [abs_def])
    show "scan_value f (t @ r) = Got (JObj kvs) r"
    proof (cases "kvs = []")
      case True
      then show ?thesis using ts g by (simp add: skip_ws_def)
    next
      case False
      then obtain u us w where u: "ts = u # us" "dump_member sp w = Some u"
        using ts(1) by (cases kvs) (auto simp: those_Some simp del: those.simps)
      then have "opens u" by (cases w) (auto simp: dump_member_def dump_str_def opens_def)
      then have ou: "opens (join ('','' @ sp) ts)" using u(1) by (cases us) (auto simp: opens_def split: list.splits)
      have "scan_members g [] (join ('','' @ sp) ts @ ''}'' @ r) = Got (JObj kvs) r"
        using scans_members [OF sp _ ts(1) False, of g "[]" r] JObj.IH a(3) ts(2) g by fastforce
      then show ?thesis
        using ts(2) g ou opens_skip [OF ou, of "''}'' @ r"]
        by (cases "join ('','' @ sp) ts") (auto simp: opens_def)
    qed
  qed
qed (auto simp: scans_def scan_value_atom scan_atom_def LITERALS_def split: pyfloat.splits)

section \<open>One line\<close>

definition printable :: "string \<Rightarrow> bool" where
  "printable t \<longleftrightarrow> (\<forall>c \<in> set t. 32 \<le> (of_char c :: nat) \<and> (of_char c :: nat) \<le> 126)"

lemma printable_simps [simp]:
  "printable []" "printable (c # t) \<longleftrightarrow> 32 \<le> (of_char c :: nat) \<and> (of_char c :: nat) \<le> 126 \<and> printable t"
  "printable (s @ t) \<longleftrightarrow> printable s \<and> printable t"
  by (auto simp: printable_def)

lemma printable_hex: "d < 16 \<Longrightarrow> 32 \<le> (of_char (hex_digit d) :: nat) \<and> (of_char (hex_digit d) :: nat) \<le> 126"
  by (auto simp: hex_digit_def)

lemma printable_escape: "printable (escape c)"
proof -
  have "(of_char c :: nat) div 16 < 16" using of_char_lt [of c] by linarith
  then show ?thesis using printable_hex [of "of_char c div 16"] printable_hex [of "of_char c mod 16"]
    by (simp add: escape_def Let_def)
qed

lemma printable_str: "printable (dump_str s)"
  using printable_escape by (induction s) (simp_all add: dump_str_def)

lemma printable_nat: "printable (show_nat n)"
  using show_nat_digits [of n] by (auto simp: printable_def list_all_iff is_digit_def in_range_def)

lemma printable_blanks: "blanks sp \<Longrightarrow> printable sp"
  by (auto simp: blanks_def printable_def)

lemma printable_join: "\<forall>t \<in> set ts. printable t \<Longrightarrow> blanks sp \<Longrightarrow> printable (join ('','' @ sp) ts)"
  by (induction "'',''" ts rule: join.induct) (auto simp: printable_blanks)

lemma those_set: "those xs = Some ys \<Longrightarrow> y \<in> set ys \<Longrightarrow> Some y \<in> set xs"
  by (induction xs arbitrary: ys) (auto split: option.splits)

lemma dumps_printable:
  assumes "blanks sp"
  shows "dump_json sp j = Some t \<Longrightarrow> printable t"
proof (induction j arbitrary: t)
  case (JArr xs)
  then obtain ts where ts: "those (map (dump_json sp) xs) = Some ts" "t = ''['' @ join ('','' @ sp) ts @ '']''" by auto
  have "\<forall>u \<in> set ts. printable u" using those_set [OF ts(1)] JArr.IH by fastforce
  then show ?case using ts(2) printable_join assms by simp
next
  case (JObj kvs)
  then obtain ts where ts: "those (map (dump_member sp) kvs) = Some ts" "t = ''{'' @ join ('','' @ sp) ts @ ''}''"
    by (auto simp: dump_member_def [abs_def])
  have "printable u" if u: "u \<in> set ts" for u
  proof -
    obtain k v w where "(k, v) \<in> set kvs" "dump_json sp v = Some w" "u = dump_str k @ '':'' @ sp @ w"
      using those_set [OF ts(1) u] by (auto simp: dump_member_def dest!: sym [of "Some u"])
    then show ?thesis using JObj.IH [of "(k, v)" v w] printable_str printable_blanks [OF assms] by auto
  qed
  then show ?case using ts(2) printable_join assms by simp
qed (auto simp: printable_str printable_nat show_int_def split: if_splits pyfloat.splits)

lemma loads_text:
  assumes "blanks sp" "dump_json sp j = Some t" "closes r" "skip_ws r = []"
  shows "loads (t @ r) = Loaded j"
proof -
  have s: "skip_ws (t @ r) = t @ r" by (rule opens_skip [OF dumps_opens [OF assms(2)]])
  have "scan_value (2 * length (t @ r) + 2) (t @ r) = Got j r"
    using dumps_scans [OF assms(1), of j] assms(2,3) unfolding scans_def by simp
  then show ?thesis using s assms(4) by (simp add: loads_def)
qed

lemma loads_json_text: "json_text j = Some t \<Longrightarrow> loads t = Loaded j"
  using loads_text [of "'' ''" j t "[]"] by (simp add: closes_def skip_ws_def)

lemma loads_dumps:
  assumes "dumps j = Some t"
  shows "loads (t @ [CHR 0x0A]) = Loaded j"
  using loads_text [of "[]" j t "[CHR 0x0A]"] assms by (simp add: closes_def skip_ws_def)

end
