(* ===== verification/Supervise.thy ===== *)
theory Supervise
  imports Json_Text
begin

text \<open>
  The lifecycle channel for a supervising parent (\<open>stt_server/supervise.py\<close>), the error taxonomy
  (\<open>errors.py\<close>) and the snapshot contract (\<open>snapshot.py\<close>): exceptions as entries of a store with
  their cause and context links, the classification of a fatal start, the JSON lines on stdout, and
  the watch on the supervisor's end of stdin.
\<close>

section \<open>Exceptions\<close>

text \<open>An exception is an index into the store. \<open>ex_mro\<close>: the names of the classes it is an instance
  of; \<open>ex_dict\<close>: it accepts new attributes.\<close>

record exn =
  ex_name :: string
  ex_module :: string
  ex_mro :: "string list"
  ex_errno :: "int option"
  ex_str :: string
  ex_cause :: "nat option"
  ex_context :: "nat option"
  ex_dict :: bool
  ex_download :: bool
  ex_invalid :: bool

type_synonym store = "exn list"

definition is_instance :: "exn \<Rightarrow> string \<Rightarrow> bool" where
  "is_instance x c = (c \<in> set (ex_mro x))"

definition HUB_INPUT_ERROR_NAMES :: "string list" where
  "HUB_INPUT_ERROR_NAMES = [''HFValidationError'']"

definition is_config_error :: "exn \<Rightarrow> bool" where
  "is_config_error x =
     (is_instance x ''ConfigError'' \<or> (is_instance x ''ValueError'' \<and> ex_name x \<in> set HUB_INPUT_ERROR_NAMES))"

text \<open>The origin tags; setting one on an exception without a \<open>__dict__\<close> leaves it unmarked.\<close>

definition mark_download_phase :: "nat \<Rightarrow> store \<Rightarrow> store" where
  "mark_download_phase e st =
     (if e < length st \<and> ex_dict (st ! e) then st[e := (st ! e)\<lparr>ex_download := True\<rparr>] else st)"

definition mark_model_invalid :: "nat \<Rightarrow> store \<Rightarrow> store" where
  "mark_model_invalid e st =
     (if e < length st \<and> ex_dict (st ! e) then st[e := (st ! e)\<lparr>ex_invalid := True\<rparr>] else st)"

text \<open>The \<open>download_phase\<close> context: an \<open>Exception\<close> that escapes the block is tagged.\<close>

definition download_phase :: "store \<times> (nat + 'a) \<Rightarrow> store \<times> (nat + 'a)" where
  "download_phase r =
     (case r of
        (st, Inl e) \<Rightarrow> if e < length st \<and> is_instance (st ! e) ''Exception''
                       then (mark_download_phase e st, Inl e) else r
      | _ \<Rightarrow> r)"

text \<open>A name of a remote \<open>config.json\<close> must be a literal plain file name.\<close>

definition plain_filename :: "json \<Rightarrow> bool" where
  "plain_filename j =
     (case j of
        JStr name \<Rightarrow> name \<noteq> [] \<and> name \<noteq> ''.'' \<and> name \<noteq> ''..'' \<and>
          list_all (\<lambda>c. c \<notin> set [CHR 0x2F, CHR 0x5C, CHR ''*'', CHR ''?'', CHR ''['', CHR '']'', CHR ''|'']) name
      | _ \<Rightarrow> False)"

fun check_plain_filenames :: "json list \<Rightarrow> json + string list" where
  "check_plain_filenames [] = Ok []"
| "check_plain_filenames (j # js) =
     (if plain_filename j
      then (case j of JStr n \<Rightarrow> bind_result (check_plain_filenames js) (\<lambda>ns. Ok (n # ns)) | _ \<Rightarrow> Raise j)
      else Raise j)"

section \<open>Classification\<close>

datatype code =
    CODE_MODULE_NOT_FOUND | CODE_ADDR_IN_USE | CODE_ACCESS_DENIED | CODE_MODEL_DOWNLOAD
  | CODE_CONFIG | CODE_BACKEND_START | CODE_MODEL_INVALID

fun code_text :: "code \<Rightarrow> string" where
  "code_text CODE_MODULE_NOT_FOUND = ''ModuleNotFoundError''"
| "code_text CODE_ADDR_IN_USE = ''EADDRINUSE''"
| "code_text CODE_ACCESS_DENIED = ''EACCES''"
| "code_text CODE_MODEL_DOWNLOAD = ''ModelDownloadError''"
| "code_text CODE_CONFIG = ''ConfigError''"
| "code_text CODE_BACKEND_START = ''BackendStartError''"
| "code_text CODE_MODEL_INVALID = ''ModelInvalidError''"

definition DOWNLOAD_MODULE_PREFIXES :: "string list" where
  "DOWNLOAD_MODULE_PREFIXES = [''huggingface_hub'', ''requests'', ''urllib3'', ''hf_xet'', ''httpx'']"

definition next_exn :: "exn \<Rightarrow> nat option" where
  "next_exn x = (case ex_cause x of Some c \<Rightarrow> Some c | None \<Rightarrow> ex_context x)"

text \<open>\<open>_walk\<close>: the exception and its chain, each once.\<close>

function walk :: "store \<Rightarrow> nat list \<Rightarrow> nat option \<Rightarrow> nat list" where
  "walk st seen cur =
     (case cur of
        None \<Rightarrow> []
      | Some e \<Rightarrow>
          if e \<in> set seen \<or> length st \<le> e then []
          else e # walk st (e # seen) (next_exn (st ! e)))"
  by pat_completeness auto
termination
proof (relation "measure (\<lambda>(st, seen, cur). card ({..<length st} - set seen))", goal_cases)
  case (2 st seen cur e)
  then have e: "e < length st" "e \<notin> set seen" by simp_all
  have eq: "{..<length st} - set (e # seen) = ({..<length st} - set seen) - {e}" by auto
  have "card (({..<length st} - set seen) - {e}) < card ({..<length st} - set seen)"
    by (rule card_Diff1_less) (use e in auto)
  then show ?case by (simp only: in_measure prod.case eq)
qed simp

declare walk.simps [simp del]

text \<open>\<open>EADDRINUSE\<close> differs between platforms; \<open>EACCES\<close> is 13.\<close>

definition classify_startup_error :: "int \<Rightarrow> store \<Rightarrow> nat \<Rightarrow> code \<times> string" where
  "classify_startup_error in_use st e =
     (let chain = map (\<lambda>a. st ! a) (walk st [] (Some e));
          x = st ! e;
          message = (if ex_str x = [] then ex_name x else ex_str x);
          in_phase = list_ex ex_download chain;
          download = (\<lambda>y. list_ex (\<lambda>p. prefix p (ex_module y)) DOWNLOAD_MODULE_PREFIXES \<or>
            (in_phase \<and> (is_instance y ''ConnectionError'' \<or> is_instance y ''TimeoutError'')))
      in if list_ex (\<lambda>y. is_instance y ''ImportError'') chain then (CODE_MODULE_NOT_FOUND, message)
         else case find (\<lambda>y. is_instance y ''OSError'' \<and> ex_errno y = Some in_use) chain of
           Some y \<Rightarrow> (CODE_ADDR_IN_USE, ''address already in use: '' @ ex_str y)
         | None \<Rightarrow>
         (case find (\<lambda>y. is_instance y ''OSError'' \<and> ex_errno y = Some 13) chain of
           Some y \<Rightarrow> (CODE_ACCESS_DENIED, ''permission denied: '' @ ex_str y)
         | None \<Rightarrow>
           if list_ex is_config_error chain then (CODE_CONFIG, message)
           else (case find download chain of
             Some y \<Rightarrow> (CODE_MODEL_DOWNLOAD, ''model download failed: '' @ ex_str y)
           | None \<Rightarrow>
             if list_ex ex_invalid chain then (CODE_MODEL_INVALID, ''model snapshot is unusable: '' @ message)
             else (CODE_BACKEND_START, message))))"

section \<open>The event channel\<close>

text \<open>A text stream is a number; \<open>channel\<close> is the stream reserved for events.\<close>

record io =
  channel :: "nat option"
  stdout :: nat
  stderr :: nat
  written :: "nat \<Rightarrow> string"

definition write_to :: "nat \<Rightarrow> string \<Rightarrow> io \<Rightarrow> io" where
  "write_to o1 t s = s\<lparr>written := (written s)(o1 := written s o1 @ t)\<rparr>"

text \<open>\<open>None\<close>: \<open>json.dumps\<close> raised, and nothing was written.\<close>

definition emit_event :: "json \<Rightarrow> io \<Rightarrow> io option" where
  "emit_event event s =
     (case dumps event of
        None \<Rightarrow> None
      | Some t \<Rightarrow> Some (write_to (case channel s of Some o1 \<Rightarrow> o1 | None \<Rightarrow> stdout s) (t @ [CHR 0x0A]) s))"

datatype act = Emit json | Print string

fun run_acts :: "act list \<Rightarrow> io \<Rightarrow> io \<times> bool" where
  "run_acts [] s = (s, True)"
| "run_acts (Print t # as) s = run_acts as (write_to (stdout s) t s)"
| "run_acts (Emit j # as) s = (case emit_event j s of None \<Rightarrow> (s, False) | Some s' \<Rightarrow> run_acts as s')"

text \<open>\<open>with json_channel(): body\<close>; both streams are restored however the body ends.\<close>

definition json_channel :: "(io \<Rightarrow> io \<times> bool) \<Rightarrow> io \<Rightarrow> io \<times> bool" where
  "json_channel body s =
     (let (t, ok) = body (s\<lparr>channel := Some (stdout s), stdout := stderr s\<rparr>)
      in (t\<lparr>channel := channel s, stdout := stdout s\<rparr>, ok))"

section \<open>The watch on stdin\<close>

text \<open>What \<open>os.read\<close> answers; \<open>Would_Block ok\<close>: nothing to read, and whether the wait for data
  worked. The watch fires once, at the first end of the stream.\<close>

datatype read_result = Chunk "nat list" | Interrupted | Would_Block bool | Read_Error

fun watch_run :: "read_result list \<Rightarrow> bool" where
  "watch_run [] = False"
| "watch_run (Chunk bs # rs) = (bs = [] \<or> watch_run rs)"
| "watch_run (Interrupted # rs) = watch_run rs"
| "watch_run (Would_Block ok # rs) = (\<not> ok \<or> watch_run rs)"
| "watch_run (Read_Error # rs) = True"

definition watch_stdin_eof :: "bool \<Rightarrow> bool \<Rightarrow> bool \<Rightarrow> read_result list \<Rightarrow> bool" where
  "watch_stdin_eof has_stdin has_fd loop_open rs = (has_stdin \<and> has_fd \<and> watch_run rs \<and> loop_open)"

section \<open>The chain of an exception\<close>

text \<open>What the links of an exception reach, in any order.\<close>

inductive linked :: "store \<Rightarrow> nat \<Rightarrow> nat \<Rightarrow> bool" for st e where
  linked_self: "e < length st \<Longrightarrow> linked st e e"
| linked_next: "linked st e a \<Longrightarrow> next_exn (st ! a) = Some b \<Longrightarrow> b < length st \<Longrightarrow> linked st e b"

lemma linked_lt: "linked st e a \<Longrightarrow> a < length st"
  by (induction rule: linked.induct) auto

lemma walk_linked: "(\<And>c. cur = Some c \<Longrightarrow> c < length st \<Longrightarrow> linked st e c) \<Longrightarrow> a \<in> set (walk st seen cur) \<Longrightarrow> linked st e a"
proof (induction st seen cur rule: walk.induct)
  case (1 st seen cur)
  then obtain c where c: "cur = Some c" "c \<notin> set seen" "c < length st"
    "a = c \<or> a \<in> set (walk st (c # seen) (next_exn (st ! c)))"
    by (subst (asm) walk.simps) (auto split: option.splits if_splits)
  have l: "linked st e c" using 1 c by blast
  show ?case
  proof (cases "a = c")
    case False
    show ?thesis
      by (rule "1.IH" [OF c(1)]) (use c False l in \<open>auto intro: linked_next\<close>)
  qed (use l in simp)
qed

text \<open>The walk stops only where a link leads back or nowhere, so what it visited is closed.\<close>

lemma walk_closed:
  "\<forall>a \<in> set seen. \<forall>b. next_exn (st ! a) = Some b \<longrightarrow> b \<in> set seen \<or> length st \<le> b \<or> cur = Some b \<Longrightarrow>
   \<forall>a \<in> set seen \<union> set (walk st seen cur).
     \<forall>b. next_exn (st ! a) = Some b \<longrightarrow> b \<in> set seen \<union> set (walk st seen cur) \<or> length st \<le> b"
proof (induction st seen cur rule: walk.induct)
  case (1 st seen cur)
  show ?case
  proof (cases "\<exists>c. cur = Some c \<and> c \<notin> set seen \<and> c < length st")
    case True
    then obtain c where c: "cur = Some c" "c \<notin> set seen" "c < length st" by blast
    have w: "walk st seen cur = c # walk st (c # seen) (next_exn (st ! c))"
      using c by (subst walk.simps) simp
    have "\<forall>a \<in> set (c # seen). \<forall>b. next_exn (st ! a) = Some b \<longrightarrow>
        b \<in> set (c # seen) \<or> length st \<le> b \<or> next_exn (st ! c) = Some b"
      using "1.prems" c by auto
    from "1.IH" [OF c(1) _ this] show ?thesis using c w by auto
  next
    case False
    then have "walk st seen cur = []" by (subst walk.simps) (auto split: option.splits)
    moreover have "b \<in> set seen \<or> length st \<le> b" if "a \<in> set seen" "next_exn (st ! a) = Some b" for a b
      using "1.prems" that False by (meson not_le)
    ultimately show ?thesis by auto
  qed
qed

lemma walk_set: "set (walk st [] (Some e)) = {a. linked st e a}"
proof
  show "set (walk st [] (Some e)) \<subseteq> {a. linked st e a}"
    using walk_linked [of "Some e" st e _ "[]"] by (auto intro: linked_self)
  have cl: "\<forall>a \<in> set (walk st [] (Some e)).
     \<forall>b. next_exn (st ! a) = Some b \<longrightarrow> b \<in> set (walk st [] (Some e)) \<or> length st \<le> b"
    using walk_closed [of "[]" st "Some e"] by simp
  have "a \<in> set (walk st [] (Some e))" if "linked st e a" for a
    using that
  proof induction
    case linked_self
    then show ?case by (subst walk.simps) simp
  next
    case (linked_next a b)
    then show ?case using cl by fastforce
  qed
  then show "{a. linked st e a} \<subseteq> set (walk st [] (Some e))" by blast
qed

lemma walk_seen: "set (walk st seen cur) \<inter> set seen = {}"
proof (induction st seen cur rule: walk.induct)
  case (1 st seen cur)
  then show ?case by (subst walk.simps) (auto split: option.splits)
qed

lemma walk_distinct: "distinct (walk st seen cur)"
proof (induction st seen cur rule: walk.induct)
  case (1 st seen cur)
  then show ?case using walk_seen [of st "_ # seen"] by (subst walk.simps) (fastforce split: option.splits)
qed

definition some_linked :: "(exn \<Rightarrow> bool) \<Rightarrow> store \<Rightarrow> nat \<Rightarrow> bool" where
  "some_linked P st e \<longleftrightarrow> (\<exists>a. linked st e a \<and> P (st ! a))"

lemma chain_ex: "list_ex P (map (\<lambda>a. st ! a) (walk st [] (Some e))) = some_linked P st e"
  using walk_set [of st e] by (auto simp: list_ex_iff some_linked_def)

lemma chain_find: "(find P (map (\<lambda>a. st ! a) (walk st [] (Some e))) \<noteq> None) = some_linked P st e"
  using walk_set [of st e] by (auto simp: find_None_iff some_linked_def)

definition downloading :: "store \<Rightarrow> nat \<Rightarrow> exn \<Rightarrow> bool" where
  "downloading st e y \<longleftrightarrow>
     (\<exists>p \<in> set DOWNLOAD_MODULE_PREFIXES. prefix p (ex_module y)) \<or>
     some_linked ex_download st e \<and> (is_instance y ''ConnectionError'' \<or> is_instance y ''TimeoutError'')"

text \<open>The code of a fatal start depends only on what is linked to the exception, however the causes
  and contexts are ordered or cyclic, and the first of these rules that applies decides: an import
  error, a busy address, a denied permission, a configuration error, a download (an exception of a
  network library, or a connection error or timeout only when a download phase is marked), an unusable
  snapshot; everything else is \<open>BackendStartError\<close>. The walk visits each exception once.\<close>

theorem classify_startup_code:
  "fst (classify_startup_error in_use st e) =
     (if some_linked (\<lambda>y. is_instance y ''ImportError'') st e then CODE_MODULE_NOT_FOUND
      else if some_linked (\<lambda>y. is_instance y ''OSError'' \<and> ex_errno y = Some in_use) st e then CODE_ADDR_IN_USE
      else if some_linked (\<lambda>y. is_instance y ''OSError'' \<and> ex_errno y = Some 13) st e then CODE_ACCESS_DENIED
      else if some_linked is_config_error st e then CODE_CONFIG
      else if some_linked (downloading st e) st e then CODE_MODEL_DOWNLOAD
      else if some_linked ex_invalid st e then CODE_MODEL_INVALID
      else CODE_BACKEND_START) \<and> distinct (walk st [] (Some e))"
proof -
  have d: "(\<lambda>y. list_ex (\<lambda>p. prefix p (ex_module y)) DOWNLOAD_MODULE_PREFIXES \<or>
      (some_linked ex_download st e \<and> (is_instance y ''ConnectionError'' \<or> is_instance y ''TimeoutError''))) = downloading st e"
    by (auto simp: downloading_def list_ex_iff fun_eq_iff)
  have f: "(case find P (map (\<lambda>a. st ! a) (walk st [] (Some e))) of Some y \<Rightarrow> (c, m y) | None \<Rightarrow> r) =
     (if some_linked P st e then (c, m (the (find P (map (\<lambda>a. st ! a) (walk st [] (Some e)))))) else r)" for P :: "exn \<Rightarrow> bool" and c :: code and m :: "exn \<Rightarrow> string" and r
    using chain_find [of P st e] by (auto split: option.splits)
  show ?thesis unfolding classify_startup_error_def Let_def chain_ex d f by (simp add: walk_distinct)
qed

section \<open>The event channel\<close>

text \<open>C23: what \<open>emit\<close> writes is one line of printable ASCII that reads back as the event.\<close>

theorem emitted_line_reads_back:
  assumes "dumps event = Some t"
  shows "loads (t @ [CHR 0x0A]) = Loaded event \<and> printable t"
  using loads_dumps [OF assms] dumps_printable [OF _ assms] by simp

theorem emitted_line_reads_back_witness:
  "loads (the (dumps (JObj [(''event'', JStr ''ready''), (''port'', JInt 8080)])) @ [CHR 0x0A]) =
     Loaded (JObj [(''event'', JStr ''ready''), (''port'', JInt 8080)])"
proof -
  have "dumps (JObj [(''event'', JStr ''ready''), (''port'', JInt 8080)]) \<noteq> None"
    by (simp add: show_nat.simps)
  then show ?thesis using emitted_line_reads_back [of "JObj [(''event'', JStr ''ready''), (''port'', JInt 8080)]"] by fastforce
qed

definition event_lines :: "act list \<Rightarrow> string" where
  "event_lines as = concat (map (\<lambda>a. case a of Emit j \<Rightarrow> (case dumps j of Some t \<Rightarrow> t @ [CHR 0x0A] | None \<Rightarrow> []) | Print t \<Rightarrow> []) as)"

lemma run_acts_streams:
  "channel s = Some c \<Longrightarrow> stdout s \<noteq> c \<Longrightarrow> snd (run_acts as s) \<Longrightarrow>
     written (fst (run_acts as s)) c = written s c @ event_lines as \<and> channel (fst (run_acts as s)) = channel s
     \<and> stdout (fst (run_acts as s)) = stdout s \<and> stderr (fst (run_acts as s)) = stderr s"
proof (induction as s rule: run_acts.induct)
  case (3 j as s)
  then obtain t where "dumps j = Some t" by (auto simp: emit_event_def split: option.splits)
  then show ?case using 3 by (simp add: emit_event_def write_to_def event_lines_def)
qed (auto simp: write_to_def event_lines_def)

text \<open>Stdout carries only JSON lines: while the channel is reserved, the original stdout receives
  exactly the lines of the emitted events in order, whatever the body prints, and afterwards both
  streams are restored.\<close>

theorem channel_only_events:
  assumes "stdout s \<noteq> stderr s" "snd (json_channel (run_acts as) s)"
  shows "written (fst (json_channel (run_acts as) s)) (stdout s) = written s (stdout s) @ event_lines as \<and>
    channel (fst (json_channel (run_acts as) s)) = channel s \<and> stdout (fst (json_channel (run_acts as) s)) = stdout s"
  using run_acts_streams [of "s\<lparr>channel := Some (stdout s), stdout := stderr s\<rparr>" "stdout s" as] assms
  by (simp add: json_channel_def split: prod.splits)

theorem channel_only_events_witness:
  "written (fst (json_channel (run_acts [Print ''noise'', Emit (JBool True), Print ''more''])
     \<lparr>channel = None, stdout = 1, stderr = 2, written = (\<lambda>n. [])\<rparr>)) 1 = ''true'' @ [CHR 0x0A]"
  using channel_only_events [of "\<lparr>channel = None, stdout = 1, stderr = 2, written = (\<lambda>n. [])\<rparr>"
      "[Print ''noise'', Emit (JBool True), Print ''more'']"]
  by (simp add: json_channel_def emit_event_def write_to_def event_lines_def)

section \<open>The watch\<close>

lemma watch_run_iff:
  "watch_run rs \<longleftrightarrow> (\<exists>r \<in> set rs. r = Chunk [] \<or> r = Would_Block False \<or> r = Read_Error)"
  by (induction rs rule: watch_run.induct) auto

end
