(* ===== verification/Decode_Guard.thy ===== *)
theory Decode_Guard
  imports Prelude Base64
begin

text \<open>
  The decode guard shared by the model backends (\<open>backends/_thread_util.py\<close>) and the streams that
  use it (\<open>_MLXStream\<close>; the other three have the same \<open>feed\<close>, \<open>end\<close> and \<open>cancel\<close>): the event loop's
  decode lock, the daemon threads with their own lock, the in-flight counter, and the \<open>idle()\<close> hook.

  A stream starts at most one decode, so a decode thread has its stream's number. The event loop and
  the threads interleave step by step: a coroutine runs from one \<open>await\<close> to the next, a thread up
  to and from the thread lock.
\<close>

section \<open>State\<close>

text \<open>Where \<open>end()\<close> is: not called, waiting for the decode lock, awaiting the thread's future with
  the lock held, returned, raised. A thread's result is \<open>None\<close> when it raised.\<close>

datatype end_pc = End_Idle | End_Waits | End_Awaits | End_Returned | End_Raised
datatype thread_pc = No_Thread | Running | Locked | Finished "string option"

record stream =
  st_buf :: "byte list"
  st_ended :: bool
  st_cancelled :: bool
  st_result :: "string option"
  st_end :: end_pc
  st_thread :: thread_pc

record guard =
  inflight :: int
  decode_lock :: "nat option"
  thread_lock :: "nat option"
  streams :: "stream list"
  idle_futures :: "bool list"

definition open_stream :: stream where
  "open_stream = \<lparr>st_buf = [], st_ended = False, st_cancelled = False, st_result = None, st_end = End_Idle,
     st_thread = No_Thread\<rparr>"

definition init_decode_guards :: guard where
  "init_decode_guards = \<lparr>inflight = 0, decode_lock = None, thread_lock = None, streams = [], idle_futures = []\<rparr>"

definition mark_inflight_start :: "guard \<Rightarrow> guard" where
  "mark_inflight_start g = g\<lparr>inflight := inflight g + 1\<rparr>"

definition mark_inflight_end :: "guard \<Rightarrow> guard" where
  "mark_inflight_end g = g\<lparr>inflight := inflight g - 1\<rparr>"

definition set_stream :: "nat \<Rightarrow> stream \<Rightarrow> guard \<Rightarrow> guard" where
  "set_stream i x g = g\<lparr>streams := (streams g)[i := x]\<rparr>"

section \<open>The stream's operations\<close>

definition feed :: "byte list \<Rightarrow> stream \<Rightarrow> stream" where
  "feed chunk x = (if st_cancelled x then x else x\<lparr>st_buf := st_buf x @ chunk\<rparr>)"

definition cancel_stream :: "stream \<Rightarrow> stream" where
  "cancel_stream x = x\<lparr>st_cancelled := True, st_ended := True\<rparr>"

definition end_call :: "stream \<Rightarrow> stream" where
  "end_call x = (if st_ended x \<or> st_cancelled x then x else x\<lparr>st_ended := True, st_end := End_Waits\<rparr>)"

text \<open>\<open>_run_guarded_decode\<close> under the decode lock: the mark is undone when the thread cannot start.\<close>

definition run_guarded_decode :: "bool \<Rightarrow> nat \<Rightarrow> stream \<Rightarrow> guard \<Rightarrow> guard" where
  "run_guarded_decode starts i x g =
     (let g1 = mark_inflight_start g
      in if starts
         then (set_stream i (x\<lparr>st_thread := Running, st_end := End_Awaits\<rparr>) g1)\<lparr>decode_lock := Some i\<rparr>
         else set_stream i (x\<lparr>st_end := End_Raised\<rparr>) (mark_inflight_end g1))"

definition lock_granted :: "bool \<Rightarrow> nat \<Rightarrow> stream \<Rightarrow> guard \<Rightarrow> guard option" where
  "lock_granted starts i x g =
     (if st_end x \<noteq> End_Waits \<or> decode_lock g \<noteq> None then None
      else if st_cancelled x then Some (set_stream i (x\<lparr>st_end := End_Returned\<rparr>) g)
      else Some (run_guarded_decode starts i x g))"

text \<open>A cancellation of the task in \<open>end()\<close>: the lock is given back, a thread goes on.\<close>

definition cancel_task :: "nat \<Rightarrow> stream \<Rightarrow> guard \<Rightarrow> guard option" where
  "cancel_task i x g =
     (case st_end x of
        End_Waits \<Rightarrow> Some (set_stream i (x\<lparr>st_end := End_Raised\<rparr>) g)
      | End_Awaits \<Rightarrow> Some ((set_stream i (x\<lparr>st_end := End_Raised\<rparr>) g)\<lparr>decode_lock := None\<rparr>)
      | _ \<Rightarrow> None)"

text \<open>The thread's future completes on the loop (\<open>_set_result_safe\<close>, \<open>_set_exception_safe\<close>).\<close>

definition future_done :: "nat \<Rightarrow> stream \<Rightarrow> guard \<Rightarrow> guard option" where
  "future_done i x g =
     (if st_end x \<noteq> End_Awaits then None
      else case st_thread x of
        Finished (Some t) \<Rightarrow>
          Some ((set_stream i (x\<lparr>st_result := Some t, st_end := End_Returned\<rparr>) g)\<lparr>decode_lock := None\<rparr>)
      | Finished None \<Rightarrow> Some ((set_stream i (x\<lparr>st_end := End_Raised\<rparr>) g)\<lparr>decode_lock := None\<rparr>)
      | _ \<Rightarrow> None)"

section \<open>The decode thread\<close>

text \<open>\<open>_decode_sync\<close>: without audio it returns an empty text before the lock; it may raise there;
  otherwise it decodes under the thread lock. The mark is dropped in its \<open>finally\<close>.\<close>

definition thread_locks :: "nat \<Rightarrow> stream \<Rightarrow> guard \<Rightarrow> guard option" where
  "thread_locks i x g =
     (if st_thread x = Running \<and> st_buf x \<noteq> [] \<and> thread_lock g = None
      then Some ((set_stream i (x\<lparr>st_thread := Locked\<rparr>) g)\<lparr>thread_lock := Some i\<rparr>) else None)"

definition thread_ends :: "nat \<Rightarrow> string option \<Rightarrow> stream \<Rightarrow> guard \<Rightarrow> guard option" where
  "thread_ends i r x g =
     (case st_thread x of
        Running \<Rightarrow>
          if r = None \<or> (r = Some [] \<and> st_buf x = [])
          then Some (mark_inflight_end (set_stream i (x\<lparr>st_thread := Finished r\<rparr>) g)) else None
      | Locked \<Rightarrow> Some (mark_inflight_end ((set_stream i (x\<lparr>st_thread := Finished r\<rparr>) g)\<lparr>thread_lock := None\<rparr>))
      | _ \<Rightarrow> None)"

section \<open>\<open>idle()\<close>\<close>

text \<open>A future per call, done at once when nothing is in flight; its waiter completes it when the
  counter has reached zero.\<close>

definition idle :: "guard \<Rightarrow> guard" where
  "idle g = g\<lparr>idle_futures := idle_futures g @ [inflight g = 0]\<rparr>"

definition wait_inflight_drained :: "guard \<Rightarrow> bool" where
  "wait_inflight_drained g = (inflight g = 0)"

definition idle_wakes :: "nat \<Rightarrow> guard \<Rightarrow> guard option" where
  "idle_wakes k g =
     (if k < length (idle_futures g) \<and> wait_inflight_drained g
      then Some (g\<lparr>idle_futures := (idle_futures g)[k := True]\<rparr>) else None)"

section \<open>Steps\<close>

datatype guard_event =
    Open_Stream | Feed nat "byte list" | End_Call nat | Cancel_Stream nat | Lock_Granted nat bool | Cancel_Task nat
  | Future_Completes nat | Thread_Locks nat | Thread_Ends nat "string option" | Idle_Call | Idle_Wakes nat

definition on_stream :: "nat \<Rightarrow> (stream \<Rightarrow> guard \<Rightarrow> guard option) \<Rightarrow> guard \<Rightarrow> guard option" where
  "on_stream i f g = (if i < length (streams g) then f (streams g ! i) g else None)"

fun guard_step :: "guard_event \<Rightarrow> guard \<Rightarrow> guard option" where
  "guard_step Open_Stream g = Some (g\<lparr>streams := streams g @ [open_stream]\<rparr>)"
| "guard_step (Feed i chunk) g = on_stream i (\<lambda>x g. Some (set_stream i (feed chunk x) g)) g"
| "guard_step (End_Call i) g = on_stream i (\<lambda>x g. Some (set_stream i (end_call x) g)) g"
| "guard_step (Cancel_Stream i) g = on_stream i (\<lambda>x g. Some (set_stream i (cancel_stream x) g)) g"
| "guard_step (Lock_Granted i starts) g = on_stream i (lock_granted starts i) g"
| "guard_step (Cancel_Task i) g = on_stream i (cancel_task i) g"
| "guard_step (Future_Completes i) g = on_stream i (future_done i) g"
| "guard_step (Thread_Locks i) g = on_stream i (thread_locks i) g"
| "guard_step (Thread_Ends i r) g = on_stream i (thread_ends i r) g"
| "guard_step Idle_Call g = Some (idle g)"
| "guard_step (Idle_Wakes k) g = idle_wakes k g"

fun guard_run :: "guard_event list \<Rightarrow> guard \<Rightarrow> guard option" where
  "guard_run [] g = Some g"
| "guard_run (e # es) g = (case guard_step e g of None \<Rightarrow> None | Some h \<Rightarrow> guard_run es h)"

inductive guard_next :: "guard \<Rightarrow> guard \<Rightarrow> bool" where
  guard_nextI: "guard_step e g = Some h \<Longrightarrow> guard_next g h"

inductive_cases guard_nextE: "guard_next g h"

section \<open>The invariant\<close>

definition decoding :: "stream \<Rightarrow> bool" where
  "decoding x \<longleftrightarrow> st_thread x \<in> {Running, Locked}"

definition stream_ok :: "guard \<Rightarrow> nat \<Rightarrow> stream \<Rightarrow> bool" where
  "stream_ok g i x \<longleftrightarrow>
     (thread_lock g = Some i \<longleftrightarrow> st_thread x = Locked) \<and>
     (decode_lock g = Some i \<longleftrightarrow> st_end x = End_Awaits) \<and>
     (st_end x \<in> {End_Idle, End_Waits} \<longrightarrow> st_thread x = No_Thread) \<and>
     (st_end x = End_Awaits \<longrightarrow> st_thread x \<noteq> No_Thread) \<and>
     (st_end x \<noteq> End_Idle \<longrightarrow> st_ended x)"

definition guard_inv :: "guard \<Rightarrow> bool" where
  "guard_inv g \<longleftrightarrow>
     inflight g = int (length (filter decoding (streams g))) \<and>
     (\<forall>i < length (streams g). stream_ok g i (streams g ! i)) \<and>
     (\<forall>i. thread_lock g = Some i \<or> decode_lock g = Some i \<longrightarrow> i < length (streams g))"

lemma count_update:
  "i < length xs \<Longrightarrow> length (filter P (xs[i := y])) + (if P (xs ! i) then 1 else 0) = length (filter P xs) + (if P y then 1 else 0)"
proof (induction xs arbitrary: i)
  case (Cons x xs)
  then show ?case by (cases i) auto
qed simp

text \<open>One stream changes; the counter and the locks follow it.\<close>

lemma inv_update:
  assumes inv: "guard_inv g" and i: "i < length (streams g)" and st: "streams h = (streams g)[i := x]"
    and cnt: "inflight h = inflight g + (if decoding x then 1 else 0) - (if decoding (streams g ! i) then 1 else 0)"
    and ok: "stream_ok h i x"
    and other: "\<And>j. j \<noteq> i \<Longrightarrow> thread_lock h = Some j \<longleftrightarrow> thread_lock g = Some j"
      "\<And>j. j \<noteq> i \<Longrightarrow> decode_lock h = Some j \<longleftrightarrow> decode_lock g = Some j"
  shows "guard_inv h"
proof -
  have "inflight h = int (length (filter decoding (streams h)))"
    using inv cnt count_update [OF i, of decoding x] st by (simp add: guard_inv_def split: if_splits)
  moreover have "stream_ok h j (streams h ! j)" if j: "j < length (streams h)" for j
  proof (cases "j = i")
    case True
    then show ?thesis using ok st i by simp
  next
    case False
    then have "stream_ok g j (streams g ! j)" using inv j st by (simp add: guard_inv_def)
    then show ?thesis using other [OF False] False st by (simp add: stream_ok_def)
  qed
  moreover have "j < length (streams h)" if "thread_lock h = Some j \<or> decode_lock h = Some j" for j
    using inv i st that other [of j] by (cases "j = i") (auto simp: guard_inv_def)
  ultimately show ?thesis unfolding guard_inv_def by blast
qed

lemma inv_stream: "guard_inv g \<Longrightarrow> i < length (streams g) \<Longrightarrow> x = streams g ! i \<Longrightarrow> stream_ok g i x"
  by (simp add: guard_inv_def)

lemma inv_same:
  assumes "guard_inv g" "i < length (streams g)" "x = streams g ! i" "st_thread y = st_thread x"
    "st_end y = st_end x \<and> (st_ended x \<longrightarrow> st_ended y) \<or> st_ended y \<and> (st_end x, st_end y) \<in>
       {(End_Idle, End_Waits), (End_Waits, End_Returned), (End_Waits, End_Raised)}"
  shows "guard_inv (set_stream i y g)"
  by (rule inv_update [OF assms(1,2), where x = y])
    (use assms(3-5) inv_stream [OF assms(1-3)] in \<open>auto simp: set_stream_def decoding_def stream_ok_def\<close>)

lemma step_simple:
  assumes "guard_inv g" "on_stream i (\<lambda>x g. Some (set_stream i (f x) g)) g = Some h"
    "\<And>x. stream_ok g i x \<Longrightarrow> st_thread (f x) = st_thread x \<and>
       (st_end (f x) = st_end x \<and> (st_ended x \<longrightarrow> st_ended (f x)) \<or> st_ended (f x) \<and> (st_end x, st_end (f x)) \<in>
         {(End_Idle, End_Waits), (End_Waits, End_Returned), (End_Waits, End_Raised)})"
  shows "guard_inv h"
proof -
  have i: "i < length (streams g)" "h = set_stream i (f (streams g ! i)) g"
    using assms(2) by (auto simp: on_stream_def split: if_splits)
  have "stream_ok g i (streams g ! i)" by (rule inv_stream [OF assms(1) i(1) refl])
  from assms(3) [OF this] show ?thesis unfolding i(2) by (intro inv_same [OF assms(1) i(1) refl]) simp_all
qed

lemma open_inv:
  assumes "guard_inv g"
  shows "guard_inv (g\<lparr>streams := streams g @ [open_stream]\<rparr>)" (is "guard_inv ?h")
proof -
  have old: "thread_lock g = Some j \<or> decode_lock g = Some j \<Longrightarrow> j < length (streams g)" for j
    using assms unfolding guard_inv_def by blast
  have "stream_ok ?h j (streams ?h ! j)" if "j < length (streams ?h)" for j
  proof (cases "j < length (streams g)")
    case True
    then have "stream_ok g j (streams g ! j)" using assms by (simp add: guard_inv_def)
    then show ?thesis using True by (simp add: stream_ok_def nth_append)
  next
    case False
    then have "j = length (streams g)" using that by simp
    then show ?thesis using old [of j] by (auto simp: stream_ok_def open_stream_def)
  qed
  moreover have "inflight ?h = int (length (filter decoding (streams ?h)))"
    using assms by (simp add: guard_inv_def decoding_def open_stream_def)
  ultimately show ?thesis unfolding guard_inv_def using old by (simp add: less_SucI)
qed

lemma idle_inv: "guard_inv (g\<lparr>idle_futures := f\<rparr>) = guard_inv g"
  by (simp add: guard_inv_def stream_ok_def)

lemma step_inv:
  assumes inv: "guard_inv g" and st: "guard_step e g = Some h"
  shows "guard_inv h"
proof -
  have on: "guard_inv h" if "on_stream i f g = Some h"
    "\<And>x. i < length (streams g) \<Longrightarrow> x = streams g ! i \<Longrightarrow> f x g = Some h \<Longrightarrow> guard_inv h" for i f
    using that by (auto simp: on_stream_def split: if_splits)
  show ?thesis
  proof (cases e)
    case Open_Stream
    then show ?thesis using st open_inv [OF inv] by simp
  next
    case (Feed i chunk)
    show ?thesis by (rule step_simple [OF inv, where i = i and f = "feed chunk"]) (use st Feed in \<open>auto simp: feed_def\<close>)
  next
    case (End_Call i)
    show ?thesis
      by (rule step_simple [OF inv, where i = i and f = end_call])
        (use st End_Call in \<open>auto simp: end_call_def stream_ok_def\<close>)
  next
    case (Cancel_Stream i)
    show ?thesis
      by (rule step_simple [OF inv, where i = i and f = cancel_stream])
        (use st Cancel_Stream in \<open>auto simp: cancel_stream_def\<close>)
  next
    case (Lock_Granted i b)
    show ?thesis
    proof (rule on [of i "lock_granted b i"])
      show "on_stream i (lock_granted b i) g = Some h" using st Lock_Granted by simp
    next
      fix x assume x: "i < length (streams g)" "x = streams g ! i" "lock_granted b i x g = Some h"
      note s = inv_stream [OF inv x(1,2)]
      have w: "st_end x = End_Waits" "decode_lock g = None" using x(3) by (auto simp: lock_granted_def split: if_splits)
      show "guard_inv h"
      proof (cases "\<not> st_cancelled x \<and> b")
        case True
        show ?thesis
          by (rule inv_update [OF inv x(1), where x = "x\<lparr>st_thread := Running, st_end := End_Awaits\<rparr>"])
            (use True x(2,3) s w in \<open>auto simp: lock_granted_def run_guarded_decode_def mark_inflight_start_def set_stream_def decoding_def stream_ok_def\<close>)
      next
        case False
        have "h = set_stream i (x\<lparr>st_end := End_Returned\<rparr>) g \<or> h = set_stream i (x\<lparr>st_end := End_Raised\<rparr>) g"
          using x(3) False w by (auto simp: lock_granted_def run_guarded_decode_def mark_inflight_start_def mark_inflight_end_def set_stream_def split: if_splits)
        then show ?thesis using inv_same [OF inv x(1,2)] w s by (auto simp: stream_ok_def)
      qed
    qed
  next
    case (Cancel_Task i)
    show ?thesis
    proof (rule on [of i "cancel_task i"])
      show "on_stream i (cancel_task i) g = Some h" using st Cancel_Task by simp
    next
      fix x assume x: "i < length (streams g)" "x = streams g ! i" "cancel_task i x g = Some h"
      note s = inv_stream [OF inv x(1,2)]
      show "guard_inv h"
        by (rule inv_update [OF inv x(1), where x = "x\<lparr>st_end := End_Raised\<rparr>"])
          (use x(2,3) s in \<open>auto simp: cancel_task_def set_stream_def decoding_def stream_ok_def split: end_pc.splits\<close>)
    qed
  next
    case (Future_Completes i)
    show ?thesis
    proof (rule on [of i "future_done i"])
      show "on_stream i (future_done i) g = Some h" using st Future_Completes by simp
    next
      fix x assume x: "i < length (streams g)" "x = streams g ! i" "future_done i x g = Some h"
      note s = inv_stream [OF inv x(1,2)]
      obtain y where y: "st_thread y = st_thread x" "st_end y \<in> {End_Returned, End_Raised}" "st_ended y = st_ended x"
        "h = (set_stream i y g)\<lparr>decode_lock := None\<rparr>" "st_end x = End_Awaits" "\<not> decoding x"
      proof (cases "st_thread x")
        case (Finished r)
        show ?thesis
        proof (cases r)
          case None
          then show ?thesis using that [of "x\<lparr>st_end := End_Raised\<rparr>"] x(3) Finished
            by (auto simp: future_done_def decoding_def split: if_splits)
        next
          case (Some t)
          then show ?thesis using that [of "x\<lparr>st_result := Some t, st_end := End_Returned\<rparr>"] x(3) Finished
            by (auto simp: future_done_def decoding_def split: if_splits)
        qed
      qed (use x(3) in \<open>auto simp: future_done_def split: if_splits\<close>)
      show "guard_inv h"
        by (rule inv_update [OF inv x(1), where x = y])
          (use x(2) s y in \<open>auto simp: set_stream_def decoding_def stream_ok_def\<close>)
    qed
  next
    case (Thread_Locks i)
    show ?thesis
    proof (rule on [of i "thread_locks i"])
      show "on_stream i (thread_locks i) g = Some h" using st Thread_Locks by simp
    next
      fix x assume x: "i < length (streams g)" "x = streams g ! i" "thread_locks i x g = Some h"
      note s = inv_stream [OF inv x(1,2)]
      show "guard_inv h"
        by (rule inv_update [OF inv x(1), where x = "x\<lparr>st_thread := Locked\<rparr>"])
          (use x(2,3) s in \<open>auto simp: thread_locks_def set_stream_def decoding_def stream_ok_def split: if_splits\<close>)
    qed
  next
    case (Thread_Ends i r)
    show ?thesis
    proof (rule on [of i "thread_ends i r"])
      show "on_stream i (thread_ends i r) g = Some h" using st Thread_Ends by simp
    next
      fix x assume x: "i < length (streams g)" "x = streams g ! i" "thread_ends i r x g = Some h"
      note s = inv_stream [OF inv x(1,2)]
      show "guard_inv h"
        by (rule inv_update [OF inv x(1), where x = "x\<lparr>st_thread := Finished r\<rparr>"])
          (use x(2,3) s in \<open>auto simp: thread_ends_def set_stream_def mark_inflight_end_def decoding_def stream_ok_def split: thread_pc.splits if_splits\<close>)
    qed
  next
    case Idle_Call
    then show ?thesis using st inv idle_inv by (auto simp: idle_def)
  next
    case (Idle_Wakes k)
    then show ?thesis using st inv idle_inv by (auto simp: idle_wakes_def split: if_splits)
  qed
qed

section \<open>What the guard promises\<close>

interpretation guard: invariant_system "\<lambda>g. g = init_decode_guards" guard_next guard_inv
proof unfold_locales
  show "g = init_decode_guards \<Longrightarrow> guard_inv g" for g by (simp add: init_decode_guards_def guard_inv_def)
qed (auto elim!: guard_nextE dest: step_inv)

abbreviation guard_reach :: "guard \<Rightarrow> bool" where
  "guard_reach \<equiv> reach (\<lambda>g. g = init_decode_guards) guard_next"

lemma guard_run_reach: "guard_reach g \<Longrightarrow> guard_run es g = Some h \<Longrightarrow> guard_reach h"
proof (induction es arbitrary: g)
  case (Cons e es)
  then obtain k where k: "guard_step e g = Some k" "guard_run es k = Some h" by (auto split: option.splits)
  have "guard_reach k" by (rule reach_step [OF Cons.prems(1) guard_nextI [OF k(1)]])
  then show ?case using Cons.IH k(2) by blast
qed simp

lemma decoding_index: "x \<in> set (streams g) \<Longrightarrow> \<exists>i < length (streams g). x = streams g ! i"
  by (auto simp: in_set_conv_nth)

lemma drained_iff:
  assumes "guard_inv g"
  shows "inflight g = 0 \<longleftrightarrow> (\<forall>x \<in> set (streams g). \<not> decoding x)"
proof -
  have "inflight g = 0 \<longleftrightarrow> filter decoding (streams g) = []" using assms by (simp add: guard_inv_def)
  then show ?thesis by (simp add: filter_empty_conv)
qed

text \<open>Steps of decode threads left: two for a running one, one for one that holds the lock.\<close>

definition thread_rank :: "stream \<Rightarrow> nat" where
  "thread_rank x = (case st_thread x of Running \<Rightarrow> 2 | Locked \<Rightarrow> 1 | _ \<Rightarrow> 0)"

definition threads_left :: "guard \<Rightarrow> nat" where
  "threads_left g = sum_list (map thread_rank (streams g))"

lemma rank_update:
  "i < length xs \<Longrightarrow> thread_rank y < thread_rank (xs ! i) \<Longrightarrow>
     sum_list (map thread_rank (xs[i := y])) < sum_list (map thread_rank xs)"
proof (induction xs arbitrary: i)
  case (Cons x xs)
  then show ?case by (cases i) auto
qed simp

fun thread_event :: "guard_event \<Rightarrow> bool" where
  "thread_event (Thread_Locks i) = True"
| "thread_event (Thread_Ends i r) = True"
| "thread_event e = False"

lemma thread_progress:
  assumes inv: "guard_inv g" and busy: "inflight g \<noteq> 0"
  shows "\<exists>e h. thread_event e \<and> guard_step e g = Some h \<and> threads_left h < threads_left g"
proof -
  have down: "threads_left h < threads_left g"
    if "i < length (streams g)" "streams h = (streams g)[i := y]" "thread_rank y < thread_rank (streams g ! i)" for h i y
    using that rank_update by (simp add: threads_left_def)
  obtain x where x: "x \<in> set (streams g)" "decoding x" using drained_iff [OF inv] busy by blast
  show ?thesis
  proof (cases "thread_lock g")
    case (Some i)
    then have i: "i < length (streams g)" using inv unfolding guard_inv_def by blast
    have "st_thread (streams g ! i) = Locked" using inv_stream [OF inv i refl] Some by (simp add: stream_ok_def)
    then show ?thesis using i
      by (intro exI [of _ "Thread_Ends i None"])
        (auto simp: on_stream_def thread_ends_def mark_inflight_end_def set_stream_def thread_rank_def intro!: down)
  next
    case None
    obtain i where i: "i < length (streams g)" "x = streams g ! i" using decoding_index [OF x(1)] by blast
    have r: "st_thread (streams g ! i) = Running"
      using inv_stream [OF inv i(1) refl] None x(2) i(2) by (auto simp: stream_ok_def decoding_def)
    show ?thesis
    proof (cases "st_buf (streams g ! i) = []")
      case True
      then show ?thesis using i r
        by (intro exI [of _ "Thread_Ends i (Some [])"])
          (auto simp: on_stream_def thread_ends_def mark_inflight_end_def set_stream_def thread_rank_def intro!: down)
    next
      case False
      then show ?thesis using i r None
        by (intro exI [of _ "Thread_Locks i"])
          (auto simp: on_stream_def thread_locks_def set_stream_def thread_rank_def intro!: down)
    qed
  qed
qed

lemma threads_drain:
  assumes "guard_inv g"
  shows "\<exists>es h. list_all thread_event es \<and> length es \<le> threads_left g \<and> guard_run es g = Some h \<and> inflight h = 0"
  using assms
proof (induction "threads_left g" arbitrary: g rule: less_induct)
  case less
  show ?case
  proof (cases "inflight g = 0")
    case True
    then show ?thesis by (intro exI [of _ "[]"]) simp
  next
    case False
    obtain e h where e: "thread_event e" "guard_step e g = Some h" "threads_left h < threads_left g"
      using thread_progress [OF less.prems False] by blast
    obtain es k where "list_all thread_event es" "length es \<le> threads_left h" "guard_run es h = Some k" "inflight k = 0"
      using less.hyps [OF e(3) step_inv [OF less.prems e(2)]] by blast
    then show ?thesis using e by (intro exI [of _ "e # es"] exI [of _ k]) simp
  qed
qed

definition sample_guard :: guard where
  "sample_guard = the (guard_run [Open_Stream, Open_Stream, Feed 0 [1, 2], Feed 1 [3, 4], End_Call 0, End_Call 1,
     Lock_Granted 0 True, Thread_Locks 0, Cancel_Task 0, Lock_Granted 1 True, Idle_Call] init_decode_guards)"

lemma sample_guard_run:
  "guard_run [Open_Stream, Open_Stream, Feed 0 [1, 2], Feed 1 [3, 4], End_Call 0, End_Call 1,
     Lock_Granted 0 True, Thread_Locks 0, Cancel_Task 0, Lock_Granted 1 True, Idle_Call] init_decode_guards = Some sample_guard
   \<and> inflight sample_guard = 2 \<and> map st_thread (streams sample_guard) = [Locked, Running]"
  by (simp add: sample_guard_def init_decode_guards_def on_stream_def feed_def set_stream_def open_stream_def end_call_def
      lock_granted_def run_guarded_decode_def mark_inflight_start_def thread_locks_def cancel_task_def idle_def Let_def)

lemma sample_guard_reach: "guard_reach sample_guard"
  using guard_run_reach [OF reach_init] sample_guard_run by blast

text \<open>C18: at most one decode works on the model at any time, even when the task that waits for a decode
  is cancelled and the next one starts its own thread: two threads never hold the thread lock.\<close>

theorem decodes_exclusive:
  assumes "guard_reach g" "i < length (streams g)" "j < length (streams g)"
    "st_thread (streams g ! i) = Locked" "st_thread (streams g ! j) = Locked"
  shows "i = j"
  using inv_stream [OF guard.reachable [OF assms(1)] assms(2) refl] inv_stream [OF guard.reachable [OF assms(1)] assms(3) refl]
    assms(4,5) by (simp add: stream_ok_def)

theorem decodes_exclusive_witness: "st_thread (streams sample_guard ! 1) \<noteq> Locked"
  using decodes_exclusive [OF sample_guard_reach, of 0 1] sample_guard_run
  by (cases "streams sample_guard"; cases "tl (streams sample_guard)") auto

text \<open>C19: the in-flight counter is exact: it is the number of decode threads alive, cancelled waiters
  included, never negative, and zero (what \<open>close()\<close> and \<open>idle()\<close> wait for) exactly when none is.\<close>

theorem inflight_exact:
  assumes "guard_reach g"
  shows "inflight g = int (length (filter decoding (streams g))) \<and>
    (wait_inflight_drained g \<longleftrightarrow> (\<forall>x \<in> set (streams g). st_thread x \<noteq> Running \<and> st_thread x \<noteq> Locked))"
  using guard.reachable [OF assms] drained_iff [OF guard.reachable [OF assms]]
  by (auto simp: guard_inv_def wait_inflight_drained_def decoding_def)

theorem inflight_exact_witness: "inflight sample_guard = int (length (filter decoding (streams sample_guard)))"
  using inflight_exact [OF sample_guard_reach] by blast

text \<open>The guard never deadlocks: from every reachable state the decode threads alone can run to
  their ends in at most two steps each, and the counter is then zero.\<close>

theorem decodes_drain:
  assumes "guard_reach g"
  shows "\<exists>es h. list_all thread_event es \<and> length es \<le> threads_left g \<and> guard_run es g = Some h \<and> wait_inflight_drained h"
  using threads_drain [OF guard.reachable [OF assms]] by (simp add: wait_inflight_drained_def)

theorem decodes_drain_witness:
  "\<exists>es h. list_all thread_event es \<and> length es \<le> threads_left sample_guard \<and> guard_run es sample_guard = Some h \<and> wait_inflight_drained h"
  by (rule decodes_drain [OF sample_guard_reach])

end
