(* ===== verification/Backends.thy ===== *)
theory Backends
  imports Decode_Guard Supervise Text_Quality Protocol
begin

text \<open>
  The transcription backends: the interface the server relies on (\<open>backend.py\<close>), the registry with
  its pinned revisions (\<open>backends/__init__.py\<close>), and the echo, MLX Whisper, Parakeet, Nemotron and
  Kyutai backends. The model packages themselves (\<open>mlx_whisper\<close>, \<open>parakeet_mlx\<close>, \<open>mlx_audio\<close>,
  \<open>moshi_mlx\<close>, \<open>huggingface_hub\<close>) are parameters of the definitions that call them.
\<close>

section \<open>The interface\<close>

datatype transcript_event = Delta string | Completed string

text \<open>The contract of a stream as the server uses it: \<open>feed\<close> the audio in chunks, then \<open>end\<close>
  (\<open>None\<close>: it raised), then \<open>events\<close>. \<open>text_of\<close> is what the backend makes of a whole utterance.\<close>

locale commit_stream =
  fixes opened :: 's
    and feeds :: "byte list \<Rightarrow> 's \<Rightarrow> 's"
    and ends :: "'s \<Rightarrow> 's option"
    and cancels :: "'s \<Rightarrow> 's"
    and evts :: "'s \<Rightarrow> transcript_event list"
    and text_of :: "byte list \<Rightarrow> string option"
  assumes ends_law: "ends (fold feeds chunks opened) = None \<longleftrightarrow> text_of (concat chunks) = None"
    and evts_law: "ends (fold feeds chunks opened) = Some s \<Longrightarrow> text_of (concat chunks) = Some t \<Longrightarrow>
      evts s = [Delta t, Completed t] \<or> (t = [] \<and> evts s = [Completed t])"
    and cancel_law: "evts (cancels s) = []"
begin

text \<open>How the client chunked the audio does not matter, and a decode ends in one \<open>Completed\<close>.\<close>

lemma chunking:
  assumes "concat chunks = concat chunks'" "ends (fold feeds chunks opened) = Some s"
  shows "\<exists>s' t. ends (fold feeds chunks' opened) = Some s' \<and> text_of (concat chunks) = Some t \<and>
    last (evts s) = Completed t \<and> last (evts s') = Completed t \<and>
    filter (\<lambda>e. \<exists>u. e = Completed u) (evts s) = [Completed t]"
proof -
  obtain t where t: "text_of (concat chunks) = Some t" using ends_law [of chunks] assms(2) by auto
  then obtain s' where s': "ends (fold feeds chunks' opened) = Some s'" using ends_law [of chunks'] assms(1) by auto
  show ?thesis using evts_law [OF assms(2) t] evts_law [OF s'] t s' assms(1) by auto
qed

end

section \<open>The model streams\<close>

text \<open>\<open>end()\<close> of a stream that has the guard to itself, with the decode function of its backend.\<close>

definition stream_end :: "(byte list \<Rightarrow> string option) \<Rightarrow> stream \<Rightarrow> stream option" where
  "stream_end decode x =
     (if st_ended x \<or> st_cancelled x then Some x
      else case decode (st_buf x) of
        None \<Rightarrow> None
      | Some t \<Rightarrow> Some (x\<lparr>st_ended := True, st_result := Some t\<rparr>))"

definition stream_events :: "stream \<Rightarrow> transcript_event list" where
  "stream_events x =
     (if st_cancelled x then []
      else case st_result x of
        None \<Rightarrow> []
      | Some text \<Rightarrow> (if text \<noteq> [] then [Delta text] else []) @ [Completed text])"

section \<open>The echo backend\<close>

record echo_stream =
  eb_buf :: "byte list"
  eb_done :: bool
  eb_cancelled :: bool

definition echo_open :: echo_stream where
  "echo_open = \<lparr>eb_buf = [], eb_done = False, eb_cancelled = False\<rparr>"

definition echo_feed :: "byte list \<Rightarrow> echo_stream \<Rightarrow> echo_stream" where
  "echo_feed chunk x = x\<lparr>eb_buf := eb_buf x @ chunk\<rparr>"

definition echo_end :: "echo_stream \<Rightarrow> echo_stream" where
  "echo_end x = x\<lparr>eb_done := True\<rparr>"

definition echo_cancel :: "echo_stream \<Rightarrow> echo_stream" where
  "echo_cancel x = x\<lparr>eb_cancelled := True, eb_done := True\<rparr>"

definition echo_text :: "byte list \<Rightarrow> string" where
  "echo_text pcm = ''echo:'' @ show_nat (length pcm)"

definition echo_events :: "echo_stream \<Rightarrow> transcript_event list" where
  "echo_events x = (if eb_cancelled x then [] else [Delta (echo_text (eb_buf x)), Completed (echo_text (eb_buf x))])"

section \<open>The registry\<close>

definition DEFAULT_MLX_MODEL :: string where "DEFAULT_MLX_MODEL = ''mlx-community/whisper-large-v3-turbo''"
definition DEFAULT_PARAKEET_MODEL :: string where "DEFAULT_PARAKEET_MODEL = ''mlx-community/parakeet-tdt-0.6b-v3''"
definition DEFAULT_NEMOTRON_MODEL :: string where
  "DEFAULT_NEMOTRON_MODEL = ''mlx-community/nemotron-3.5-asr-streaming-0.6b''"
definition DEFAULT_KYUTAI_MODEL :: string where "DEFAULT_KYUTAI_MODEL = ''kyutai/stt-1b-en_fr-mlx''"

definition PINNED_REVISIONS :: "(string \<times> string) list" where
  "PINNED_REVISIONS =
     [(DEFAULT_MLX_MODEL, ''a4aaeec0636e6fef84abdcbe3544cb2bf7e9f6fb''),
      (DEFAULT_KYUTAI_MODEL, ''2b995724eef1e964b7ccb6a762b35a665c4abe0d''),
      (DEFAULT_PARAKEET_MODEL, ''ed2b7e8c15f9aaa0b5772e2efb986255eaef7e15''),
      (DEFAULT_NEMOTRON_MODEL, ''e550040c0478027ed679b2b6b0d055502c103663'')]"

definition pinned_revision :: "string option \<Rightarrow> string option" where
  "pinned_revision model =
     (case model of None \<Rightarrow> None | Some m \<Rightarrow> if m = [] then None else map_of PINNED_REVISIONS m)"

record backend_entry =
  be_module :: "string option"
  be_class_name :: "string option"
  be_default_model :: "string option"
  be_local_model_paths :: bool

definition BACKENDS :: "(string \<times> backend_entry) list" where
  "BACKENDS =
     [(''echo'', \<lparr>be_module = None, be_class_name = None, be_default_model = None, be_local_model_paths = True\<rparr>),
      (''mlx'', \<lparr>be_module = Some ''stt_server.backends.mlx_whisper'', be_class_name = Some ''MLXWhisperBackend'',
                be_default_model = Some DEFAULT_MLX_MODEL, be_local_model_paths = True\<rparr>),
      (''parakeet'', \<lparr>be_module = Some ''stt_server.backends.parakeet'', be_class_name = Some ''ParakeetBackend'',
                be_default_model = Some DEFAULT_PARAKEET_MODEL, be_local_model_paths = True\<rparr>),
      (''nemotron'', \<lparr>be_module = Some ''stt_server.backends.nemotron'', be_class_name = Some ''NemotronBackend'',
                be_default_model = Some DEFAULT_NEMOTRON_MODEL, be_local_model_paths = True\<rparr>),
      (''kyutai'', \<lparr>be_module = Some ''stt_server.backends.kyutai'', be_class_name = Some ''KyutaiBackend'',
                be_default_model = Some DEFAULT_KYUTAI_MODEL, be_local_model_paths = False\<rparr>)]"

record loaded_backend =
  lb_name :: string
  lb_entry :: backend_entry
  lb_module :: "string option"

datatype backend_error = Unknown_Backend string | Import_Failed string

text \<open>\<open>importable\<close>: importing the module succeeds.\<close>

definition import_backend :: "(string \<Rightarrow> bool) \<Rightarrow> string \<Rightarrow> backend_error + loaded_backend" where
  "import_backend importable name =
     (case map_of BACKENDS name of
        None \<Rightarrow> Raise (Unknown_Backend name)
      | Some entry \<Rightarrow>
          (case be_module entry of
             None \<Rightarrow> Ok \<lparr>lb_name = name, lb_entry = entry, lb_module = None\<rparr>
           | Some m \<Rightarrow> if importable m then Ok \<lparr>lb_name = name, lb_entry = entry, lb_module = Some m\<rparr>
                       else Raise (Import_Failed m)))"

text \<open>\<open>SnapshotSpec\<close>: each required entry is a list of alternatives; \<open>sp_resolve\<close>: the names come from
  the repository's own \<open>config.json\<close>.\<close>

record snapshot_spec =
  sp_repo_id :: string
  sp_revision :: "string option"
  sp_allow_patterns :: "string list option"
  sp_required :: "string list list"
  sp_kind :: string
  sp_local_path :: "string option"
  sp_resolve :: bool

definition or_default :: "string option \<Rightarrow> string \<Rightarrow> string" where
  "or_default model d = (case model of None \<Rightarrow> d | Some m \<Rightarrow> if m = [] then d else m)"

end
