(* ===== verification/Backend_Models.thy ===== *)
theory Backend_Models
  imports Backends
begin

text \<open>
  The four model backends: their decode functions (\<open>_decode_sync\<close>), what they load, what \<open>prefetch\<close>
  fetches for them, and the temp dir of the two that decode from a WAV file.
\<close>

section \<open>MLX Whisper\<close>

definition normalize_language :: "string option \<Rightarrow> string option" where
  "normalize_language language =
     (case language of
        None \<Rightarrow> None
      | Some l \<Rightarrow> if lower (strip l) \<in> set ['''', ''auto''] then None else Some l)"

text \<open>\<open>np.frombuffer(..., dtype=np.int16)\<close>: little-endian samples; an odd number of bytes raises.
  The division by 32768 is exact.\<close>

fun pcm16 :: "byte list \<Rightarrow> int list option" where
  "pcm16 [] = Some []"
| "pcm16 [b] = None"
| "pcm16 (lo # hi # bs) =
     map_option (Cons (sint (word_cat hi lo :: 16 word))) (pcm16 bs)"

record whisper_knobs =
  condition_on_previous_text :: bool
  compression_ratio_threshold :: pyfloat
  logprob_threshold :: pyfloat
  no_speech_threshold :: pyfloat

definition whisper_knobs_of :: "environ \<Rightarrow> whisper_knobs" where
  "whisper_knobs_of env =
     \<lparr>condition_on_previous_text = env_bool_first env
        [''PIPECAT_STT_WHISPER_CONDITION_ON_PREVIOUS_TEXT'', ''KODA_STT_WHISPER_CONDITION_ON_PREVIOUS_TEXT''] False,
      compression_ratio_threshold = env_float_first env
        [''PIPECAT_STT_WHISPER_COMPRESSION_RATIO_THRESHOLD'', ''KODA_STT_WHISPER_COMPRESSION_RATIO_THRESHOLD'']
        (Fin (24 / 10)),
      logprob_threshold = env_float_first env
        [''PIPECAT_STT_WHISPER_LOGPROB_THRESHOLD'', ''KODA_STT_WHISPER_LOGPROB_THRESHOLD''] (Fin (- 1)),
      no_speech_threshold = env_float_first env
        [''PIPECAT_STT_WHISPER_NO_SPEECH_THRESHOLD'', ''KODA_STT_WHISPER_NO_SPEECH_THRESHOLD''] (Fin (6 / 10))\<rparr>"

text \<open>What \<open>transcribe()\<close> returns: the texts of its segments (a missing list or text is empty).\<close>

record whisper_result =
  wr_segments :: "string list"
  wr_text :: string

definition kept_segments :: "environ \<Rightarrow> string list \<Rightarrow> string list" where
  "kept_segments env segs = filter (\<lambda>t. \<not> (t \<noteq> [] \<and> is_degenerate env t)) segs"

definition whisper_text :: "environ \<Rightarrow> whisper_result \<Rightarrow> string" where
  "whisper_text env r =
     (if wr_segments r \<noteq> [] then
        let kept = kept_segments env (wr_segments r);
            joined_kept = strip (concat kept);
            check_text = strip (join '' '' (map strip (filter (\<lambda>s. strip s \<noteq> []) kept)))
        in if check_text \<noteq> [] \<and> is_degenerate env check_text then [] else joined_kept
      else
        let joined = wr_text r
        in if joined \<noteq> [] \<and> is_degenerate env joined then [] else strip joined)"

text \<open>\<open>transcribe\<close> gets the audio, the path to load, the language and the knobs; \<open>None\<close>: it raised.\<close>

definition mlx_decode_sync ::
  "bool \<Rightarrow> environ \<Rightarrow> (int list \<Rightarrow> string \<Rightarrow> string option \<Rightarrow> whisper_knobs \<Rightarrow> whisper_result option) \<Rightarrow>
   string option \<Rightarrow> string option \<Rightarrow> byte list \<Rightarrow> string option" where
  "mlx_decode_sync importable env transcribe path language pcm =
     (if \<not> importable then None
      else case pcm16 pcm of
        None \<Rightarrow> None
      | Some audio \<Rightarrow>
          if audio = [] then Some []
          else case path of
            None \<Rightarrow> None
          | Some p \<Rightarrow>
              (case transcribe audio p (normalize_language language) (whisper_knobs_of env) of
                 None \<Rightarrow> None
               | Some r \<Rightarrow> Some (whisper_text env r)))"

text \<open>\<open>_model_path\<close>: a pinned default is fetched once as a snapshot; \<open>fetch\<close> may raise.\<close>

definition mlx_model_path ::
  "(string \<Rightarrow> string \<Rightarrow> 'e + string) \<Rightarrow> string \<Rightarrow> string option \<Rightarrow> ('e + string) \<times> string option" where
  "mlx_model_path fetch model resolved =
     (case pinned_revision (Some model) of
        None \<Rightarrow> (Ok model, resolved)
      | Some revision \<Rightarrow>
          (case resolved of
             Some p \<Rightarrow> (Ok p, resolved)
           | None \<Rightarrow> (case fetch model revision of
                        Inl e \<Rightarrow> (Raise e, None)
                      | Inr p \<Rightarrow> (Ok p, Some p))))"

definition mlx_prefetch_specs :: "string option \<Rightarrow> snapshot_spec list" where
  "mlx_prefetch_specs model =
     (let repo = or_default model DEFAULT_MLX_MODEL
      in [\<lparr>sp_repo_id = repo, sp_revision = pinned_revision (Some repo), sp_allow_patterns = None,
           sp_required = [[''config.json''], [''weights.safetensors'', ''weights.npz'']],
           sp_kind = ''model'', sp_local_path = None, sp_resolve = False\<rparr>])"

text \<open>\<open>start()\<close> of the four backends imports the package; a failed import becomes a message that names
  the extra and what is missing.\<close>

datatype import_result = Imported | Import_Error "string option"
datatype start_error = Missing_Extra string string

definition missing_name :: "string option \<Rightarrow> string \<Rightarrow> string" where
  "missing_name name fallback = (case name of Some n \<Rightarrow> if n \<noteq> [] then n else fallback | None \<Rightarrow> fallback)"

definition mlx_start :: "import_result \<Rightarrow> start_error option" where
  "mlx_start i =
     (case i of Imported \<Rightarrow> None | Import_Error n \<Rightarrow> Some (Missing_Extra ''mlx'' (missing_name n ''mlx_whisper'')))"

section \<open>Decoding from a WAV file\<close>

text \<open>The temp dir of Parakeet and Nemotron: \<open>None\<close> when it does not exist.\<close>

type_synonym tmpdir = "string list option"

record wav =
  wav_channels :: nat
  wav_sampwidth :: nat
  wav_framerate :: nat
  wav_frames :: "byte list"

definition wav_of :: "byte list \<Rightarrow> wav" where
  "wav_of pcm = \<lparr>wav_channels = AUDIO_CHANNELS, wav_sampwidth = AUDIO_SAMPLE_WIDTH_BYTES,
     wav_framerate = AUDIO_SAMPLE_RATE_HZ, wav_frames = pcm\<rparr>"

text \<open>What the calls of one decode answer: the name \<open>mkstemp\<close> chose (\<open>None\<close>: it raised), whether writing the WAV worked,
  and whether it could be unlinked.\<close>

record decode_io =
  io_name :: "string option"
  io_written :: bool
  io_unlinked :: bool

definition unlink_wav :: "bool \<Rightarrow> string \<Rightarrow> string list \<Rightarrow> string list" where
  "unlink_wav ok p files = (if ok then remove1 p files else files)"

text \<open>\<open>model\<close>: the loaded model, \<open>None\<close> when loading raised; its answer \<open>None\<close>: it raised; the inner
  \<open>None\<close>: the result has no text.\<close>

definition parakeet_decode_sync ::
  "decode_io \<Rightarrow> (wav \<Rightarrow> rat \<Rightarrow> rat \<Rightarrow> string option option) option \<Rightarrow> byte list \<Rightarrow> tmpdir \<Rightarrow> string option \<times> tmpdir" where
  "parakeet_decode_sync io model pcm dir =
     (if pcm = [] then (Some [], dir)
      else case (dir, io_name io) of
        (Some files, Some wav_path) \<Rightarrow>
          let r = (if \<not> io_written io then None
                   else case model of None \<Rightarrow> None | Some transcribe \<Rightarrow> transcribe (wav_of pcm) 120 15)
          in (map_option (\<lambda>t. strip (case t of None \<Rightarrow> [] | Some x \<Rightarrow> x)) r,
              Some (unlink_wav (io_unlinked io) wav_path (wav_path # files)))
      | _ \<Rightarrow> (None, dir))"

definition DEFAULT_NEMOTRON_LANGUAGE :: string where "DEFAULT_NEMOTRON_LANGUAGE = ''auto''"

definition nemotron_decode_sync ::
  "decode_io \<Rightarrow> (wav \<Rightarrow> string \<Rightarrow> string option option) option \<Rightarrow> string option \<Rightarrow> byte list \<Rightarrow> tmpdir \<Rightarrow>
   string option \<times> tmpdir" where
  "nemotron_decode_sync io model language pcm dir =
     (if pcm = [] then (Some [], dir)
      else case (dir, io_name io) of
        (Some files, Some wav_path) \<Rightarrow>
          let lang = (case language of Some l \<Rightarrow> l | None \<Rightarrow> DEFAULT_NEMOTRON_LANGUAGE);
              r = (if \<not> io_written io then None
                   else case model of None \<Rightarrow> None | Some generate \<Rightarrow> generate (wav_of pcm) lang)
          in (map_option (\<lambda>t. strip (case t of None \<Rightarrow> [] | Some x \<Rightarrow> x)) r,
              Some (unlink_wav (io_unlinked io) wav_path (wav_path # files)))
      | _ \<Rightarrow> (None, dir))"

text \<open>\<open>_get_model\<close>: the model is loaded on the first decode and kept; a failed load is tried again.\<close>

definition parakeet_model_path :: "(string \<Rightarrow> string \<Rightarrow> string list \<Rightarrow> 'e + string) \<Rightarrow> string \<Rightarrow> 'e + string" where
  "parakeet_model_path fetch model =
     (case pinned_revision (Some model) of
        None \<Rightarrow> Ok model
      | Some revision \<Rightarrow> fetch model revision [''config.json'', ''model.safetensors''])"

definition parakeet_get_model ::
  "(string \<Rightarrow> string \<Rightarrow> string list \<Rightarrow> 'e + string) \<Rightarrow> (string \<Rightarrow> 'e + 'm) \<Rightarrow> string \<Rightarrow> 'm option \<Rightarrow> ('e + 'm) \<times> 'm option" where
  "parakeet_get_model fetch load model kept =
     (case kept of
        Some m \<Rightarrow> (Ok m, kept)
      | None \<Rightarrow> (case bind_result (parakeet_model_path fetch model) load of
                   Inl e \<Rightarrow> (Raise e, None)
                 | Inr m \<Rightarrow> (Ok m, Some m)))"

definition nemotron_get_model ::
  "(string \<Rightarrow> string option \<Rightarrow> 'e + 'm) \<Rightarrow> string \<Rightarrow> 'm option \<Rightarrow> ('e + 'm) \<times> 'm option" where
  "nemotron_get_model load model kept =
     (case kept of
        Some m \<Rightarrow> (Ok m, kept)
      | None \<Rightarrow> (case load model (pinned_revision (Some model)) of
                   Inl e \<Rightarrow> (Raise e, None)
                 | Inr m \<Rightarrow> (Ok m, Some m)))"

text \<open>\<open>start()\<close> recreates the private temp dir that \<open>abort()\<close> removed, then imports the package.\<close>

definition parakeet_start :: "import_result \<Rightarrow> tmpdir \<Rightarrow> start_error option \<times> tmpdir" where
  "parakeet_start i dir =
     (case i of
        Imported \<Rightarrow> (None, Some (case dir of None \<Rightarrow> [] | Some files \<Rightarrow> files))
      | Import_Error n \<Rightarrow> (Some (Missing_Extra ''parakeet'' (missing_name n ''parakeet_mlx'')),
                           Some (case dir of None \<Rightarrow> [] | Some files \<Rightarrow> files)))"

definition parakeet_abort :: "tmpdir \<Rightarrow> tmpdir" where
  "parakeet_abort dir = None"

definition nemotron_start :: "import_result \<Rightarrow> tmpdir \<Rightarrow> start_error option \<times> tmpdir" where
  "nemotron_start i dir =
     (case i of
        Imported \<Rightarrow> (None, Some (case dir of None \<Rightarrow> [] | Some files \<Rightarrow> files))
      | Import_Error n \<Rightarrow> (Some (Missing_Extra ''nemotron'' (missing_name n ''mlx_audio'')),
                           Some (case dir of None \<Rightarrow> [] | Some files \<Rightarrow> files)))"

definition nemotron_abort :: "tmpdir \<Rightarrow> tmpdir" where
  "nemotron_abort dir = None"

definition WEIGHT_FILES :: "string list" where
  "WEIGHT_FILES = [''config.json'', ''model.safetensors'']"

definition parakeet_prefetch_specs :: "string option \<Rightarrow> snapshot_spec list" where
  "parakeet_prefetch_specs model =
     (let repo = or_default model DEFAULT_PARAKEET_MODEL
      in [\<lparr>sp_repo_id = repo, sp_revision = pinned_revision (Some repo), sp_allow_patterns = Some WEIGHT_FILES,
           sp_required = map (\<lambda>f. [f]) WEIGHT_FILES, sp_kind = ''model'', sp_local_path = None, sp_resolve = False\<rparr>])"

definition MLX_AUDIO_ALLOW_PATTERNS :: "string list" where
  "MLX_AUDIO_ALLOW_PATTERNS =
     [''*.json'', ''*.safetensors'', ''*.py'', ''*.model'', ''*.tiktoken'', ''*.txt'', ''*.jinja'', ''*.jsonl'',
      ''*.yaml'', ''*.npz'', ''*.pth'']"

definition nemotron_prefetch_specs :: "string option \<Rightarrow> snapshot_spec list" where
  "nemotron_prefetch_specs model =
     (let repo = or_default model DEFAULT_NEMOTRON_MODEL
      in [\<lparr>sp_repo_id = repo, sp_revision = pinned_revision (Some repo),
           sp_allow_patterns = Some MLX_AUDIO_ALLOW_PATTERNS,
           sp_required = [[''config.json''], [''*.safetensors'']], sp_kind = ''model'', sp_local_path = None,
           sp_resolve = False\<rparr>])"

section \<open>Kyutai\<close>

text \<open>The files the model loads, named by its own \<open>config.json\<close>: untrusted input.\<close>

datatype weights_error = Not_An_Object | Missing_Key string | Invalid_Name json

definition weight_files :: "json \<Rightarrow> weights_error + string list" where
  "weight_files config =
     (case config of
        JObj kvs \<Rightarrow>
          (case (jget kvs ''mimi_name'', jget kvs ''tokenizer_name'') of
             (None, _) \<Rightarrow> Raise (Missing_Key ''mimi_name'')
           | (_, None) \<Rightarrow> Raise (Missing_Key ''tokenizer_name'')
           | (Some mimi, Some tokenizer) \<Rightarrow>
               (case check_plain_filenames
                       [JStr ''config.json'', mimi, jget_or kvs ''moshi_name'' (JStr ''model.safetensors''), tokenizer] of
                  Inl j \<Rightarrow> Raise (Invalid_Name j)
                | Inr names \<Rightarrow> Ok names))
      | _ \<Rightarrow> Raise Not_An_Object)"

definition kyutai_prefetch_specs :: "string option \<Rightarrow> snapshot_spec list" where
  "kyutai_prefetch_specs model =
     (let repo = or_default model DEFAULT_KYUTAI_MODEL
      in [\<lparr>sp_repo_id = repo, sp_revision = pinned_revision (Some repo), sp_allow_patterns = Some [''config.json''],
           sp_required = [[''config.json'']], sp_kind = ''model'', sp_local_path = None, sp_resolve = True\<rparr>])"

text \<open>The quantization the weights' name asks for: bits and group size.\<close>

definition lm_quantization :: "string \<Rightarrow> (nat \<times> nat) option" where
  "lm_quantization lm_weights =
     (if suffix ''.q4.safetensors'' lm_weights then Some (4, 32)
      else if suffix ''.q8.safetensors'' lm_weights then Some (8, 64) else None)"

text \<open>The sizes are computed exactly; \<open>float(x)\<close> of a number of the config.\<close>

definition config_seconds :: "(string \<times> json) list \<Rightarrow> string \<Rightarrow> rat \<Rightarrow> rat option" where
  "config_seconds stt key d =
     (case jget stt key of
        None \<Rightarrow> Some d
      | Some (JInt i) \<Rightarrow> Some (of_int i)
      | Some (JFloat (Fin q)) \<Rightarrow> Some q
      | _ \<Rightarrow> None)"

definition truncated :: "rat \<Rightarrow> int" where
  "truncated q = (if 0 \<le> q then floor q else - floor (- q))"

text \<open>The prefix and flush silence, in samples of 24 kHz.\<close>

definition silence_samples :: "(string \<times> json) list \<Rightarrow> (int \<times> int) option" where
  "silence_samples stt =
     (case (config_seconds stt ''audio_silence_prefix_seconds'' 0, config_seconds stt ''audio_delay_seconds'' (1 / 2)) of
        (Some prefix_s, Some delay) \<Rightarrow> Some (truncated (prefix_s * 24000), truncated (max 2 (delay + 1) * 24000))
      | _ \<Rightarrow> None)"

text \<open>The size of the resampled audio (every second of three times as many samples); the filter's
  arithmetic is not modelled.\<close>

definition resampled_size :: "nat \<Rightarrow> nat" where
  "resampled_size n = (3 * n + 1) div 2"

definition frame_count :: "nat \<Rightarrow> nat \<Rightarrow> nat \<Rightarrow> nat" where
  "frame_count prefix_samples flush_samples samples =
     (prefix_samples + resampled_size samples + flush_samples) div 1920"

text \<open>The frame loop: \<open>cancelled k\<close> is what the cancel event reads before frame \<open>k\<close>; \<open>token\<close> and \<open>piece\<close>
  are the model and its tokenizer. A cancelled decode returns no text.\<close>

fun kyutai_loop :: "(nat \<Rightarrow> bool) \<Rightarrow> (nat \<Rightarrow> nat) \<Rightarrow> (nat \<Rightarrow> string) \<Rightarrow> nat \<Rightarrow> nat \<Rightarrow> string list \<Rightarrow> string option" where
  "kyutai_loop cancelled token piece k 0 pieces = Some (concat pieces)"
| "kyutai_loop cancelled token piece k (Suc n) pieces =
     (if cancelled k then None
      else kyutai_loop cancelled token piece (Suc k) n
        (if token k \<in> set [0, 3] then pieces else pieces @ [piece (token k)]))"

definition kyutai_transcribe :: "(nat \<Rightarrow> bool) \<Rightarrow> (nat \<Rightarrow> nat) \<Rightarrow> (nat \<Rightarrow> string) \<Rightarrow> nat \<Rightarrow> string" where
  "kyutai_transcribe cancelled token piece frames =
     (case kyutai_loop cancelled token piece 0 frames [] of None \<Rightarrow> [] | Some t \<Rightarrow> strip t)"

text \<open>\<open>transcribe\<close>: the backend's \<open>_transcribe\<close> with its model; it may raise. \<open>cancel_set\<close>: the cancel
  event when the thread lock was taken.\<close>

definition kyutai_decode_sync :: "bool \<Rightarrow> (byte list \<Rightarrow> string option) \<Rightarrow> byte list \<Rightarrow> string option" where
  "kyutai_decode_sync cancel_set transcribe pcm =
     (if pcm = [] then Some [] else if cancel_set then Some [] else transcribe pcm)"

definition kyutai_start :: "import_result \<Rightarrow> start_error option" where
  "kyutai_start i =
     (case i of Imported \<Rightarrow> None | Import_Error n \<Rightarrow> Some (Missing_Extra ''kyutai'' (missing_name n ''moshi_mlx'')))"

section \<open>The contract holds\<close>

lemma feed_fold: "\<not> st_cancelled x \<Longrightarrow> fold feed chunks x = x\<lparr>st_buf := st_buf x @ concat chunks\<rparr>"
  by (induction chunks arbitrary: x) (simp_all add: feed_def)

lemma fed_stream: "fold feed chunks open_stream = open_stream\<lparr>st_buf := concat chunks\<rparr>"
  using feed_fold [of open_stream chunks] by (simp add: open_stream_def)

lemma open_stream_simps [simp]:
  "\<not> st_cancelled open_stream" "\<not> st_ended open_stream" "st_buf open_stream = []" "st_result open_stream = None"
  by (simp_all add: open_stream_def)

interpretation model_stream: commit_stream open_stream feed "stream_end decode" cancel_stream stream_events decode
  by unfold_locales
    (auto simp: fed_stream stream_end_def stream_events_def cancel_stream_def split: option.splits if_splits)

lemma echo_fold: "fold echo_feed chunks x = x\<lparr>eb_buf := eb_buf x @ concat chunks\<rparr>"
  by (induction chunks arbitrary: x) (simp_all add: echo_feed_def)

lemma echo_fed: "fold echo_feed chunks echo_open = echo_open\<lparr>eb_buf := concat chunks\<rparr>"
  using echo_fold [of chunks echo_open] by (simp add: echo_open_def)

lemma echo_open_simps [simp]: "\<not> eb_cancelled echo_open" "eb_buf echo_open = []"
  by (simp_all add: echo_open_def)

interpretation echo: commit_stream echo_open echo_feed "\<lambda>x. Some (echo_end x)" echo_cancel echo_events "\<lambda>pcm. Some (echo_text pcm)"
  by unfold_locales (auto simp: echo_fed echo_end_def echo_events_def echo_cancel_def)

text \<open>The sequential \<open>stream_end\<close> is what the guard does when the stream is alone in it.\<close>

lemma stream_end_guard:
  assumes "stream_end decode (open_stream\<lparr>st_buf := pcm\<rparr>) = Some y" "pcm \<noteq> []"
  shows "\<exists>g. guard_run [Open_Stream, Feed 0 pcm, End_Call 0, Lock_Granted 0 True, Thread_Locks 0,
      Thread_Ends 0 (decode pcm), Future_Completes 0] init_decode_guards = Some g \<and>
    st_result (streams g ! 0) = st_result y \<and> inflight g = 0 \<and> decode_lock g = None \<and> thread_lock g = None"
proof -
  obtain t where t: "decode pcm = Some t" "st_result y = Some t"
    using assms(1) by (auto simp: stream_end_def open_stream_def split: option.splits)
  show ?thesis using t assms(2)
    by (simp add: init_decode_guards_def on_stream_def feed_def set_stream_def open_stream_def end_call_def lock_granted_def
        run_guarded_decode_def mark_inflight_start_def mark_inflight_end_def thread_locks_def thread_ends_def future_done_def Let_def)
qed

section \<open>Tokens of a transcript\<close>

abbreviation tokens :: "string \<Rightarrow> string list" where
  "tokens s \<equiv> split_ws (casefold s)"

lemma space_chars: "is_space c \<Longrightarrow> of_char c \<noteq> (223 :: nat) \<and> lower_char c = c"
  by (auto simp: is_space_def lower_char_def in_range_def Let_def)

lemma casefold_append: "casefold (a @ b) = casefold a @ casefold b"
  by (simp add: casefold_def)

lemma casefold_space: "is_space c \<Longrightarrow> casefold (c # s) = c # casefold s"
  using space_chars [of c] by (simp add: casefold_def)

lemma split_from_space: "is_space c \<Longrightarrow> split_from cur (a @ c # b) = split_from cur a @ split_from [] b"
  by (induction cur a rule: split_from.induct) auto

lemma tokens_space: "is_space c \<Longrightarrow> tokens (a @ c # b) = tokens a @ tokens b"
  by (simp add: casefold_append casefold_space split_ws_def split_from_space)

lemma tokens_Nil [simp]: "tokens [] = []"
  by (simp add: casefold_def split_ws_def)

lemma tokens_spaces: "\<forall>c \<in> set s. is_space c \<Longrightarrow> tokens s = []"
proof (induction s)
  case (Cons c s)
  then show ?case using tokens_space [of c "[]" s] by simp
qed simp

lemma tokens_lstrip: "tokens (lstrip s) = tokens s"
proof (induction s)
  case (Cons c s)
  show ?case
  proof (cases "is_space c")
    case True
    then show ?thesis using Cons tokens_space [of c "[]" s] by (simp add: lstrip_def)
  qed (simp add: lstrip_def)
qed (simp add: lstrip_def)

lemma tokens_rstrip: "tokens (rev (lstrip (rev s))) = tokens s"
proof (induction s rule: rev_induct)
  case (snoc c s)
  show ?case
  proof (cases "is_space c")
    case True
    then show ?thesis using snoc tokens_space [of c s "[]"] by (simp add: lstrip_def)
  qed (simp add: lstrip_def)
qed (simp add: lstrip_def)

lemma tokens_strip: "tokens (strip s) = tokens s"
  using tokens_rstrip [of "lstrip s"] tokens_lstrip [of s] by (simp add: strip_def)

lemma strip_Nil_tokens: "strip s = [] \<Longrightarrow> tokens s = []"
  using tokens_spaces strip_eq_Nil_iff by blast

lemma is_degenerate_tokens: "tokens s = tokens t \<Longrightarrow> is_degenerate env s = is_degenerate env t"
  by (simp add: is_degenerate_def dominant_unigram_ratio_def)

lemma is_degenerate_Nil: "tokens s = [] \<Longrightarrow> \<not> is_degenerate env s"
  by (simp add: is_degenerate_def dominant_unigram_ratio_def)

lemma tokens_join: "tokens (join '' '' ss) = concat (map tokens ss)"
proof (induction "'' ''" ss rule: join.induct)
  case (3 x y zs)
  then show ?case using tokens_space [of "CHR '' ''" x "join '' '' (y # zs)"] by (simp add: is_space_def)
qed simp_all

lemma tokens_concat: "\<forall>s \<in> set ss. s = [] \<or> is_space (hd s) \<Longrightarrow> tokens (a @ concat ss) = tokens a @ concat (map tokens ss)"
proof (induction ss arbitrary: a)
  case (Cons s ss)
  show ?case
  proof (cases s)
    case Nil
    then show ?thesis using Cons by simp
  next
    case (Cons c cs)
    then have sp: "is_space c" using Cons.prems by simp
    have "tokens (a @ concat (s # ss)) = tokens a @ tokens (cs @ concat ss)"
      using tokens_space [OF sp, of a "cs @ concat ss"] Cons by simp
    moreover have "tokens (cs @ concat ss) = tokens cs @ concat (map tokens ss)" using Cons.IH [of cs] Cons.prems by simp
    moreover have "tokens s = tokens cs" using tokens_space [OF sp, of "[]" cs] Cons by simp
    ultimately show ?thesis by simp
  qed
qed simp

lemma concat_filter: "concat (map tokens (map strip (filter (\<lambda>s. strip s \<noteq> []) ss))) = concat (map tokens ss)"
  by (induction ss) (simp_all add: tokens_strip strip_Nil_tokens)

section \<open>What the backends promise\<close>

text \<open>C20: the stream contract of the four model backends, for any decode function of theirs: a decode
  that raises makes \<open>end()\<close> raise; otherwise, however the client chunked the audio, the events are a
  delta (only for a non-empty text) and then one completed with the text of the whole utterance, and a
  cancelled stream yields none.\<close>

theorem stream_contract:
  "(stream_end decode (fold feed chunks open_stream) = None \<longleftrightarrow> decode (concat chunks) = None) \<and>
   map_option stream_events (stream_end decode (fold feed chunks open_stream)) =
     map_option (\<lambda>t. (if t = [] then [] else [Delta t]) @ [Completed t]) (decode (concat chunks)) \<and>
   stream_events (cancel_stream x) = []"
proof -
  have "stream_events s = (if t = [] then [] else [Delta t]) @ [Completed t]"
    if "stream_end decode (fold feed chunks open_stream) = Some s" "decode (concat chunks) = Some t" for s t
    using that by (auto simp: fed_stream stream_end_def stream_events_def)
  then show ?thesis
    using model_stream.ends_law [of decode chunks] model_stream.cancel_law [of x]
    by (cases "stream_end decode (fold feed chunks open_stream)"; cases "decode (concat chunks)") auto
qed

lemma kept_not_degenerate: "t \<in> set (kept_segments env segs) \<Longrightarrow> \<not> is_degenerate env t"
  using is_degenerate_Nil by (auto simp: kept_segments_def)

text \<open>The hallucination filter of the Whisper backend: when each segment starts with white space, as
  those of \<open>mlx_whisper\<close> do, the text sent to the client is never degenerate, neither a segment's wall
  nor one that several segments make up together.\<close>

theorem whisper_text_not_degenerate:
  assumes "\<forall>s \<in> set (wr_segments r). s = [] \<or> is_space (hd s)"
  shows "\<not> is_degenerate env (whisper_text env r)"
proof (cases "wr_segments r = []")
  case True
  then show ?thesis
    using is_degenerate_tokens [OF tokens_strip, of env "wr_text r"] is_degenerate_Nil [of "[]" env] is_degenerate_Nil [of "wr_text r" env]
    by (auto simp: whisper_text_def Let_def strip_def lstrip_def)
next
  case False
  let ?kept = "kept_segments env (wr_segments r)"
  let ?check = "strip (join '' '' (map strip (filter (\<lambda>s. strip s \<noteq> []) ?kept)))"
  have "\<forall>s \<in> set ?kept. s = [] \<or> is_space (hd s)" using assms by (auto simp: kept_segments_def)
  then have "tokens (strip (concat ?kept)) = concat (map tokens ?kept)"
    using tokens_concat [of ?kept "[]"] by (simp add: tokens_strip)
  also have "\<dots> = tokens ?check" by (simp add: tokens_strip tokens_join concat_filter del: map_map)
  finally have d: "is_degenerate env (strip (concat ?kept)) = is_degenerate env ?check" by (rule is_degenerate_tokens)
  have "\<not> is_degenerate env ?check" if "?check = []" using is_degenerate_Nil [of "?check" env] that by simp
  then show ?thesis using False d is_degenerate_Nil [of "[]" env] by (simp add: whisper_text_def Let_def)
qed

theorem whisper_text_not_degenerate_witness:
  "\<not> is_degenerate (\<lambda>n. None) (whisper_text (\<lambda>n. None) \<lparr>wr_segments = ['' hello'', '' world''], wr_text = []\<rparr>)"
  by (rule whisper_text_not_degenerate) (simp add: is_space_def)

text \<open>No utterance is left on disk: with Parakeet and with Nemotron, whether the decode succeeds, raises,
  cannot write the file or cannot load the model, the private temp dir holds the same files afterwards
  as before; and the model is only ever given the whole utterance as a mono 16-bit 16 kHz WAV.\<close>

theorem wav_removed:
  assumes "io_unlinked io"
  shows "snd (parakeet_decode_sync io model pcm dir) = dir \<and> snd (nemotron_decode_sync io model' language pcm dir) = dir \<and>
    (\<forall>t. fst (parakeet_decode_sync io (Some (\<lambda>w c ov. if w = wav_of pcm then Some (Some t) else None)) pcm (Some files)) = Some (strip t)
       \<or> pcm = [] \<or> io_name io = None \<or> \<not> io_written io) \<and>
    wav_of pcm = \<lparr>wav_channels = 1, wav_sampwidth = 2, wav_framerate = 16000, wav_frames = pcm\<rparr>"
  using assms
  by (auto simp: parakeet_decode_sync_def nemotron_decode_sync_def Let_def unlink_wav_def wav_of_def AUDIO_CHANNELS_def
      AUDIO_SAMPLE_WIDTH_BYTES_def AUDIO_SAMPLE_RATE_HZ_def split: option.splits)

theorem wav_removed_witness:
  "snd (parakeet_decode_sync \<lparr>io_name = Some ''a.wav'', io_written = True, io_unlinked = True\<rparr> None [1, 2] (Some [''b.wav''])) =
     Some [''b.wav'']"
  using wav_removed [of "\<lparr>io_name = Some ''a.wav'', io_written = True, io_unlinked = True\<rparr>" None "[1, 2]" "Some [''b.wav'']"]
  by simp

section \<open>Loading\<close>

text \<open>A sequence of decodes asks for the model each time; the loader's answers may differ.\<close>

fun get_models :: "('m option \<Rightarrow> ('e + 'm) \<times> 'm option) list \<Rightarrow> 'm option \<Rightarrow> ('e + 'm) list" where
  "get_models [] kept = []"
| "get_models (g # gs) kept = fst (g kept) # get_models gs (snd (g kept))"

lemma loaded_kept:
  "get_models (map (\<lambda>load. nemotron_get_model load model) lds) (Some m) = map (\<lambda>l. Ok m) lds"
  by (induction lds) (simp_all add: nemotron_get_model_def)

lemma loaded_kept_parakeet:
  "get_models (map (\<lambda>load. parakeet_get_model fetch load model) lds) (Some m) = map (\<lambda>l. Ok m) lds"
  by (induction lds) (simp_all add: parakeet_get_model_def)

section \<open>Names from a remote config\<close>

lemma check_names:
  "check_plain_filenames js = Ok names \<Longrightarrow> js = map JStr names \<and> list_all (\<lambda>n. plain_filename (JStr n)) names"
  by (induction js arbitrary: names) (auto simp: bind_result_Ok_iff split: if_splits json.splits)

text \<open>The file names a remote Kyutai \<open>config.json\<close> gives are only accepted when all of them are literal
  plain file names: the result is \<open>config.json\<close> and three names of the config, none of which has a path
  separator, a glob character or is \<open>.\<close> or \<open>..\<close>.\<close>

theorem weight_files_plain:
  assumes "weight_files config = Ok names"
  shows "\<exists>kvs mimi lm tok. config = JObj kvs \<and> names = [''config.json'', mimi, lm, tok] \<and>
    jget kvs ''mimi_name'' = Some (JStr mimi) \<and> jget kvs ''tokenizer_name'' = Some (JStr tok) \<and>
    jget_or kvs ''moshi_name'' (JStr ''model.safetensors'') = JStr lm \<and>
    list_all (\<lambda>n. n \<noteq> [] \<and> n \<noteq> ''.'' \<and> n \<noteq> ''..'' \<and>
      set n \<inter> {CHR 0x2F, CHR 0x5C, CHR ''*'', CHR ''?'', CHR ''['', CHR '']'', CHR ''|''} = {}) names"
proof -
  obtain kvs mimi tok where c: "config = JObj kvs" "jget kvs ''mimi_name'' = Some mimi" "jget kvs ''tokenizer_name'' = Some tok"
    "check_plain_filenames [JStr ''config.json'', mimi, jget_or kvs ''moshi_name'' (JStr ''model.safetensors''), tok] = Ok names"
    using assms by (auto simp: weight_files_def simp del: check_plain_filenames.simps split: json.splits option.splits sum.splits)
  note n = check_names [OF c(4)]
  have "list_all (\<lambda>n. n \<noteq> [] \<and> n \<noteq> ''.'' \<and> n \<noteq> ''..'' \<and>
      set n \<inter> {CHR 0x2F, CHR 0x5C, CHR ''*'', CHR ''?'', CHR ''['', CHR '']'', CHR ''|''} = {}) names"
    using conjunct2 [OF n] by (auto simp: plain_filename_def list_all_iff)
  moreover obtain m l t where "names = [''config.json'', m, l, t]" "mimi = JStr m" "tok = JStr t"
    "jget_or kvs ''moshi_name'' (JStr ''model.safetensors'') = JStr l"
    using conjunct1 [OF n] by (auto simp: Cons_eq_map_conv)
  ultimately show ?thesis using c by blast
qed

theorem weight_files_plain_witness:
  "set ''mimi.safetensors'' \<inter> {CHR 0x2F, CHR ''*''} = {}"
  using weight_files_plain [of "JObj [(''mimi_name'', JStr ''mimi.safetensors''), (''tokenizer_name'', JStr ''t.model'')]"
      "[''config.json'', ''mimi.safetensors'', ''model.safetensors'', ''t.model'']"]
  by (simp add: weight_files_def jget_def jget_or_def plain_filename_def)

text \<open>Whatever a backend loads for a pinned default, \<open>prefetch\<close> fetches the same commit.\<close>

lemma pinned_agree:
  "sp_revision (hd (mlx_prefetch_specs (Some m))) = pinned_revision (Some (or_default (Some m) DEFAULT_MLX_MODEL))"
  "sp_revision (hd (nemotron_prefetch_specs (Some m))) = pinned_revision (Some (or_default (Some m) DEFAULT_NEMOTRON_MODEL))"
  by (simp_all add: mlx_prefetch_specs_def nemotron_prefetch_specs_def Let_def)

end
