(* ===== verification/Prefetch.thy ===== *)
theory Prefetch
  imports Backend_Models Supervise
begin

text \<open>
  \<open>stt_server/prefetch.py\<close>: the completeness check of a model snapshot, the offline cache probe, the
  download with its progress events, and the body of the \<open>prefetch\<close> command with its exit status.

  The Hugging Face library and the disk are inputs (\<open>hub\<close>): what a download answers, which files a
  folder holds, what the repository lists, and the state of the cache's blobs as time passes. A raised
  exception is a store of \<open>Supervise\<close> with its head first, and the repository that was attached to it.
\<close>

section \<open>File name patterns\<close>

text \<open>\<open>fnmatch\<close> on POSIX: \<open>*\<close>, \<open>?\<close> and character classes; an unclosed \<open>[\<close> stands for itself.\<close>

fun class_matches :: "string \<Rightarrow> char \<Rightarrow> bool" where
  "class_matches (a # m # b # cs) c =
     (if m = CHR ''-'' then ((of_char a :: nat) \<le> of_char c \<and> (of_char c :: nat) \<le> of_char b) \<or> class_matches cs c
      else a = c \<or> class_matches (m # b # cs) c)"
| "class_matches (a # cs) c = (a = c \<or> class_matches cs c)"
| "class_matches [] c = False"

text \<open>The class after a \<open>[\<close>: whether it is negated, its members, and the rest of the pattern.\<close>

definition split_class :: "string \<Rightarrow> (bool \<times> string \<times> string) option" where
  "split_class p =
     (let neg = (case p of c # cs \<Rightarrow> c = CHR ''!'' | [] \<Rightarrow> False);
          q = (if neg then tl p else p);
          first = (case q of c # cs \<Rightarrow> if c = CHR '']'' then [c] else [] | [] \<Rightarrow> []);
          body = takeWhile (\<lambda>c. c \<noteq> CHR '']'') (drop (length first) q);
          rest = dropWhile (\<lambda>c. c \<noteq> CHR '']'') (drop (length first) q)
      in if rest = [] then None else Some (neg, first @ body, tl rest))"

lemma length_dropWhile_drop: "length (tl (dropWhile P (drop k q))) \<le> length q"
  using length_dropWhile_le [of P "drop k q"] by simp

lemma split_class_shorter: "split_class p = Some (neg, body, rest) \<Longrightarrow> length rest \<le> length p"
proof -
  assume "split_class p = Some (neg, body, rest)"
  then obtain P k q where "rest = tl (dropWhile P (drop k q))" "q = p \<or> q = tl p"
    by (fastforce simp: split_class_def Let_def split: if_splits)
  then show ?thesis using length_dropWhile_drop [of P k q] by auto
qed

function fnmatch :: "string \<Rightarrow> string \<Rightarrow> bool" where
  "fnmatch name [] = (name = [])"
| "fnmatch name (p # ps) =
     (if p = CHR ''*'' then fnmatch name ps \<or> (case name of [] \<Rightarrow> False | c # cs \<Rightarrow> fnmatch cs (p # ps))
      else case name of
        [] \<Rightarrow> False
      | c # cs \<Rightarrow>
          if p = CHR ''?'' then fnmatch cs ps
          else if p = CHR ''['' then
            (case split_class ps of
               None \<Rightarrow> c = p \<and> fnmatch cs ps
             | Some (neg, body, rest) \<Rightarrow> class_matches body c \<noteq> neg \<and> fnmatch cs rest)
          else c = p \<and> fnmatch cs ps)"
  by pat_completeness auto
termination
  by (relation "measure (\<lambda>(name, p). length name + length p)")
    (auto dest: split_class_shorter)

declare fnmatch.simps [simp del]
lemmas fnmatch_simps = fnmatch.simps

section \<open>The world\<close>

type_synonym raised = "store \<times> string option"

record tree_entry =
  te_path :: string
  te_size :: "nat option"
  te_lfs :: "(nat option \<times> string option) option"
  te_blob_id :: "string option"

text \<open>\<open>hub_ticks\<close> lists the instants at which the progress thread measured what it had put out when the join
  ended; instant 0 is before the download, and a blob is there (\<open>hub_blob\<close>) or partly there (\<open>hub_partial\<close>) at an
  instant. The join waits a second at most: \<open>hub_late\<close> is the instant of a measurement the thread was still busy with
  then, if any. It had left the wait before the download ended, so there is at most one, and its report is the
  thread's last.\<close>

record hub =
  hub_download :: "snapshot_spec \<Rightarrow> bool \<Rightarrow> store + string"
  hub_tree :: "snapshot_spec \<Rightarrow> store + tree_entry list"
  hub_config :: "string \<Rightarrow> store + json"
  hub_is_dir :: "string \<Rightarrow> bool"
  hub_files :: "string \<Rightarrow> (string \<times> nat option) list"
  hub_blob :: "nat \<Rightarrow> string \<Rightarrow> string \<Rightarrow> bool"
  hub_partial :: "nat \<Rightarrow> string \<Rightarrow> string \<Rightarrow> nat option"
  hub_ticks :: "snapshot_spec \<Rightarrow> nat list"
  hub_late :: "snapshot_spec \<Rightarrow> nat option"

definition new_exn :: "string list \<Rightarrow> string \<Rightarrow> store" where
  "new_exn mro message =
     [\<lparr>ex_name = hd mro, ex_module = ''builtins'', ex_mro = mro, ex_errno = None, ex_str = message,
       ex_cause = None, ex_context = None, ex_dict = True, ex_download = False, ex_invalid = False\<rparr>]"

definition file_not_found :: "string \<Rightarrow> store" where
  "file_not_found m = new_exn [''FileNotFoundError'', ''OSError'', ''Exception''] m"

definition value_error :: "string \<Rightarrow> store" where
  "value_error m = new_exn [''ValueError'', ''Exception''] m"

definition key_error :: "string \<Rightarrow> store" where
  "key_error m = new_exn [''KeyError'', ''LookupError'', ''Exception''] m"

definition config_error :: "string \<Rightarrow> store" where
  "config_error m = new_exn [''ConfigError'', ''ValueError'', ''Exception''] m"

text \<open>\<open>except Exception\<close>, and the \<open>download_phase\<close> context.\<close>

definition caught :: "string \<Rightarrow> store \<Rightarrow> bool" where
  "caught c st = (st \<noteq> [] \<and> is_instance (st ! 0) c)"

definition in_download :: "store + 'a \<Rightarrow> store + 'a" where
  "in_download r =
     (case r of
        Inl st \<Rightarrow> Inl (if caught ''Exception'' st then mark_download_phase 0 st else st)
      | Inr a \<Rightarrow> Inr a)"

definition invalid :: "store \<Rightarrow> store" where
  "invalid st = (if caught ''Exception'' st then mark_model_invalid 0 st else st)"

section \<open>Completeness of a snapshot\<close>

definition snapshot_complete :: "hub \<Rightarrow> string \<Rightarrow> string list list \<Rightarrow> bool" where
  "snapshot_complete h path required =
     list_all (\<lambda>entry. list_ex (\<lambda>n. list_ex (fnmatch n) entry) (map fst (hub_files h path))) required"

definition snapshot_size :: "hub \<Rightarrow> string \<Rightarrow> nat" where
  "snapshot_size h path = sum_list (map (\<lambda>(n, sz). case sz of None \<Rightarrow> 0 | Some k \<Rightarrow> k) (hub_files h path))"

text \<open>\<open>_resolved\<close>: the names of the repository's own \<open>config.json\<close> (\<open>weight_files\<close> is the only
  resolver of the program).\<close>

definition weights_exn :: "weights_error \<Rightarrow> store" where
  "weights_exn e =
     (case e of
        Missing_Key k \<Rightarrow> key_error k
      | Invalid_Name j \<Rightarrow> value_error ''config.json names an invalid file''
      | Not_An_Object \<Rightarrow> value_error ''config.json is not a JSON object'')"

definition resolved :: "hub \<Rightarrow> snapshot_spec \<Rightarrow> string \<Rightarrow> store + snapshot_spec" where
  "resolved h spec path =
     (if \<not> sp_resolve spec then Ok spec
      else case hub_config h path of
        Inl e \<Rightarrow> Raise e
      | Inr config \<Rightarrow>
          (case weight_files config of
             Inl e \<Rightarrow> Raise (weights_exn e)
           | Inr files \<Rightarrow>
               (case check_plain_filenames (map JStr files) of
                  Inl j \<Rightarrow> Raise (value_error ''config.json names an invalid file'')
                | Inr names \<Rightarrow> Ok (spec\<lparr>sp_allow_patterns := Some names, sp_required := map (\<lambda>n. [n]) names,
                                       sp_resolve := False\<rparr>))))"

definition validated :: "hub \<Rightarrow> snapshot_spec \<Rightarrow> string \<Rightarrow> store + snapshot_spec" where
  "validated h spec path =
     (case resolved h spec path of
        Inl e \<Rightarrow> Raise (invalid e)
      | Inr spec' \<Rightarrow>
          if snapshot_complete h path (sp_required spec') then Ok spec'
          else Raise (invalid (file_not_found ''is missing'')))"

section \<open>Specs of a backend\<close>

definition is_local_model :: "(string \<Rightarrow> bool) \<Rightarrow> string \<Rightarrow> bool" where
  "is_local_model exists model =
     (list_ex (\<lambda>p. prefix p model) [''/'', ''./'', ''../'', ''~''] \<or> exists model)"

definition module_specs :: "loaded_backend \<Rightarrow> string option \<Rightarrow> store + snapshot_spec list" where
  "module_specs loaded model =
     (case lb_module loaded of
        None \<Rightarrow> if model \<noteq> None then Raise (config_error ''the echo backend takes no model'') else Ok []
      | Some m \<Rightarrow>
          if lb_name loaded = ''mlx'' then Ok (mlx_prefetch_specs model)
          else if lb_name loaded = ''parakeet'' then Ok (parakeet_prefetch_specs model)
          else if lb_name loaded = ''nemotron'' then Ok (nemotron_prefetch_specs model)
          else Ok (kyutai_prefetch_specs model))"

definition import_exn :: "backend_error \<Rightarrow> store" where
  "import_exn e =
     (case e of
        Unknown_Backend n \<Rightarrow> config_error (''unknown backend: '' @ n)
      | Import_Failed m \<Rightarrow> new_exn [''ModuleNotFoundError'', ''ImportError'', ''Exception''] m)"

definition specs_for :: "(string \<Rightarrow> bool) \<Rightarrow> string \<Rightarrow> string option \<Rightarrow> store + snapshot_spec list" where
  "specs_for importable backend model =
     (case import_backend importable backend of
        Inl e \<Rightarrow> Raise (import_exn e) | Inr loaded \<Rightarrow> module_specs loaded model)"

text \<open>\<open>expanduser\<close> keeps a \<open>~user\<close> it cannot resolve.\<close>

definition local_specs_for ::
  "(string \<Rightarrow> bool) \<Rightarrow> (string \<Rightarrow> string) \<Rightarrow> string \<Rightarrow> string \<Rightarrow> store + snapshot_spec list" where
  "local_specs_for importable expanduser backend model =
     (case import_backend importable backend of
        Inl e \<Rightarrow> Raise (import_exn e)
      | Inr loaded \<Rightarrow>
          if \<not> be_local_model_paths (lb_entry loaded)
          then Raise (config_error (''the '' @ backend @ '' backend does not support local model paths''))
          else bind_result (module_specs loaded (Some model))
                 (\<lambda>specs. Ok (map (\<lambda>s. s\<lparr>sp_local_path := Some (expanduser model)\<rparr>) specs)))"

section \<open>Events\<close>

record check_row =
  cr_repo :: string
  cr_revision :: "string option"
  cr_kind :: string
  cr_cached :: bool
  cr_path :: "string option"
  cr_size :: nat

datatype pf_event =
    Start string "string option" string
  | Progress string nat nat nat nat
  | Fetched string string nat
  | Complete string "string option" nat
  | Check check_row
  | Summary string "string option" bool nat
  | Failure string string "string option"

definition opt_str :: "string option \<Rightarrow> json" where
  "opt_str x = (case x of None \<Rightarrow> JNull | Some t \<Rightarrow> JStr t)"

fun event_json :: "pf_event \<Rightarrow> json" where
  "event_json (Start repo rv kd) =
     JObj [(''event'', JStr ''start''), (''repo'', JStr repo), (''revision'', opt_str rv), (''kind'', JStr kd)]"
| "event_json (Progress repo got all_b n_done n_files) =
     JObj [(''event'', JStr ''progress''), (''repo'', JStr repo), (''downloaded_bytes'', JInt (int got)),
       (''total_bytes'', JInt (int all_b)), (''files_done'', JInt (int n_done)), (''files_total'', JInt (int n_files))]"
| "event_json (Fetched repo path size_b) =
     JObj [(''event'', JStr ''done''), (''repo'', JStr repo), (''path'', JStr path), (''size_bytes'', JInt (int size_b))]"
| "event_json (Complete backend model size_b) =
     JObj [(''event'', JStr ''complete''), (''backend'', JStr backend), (''model'', opt_str model),
       (''cached'', JBool True), (''size_bytes'', JInt (int size_b))]"
| "event_json (Check r) =
     JObj [(''event'', JStr ''check''), (''repo'', JStr (cr_repo r)), (''revision'', opt_str (cr_revision r)),
       (''kind'', JStr (cr_kind r)), (''required'', JBool True), (''cached'', JBool (cr_cached r)),
       (''path'', opt_str (cr_path r)), (''size_bytes'', JInt (int (cr_size r)))]"
| "event_json (Summary backend model cached size_b) =
     JObj [(''event'', JStr ''summary''), (''backend'', JStr backend), (''model'', opt_str model),
       (''cached'', JBool cached), (''size_bytes'', JInt (int size_b))]"
| "event_json (Failure c m repo) =
     JObj [(''event'', JStr ''error''), (''code'', JStr c), (''message'', JStr m), (''repo'', opt_str repo)]"

text \<open>What the main thread does with the output: it writes an event, or goes on while a progress thread is still to
  write one. The progress thread is a daemon: its event comes at any later time, or never if the process ends first.
  \<open>delivered tr held out\<close>: the output \<open>out\<close> is possible, \<open>held\<close> being the events of the threads left behind.\<close>

datatype emission = Out pf_event | Behind pf_event

fun outs :: "emission list \<Rightarrow> pf_event list" where
  "outs [] = []"
| "outs (Out e # tr) = e # outs tr"
| "outs (Behind e # tr) = outs tr"

fun left_over :: "emission list \<Rightarrow> pf_event list" where
  "left_over [] = []"
| "left_over (Out e # tr) = left_over tr"
| "left_over (Behind e # tr) = e # left_over tr"

function delivered :: "emission list \<Rightarrow> pf_event list \<Rightarrow> pf_event list \<Rightarrow> bool" where
  "delivered tr held [] \<longleftrightarrow> outs tr = []"
| "delivered tr held (x # out) \<longleftrightarrow>
     (x \<in> set held \<and> delivered tr (remove1 x held) out) \<or>
     (case tr of
        [] \<Rightarrow> False
      | Out e # tr' \<Rightarrow> x = e \<and> delivered tr' held out
      | Behind e # tr' \<Rightarrow> delivered tr' (e # held) (x # out))"
  by pat_completeness auto
termination
  by (relation "measure (\<lambda>(tr, held, out). length tr + length out)") auto

section \<open>The offline probe\<close>

definition missing_row :: "snapshot_spec \<Rightarrow> check_row" where
  "missing_row spec =
     \<lparr>cr_repo = sp_repo_id spec, cr_revision = sp_revision spec, cr_kind = sp_kind spec, cr_cached = False,
      cr_path = None, cr_size = 0\<rparr>"

definition check_folder :: "hub \<Rightarrow> snapshot_spec \<Rightarrow> string \<Rightarrow> raised + check_row" where
  "check_folder h spec path =
     (case resolved h spec path of
        Inl e \<Rightarrow>
          if caught ''OSError'' e \<or> caught ''ValueError'' e \<or> caught ''KeyError'' e
          then Ok (missing_row spec) else Raise (e, None)
      | Inr spec' \<Rightarrow>
          if \<not> snapshot_complete h path (sp_required spec') then Ok (missing_row spec)
          else Ok ((missing_row spec)\<lparr>cr_cached := True, cr_path := Some path, cr_size := snapshot_size h path\<rparr>))"

definition check_spec :: "hub \<Rightarrow> snapshot_spec \<Rightarrow> raised + check_row" where
  "check_spec h spec =
     (case sp_local_path spec of
        Some path \<Rightarrow> if \<not> hub_is_dir h path then Ok (missing_row spec) else check_folder h spec path
      | None \<Rightarrow>
          (case hub_download h spec True of
             Inl e \<Rightarrow>
               if caught ''ImportError'' e \<or> \<not> caught ''Exception'' e then Raise (e, None)
               else if is_config_error (e ! 0) then Raise (e, Some (sp_repo_id spec))
               else Ok (missing_row spec)
           | Inr path \<Rightarrow> check_folder h spec path))"

section \<open>The download\<close>

text \<open>\<open>x or y\<close> for the sizes and names of an LFS entry.\<close>

definition lfs_size :: "tree_entry \<Rightarrow> nat \<Rightarrow> nat" where
  "lfs_size e d = (case te_lfs e of Some (Some k, s) \<Rightarrow> if k \<noteq> 0 then k else d | _ \<Rightarrow> d)"

definition lfs_blob :: "tree_entry \<Rightarrow> string option" where
  "lfs_blob e = (case te_lfs e of Some (k, Some s) \<Rightarrow> if s \<noteq> [] then Some s else te_blob_id e | _ \<Rightarrow> te_blob_id e)"

definition allowed_file :: "snapshot_spec \<Rightarrow> string \<Rightarrow> bool" where
  "allowed_file spec path =
     (case sp_allow_patterns spec of
        None \<Rightarrow> True | Some ps \<Rightarrow> ps = [] \<or> list_ex (fnmatch path) ps)"

definition remote_files :: "hub \<Rightarrow> snapshot_spec \<Rightarrow> store + (string \<times> nat \<times> string option) list" where
  "remote_files h spec =
     bind_result (hub_tree h spec) (\<lambda>es. Ok (concat (map (\<lambda>e.
       case te_size e of
         None \<Rightarrow> []
       | Some sz \<Rightarrow> if allowed_file spec (te_path e) then [(te_path e, lfs_size e sz, lfs_blob e)] else []) es)))"

definition pending_files :: "hub \<Rightarrow> string \<Rightarrow> (string \<times> nat \<times> string option) list \<Rightarrow> (nat \<times> string option) list" where
  "pending_files h repo remote =
     map (\<lambda>(p, sz, b). (sz, b))
       (filter (\<lambda>(p, sz, b). \<not> (case b of None \<Rightarrow> False | Some i \<Rightarrow> i \<noteq> [] \<and> hub_blob h 0 repo i)) remote)"

fun measure_files :: "hub \<Rightarrow> nat \<Rightarrow> string \<Rightarrow> (nat \<times> string option) list \<Rightarrow> nat \<times> nat" where
  "measure_files h t repo [] = (0, 0)"
| "measure_files h t repo ((sz, b) # fs) =
     (let (got, n) = measure_files h t repo fs
      in case b of
           None \<Rightarrow> (got, n)
         | Some i \<Rightarrow>
             if hub_blob h t repo i then (sz + got, Suc n)
             else (case hub_partial h t repo i of None \<Rightarrow> (got, n) | Some k \<Rightarrow> (min sz k + got, n)))"

text \<open>The progress of one snapshot: what the thread reports, and the last event.\<close>

definition total_bytes :: "(nat \<times> string option) list \<Rightarrow> nat" where
  "total_bytes pending = sum_list (map fst pending)"

definition report_at :: "hub \<Rightarrow> snapshot_spec \<Rightarrow> (nat \<times> string option) list \<Rightarrow> nat \<Rightarrow> pf_event" where
  "report_at h spec pending t =
     (let (got, n) = measure_files h t (sp_repo_id spec) pending
      in Progress (sp_repo_id spec) got (total_bytes pending) n (length pending))"

definition reports :: "hub \<Rightarrow> snapshot_spec \<Rightarrow> (nat \<times> string option) list \<Rightarrow> pf_event list" where
  "reports h spec pending = map (report_at h spec pending) (hub_ticks h spec)"

definition late_report :: "hub \<Rightarrow> snapshot_spec \<Rightarrow> (nat \<times> string option) list \<Rightarrow> emission list" where
  "late_report h spec pending =
     (case hub_late h spec of None \<Rightarrow> [] | Some t \<Rightarrow> [Behind (report_at h spec pending t)])"

definition final_report :: "snapshot_spec \<Rightarrow> (nat \<times> string option) list \<Rightarrow> pf_event" where
  "final_report spec pending =
     Progress (sp_repo_id spec) (total_bytes pending) (total_bytes pending) (length pending) (length pending)"

text \<open>A snapshot that is on disk: checked, then done.\<close>

definition finish_fetch ::
  "hub \<Rightarrow> bool \<Rightarrow> snapshot_spec \<Rightarrow> string \<Rightarrow> pf_event list \<Rightarrow> pf_event list \<times> (store + string \<times> nat)" where
  "finish_fetch h emit spec path last_report =
     (case validated h spec path of
        Inl e \<Rightarrow> ([], Raise e)
      | Inr s \<Rightarrow>
          (if emit then last_report @ [Fetched (sp_repo_id spec) path (snapshot_size h path)] else [],
           Ok (path, snapshot_size h path)))"

text \<open>The thread is stopped and joined, however the download ended; what it still holds is left behind.\<close>

definition fetch_remote :: "hub \<Rightarrow> bool \<Rightarrow> snapshot_spec \<Rightarrow> emission list \<times> (store + string \<times> nat)" where
  "fetch_remote h emit spec =
     (case (if emit then in_download (remote_files h spec) else Ok []) of
        Inl e \<Rightarrow> ([], Raise e)
      | Inr remote \<Rightarrow>
          let pending = pending_files h (sp_repo_id spec) remote;
              evs = (if emit then map Out (reports h spec pending) @ late_report h spec pending else [])
          in case in_download (hub_download h spec False) of
               Inl e \<Rightarrow> (evs, Raise e)
             | Inr path \<Rightarrow>
                 let (more, r) = finish_fetch h emit spec path [final_report spec pending] in (evs @ map Out more, r))"

text \<open>The first download of a repository that names its files: its \<open>config.json\<close> only.\<close>

definition config_only :: "snapshot_spec \<Rightarrow> snapshot_spec" where
  "config_only spec = spec\<lparr>sp_allow_patterns := Some [''config.json''], sp_required := [], sp_resolve := False\<rparr>"

definition resolve_remote :: "hub \<Rightarrow> snapshot_spec \<Rightarrow> store + snapshot_spec" where
  "resolve_remote h spec =
     (if \<not> sp_resolve spec then Ok spec
      else case in_download (hub_download h (config_only spec) False) of
        Inl e \<Rightarrow> Raise e
      | Inr path \<Rightarrow> (case resolved h spec path of Inl e \<Rightarrow> Raise (invalid e) | Inr s \<Rightarrow> Ok s))"

definition fetch_spec :: "hub \<Rightarrow> bool \<Rightarrow> snapshot_spec \<Rightarrow> emission list \<times> (store + string \<times> nat)" where
  "fetch_spec h emit spec =
     (let evs = (if emit then [Out (Start (sp_repo_id spec) (sp_revision spec) (sp_kind spec))] else []);
          (more, r) =
            (case sp_local_path spec of
               Some path \<Rightarrow>
                 if \<not> hub_is_dir h path
                 then ([], Raise (invalid (file_not_found (''local model directory does not exist: '' @ path))))
                 else (let (more, r) = finish_fetch h emit spec path [] in (map Out more, r))
             | None \<Rightarrow>
                 (case resolve_remote h spec of Inl e \<Rightarrow> ([], Raise e) | Inr s \<Rightarrow> fetch_remote h emit s))
      in (evs @ more, r))"

section \<open>The command\<close>

fun fetch_all :: "hub \<Rightarrow> bool \<Rightarrow> snapshot_spec list \<Rightarrow> nat \<Rightarrow> emission list \<times> (raised + nat)" where
  "fetch_all h emit [] sofar = ([], Ok sofar)"
| "fetch_all h emit (spec # specs) sofar =
     (case fetch_spec h emit spec of
        (evs, Inl e) \<Rightarrow>
          (evs, Raise (e, if caught ''ImportError'' e \<or> \<not> caught ''Exception'' e then None else Some (sp_repo_id spec)))
      | (evs, Inr (path, sz)) \<Rightarrow>
          let (more, r) = fetch_all h emit specs (sofar + sz) in (evs @ more, r))"

definition run_fetch :: "hub \<Rightarrow> bool \<Rightarrow> string \<Rightarrow> string option \<Rightarrow> snapshot_spec list \<Rightarrow> emission list \<times> (raised + nat)" where
  "run_fetch h emit backend model specs =
     (case fetch_all h emit specs 0 of
        (evs, Inl e) \<Rightarrow> (evs, Raise e)
      | (evs, Inr n_bytes) \<Rightarrow> (evs @ (if emit then [Out (Complete backend model n_bytes)] else []), Ok 0))"

fun check_all :: "hub \<Rightarrow> snapshot_spec list \<Rightarrow> raised + check_row list" where
  "check_all h [] = Ok []"
| "check_all h (spec # specs) =
     bind_result (check_spec h spec) (\<lambda>r. bind_result (check_all h specs) (\<lambda>rs. Ok (r # rs)))"

definition run_check :: "hub \<Rightarrow> bool \<Rightarrow> string \<Rightarrow> string option \<Rightarrow> snapshot_spec list \<Rightarrow> emission list \<times> (raised + nat)" where
  "run_check h emit backend model specs =
     (case check_all h specs of
        Inl e \<Rightarrow> ([], Raise e)
      | Inr rows \<Rightarrow>
          (if emit then map Out (map Check rows @ [Summary backend model (list_all cr_cached rows) (sum_list (map cr_size rows))])
           else [], Ok 0))"

text \<open>\<open>None\<close>: an exception that is no \<open>Exception\<close> leaves the command. The texts printed without
  \<open>--json\<close> are not modelled.\<close>

definition run_prefetch ::
  "hub \<Rightarrow> (string \<Rightarrow> bool) \<Rightarrow> (string \<Rightarrow> bool) \<Rightarrow> (string \<Rightarrow> string) \<Rightarrow> int \<Rightarrow> string \<Rightarrow> string option \<Rightarrow> bool \<Rightarrow> bool \<Rightarrow>
   (emission list \<times> nat) option" where
  "run_prefetch h importable exists expanduser in_use backend model check json_mode =
     (let specs = (case model of
            Some m \<Rightarrow> if m \<noteq> [] \<and> is_local_model exists m then local_specs_for importable expanduser backend m
                      else specs_for importable backend model
          | None \<Rightarrow> specs_for importable backend model);
          (evs, r) = (case specs of
            Inl e \<Rightarrow> ([], Raise (e, None))
          | Inr ss \<Rightarrow> if check then run_check h json_mode backend model ss else run_fetch h json_mode backend model ss)
      in case r of
           Inr code \<Rightarrow> Some (evs, code)
         | Inl (e, repo) \<Rightarrow>
             if \<not> caught ''Exception'' e then None
             else
               let (code, message) = classify_startup_error in_use e 0;
                   m = (if code = CODE_MODULE_NOT_FOUND
                        then message @ '' (prefetch needs huggingface_hub, which every model extra installs)'' else message)
               in Some (evs @ (if json_mode then [Out (Failure (code_text code) m repo)] else []), 1))"
section \<open>Patterns and names\<close>

lemma fnmatch_literal:
  "list_all (\<lambda>c. c \<notin> {CHR ''*'', CHR ''?'', CHR ''[''}) p \<Longrightarrow> fnmatch n p \<longleftrightarrow> n = p"
proof (induction p arbitrary: n)
  case (Cons c cs)
  then show ?case by (cases n) (auto simp: fnmatch_simps)
qed (simp add: fnmatch_simps)

lemma plain_name_literal:
  "plain_filename (JStr n) \<Longrightarrow> list_all (\<lambda>c. c \<notin> {CHR ''*'', CHR ''?'', CHR ''[''}) n"
  by (auto simp: plain_filename_def list_all_iff)

text \<open>What a folder must hold for a spec: a file for every required entry; when the names come from the
  repository's configuration, the named files themselves.\<close>

definition holds_snapshot :: "hub \<Rightarrow> snapshot_spec \<Rightarrow> string \<Rightarrow> bool" where
  "holds_snapshot h spec path \<longleftrightarrow>
     (if sp_resolve spec then
        (\<exists>config names. hub_config h path = Ok config \<and> weight_files config = Ok names \<and>
           set names \<subseteq> fst ` set (hub_files h path))
      else \<forall>entry \<in> set (sp_required spec). \<exists>alt \<in> set entry. \<exists>n \<in> fst ` set (hub_files h path). fnmatch n alt)"

lemma weight_files_checked:
  assumes "weight_files config = Ok names"
  shows "check_plain_filenames (map JStr names) = Ok names" "list_all (\<lambda>n. plain_filename (JStr n)) names"
proof -
  obtain js where "check_plain_filenames js = Ok names" using assms
    by (auto simp: weight_files_def simp del: check_plain_filenames.simps split: json.splits option.splits sum.splits)
  then show "check_plain_filenames (map JStr names) = Ok names" "list_all (\<lambda>n. plain_filename (JStr n)) names"
    using check_names by blast+
qed

lemma resolved_complete:
  assumes "resolved h spec path = Ok s"
  shows "snapshot_complete h path (sp_required s) \<longleftrightarrow> holds_snapshot h spec path"
proof (cases "sp_resolve spec")
  case False
  then have "s = spec" using assms by (simp add: resolved_def)
  then show ?thesis using False by (fastforce simp: holds_snapshot_def snapshot_complete_def list_all_iff list_ex_iff)
next
  case True
  then obtain config names where c: "hub_config h path = Ok config" "weight_files config = Ok names"
    "sp_required s = map (\<lambda>n. [n]) names"
    using assms weight_files_checked by (fastforce simp: resolved_def split: sum.splits)
  then have "fnmatch f n \<longleftrightarrow> f = n" if "n \<in> set names" for f n
    using fnmatch_literal [OF plain_name_literal] weight_files_checked(2) [OF c(2)] that by (auto simp: list_all_iff)
  then have "snapshot_complete h path (sp_required s) \<longleftrightarrow> set names \<subseteq> fst ` set (hub_files h path)"
    by (force simp: snapshot_complete_def c(3) list_all_iff list_ex_iff)
  then show ?thesis using True c by (simp add: holds_snapshot_def)
qed

lemma resolved_Ok: "holds_snapshot h spec path \<Longrightarrow> \<exists>s. resolved h spec path = Ok s"
  using weight_files_checked by (cases "sp_resolve spec") (fastforce simp: holds_snapshot_def resolved_def)+

lemma check_folder_iff:
  assumes "check_folder h spec path = Ok r"
  shows "(cr_cached r \<longleftrightarrow> holds_snapshot h spec path) \<and>
    (cr_cached r \<longrightarrow> cr_path r = Some path \<and> cr_size r = snapshot_size h path)"
proof (cases "resolved h spec path")
  case (Inl e)
  then have "r = missing_row spec" using assms by (auto simp: check_folder_def split: if_splits)
  then show ?thesis using Inl resolved_Ok [of h spec path] by (auto simp: missing_row_def)
next
  case (Inr s)
  then show ?thesis using assms resolved_complete [OF Inr] by (auto simp: check_folder_def missing_row_def split: if_splits)
qed

section \<open>What \<open>prefetch\<close> promises\<close>

text \<open>Where a snapshot is looked for without the network.\<close>

definition offline_folder :: "hub \<Rightarrow> snapshot_spec \<Rightarrow> string option" where
  "offline_folder h spec =
     (case sp_local_path spec of
        Some p \<Rightarrow> if hub_is_dir h p then Some p else None
      | None \<Rightarrow> (case hub_download h spec True of Inr p \<Rightarrow> Some p | Inl e \<Rightarrow> None))"

text \<open>The offline probe is exact: a snapshot is reported as cached if and only if its folder is there
  and holds everything the backend loads: a file for each required pattern, or, when the names come
  from the repository's own \<open>config.json\<close>, exactly the files that configuration names (never a
  file that merely matches such a name read as a pattern).\<close>

theorem check_cached_iff:
  assumes "check_spec h spec = Ok r"
  shows "(cr_cached r \<longleftrightarrow> (\<exists>p. offline_folder h spec = Some p \<and> holds_snapshot h spec p)) \<and>
    (cr_cached r \<longrightarrow> cr_path r = offline_folder h spec \<and> cr_size r = snapshot_size h (the (cr_path r)))"
proof (cases "offline_folder h spec")
  case None
  then have "r = missing_row spec" using assms
    by (auto simp: check_spec_def offline_folder_def split: option.splits sum.splits if_splits)
  then show ?thesis using None by (simp add: missing_row_def)
next
  case (Some p)
  then have "check_folder h spec p = Ok r" using assms
    by (auto simp: check_spec_def offline_folder_def split: option.splits sum.splits if_splits)
  then show ?thesis using check_folder_iff Some by auto
qed

lemma measure_bounded:
  "fst (measure_files h t repo fs) \<le> total_bytes fs \<and> snd (measure_files h t repo fs) \<le> length fs"
  by (induction h t repo fs rule: measure_files.induct)
    (auto simp: total_bytes_def case_prod_beta Let_def min_def split: option.split)

fun progress_ok :: "pf_event \<Rightarrow> bool" where
  "progress_ok (Progress repo got all_b n_done n_files) = (got \<le> all_b \<and> n_done \<le> n_files)"
| "progress_ok e = True"

lemma finish_fetch_shape:
  "finish_fetch h True spec path last_report = (evs, r) \<Longrightarrow>
     (case r of
        Inl e \<Rightarrow> evs = []
      | Inr (p, sz) \<Rightarrow> p = path \<and> sz = snapshot_size h path \<and> holds_snapshot h spec path \<and>
          evs = last_report @ [Fetched (sp_repo_id spec) path sz])"
  using resolved_complete [of h spec path]
  by (auto simp: finish_fetch_def validated_def split: sum.splits if_splits)

text \<open>A hub with one plain snapshot in its cache.\<close>

definition toy_spec :: snapshot_spec where
  "toy_spec = \<lparr>sp_repo_id = ''r'', sp_revision = None, sp_allow_patterns = None, sp_required = [[''*.bin'']],
     sp_kind = ''model'', sp_local_path = None, sp_resolve = False\<rparr>"

definition toy_hub :: hub where
  "toy_hub = \<lparr>hub_download = (\<lambda>s b. Ok ''/c''),
     hub_tree = (\<lambda>s. Ok [\<lparr>te_path = ''w.bin'', te_size = Some 7, te_lfs = None, te_blob_id = Some ''b''\<rparr>]),
     hub_config = (\<lambda>p. Raise (file_not_found ''config.json'')), hub_is_dir = (\<lambda>p. True),
     hub_files = (\<lambda>p. [(''w.bin'', Some 7)]), hub_blob = (\<lambda>t r i. False),
     hub_partial = (\<lambda>t r i. Some 9), hub_ticks = (\<lambda>s. [1]),
     hub_late = (\<lambda>s. Some 1)\<rparr>"

lemma toy_complete: "snapshot_complete toy_hub ''/c'' [[''*.bin'']]" "snapshot_size toy_hub ''/c'' = 7"
  by (simp_all add: snapshot_complete_def snapshot_size_def toy_hub_def fnmatch_simps)

lemma toy_resolved: "resolved toy_hub toy_spec p = Ok toy_spec" "validated toy_hub toy_spec ''/c'' = Ok toy_spec"
  using toy_complete by (simp_all add: resolved_def validated_def toy_spec_def)

lemma toy_fields: "hub_download toy_hub s b = Ok ''/c''" "sp_local_path toy_spec = None"
  "sp_required toy_spec = [[''*.bin'']]" "sp_resolve toy_spec = False" "sp_repo_id toy_spec = ''r''"
  by (simp_all add: toy_hub_def toy_spec_def)

lemma toy_check: "check_spec toy_hub toy_spec =
   Ok ((missing_row toy_spec)\<lparr>cr_cached := True, cr_path := Some ''/c'', cr_size := 7\<rparr>)"
  by (simp add: check_spec_def check_folder_def toy_complete toy_resolved toy_fields)

theorem check_cached_iff_witness: "\<exists>p. offline_folder toy_hub toy_spec = Some p \<and> holds_snapshot toy_hub toy_spec p"
  using check_cached_iff [OF toy_check] by auto

fun is_fetched :: "pf_event \<Rightarrow> bool" where
  "is_fetched (Fetched repo path n) = True"
| "is_fetched e = False"

fun fetched_bytes :: "pf_event \<Rightarrow> nat" where
  "fetched_bytes (Fetched repo path n) = n"
| "fetched_bytes e = 0"

fun is_failure :: "pf_event \<Rightarrow> bool" where
  "is_failure (Failure c m repo) = True"
| "is_failure e = False"

fun is_progress :: "pf_event \<Rightarrow> bool" where
  "is_progress (Progress repo got all_b n_done n_files) = True"
| "is_progress e = False"

lemma report_ok: "progress_ok (report_at h spec pending t) \<and> is_progress (report_at h spec pending t)"
proof -
  obtain got n where "measure_files h t (sp_repo_id spec) pending = (got, n)" by fastforce
  then show ?thesis using measure_bounded [of h t "sp_repo_id spec" pending] by (simp add: report_at_def)
qed

lemma progress_kinds: "is_progress e \<Longrightarrow> \<not> is_fetched e \<and> \<not> is_failure e \<and> fetched_bytes e = 0"
  by (cases e) auto

lemma progress_only: "list_all is_progress es \<Longrightarrow> \<not> list_ex is_fetched es \<and> \<not> list_ex is_failure es"
  using progress_kinds by (auto simp: list_all_iff list_ex_iff)

section \<open>What the reader may see\<close>

lemma outs_simps [simp]:
  "outs (a @ b) = outs a @ outs b" "outs (map Out es) = es" "outs (map Behind es) = []"
  "left_over (a @ b) = left_over a @ left_over b" "left_over (map Out es) = []" "left_over (map Behind es) = es"
proof -
  show "outs (a @ b) = outs a @ outs b" by (induction a rule: outs.induct) simp_all
  show "left_over (a @ b) = left_over a @ left_over b" by (induction a rule: left_over.induct) simp_all
  show "outs (map Out es) = es" "outs (map Behind es) = []" "left_over (map Out es) = []" "left_over (map Behind es) = es"
    by (induction es) simp_all
qed

lemma delivered_out: "delivered (map Out a @ tr) [] zs \<Longrightarrow> \<exists>ys. zs = a @ ys \<and> delivered tr [] ys"
proof (induction a arbitrary: zs)
  case (Cons e a)
  then show ?case by (cases zs) auto
qed simp

lemma delivered_plain: "delivered (map Out a) [] zs \<Longrightarrow> zs = a"
proof -
  assume "delivered (map Out a) [] zs"
  then obtain ys where "zs = a @ ys" "delivered [] [] ys" using delivered_out [of a "[]"] by auto
  then show ?thesis by (cases ys) auto
qed

lemma delivered_late: "delivered (map Out b) [x] zs \<Longrightarrow> zs = b \<or> (\<exists>b1 b2. b = b1 @ b2 \<and> zs = b1 @ x # b2)"
proof (induction b arbitrary: zs)
  case Nil
  show ?case
  proof (cases zs)
    case (Cons y ys)
    then have "y = x" "ys = []" using Nil by (auto dest: delivered_plain [of "[]", simplified])
    then show ?thesis using Cons by simp
  qed simp
next
  case (Cons e b)
  obtain y ys where z: "zs = y # ys" using Cons.prems by (cases zs) auto
  consider "y = x" "delivered (map Out (e # b)) [] ys" | "y = e" "delivered (map Out b) [x] ys"
    using Cons.prems unfolding z by auto
  then show ?case
  proof cases
    case 1
    then show ?thesis using delivered_plain [OF 1(2)] z by (intro disjI2 exI [of _ "[]"] exI [of _ "e # b"]) simp
  next
    case 2
    from Cons.IH [OF 2(2)] show ?thesis
    proof
      assume "ys = b"
      then show ?thesis using z 2(1) by simp
    next
      assume "\<exists>b1 b2. b = b1 @ b2 \<and> ys = b1 @ x # b2"
      then obtain b1 b2 where "b = b1 @ b2" "ys = b1 @ x # b2" by blast
      then show ?thesis using z 2(1) by (intro disjI2 exI [of _ "e # b1"] exI [of _ b2]) simp
    qed
  qed
qed

text \<open>Events, then at most one thread left behind, then more events.\<close>

lemma delivered_shape:
  assumes "delivered (map Out a @ map Behind l @ map Out b) [] zs" "length l \<le> 1"
  shows "zs = a @ b \<or> (\<exists>x b1 b2. l = [x] \<and> b = b1 @ b2 \<and> zs = a @ b1 @ x # b2)"
proof -
  obtain ys where y: "zs = a @ ys" "delivered (map Behind l @ map Out b) [] ys" using delivered_out [OF assms(1)] by blast
  show ?thesis
  proof (cases l)
    case Nil
    then show ?thesis using y delivered_plain [of b ys] by simp
  next
    case (Cons x l')
    then have l: "l = [x]" using assms(2) by simp
    show ?thesis
    proof (cases ys)
      case Nil
      then show ?thesis using y l by simp
    next
      case (Cons z ys')
      then have "delivered (map Out b) [x] ys" using y(2) l by simp
      then show ?thesis using delivered_late [of b x ys] y(1) l by auto
    qed
  qed
qed

lemma sum_no_fetched: "\<not> list_ex is_fetched evs \<Longrightarrow> sum_list (map fetched_bytes evs) = 0"
proof (induction evs)
  case (Cons e evs)
  then show ?case by (cases e) auto
qed simp

text \<open>What the folder of a download has been checked for: the resolved names, when the repository
  names its files.\<close>

definition fetched_holds :: "hub \<Rightarrow> snapshot_spec \<Rightarrow> string \<Rightarrow> bool" where
  "fetched_holds h spec path \<longleftrightarrow>
     (case sp_local_path spec of
        Some p \<Rightarrow> path = p \<and> holds_snapshot h spec path
      | None \<Rightarrow> (\<exists>s. resolve_remote h spec = Ok s \<and> hub_download h s False = Ok path \<and> holds_snapshot h s path))"

lemma in_download_Ok: "in_download r = Ok x \<longleftrightarrow> r = Ok x"
  by (auto simp: in_download_def split: sum.splits)

lemma resolve_remote_keeps:
  "resolve_remote h spec = Ok s \<Longrightarrow> sp_repo_id s = sp_repo_id spec \<and> sp_revision s = sp_revision spec \<and> sp_kind s = sp_kind spec"
  by (auto simp: resolve_remote_def resolved_def split: if_splits sum.splits)

text \<open>The shape of a download: events \<open>a\<close> while it runs, the thread left behind, and the end of a success.\<close>

definition download_shape :: "hub \<Rightarrow> string \<Rightarrow> emission list \<Rightarrow> pf_event list \<Rightarrow> bool" where
  "download_shape h repo tr b \<longleftrightarrow>
     (\<exists>a l. tr = map Out a @ map Behind l @ map Out b \<and> length l \<le> 1 \<and> ((\<forall>s. hub_late h s = None) \<longrightarrow> l = []) \<and>
        list_all progress_ok (a @ l) \<and> list_all is_progress (a @ l))"

lemma download_shape_none: "download_shape h repo (map Out b) b"
  unfolding download_shape_def by (intro exI [of _ "[]"]) simp

lemma download_shape_reports:
  "download_shape h repo (map Out (reports h s p) @ late_report h s p @ map Out b) b"
proof -
  obtain l where l: "late_report h s p = map Behind l" "length l \<le> 1" "(\<forall>s. hub_late h s = None) \<longrightarrow> l = []"
    "list_all progress_ok l" "list_all is_progress l"
  proof (cases "hub_late h s")
    case None
    then show ?thesis using that [of "[]"] by (simp add: late_report_def)
  next
    case (Some t)
    then show ?thesis using that [of "[report_at h s p t]"] report_ok by (auto simp: late_report_def)
  qed
  have "list_all progress_ok (reports h s p)" "list_all is_progress (reports h s p)"
    using report_ok by (auto simp: reports_def list_all_iff)
  then show ?thesis unfolding download_shape_def using l by (intro exI [of _ "reports h s p"] exI [of _ l]) simp
qed

lemma fetch_remote_shape:
  assumes "fetch_remote h True s = (tr, r)"
  shows "case r of
      Inl e \<Rightarrow> download_shape h (sp_repo_id s) tr []
    | Inr (path, sz) \<Rightarrow> hub_download h s False = Ok path \<and> holds_snapshot h s path \<and> sz = snapshot_size h path \<and>
        (\<exists>n k. download_shape h (sp_repo_id s) tr [Progress (sp_repo_id s) n n k k, Fetched (sp_repo_id s) path sz])"
proof (cases "in_download (remote_files h s)")
  case (Inl e)
  then show ?thesis using assms download_shape_none [of h "sp_repo_id s" "[]"] by (auto simp: fetch_remote_def)
next
  case r: (Inr remote)
  let ?p = "pending_files h (sp_repo_id s) remote"
  show ?thesis
  proof (cases "in_download (hub_download h s False)")
    case (Inl e)
    then show ?thesis using assms r download_shape_reports [of h "sp_repo_id s" s ?p "[]"]
      by (auto simp: fetch_remote_def Let_def)
  next
    case (Inr path)
    obtain more r' where f: "finish_fetch h True s path [final_report s ?p] = (more, r')" by fastforce
    have e: "tr = map Out (reports h s ?p) @ late_report h s ?p @ map Out more" "r = r'"
      using assms r Inr f by (auto simp: fetch_remote_def Let_def)
    have d: "hub_download h s False = Ok path" using Inr by (simp add: in_download_Ok)
    note shape = download_shape_reports [of h "sp_repo_id s" s ?p more, folded e(1)]
    show ?thesis
    proof (cases r')
      case i: (Inl e)
      then show ?thesis using finish_fetch_shape [OF f] e(2) shape by simp
    next
      case i: (Inr y)
      obtain p sz where y: "y = (p, sz)" by fastforce
      have g: "p = path" "sz = snapshot_size h path" "holds_snapshot h s path"
        "more = [final_report s ?p, Fetched (sp_repo_id s) path sz]"
        using finish_fetch_shape [OF f] i y by auto
      show ?thesis using g d shape unfolding e(2) i y by (auto simp: final_report_def)
    qed
  qed
qed

definition start_event :: "snapshot_spec \<Rightarrow> pf_event" where
  "start_event spec = Start (sp_repo_id spec) (sp_revision spec) (sp_kind spec)"

lemma fetch_spec_shape:
  assumes "fetch_spec h True spec = (tr, r)"
  shows "\<exists>more. tr = Out (start_event spec) # more \<and>
    (case r of
       Inl e \<Rightarrow> download_shape h (sp_repo_id spec) more []
     | Inr (path, sz) \<Rightarrow> fetched_holds h spec path \<and> sz = snapshot_size h path \<and>
         (\<exists>full. download_shape h (sp_repo_id spec) more (full @ [Fetched (sp_repo_id spec) path sz]) \<and>
            (if sp_local_path spec = None then \<exists>n k. full = [Progress (sp_repo_id spec) n n k k] else full = [])))"
proof (cases "sp_local_path spec")
  case (Some p)
  show ?thesis
  proof (cases "hub_is_dir h p")
    case False
    then show ?thesis using assms Some download_shape_none [of h "sp_repo_id spec" "[]"]
      by (auto simp: fetch_spec_def start_event_def)
  next
    case True
    obtain more r' where f: "finish_fetch h True spec p [] = (more, r')" by fastforce
    have e: "tr = Out (start_event spec) # map Out more" "r = r'"
      using assms Some True f by (auto simp: fetch_spec_def start_event_def)
    show ?thesis using finish_fetch_shape [OF f] Some download_shape_none [of h "sp_repo_id spec" more] unfolding e
      by (cases r') (auto simp: fetched_holds_def)
  qed
next
  case None
  show ?thesis
  proof (cases "resolve_remote h spec")
    case (Inl e)
    then show ?thesis using assms None download_shape_none [of h "sp_repo_id spec" "[]"]
      by (auto simp: fetch_spec_def start_event_def)
  next
    case (Inr s)
    obtain more r' where f: "fetch_remote h True s = (more, r')" by fastforce
    have e: "tr = Out (start_event spec) # more" "r = r'"
      using assms None Inr f by (auto simp: fetch_spec_def start_event_def)
    have k: "sp_repo_id s = sp_repo_id spec" using resolve_remote_keeps [OF Inr] by simp
    note g = fetch_remote_shape [OF f, unfolded k]
    show ?thesis
    proof (cases r')
      case i: (Inl x)
      then show ?thesis using g unfolding e by simp
    next
      case i: (Inr y)
      obtain path sz where y: "y = (path, sz)" by fastforce
      obtain n q where m: "download_shape h (sp_repo_id spec) more [Progress (sp_repo_id spec) n n q q, Fetched (sp_repo_id spec) path sz]"
        "hub_download h s False = Ok path" "holds_snapshot h s path" "sz = snapshot_size h path" using g unfolding i y by auto
      then show ?thesis using None Inr unfolding e i y
        by (auto simp: fetched_holds_def intro!: exI [of _ "[Progress (sp_repo_id spec) n n q q]"])
    qed
  qed
qed

lemma download_seen:
  assumes "download_shape h repo tr b" "delivered tr [] zs" "list_all progress_ok b" "\<not> list_ex is_fetched b"
  shows "list_all progress_ok zs \<and> \<not> list_ex is_fetched zs"
proof -
  obtain a l where s: "tr = map Out a @ map Behind l @ map Out b" "length l \<le> 1"
    "list_all progress_ok (a @ l)" "list_all is_progress (a @ l)"
    using assms(1) by (auto simp: download_shape_def)
  show ?thesis
    using delivered_shape [OF assms(2) [unfolded s(1)] s(2)] s(3) progress_only [OF s(4)] assms(3,4) by auto
qed

text \<open>Where the done event stands in an output.\<close>

definition done_once :: "hub \<Rightarrow> string \<Rightarrow> bool \<Rightarrow> pf_event list \<Rightarrow> pf_event list \<Rightarrow> pf_event list \<Rightarrow> bool" where
  "done_once h repo remote earlier late after \<longleftrightarrow>
     \<not> list_ex is_fetched earlier \<and> list_all is_progress (late @ after) \<and> length (late @ after) \<le> 1 \<and>
     ((\<forall>s. hub_late h s = None) \<longrightarrow> late @ after = []) \<and>
     (remote \<longrightarrow> earlier \<noteq> [] \<and> (\<exists>n k. last earlier = Progress repo n n k k))"

lemma download_done:
  assumes "download_shape h repo tr (full @ [Fetched repo path sz])" "delivered tr [] zs"
    and "if remote then \<exists>n k. full = [Progress repo n n k k] else full = []"
  shows "list_all progress_ok zs \<and>
    (\<exists>earlier late after. zs = earlier @ late @ Fetched repo path sz # after \<and> done_once h repo remote earlier late after)"
proof -
  obtain a l where s: "tr = map Out a @ map Behind l @ map Out (full @ [Fetched repo path sz])" "length l \<le> 1"
    "(\<forall>s. hub_late h s = None) \<longrightarrow> l = []" "list_all progress_ok (a @ l)" "list_all is_progress (a @ l)"
    using assms(1) unfolding download_shape_def by blast
  have f: "list_all progress_ok full" "\<not> list_ex is_fetched full" using assms(3) by (auto split: if_splits)
  have a: "\<not> list_ex is_fetched a" "list_all progress_ok a" using progress_only [of a] s(4,5) by auto
  have e: "remote \<longrightarrow> full \<noteq> [] \<and> (\<exists>n k. last full = Progress repo n n k k)" using assms(3) by (auto split: if_splits)
  consider "zs = a @ full @ [Fetched repo path sz]"
    | x b1 b2 where "l = [x]" "full @ [Fetched repo path sz] = b1 @ b2" "zs = a @ b1 @ x # b2"
    using delivered_shape [OF assms(2) [unfolded s(1)] s(2)] by blast
  then show ?thesis
  proof cases
    case 1
    have "done_once h repo remote (a @ full) [] []" using a f e by (auto simp: done_once_def)
    moreover have "zs = (a @ full) @ [] @ Fetched repo path sz # []" using 1 by simp
    moreover have "list_all progress_ok zs" using 1 a f by simp
    ultimately show ?thesis by blast
  next
    case x: 2
    have p: "is_progress x" "progress_ok x" "\<not> is_fetched x" "\<not> (\<forall>s. hub_late h s = None)"
      using s(3-5) x(1) progress_kinds by auto
    have ok: "list_all progress_ok zs"
    proof -
      have "list_all progress_ok (b1 @ b2)" using f unfolding x(2) [symmetric] by simp
      then show ?thesis using a p x(3) by simp
    qed
    consider late after where "zs = (a @ full) @ late @ Fetched repo path sz # after" "late @ after = [x]"
      | "zs = (a @ x # full) @ [] @ Fetched repo path sz # []"
    proof (cases b2 rule: rev_cases)
      case Nil
      then show ?thesis using that(1) [of "[]" "[x]"] x by simp
    next
      case (snoc b2' y)
      then have y: "y = Fetched repo path sz" "full = b1 @ b2'" using x(2) by simp_all
      show ?thesis
      proof (cases "b2' = []")
        case True
        then show ?thesis using that(1) [of "[x]" "[]"] x(3) y snoc by simp
      next
        case False
        then have "b1 = []" using y(2) assms(3) by (cases b1) (auto split: if_splits)
        then show ?thesis using that(2) x(3) y snoc by simp
      qed
    qed
    then show ?thesis
    proof cases
      case 1
      have "done_once h repo remote (a @ full) late after" using a f e p 1(2) by (auto simp: done_once_def)
      then show ?thesis using ok 1(1) by blast
    next
      case 2
      have "done_once h repo remote (a @ x # full) [] []" using a f e p by (auto simp: done_once_def)
      then show ?thesis using ok 2 by blast
    qed
  qed
qed

lemma toy_fetch: "fetch_spec toy_hub True toy_spec =
   ([Out (Start ''r'' None ''model''), Out (Progress ''r'' 7 7 0 1), Behind (Progress ''r'' 7 7 0 1), Out (Progress ''r'' 7 7 1 1),
     Out (Fetched ''r'' ''/c'' 7)], Ok (''/c'', 7))"
proof -
  have rf: "remote_files toy_hub toy_spec = Ok [(''w.bin'', 7, Some ''b'')]"
    by (simp add: remote_files_def toy_hub_def toy_spec_def allowed_file_def lfs_size_def lfs_blob_def)
  have p: "pending_files toy_hub ''r'' [(''w.bin'', 7, Some ''b'')] = [(7, Some ''b'')]"
    by (simp add: pending_files_def toy_hub_def)
  have m: "report_at toy_hub toy_spec [(7, Some ''b'')] 1 = Progress ''r'' 7 7 0 1"
    by (simp add: report_at_def toy_hub_def toy_spec_def total_bytes_def)
  have r: "reports toy_hub toy_spec [(7, Some ''b'')] = [Progress ''r'' 7 7 0 1]"
    "late_report toy_hub toy_spec [(7, Some ''b'')] = [Behind (Progress ''r'' 7 7 0 1)]"
    using m by (simp_all add: reports_def late_report_def toy_hub_def)
  have k: "sp_revision toy_spec = None" "sp_kind toy_spec = ''model''" by (simp_all add: toy_spec_def)
  show ?thesis
    by (simp add: fetch_spec_def resolve_remote_def fetch_remote_def finish_fetch_def in_download_def final_report_def
        total_bytes_def toy_fields toy_resolved toy_complete rf p r k Let_def)
qed

text \<open>C22: a download reports honestly, in every output a reader may see. It starts with the start event; every progress
  event has at most the total bytes and at most the total files; the snapshot is reported as done only when it
  succeeded, once, with a folder that holds everything required, and for a remote repository after a report of exactly
  all bytes and all files; a failed download never reports it as done. After that full report there is at most one
  more progress event, before or after the done event, and none when the progress thread ended within the second that
  its join waits.\<close>

theorem fetch_progress:
  assumes "fetch_spec h True spec = (tr, r)" "delivered tr [] shown"
  shows "list_all progress_ok shown \<and> shown \<noteq> [] \<and> hd shown = Start (sp_repo_id spec) (sp_revision spec) (sp_kind spec) \<and>
    (case r of
       Inl e \<Rightarrow> \<not> list_ex is_fetched shown
     | Inr (path, sz) \<Rightarrow> fetched_holds h spec path \<and> sz = snapshot_size h path \<and>
         (\<exists>earlier late after. shown = earlier @ late @ Fetched (sp_repo_id spec) path sz # after \<and>
            done_once h (sp_repo_id spec) (sp_local_path spec = None) earlier late after))"
proof -
  obtain more where m: "tr = Out (start_event spec) # more"
    and c: "case r of
       Inl e \<Rightarrow> download_shape h (sp_repo_id spec) more []
     | Inr (path, sz) \<Rightarrow> fetched_holds h spec path \<and> sz = snapshot_size h path \<and>
         (\<exists>full. download_shape h (sp_repo_id spec) more (full @ [Fetched (sp_repo_id spec) path sz]) \<and>
            (if sp_local_path spec = None then \<exists>n k. full = [Progress (sp_repo_id spec) n n k k] else full = []))"
    using fetch_spec_shape [OF assms(1)] by blast
  obtain zs where z: "shown = start_event spec # zs" "delivered more [] zs"
    using delivered_out [of "[start_event spec]" more shown] assms(2) m by auto
  show ?thesis
  proof (cases r)
    case (Inl e)
    then have "list_all progress_ok zs \<and> \<not> list_ex is_fetched zs"
      using c download_seen [of h _ more "[]" zs] z(2) by simp
    then show ?thesis using z(1) Inl by (simp add: start_event_def)
  next
    case (Inr y)
    obtain path sz full where y: "y = (path, sz)" "fetched_holds h spec path" "sz = snapshot_size h path"
      and d: "download_shape h (sp_repo_id spec) more (full @ [Fetched (sp_repo_id spec) path sz])"
      and f: "if sp_local_path spec = None then \<exists>n k. full = [Progress (sp_repo_id spec) n n k k] else full = []"
      using c Inr by (cases y) auto
    let ?remote = "sp_local_path spec = None" and ?d = "Fetched (sp_repo_id spec) path sz"
    obtain earlier late after where p: "zs = earlier @ late @ ?d # after" "list_all progress_ok zs"
      "done_once h (sp_repo_id spec) ?remote earlier late after"
      using download_done [OF d z(2) f] by blast
    have "shown = (start_event spec # earlier) @ late @ ?d # after" using p(1) z(1) by simp
    moreover have "done_once h (sp_repo_id spec) ?remote (start_event spec # earlier) late after"
      using p(3) by (auto simp: done_once_def start_event_def)
    moreover have "list_all progress_ok shown" "shown \<noteq> []" "hd shown = start_event spec"
      using p(2) z(1) by (simp_all add: start_event_def)
    ultimately show ?thesis using y(2,3) unfolding Inr y(1) prod.case sum.case start_event_def by blast
  qed
qed

theorem fetch_progress_witness:
  "fetched_holds toy_hub toy_spec ''/c'' \<and>
   delivered (fst (fetch_spec toy_hub True toy_spec)) []
     [Start ''r'' None ''model'', Progress ''r'' 7 7 0 1, Progress ''r'' 7 7 1 1, Fetched ''r'' ''/c'' 7, Progress ''r'' 7 7 0 1]"
proof -
  have d: "delivered (fst (fetch_spec toy_hub True toy_spec)) []
     [Start ''r'' None ''model'', Progress ''r'' 7 7 0 1, Progress ''r'' 7 7 1 1, Fetched ''r'' ''/c'' 7, Progress ''r'' 7 7 0 1]"
    by (simp add: toy_fetch)
  show ?thesis using fetch_progress [OF toy_fetch, of "[Start ''r'' None ''model'', Progress ''r'' 7 7 0 1, Progress ''r'' 7 7 1 1, Fetched ''r'' ''/c'' 7, Progress ''r'' 7 7 0 1]"] d
    by (simp add: toy_fetch)
qed

lemma finish_fetch_Ok:
  "snd (finish_fetch h emit spec path l) = Ok (p, sz) \<Longrightarrow> p = path \<and> sz = snapshot_size h path \<and> holds_snapshot h spec path"
  using resolved_complete [of h spec path]
  by (auto simp: finish_fetch_def validated_def split: sum.splits if_splits)

lemma fetch_spec_Ok:
  assumes "snd (fetch_spec h emit spec) = Ok (path, sz)"
  shows "sz = snapshot_size h path \<and> fetched_holds h spec path \<and> (\<forall>p. sp_local_path spec = Some p \<longrightarrow> hub_is_dir h p)"
proof (cases "sp_local_path spec")
  case (Some p)
  have d: "hub_is_dir h p" "snd (finish_fetch h emit spec p []) = Ok (path, sz)"
    using assms Some by (auto simp: fetch_spec_def case_prod_beta Let_def split: if_splits)
  then show ?thesis using Some finish_fetch_Ok [OF d(2)] by (simp add: fetched_holds_def)
next
  case None
  then obtain s where s: "resolve_remote h spec = Ok s" "snd (fetch_remote h emit s) = Ok (path, sz)"
    using assms by (auto simp: fetch_spec_def case_prod_beta Let_def split: sum.splits)
  then obtain p l where p: "hub_download h s False = Ok p" "snd (finish_fetch h emit s p l) = Ok (path, sz)"
    by (auto simp: fetch_remote_def in_download_Ok case_prod_beta Let_def split: sum.splits if_splits)
  then show ?thesis using None s(1) finish_fetch_Ok [OF p(2)] by (auto simp: fetched_holds_def)
qed

lemma resolve_remote_holds:
  assumes "resolve_remote h spec = Ok s" "holds_snapshot h s path"
    "sp_resolve spec \<Longrightarrow> \<exists>p. hub_download h (config_only spec) False = Ok p \<and> hub_config h p = hub_config h path"
  shows "holds_snapshot h spec path"
proof (cases "sp_resolve spec")
  case False
  then show ?thesis using assms(1,2) by (simp add: resolve_remote_def)
next
  case True
  then obtain p where p: "hub_download h (config_only spec) False = Ok p" "hub_config h p = hub_config h path"
    using assms(3) by blast
  have r: "resolved h spec p = Ok s" using assms(1) True p(1)
    by (auto simp: resolve_remote_def in_download_def split: sum.splits)
  have q: "resolved h spec path = Ok s" using r p(2) by (simp only: resolved_def)
  have "\<not> sp_resolve s" using r True by (auto simp: resolved_def split: sum.splits)
  then have "resolved h s path = Ok s" by (simp add: resolved_def)
  then show ?thesis using assms(2) resolved_complete q by metis
qed

lemma check_folder_holds:
  "holds_snapshot h spec path \<Longrightarrow>
     check_folder h spec path = Ok ((missing_row spec)\<lparr>cr_cached := True, cr_path := Some path, cr_size := snapshot_size h path\<rparr>)"
  using resolved_Ok [of h spec path] resolved_complete [of h spec path] by (auto simp: check_folder_def)

text \<open>C21: what was fetched is then found: after a successful download the offline probe answers cached, with
  the same folder and the same size, provided the library's cache gives back the folder it downloaded to
  and, when the repository names its own files, the downloaded configuration is the one first read.\<close>

theorem fetched_then_cached:
  assumes "fetch_spec h emit spec = (evs, Ok (path, sz))"
    and "sp_local_path spec = None \<Longrightarrow> hub_download h spec True = Ok path"
    and "sp_resolve spec \<Longrightarrow> \<exists>p. hub_download h (config_only spec) False = Ok p \<and> hub_config h p = hub_config h path"
  shows "\<exists>row. check_spec h spec = Ok row \<and> cr_cached row \<and> cr_path row = Some path \<and> cr_size row = sz"
proof -
  have f: "sz = snapshot_size h path" "fetched_holds h spec path" "\<And>p. sp_local_path spec = Some p \<Longrightarrow> hub_is_dir h p"
    using fetch_spec_Ok [of h emit spec path sz] assms(1) by auto
  have "holds_snapshot h spec path"
  proof (cases "sp_local_path spec")
    case None
    then obtain s where "resolve_remote h spec = Ok s" "holds_snapshot h s path" using f(2) by (auto simp: fetched_holds_def)
    then show ?thesis using resolve_remote_holds assms(3) by blast
  qed (use f(2) in \<open>simp add: fetched_holds_def\<close>)
  note c = check_folder_holds [OF this]
  show ?thesis
  proof (cases "sp_local_path spec")
    case None
    then show ?thesis using c assms(2) f(1) by (simp add: check_spec_def)
  next
    case (Some p)
    then show ?thesis using c f by (simp add: check_spec_def fetched_holds_def)
  qed
qed

theorem fetched_then_cached_witness: "\<exists>row. check_spec toy_hub toy_spec = Ok row \<and> cr_size row = 7"
  using fetched_then_cached [OF toy_fetch] by (auto simp: toy_fields)

lemma download_outs:
  assumes "download_shape h repo tr b"
  shows "\<exists>a. outs tr = a @ b \<and> list_all progress_ok (a @ left_over tr) \<and> list_all is_progress (a @ left_over tr)"
  using assms by (auto simp: download_shape_def)

lemma fetch_spec_outs:
  assumes "fetch_spec h True spec = (tr, r)"
  shows "list_all progress_ok (outs tr @ left_over tr) \<and> \<not> list_ex is_failure (outs tr) \<and> list_all is_progress (left_over tr) \<and>
    (\<forall>path sz. r = Ok (path, sz) \<longrightarrow> sum_list (map fetched_bytes (outs tr)) = sz \<and> length (filter is_fetched (outs tr)) = 1)"
proof -
  obtain more where m: "tr = Out (start_event spec) # more"
    and c: "case r of
       Inl e \<Rightarrow> download_shape h (sp_repo_id spec) more []
     | Inr (path, sz) \<Rightarrow> fetched_holds h spec path \<and> sz = snapshot_size h path \<and>
         (\<exists>full. download_shape h (sp_repo_id spec) more (full @ [Fetched (sp_repo_id spec) path sz]) \<and>
            (if sp_local_path spec = None then \<exists>n k. full = [Progress (sp_repo_id spec) n n k k] else full = []))"
    using fetch_spec_shape [OF assms] by blast
  show ?thesis
  proof (cases r)
    case (Inl e)
    then obtain a where a: "outs more = a" "list_all progress_ok (a @ left_over more)" "list_all is_progress (a @ left_over more)"
      using c download_outs [of h "sp_repo_id spec" more "[]"] by auto
    then show ?thesis using m Inl progress_only [of a] by (auto simp: start_event_def)
  next
    case (Inr y)
    obtain path sz full where y: "y = (path, sz)"
      and d: "download_shape h (sp_repo_id spec) more (full @ [Fetched (sp_repo_id spec) path sz])"
      and f: "if sp_local_path spec = None then \<exists>n k. full = [Progress (sp_repo_id spec) n n k k] else full = []"
      using c Inr by (cases y) auto
    obtain a where a: "outs more = a @ full @ [Fetched (sp_repo_id spec) path sz]" "list_all progress_ok (a @ left_over more)"
      "list_all is_progress (a @ left_over more)"
      using download_outs [OF d] by auto
    have n: "\<not> list_ex is_fetched a" "\<not> list_ex is_failure a" using progress_only [of a] a(3) by auto
    have "sum_list (map fetched_bytes a) = 0" "filter is_fetched a = []"
      using sum_no_fetched [OF n(1)] n(1) by (auto simp: filter_empty_conv list_ex_iff)
    then show ?thesis using m Inr y a f n by (auto simp: start_event_def split: if_splits)
  qed
qed

lemma fetch_all_shape:
  "fetch_all h True specs sofar = (tr, r) \<Longrightarrow>
     list_all progress_ok (outs tr @ left_over tr) \<and> \<not> list_ex is_failure (outs tr) \<and> list_all is_progress (left_over tr) \<and>
     (\<forall>n. r = Ok n \<longrightarrow> n = sofar + sum_list (map fetched_bytes (outs tr)) \<and> length (filter is_fetched (outs tr)) = length specs)"
proof (induction specs arbitrary: sofar tr r)
  case (Cons spec specs)
  obtain tr1 r1 where f: "fetch_spec h True spec = (tr1, r1)" by fastforce
  note s = fetch_spec_outs [OF f]
  show ?case
  proof (cases r1)
    case (Inl e)
    then show ?thesis using Cons.prems f s by auto
  next
    case (Inr y)
    obtain path sz where y: "y = (path, sz)" by fastforce
    obtain more r2 where m: "fetch_all h True specs (sofar + sz) = (more, r2)" by fastforce
    have e: "tr = tr1 @ more" "r = r2" using Cons.prems f Inr y m by auto
    show ?thesis using s Cons.IH [OF m] Inr y unfolding e by auto
  qed
qed auto

text \<open>The last event of a command that emits events.\<close>

fun ends_with :: "nat \<Rightarrow> string \<Rightarrow> string option \<Rightarrow> pf_event list \<Rightarrow> pf_event \<Rightarrow> bool" where
  "ends_with status backend model before (Complete b m n) =
     (status = 0 \<and> b = backend \<and> m = model \<and> n = sum_list (map fetched_bytes before))"
| "ends_with status backend model before (Summary b m c n) =
     (status = 0 \<and> b = backend \<and> m = model \<and>
      (\<exists>rows. before = map Check rows \<and> c = list_all cr_cached rows \<and> n = sum_list (map cr_size rows)))"
| "ends_with status backend model before (Failure c m r) = (status = 1)"
| "ends_with status backend model before e = False"

lemma run_fetch_shape:
  assumes "run_fetch h True backend model specs = (tr, r)"
  shows "list_all progress_ok (outs tr @ left_over tr) \<and> \<not> list_ex is_failure (outs tr) \<and> list_all is_progress (left_over tr) \<and>
    (\<forall>k. r = Ok k \<longrightarrow> outs tr \<noteq> [] \<and> ends_with k backend model (butlast (outs tr)) (last (outs tr)))"
proof -
  obtain tr1 r1 where f: "fetch_all h True specs 0 = (tr1, r1)" by fastforce
  show ?thesis using fetch_all_shape [OF f] assms f
    by (cases r1) (auto simp: run_fetch_def)
qed

lemma run_check_shape:
  assumes "run_check h True backend model specs = (tr, r)"
  shows "list_all progress_ok (outs tr @ left_over tr) \<and> \<not> list_ex is_failure (outs tr) \<and> list_all is_progress (left_over tr) \<and>
    (\<forall>k. r = Ok k \<longrightarrow> outs tr \<noteq> [] \<and> ends_with k backend model (butlast (outs tr)) (last (outs tr)))"
proof (cases "check_all h specs")
  case (Inl e)
  then show ?thesis using assms by (auto simp: run_check_def)
next
  case (Inr rows)
  have "list_all progress_ok (map Check rows) \<and> \<not> list_ex is_failure (map Check rows)"
    by (simp add: list_all_iff list_ex_iff)
  moreover have "tr = map Out (map Check rows @ [Summary backend model (list_all cr_cached rows) (sum_list (map cr_size rows))])" "r = Ok 0"
    using assms Inr by (auto simp: run_check_def)
  ultimately show ?thesis by (auto simp del: map_append)
qed

text \<open>Every run of \<open>prefetch --json\<close> that ends leaves a well-formed record: the exit status is 0 or 1; of the events
  the main thread writes, the last is the error event exactly with 1, and there is no other error event; with 0 it
  is the completion, whose size is the sum of the snapshots reported as done, or the summary of \<open>--check\<close>, whose
  verdict and size are those of the rows before it; all progress events keep their bounds; and what progress threads
  left behind may add are progress events only.\<close>

theorem run_prefetch_record:
  assumes "run_prefetch h importable exists expanduser in_use backend model check True = Some (tr, status)"
  shows "outs tr \<noteq> [] \<and> status \<le> 1 \<and> (status = 1 \<longleftrightarrow> is_failure (last (outs tr))) \<and> \<not> list_ex is_failure (butlast (outs tr)) \<and>
    ends_with status backend model (butlast (outs tr)) (last (outs tr)) \<and> list_all progress_ok (outs tr @ left_over tr) \<and>
    list_all is_progress (left_over tr)"
proof -
  define specs where "specs = (case model of
            Some m \<Rightarrow> if m \<noteq> [] \<and> is_local_model exists m then local_specs_for importable expanduser backend m
                      else specs_for importable backend model
          | None \<Rightarrow> specs_for importable backend model)"
  obtain tr1 r where r: "(case specs of
            Inl e \<Rightarrow> ([], Raise (e, None))
          | Inr ss \<Rightarrow> if check then run_check h True backend model ss else run_fetch h True backend model ss) = (tr1, r)"
    by fastforce
  have s: "list_all progress_ok (outs tr1 @ left_over tr1) \<and> \<not> list_ex is_failure (outs tr1) \<and> list_all is_progress (left_over tr1) \<and>
    (\<forall>k. r = Ok k \<longrightarrow> outs tr1 \<noteq> [] \<and> ends_with k backend model (butlast (outs tr1)) (last (outs tr1)))"
    using r run_fetch_shape run_check_shape by (cases specs; cases check) auto
  show ?thesis
  proof (cases r)
    case (Inr k)
    then have e: "tr = tr1" "status = k" "outs tr1 \<noteq> []"
      using assms r s unfolding run_prefetch_def specs_def [symmetric] Let_def by auto
    have l: "\<not> is_failure (last (outs tr))" "\<not> list_ex is_failure (butlast (outs tr))" using s e
      by (auto simp: list_ex_iff dest: in_set_butlastD)
    have "status = 0" using s Inr e l by (cases "last (outs tr)") auto
    then show ?thesis using s Inr e l by simp
  next
    case (Inl y)
    obtain x repo where y: "y = (x, repo)" by fastforce
    obtain f where f: "tr = tr1 @ [Out f]" "is_failure f" "status = 1"
      using assms r Inl y unfolding run_prefetch_def specs_def [symmetric] Let_def
      by (cases "caught ''Exception'' x") (auto split: prod.splits)
    then have "outs tr = outs tr1 @ [f]" "left_over tr = left_over tr1" by simp_all
    then show ?thesis using s f by (cases f) auto
  qed
qed

text \<open>The echo backend needs no snapshot.\<close>

lemma echo_check: "run_prefetch toy_hub (\<lambda>m. True) (\<lambda>p. False) (\<lambda>p. p) 98 ''echo'' None True True =
    Some ([Out (Summary ''echo'' None True 0)], 0)"
proof -
  have "import_backend (\<lambda>m. True) ''echo'' =
      Ok \<lparr>lb_name = ''echo'', lb_entry = the (map_of BACKENDS ''echo''), lb_module = None\<rparr>"
    by (simp add: import_backend_def BACKENDS_def)
  then show ?thesis by (simp add: run_prefetch_def specs_for_def module_specs_def run_check_def)
qed

theorem run_prefetch_record_witness:
  "ends_with 0 ''echo'' None [] (Summary ''echo'' None True 0)"
  using run_prefetch_record [OF echo_check] by simp

end
