(* ===== verification/Serve.thy ===== *)
theory Serve
  imports Lifecycle_Props Admission
begin

text \<open>
  \<open>serve()\<close> of \<open>stt_server/server.py\<close>, the public entry point: it races the startup and
  the readiness step against a stop, abandons a pending step under a bounded wait, and shuts the
  server down on every exit, or leaves the process.

  The state holds the lifecycle model of the server it drives. Each \<open>await\<close> of \<open>serve\<close> is a program
  counter; what the signals, the timers, the steps, the embedder's callbacks and the server's own
  tasks do are events.
\<close>

section \<open>State\<close>

datatype stage = Startup | Readiness

fun stage_label :: "stage \<Rightarrow> string" where
  "stage_label Startup = ''startup''"
| "stage_label Readiness = ''readiness preparation''"

text \<open>A failure is an \<open>Exception\<close> or another \<open>BaseException\<close>, told apart by a number.\<close>

datatype failure = Exception_of nat | Base_of nat

definition CANCELLED :: failure where "CANCELLED = Base_of 0"
definition RUNTIME_ERROR :: failure where "RUNTIME_ERROR = Exception_of 0"
definition CLOSE_FAILED :: failure where "CLOSE_FAILED = Exception_of 1"
definition CONFIG_ERROR :: failure where "CONFIG_ERROR = Exception_of 2"

text \<open>The task of the step in flight: before its first step, running, done (with its failure).\<close>

datatype task = T_created | T_running | T_done "failure option"

fun task_done :: "task \<Rightarrow> bool" where
  "task_done (T_done r) = True"
| "task_done _ = False"

text \<open>Where \<open>serve\<close> waits: for the step or the stop, for an abandoned step (in its \<open>finally\<close> or
  before), for the stop, for \<open>shutdown()\<close> (as its first caller or not); or it is over.\<close>

datatype serve_pc =
    V_step stage
  | V_abandon stage bool
  | V_stop
  | V_shutdown bool
  | V_returned "failure option"
  | V_exited int

datatype effect = Published | Aborted | On_Fatal failure | Log_Fatal failure | Log_Cleanup failure

record serve_options =
  so_hard_exit :: bool
  so_on_fatal :: bool
  so_ready :: bool
  so_publish :: "failure option option"
  so_signals :: "string list"
  so_stdin_eof :: bool

record serving_state =
  opts :: serve_options
  srv :: server
  pc :: serve_pc
  stop_set :: bool
  step_stage :: stage
  step_task :: task
  step_future :: "nat option"
  step_asked :: bool
  pending_step :: "stage option"
  failed :: "failure option"
  raising :: "failure option"
  captured :: "string list"
  waits :: nat
  effects :: "effect list"

section \<open>Leaving\<close>

definition report_before_hard_exit :: "bool \<Rightarrow> failure \<Rightarrow> effect" where
  "report_before_hard_exit on_fatal f =
     (case f of Exception_of n \<Rightarrow> if on_fatal then On_Fatal f else Log_Fatal f | Base_of n \<Rightarrow> Log_Fatal f)"

definition exit_process :: "int \<Rightarrow> bool \<Rightarrow> failure option \<Rightarrow> serving_state \<Rightarrow> serving_state" where
  "exit_process code abort failure s =
     (let s1 = (if abort then s\<lparr>srv := unlink_own_socket (srv s), effects := effects s @ [Aborted]\<rparr> else s);
          s2 = (case failure of None \<Rightarrow> s1
                | Some f \<Rightarrow> s1\<lparr>effects := effects s1 @ [report_before_hard_exit (so_on_fatal (opts s)) f]\<rparr>)
      in s2\<lparr>pc := V_exited code\<rparr>)"

text \<open>The \<open>except\<close> and the innermost \<open>finally\<close> around the shutdown.\<close>

definition end_serve :: "serving_state \<Rightarrow> serving_state" where
  "end_serve s =
     (let s1 = (case raising s of
                  None \<Rightarrow> s
                | Some e \<Rightarrow>
                    (case failed s of
                       None \<Rightarrow> s\<lparr>failed := Some e\<rparr>
                     | Some f \<Rightarrow> s\<lparr>effects := effects s @ [Log_Cleanup e]\<rparr>))
      in if so_hard_exit (opts s1) \<and> live_work_count (srv s1) \<noteq> 0 then
           exit_process (if failed s1 \<noteq> None then 1 else 0) False (failed s1) s1
         else s1\<lparr>captured := [], pc := V_returned (failed s1)\<rparr>)"

text \<open>\<open>await server.shutdown()\<close> up to where it waits for the stop task.\<close>

definition enter_shutdown :: "serving_state \<Rightarrow> serving_state" where
  "enter_shutdown s =
     (case shutdown_call (srv s) of
        Inl e \<Rightarrow> end_serve (s\<lparr>raising := Some RUNTIME_ERROR\<rparr>)
      | Inr t \<Rightarrow>
          let s1 = s\<lparr>srv := t\<rparr>
          in if lstate (srv s) \<in> {NEW, STARTING} \<or> stop_task t = None then end_serve s1
             else s1\<lparr>pc := V_shutdown (lstate (srv s) = RUNNING)\<rparr>)"

section \<open>Steps\<close>

definition begin_abandon :: "stage \<Rightarrow> bool \<Rightarrow> serving_state \<Rightarrow> serving_state" where
  "begin_abandon st fin s =
     s\<lparr>pending_step := None, step_asked := True, waits := Suc (waits s), pc := V_abandon st fin\<rparr>"

text \<open>The \<open>finally\<close> of \<open>serve\<close>, entered by a return or a failure of its body.\<close>

definition enter_finally :: "serving_state \<Rightarrow> serving_state" where
  "enter_finally s =
     (case pending_step s of
        Some st \<Rightarrow> if task_done (step_task s) then enter_shutdown s else begin_abandon st True s
      | None \<Rightarrow> enter_shutdown s)"

definition fail_body :: "failure \<Rightarrow> serving_state \<Rightarrow> serving_state" where
  "fail_body f s = enter_finally (s\<lparr>failed := Some f\<rparr>)"

definition adopt_step :: "bool \<Rightarrow> stage \<Rightarrow> serving_state \<Rightarrow> serving_state" where
  "adopt_step abandoned st s =
     (case step_future s of
        Some n \<Rightarrow>
          if future_kind n (srv s) = Some K_adopted
          then s\<lparr>srv := adopt_again n (stage_label st) (srv s)\<rparr> else s
      | None \<Rightarrow> s\<lparr>srv := adopt abandoned (stage_label st) (srv s), step_future := Some (fresh (srv s))\<rparr>)"

text \<open>The end of the bounded wait of \<open>_abandon_step\<close>: the step is done, the wait expired, or \<open>serve\<close>
  was cancelled in it.\<close>

definition after_abandon :: "stage \<Rightarrow> bool \<Rightarrow> bool \<Rightarrow> serving_state \<Rightarrow> serving_state" where
  "after_abandon st fin cancelled s =
     (let s1 = (if task_done (step_task s) then s
                else if can_adopt (srv s) then adopt_step True st s else s)
      in if fin then enter_shutdown (if cancelled then s1\<lparr>raising := Some CANCELLED\<rparr> else s1)
         else if cancelled then fail_body CANCELLED s1
         else enter_finally s1)"

definition publish :: "serving_state \<Rightarrow> serving_state" where
  "publish s =
     (case so_publish (opts s) of
        None \<Rightarrow> s\<lparr>pc := V_stop\<rparr>
      | Some r \<Rightarrow>
          let s1 = s\<lparr>effects := effects s @ [Published]\<rparr>
          in case r of Some f \<Rightarrow> fail_body f s1 | None \<Rightarrow> s1\<lparr>pc := V_stop\<rparr>)"

text \<open>The readiness step: its task is adopted from creation.\<close>

definition begin_readiness :: "serving_state \<Rightarrow> serving_state" where
  "begin_readiness s =
     (if can_adopt (srv s) then
        adopt_step False Readiness
          (s\<lparr>step_stage := Readiness, step_task := T_created, step_future := None, step_asked := False,
             pending_step := Some Readiness, pc := V_step Readiness\<rparr>)
      else fail_body RUNTIME_ERROR s)"

text \<open>\<open>_run_until_stop\<close> after its wait, and what \<open>serve\<close> does next.\<close>

definition step_wakes :: "stage \<Rightarrow> serving_state \<Rightarrow> serving_state" where
  "step_wakes st s =
     (case step_task s of
        T_done (Some f) \<Rightarrow> fail_body f s
      | T_done None \<Rightarrow>
          if stop_set s then enter_finally s
          else if st = Startup \<and> so_ready (opts s) then begin_readiness s
          else publish s
      | _ \<Rightarrow>
          if so_hard_exit (opts s) then exit_process 0 True None s else begin_abandon st False s)"

section \<open>The step's task\<close>

text \<open>Its completion completes the future the server tracks for it.\<close>

fun outcome_of :: "failure option \<Rightarrow> outcome" where
  "outcome_of None = Result"
| "outcome_of (Some f) = (if f = Base_of 0 then Cancelled else Error)"

definition complete_step :: "failure option \<Rightarrow> serving_state \<Rightarrow> serving_state" where
  "complete_step r s =
     (let s1 = s\<lparr>step_task := T_done r\<rparr>
      in case step_future s of
           None \<Rightarrow> s1
         | Some n \<Rightarrow>
             (case lifecycle_step (Future_Done n (outcome_of r)) (srv s) of
                Some (Inr t) \<Rightarrow> s1\<lparr>srv := t\<rparr> | _ \<Rightarrow> s1))"

text \<open>\<open>start()\<close> is over when it waits nowhere: it returned if the server runs, it raised otherwise.\<close>

definition settle_startup :: "failure \<Rightarrow> serving_state \<Rightarrow> serving_state" where
  "settle_startup f s =
     (if step_stage s = Startup \<and> step_task s = T_running \<and> starting (srv s) = S_idle
      then complete_step (if lstate (srv s) = RUNNING then None else Some f) s else s)"

definition step_begins :: "nat option \<Rightarrow> failure \<Rightarrow> serving_state \<Rightarrow> serving_state option" where
  "step_begins lock f s =
     (if step_task s \<noteq> T_created then None
      else if step_asked s then Some (complete_step (Some CANCELLED) s)
      else if step_stage s = Startup then
        (case start_call lock (srv s) of
           Inl e \<Rightarrow> None
         | Inr t \<Rightarrow> Some (settle_startup f (s\<lparr>srv := t, step_task := T_running\<rparr>)))
      else Some (s\<lparr>step_task := T_running\<rparr>))"

section \<open>Events\<close>

text \<open>The server is the embedder's once \<open>ready\<close> or \<open>publish_ready\<close> was given it.\<close>

definition server_shared :: "serving_state \<Rightarrow> bool" where
  "server_shared s \<longleftrightarrow> step_stage s = Readiness \<or> Published \<in> set (effects s)"

fun server_event_ok :: "levent \<Rightarrow> serving_state \<Rightarrow> bool" where
  "server_event_ok (Start_Call l) s = False"
| "server_event_ok Start_Cancel s = (step_stage s = Startup \<and> step_task s = T_running \<and> step_asked s)"
| "server_event_ok (Future_Done n oc) s = (step_future s \<noteq> Some n)"
| "server_event_ok Shutdown_Call s = server_shared s"
| "server_event_ok Shutdown_Cancelled s = server_shared s"
| "server_event_ok (Adopt a l) s = server_shared s"
| "server_event_ok (Adopt_Again n l) s = server_shared s"
| "server_event_ok _ s = True"

datatype sevent =
    Stop_Requested
  | Step_Begins "nat option" failure
  | Step_Ends "failure option"
  | Server levent failure
  | Wake
  | Timeout
  | Cancel

definition serve_over :: "serving_state \<Rightarrow> bool" where
  "serve_over s = (case pc s of V_returned r \<Rightarrow> True | V_exited c \<Rightarrow> True | _ \<Rightarrow> False)"

text \<open>What an event of the server's own does; delivering the cancellation uses it up.\<close>

definition server_event :: "levent \<Rightarrow> failure \<Rightarrow> serving_state \<Rightarrow> serving_state option" where
  "server_event e f s =
     (if \<not> server_event_ok e s then None
      else case lifecycle_step e (srv s) of
        Some (Inr t) \<Rightarrow>
          Some (settle_startup f (s\<lparr>srv := t, step_asked := (step_asked s \<and> e \<noteq> Start_Cancel)\<rparr>))
      | _ \<Rightarrow> None)"

text \<open>A waiter of a future wakes after the \<open>_retire\<close> callback of its ledger entry, which was registered
  first.\<close>

definition callback_ran :: "nat \<Rightarrow> server \<Rightarrow> bool" where
  "callback_ran n x = (case ledger_get (Fut n) (ledger x) of None \<Rightarrow> True | Some w \<Rightarrow> \<not> wk_callback w)"

definition step_over :: "serving_state \<Rightarrow> bool" where
  "step_over s \<longleftrightarrow> task_done (step_task s) \<and>
     (case step_future s of None \<Rightarrow> True | Some n \<Rightarrow> callback_ran n (srv s))"

definition shutdown_wakes :: "bool \<Rightarrow> serving_state \<Rightarrow> serving_state option" where
  "shutdown_wakes owner s =
     (case stop_task (srv s) of
        None \<Rightarrow> Some (end_serve s)
      | Some n \<Rightarrow>
          if \<not> callback_ran n (srv s) then None
          else (case fut (srv s) n of
             Pending \<Rightarrow> None
           | Result \<Rightarrow> Some (end_serve s)
           | Error \<Rightarrow> Some (end_serve (if owner then s\<lparr>raising := Some CLOSE_FAILED\<rparr> else s))
           | Cancelled \<Rightarrow> Some (end_serve (if owner then s\<lparr>raising := Some CANCELLED\<rparr> else s))))"

definition shutdown_cancelled :: "bool \<Rightarrow> serving_state \<Rightarrow> serving_state" where
  "shutdown_cancelled owner s =
     end_serve
       ((case stop_task (srv s) of
           Some n \<Rightarrow> if owner \<and> fut (srv s) n = Pending then s\<lparr>srv := cancel_sessions (srv s)\<rparr> else s
         | None \<Rightarrow> s)\<lparr>raising := Some CANCELLED\<rparr>)"

definition wake :: "serving_state \<Rightarrow> serving_state option" where
  "wake s =
     (case pc s of
        V_step st \<Rightarrow> if stop_set s \<or> step_over s then Some (step_wakes st s) else None
      | V_abandon st fin \<Rightarrow> if step_over s then Some (after_abandon st fin False s) else None
      | V_stop \<Rightarrow> if stop_set s then Some (enter_finally s) else None
      | V_shutdown owner \<Rightarrow> shutdown_wakes owner s
      | _ \<Rightarrow> None)"

definition serve_cancel :: "serving_state \<Rightarrow> serving_state option" where
  "serve_cancel s =
     (case pc s of
        V_step st \<Rightarrow> Some (fail_body CANCELLED s)
      | V_abandon st fin \<Rightarrow> Some (after_abandon st fin True s)
      | V_stop \<Rightarrow> Some (fail_body CANCELLED s)
      | V_shutdown owner \<Rightarrow> Some (shutdown_cancelled owner s)
      | _ \<Rightarrow> None)"

definition serve_step :: "sevent \<Rightarrow> serving_state \<Rightarrow> serving_state option" where
  "serve_step e s =
     (if (case pc s of V_exited c \<Rightarrow> True | _ \<Rightarrow> False) then None
      else case e of
        Stop_Requested \<Rightarrow>
          if \<not> serve_over s \<and> (captured s \<noteq> [] \<or> so_stdin_eof (opts s)) then Some (s\<lparr>stop_set := True\<rparr>) else None
      | Step_Begins lock f \<Rightarrow> step_begins lock f s
      | Step_Ends r \<Rightarrow>
          if step_stage s = Readiness \<and> step_task s = T_running then Some (complete_step r s) else None
      | Server l f \<Rightarrow> server_event l f s
      | Wake \<Rightarrow> wake s
      | Timeout \<Rightarrow>
          (case pc s of V_abandon st fin \<Rightarrow> Some (after_abandon st fin False s) | _ \<Rightarrow> None)
      | Cancel \<Rightarrow> serve_cancel s)"

text \<open>The call: the checks before a server exists (a failure aborts the backend and is raised), then
  the handlers and the startup step.\<close>

definition serve_call ::
  "serve_options \<Rightarrow> server_config \<Rightarrow> (int \<times> int) option \<Rightarrow> idle_answer \<Rightarrow> failure + serving_state" where
  "serve_call o1 cfg file hook =
     (if so_on_fatal o1 \<and> \<not> so_hard_exit o1 then Raise CONFIG_ERROR
      else case post_init cfg of
        Inl e \<Rightarrow> Raise CONFIG_ERROR
      | Inr c \<Rightarrow>
          Ok \<lparr>opts = o1, srv = new_server (cfg_socket_path c \<noteq> None) file hook, pc = V_step Startup, stop_set = False,
             step_stage = Startup, step_task = T_created, step_future = None, step_asked = False,
             pending_step = Some Startup, failed = None, raising = None, captured = so_signals o1,
             waits = 0, effects = []\<rparr>)"

definition serve_init :: "serving_state \<Rightarrow> bool" where
  "serve_init s \<longleftrightarrow> (\<exists>o1 cfg file hook. serve_call o1 cfg file hook = Ok s)"

inductive serve_next :: "serving_state \<Rightarrow> serving_state \<Rightarrow> bool" where
  serve_nextI: "serve_step e s = Some t \<Longrightarrow> serve_next s t"

inductive_cases serve_nextE: "serve_next s t"

section \<open>The server moves by its own steps\<close>

text \<open>Whatever \<open>serve\<close> does to its server is a run of the server's own events.\<close>

definition drives :: "serving_state \<Rightarrow> serving_state \<Rightarrow> bool" where
  "drives s t \<longleftrightarrow> (lifecycle_inv (srv s) \<longrightarrow> lifecycle_next\<^sup>*\<^sup>* (srv s) (srv t))"

lemma drives_same: "srv t = srv s \<Longrightarrow> drives s t"
  by (simp add: drives_def)

lemma drives_trans: "drives s t \<Longrightarrow> drives t u \<Longrightarrow> drives s u"
  unfolding drives_def by (blast intro: rtranclp_trans lifecycle.steps)

lemma drives_step: "lifecycle_step e (srv s) = Some (Ok t) \<Longrightarrow> srv u = t \<Longrightarrow> drives s u"
  by (auto simp: drives_def intro: lifecycle_nextI)

lemma drives_upd:
  "srv s' = srv s \<Longrightarrow> drives s' t \<Longrightarrow> drives s t"
  by (simp add: drives_def)

lemma drives_exit: "drives s (exit_process c a f s)"
proof (cases a)
  case True
  have "lifecycle_step (File None) (srv s) = Some (Ok ((srv s)\<lparr>sock_file := None\<rparr>))" by (simp add: lifecycle_step_def)
  then have "lifecycle_next\<^sup>*\<^sup>* (srv s) (unlink_own_socket (srv s))"
    by (auto simp: unlink_own_socket_def intro: lifecycle_nextI)
  then show ?thesis using True by (simp add: drives_def exit_process_def Let_def split: option.splits)
qed (rule drives_same, simp add: exit_process_def split: option.splits)

lemma drives_end: "drives s (end_serve s)"
  using drives_exit [of "s\<lparr>failed := f, effects := e\<rparr>" for f e] drives_exit [of s]
  by (auto simp: end_serve_def Let_def drives_def exit_process_def split: option.splits)

lemma drives_shutdown: "drives s (enter_shutdown s)"
proof (cases "lifecycle_inv (srv s)")
  case True
  then obtain t where t: "shutdown_call (srv s) = Ok t" using shutdown_call_ok by blast
  then have "drives s (s\<lparr>srv := t\<rparr>)" by (intro drives_step [of Shutdown_Call]) (simp_all add: lifecycle_step_def)
  then show ?thesis
    using t drives_trans [OF _ drives_end] by (auto simp: enter_shutdown_def Let_def drives_def)
qed (simp add: drives_def)

lemma drives_raising: "drives s (enter_shutdown (s\<lparr>raising := r\<rparr>))" "drives s (end_serve (s\<lparr>raising := r\<rparr>))"
  by (rule drives_upd [OF _ drives_shutdown] drives_upd [OF _ drives_end]; simp)+

lemma drives_finally: "drives s (enter_finally s)"
  by (auto simp: enter_finally_def begin_abandon_def drives_shutdown intro: drives_same split: option.splits)

lemma drives_fail: "drives s (fail_body f s)"
  unfolding fail_body_def by (rule drives_upd [OF _ drives_finally]) simp

lemma drives_adopt: "drives s (adopt_step a st s)"
proof (cases "step_future s")
  case None
  then show ?thesis
    by (intro drives_step [of "Adopt a (stage_label st)"]) (simp_all add: lifecycle_step_def adopt_step_def)
next
  case (Some n)
  show ?thesis
  proof (cases "future_kind n (srv s) = Some K_adopted")
    case True
    then show ?thesis using Some
      by (intro drives_step [of "Adopt_Again n (stage_label st)"]) (simp_all add: lifecycle_step_def adopt_step_def)
  qed (simp add: Some adopt_step_def drives_same)
qed

lemma drives_after_abandon: "drives s (after_abandon st fin c s)"
proof -
  let ?s1 = "if task_done (step_task s) then s else if can_adopt (srv s) then adopt_step True st s else s"
  have "drives s ?s1" by (simp add: drives_adopt drives_same)
  moreover have "drives ?s1 (after_abandon st fin c s)"
    unfolding after_abandon_def Let_def
    by (cases fin; cases c) (simp_all only: if_True if_False drives_shutdown drives_fail drives_finally drives_raising)
  ultimately show ?thesis by (rule drives_trans)
qed

lemma drives_publish: "drives s (publish s)"
  using drives_fail [of "s\<lparr>effects := effects s @ [Published]\<rparr>"]
  by (auto simp: publish_def drives_def Let_def split: option.splits)

lemma drives_readiness: "drives s (begin_readiness s)"
  unfolding begin_readiness_def by (auto simp: drives_fail intro: drives_upd [OF _ drives_adopt])

lemma drives_step_wakes: "drives s (step_wakes st s)"
  by (auto simp: step_wakes_def drives_fail drives_finally drives_readiness drives_publish drives_exit begin_abandon_def
      intro: drives_same split: task.splits option.splits)

lemma drives_complete: "drives s (complete_step r s)"
  by (auto simp: complete_step_def Let_def intro: drives_same drives_step split: option.splits sum.splits)

lemma drives_settle: "drives s (settle_startup f s)"
  by (simp add: settle_startup_def drives_complete drives_same)

lemma drives_begins: "step_begins lock f s = Some t \<Longrightarrow> drives s t"
proof (cases "start_call lock (srv s)")
  case (Inr u)
  have "drives s (settle_startup f (s\<lparr>srv := u, step_task := T_running\<rparr>))"
    by (rule drives_trans [OF drives_step [of "Start_Call lock"] drives_settle]) (simp_all add: Inr lifecycle_step_def)
  moreover assume "step_begins lock f s = Some t"
  ultimately show ?thesis
    using Inr by (auto simp: step_begins_def drives_complete intro: drives_same split: if_splits)
qed (auto simp: step_begins_def drives_complete intro: drives_same split: if_splits)

lemma drives_server_event: "server_event e f s = Some t \<Longrightarrow> drives s t"
  by (auto simp: server_event_def split: if_splits option.splits sum.splits
      intro!: drives_trans [OF drives_step drives_settle])

lemma drives_cancelled: "drives s (shutdown_cancelled owner s)"
proof -
  have "drives s ((case stop_task (srv s) of
           Some n \<Rightarrow> if owner \<and> fut (srv s) n = Pending then s\<lparr>srv := cancel_sessions (srv s)\<rparr> else s
         | None \<Rightarrow> s)\<lparr>raising := Some CANCELLED\<rparr>)" (is "drives s ?s1")
    by (auto split: option.splits intro: drives_same drives_step [of Shutdown_Cancelled] simp: lifecycle_step_def)
  then show ?thesis unfolding shutdown_cancelled_def by (rule drives_trans [OF _ drives_end])
qed

lemma drives_wake: "wake s = Some t \<Longrightarrow> drives s t"
  by (auto simp: wake_def shutdown_wakes_def drives_step_wakes drives_after_abandon drives_finally drives_end drives_raising
      split: serve_pc.splits if_splits option.splits outcome.splits)

lemma serve_drives: "serve_step e s = Some t \<Longrightarrow> drives s t"
  by (cases e)
    (auto simp: serve_step_def serve_cancel_def drives_begins drives_complete drives_server_event drives_wake
      drives_after_abandon drives_fail drives_cancelled intro: drives_same split: if_splits serve_pc.splits)

section \<open>The invariant\<close>

fun is_fatal :: "effect \<Rightarrow> bool" where
  "is_fatal (On_Fatal f) = True"
| "is_fatal (Log_Fatal f) = True"
| "is_fatal _ = False"

abbreviation fatals :: "serving_state \<Rightarrow> effect list" where
  "fatals s \<equiv> filter is_fatal (effects s)"

abbreviation published :: "serving_state \<Rightarrow> bool" where
  "published s \<equiv> Published \<in> set (effects s)"

text \<open>A running startup step is inside \<open>start()\<close>; a startup step that returned left a running server; a
  step is abandoned at most once.\<close>

definition core :: "serving_state \<Rightarrow> bool" where
  "core s \<longleftrightarrow> lifecycle_inv (srv s) \<and>
     (step_stage s = Startup \<and> step_task s = T_running \<longrightarrow> starting (srv s) \<noteq> S_idle) \<and>
     waits s = (if pending_step s = None then 1 else 0)"

definition pc_inv :: "serving_state \<Rightarrow> bool" where
  "pc_inv s \<longleftrightarrow>
     (case pc s of
        V_step st \<Rightarrow> pending_step s = Some st \<and> step_stage s = st \<and> failed s = None \<and> \<not> published s \<and>
          (st = Startup \<and> step_task s = T_done None \<longrightarrow> lstate (srv s) = RUNNING)
      | V_abandon st fin \<Rightarrow> pending_step s = None
      | V_shutdown owner \<Rightarrow> requested (srv s)
      | V_returned r \<Rightarrow> requested (srv s) \<and> captured s = [] \<and> r = failed s \<and>
          (so_hard_exit (opts s) \<longrightarrow> lstate (srv s) = STOPPED)
      | V_exited c \<Rightarrow> so_hard_exit (opts s) \<and> c = (if failed s = None then 0 else 1)
      | _ \<Rightarrow> True) \<and>
     fatals s = (case pc s of
        V_exited c \<Rightarrow> (case failed s of None \<Rightarrow> [] | Some f \<Rightarrow> [report_before_hard_exit (so_on_fatal (opts s)) f])
      | _ \<Rightarrow> [])"

definition serve_inv :: "serving_state \<Rightarrow> bool" where
  "serve_inv s \<longleftrightarrow> core s \<and> pc_inv s"

lemma serve_init_inv: "serve_init s \<Longrightarrow> serve_inv s"
proof -
  have "lifecycle_inv (new_server b f h)" for b f h by (rule inv_init) (auto simp: lifecycle_init_def)
  then show "serve_init s \<Longrightarrow> serve_inv s"
    by (auto simp: serve_init_def serve_call_def serve_inv_def core_def pc_inv_def split: if_splits sum.splits)
qed

text \<open>What the operations leave alone.\<close>

lemma report_fatal [simp]: "is_fatal (report_before_hard_exit b f)" "report_before_hard_exit b f \<noteq> Published"
  by (simp_all add: report_before_hard_exit_def split: failure.split)

lemma starting_same [simp]:
  "starting (unlink_own_socket x) = starting x" "starting (adopt a l x) = starting x"
  "starting (adopt_again n l x) = starting x"
  by (simp_all add: unlink_own_socket_def adopt_def adopt_again_def spawn_def Let_def)

lemma shutdown_facts:
  "shutdown_call x = Ok t \<Longrightarrow> starting t = starting x \<and> requested t"
  using shutdown_call_moves [of x t]
  by (auto simp: shutdown_call_def transition_def release_lock_def reset_attempt_def bind_result_Ok_iff spawn_def Let_def
      split: lifecycle.splits if_splits)

lemma core_same:
  "core s \<Longrightarrow> srv t = srv s \<Longrightarrow> step_stage t = step_stage s \<Longrightarrow> step_task t = step_task s \<Longrightarrow>
     waits t = waits s \<Longrightarrow> pending_step t = pending_step s \<Longrightarrow> core t"
  by (simp add: core_def)

text \<open>The ways out of \<open>serve\<close>.\<close>

lemma stopped_iff: "lifecycle_inv x \<Longrightarrow> requested x \<Longrightarrow> live_work_count x = 0 \<longleftrightarrow> lstate x = STOPPED"
  using live_nonempty [of x] no_key_new [of x] keys_empty [of x]
  by (cases "lstate x") (auto simp: live_work_count_def lifecycle_inv_def base_inv_def)

lemma end_serve_inv:
  assumes "core s" "fatals s = []" "requested (srv s)"
  shows "serve_inv (end_serve s)"
proof -
  have "lifecycle_inv (srv s)" using assms(1) by (simp add: core_def)
  note st = stopped_iff [OF this assms(3)]
  have "core (end_serve s)"
    by (rule core_same [OF assms(1)]) (auto simp: end_serve_def exit_process_def Let_def split: option.splits)
  moreover have "pc_inv (end_serve s)"
    using assms(2,3) st by (cases "raising s"; cases "failed s")
      (auto simp: end_serve_def exit_process_def pc_inv_def Let_def)
  ultimately show ?thesis by (simp add: serve_inv_def)
qed

lemma enter_shutdown_inv:
  assumes "core s" "fatals s = []"
  shows "serve_inv (enter_shutdown s)"
proof -
  obtain t where t: "shutdown_call (srv s) = Ok t" "lifecycle_inv t"
    using assms(1) shutdown_call_ok by (auto simp: core_def)
  then have c: "core (s\<lparr>srv := t\<rparr>)" "requested t" using assms(1) shutdown_facts [OF t(1)] by (auto simp: core_def)
  then have "core (s\<lparr>srv := t, pc := p\<rparr>)" for p by (simp add: core_def)
  then show ?thesis
    using t(1) c assms(2) end_serve_inv [OF c(1)] by (auto simp: enter_shutdown_def Let_def serve_inv_def pc_inv_def)
qed

lemma begin_abandon_inv:
  assumes "core s" "fatals s = []" "pending_step s \<noteq> None"
  shows "serve_inv (begin_abandon st fin s)"
  using assms by (auto simp: begin_abandon_def serve_inv_def core_def pc_inv_def)

lemma enter_finally_inv: "core s \<Longrightarrow> fatals s = [] \<Longrightarrow> serve_inv (enter_finally s)"
  by (auto simp: enter_finally_def enter_shutdown_inv begin_abandon_inv split: option.splits)

lemma fail_body_inv: "core s \<Longrightarrow> fatals s = [] \<Longrightarrow> serve_inv (fail_body f s)"
  unfolding fail_body_def by (rule enter_finally_inv) (auto intro: core_same)

lemma lifecycle_event: "lifecycle_inv x \<Longrightarrow> lifecycle_step e x = Some (Ok y) \<Longrightarrow> lifecycle_inv y"
  using lifecycle_step_ok by fastforce

lemma adopt_step_facts:
  "core s \<Longrightarrow> core (adopt_step a st s)"
  "effects (adopt_step a st s) = effects s" "step_task (adopt_step a st s) = step_task s" "pc (adopt_step a st s) = pc s"
  "pending_step (adopt_step a st s) = pending_step s" "step_stage (adopt_step a st s) = step_stage s"
  "failed (adopt_step a st s) = failed s"
proof -
  have "lifecycle_inv (srv s) \<Longrightarrow> lifecycle_inv (srv (adopt_step a st s))"
    using drives_adopt [of s a st] lifecycle.steps by (auto simp: drives_def)
  then show "core s \<Longrightarrow> core (adopt_step a st s)" by (auto simp: core_def adopt_step_def split: option.splits)
qed (simp_all add: adopt_step_def split: option.splits)

lemma after_abandon_inv:
  assumes "core s" "fatals s = []"
  shows "serve_inv (after_abandon st fin c s)"
proof -
  let ?s1 = "if task_done (step_task s) then s else if can_adopt (srv s) then adopt_step True st s else s"
  have s1: "core ?s1" "fatals ?s1 = []" using assms by (simp_all add: adopt_step_facts)
  then have s2: "core (?s1\<lparr>raising := r\<rparr>)" "fatals (?s1\<lparr>raising := r\<rparr>) = []" for r
    by (auto intro: core_same)
  show ?thesis unfolding after_abandon_def Let_def
    using enter_shutdown_inv [OF s1] enter_shutdown_inv [OF s2] fail_body_inv [OF s1] enter_finally_inv [OF s1]
    by (cases fin; cases c) (simp_all only: if_True if_False)
qed

lemma publish_inv:
  assumes "core s" "fatals s = []"
  shows "serve_inv (publish s)"
proof -
  let ?p = "s\<lparr>effects := effects s @ [Published]\<rparr>"
  have p: "core ?p" "fatals ?p = []" using assms by (auto intro: core_same)
  have "serve_inv (u\<lparr>pc := V_stop\<rparr>)" if "core u" "fatals u = []" for u
    using that core_same [of u "u\<lparr>pc := V_stop\<rparr>"] by (simp add: serve_inv_def pc_inv_def)
  then show ?thesis
    using assms p fail_body_inv [OF p] by (simp add: publish_def Let_def split: option.split)
qed

lemma readiness_inv:
  assumes "core s" "fatals s = []" "failed s = None" "\<not> published s" "pending_step s \<noteq> None"
  shows "serve_inv (begin_readiness s)"
proof -
  let ?r = "s\<lparr>step_stage := Readiness, step_task := T_created, step_future := None, step_asked := False,
    pending_step := Some Readiness, pc := V_step Readiness\<rparr>"
  have "core ?r" using assms by (simp add: core_def)
  then have "serve_inv (adopt_step False Readiness ?r)"
    using assms by (simp add: serve_inv_def pc_inv_def adopt_step_facts)
  then show ?thesis using assms fail_body_inv by (simp add: begin_readiness_def)
qed

lemma step_wakes_inv:
  assumes "serve_inv s" "pc s = V_step st"
  shows "serve_inv (step_wakes st s)"
proof -
  have s: "core s" "fatals s = []" "failed s = None" "\<not> published s" "pending_step s \<noteq> None"
    using assms by (auto simp: serve_inv_def pc_inv_def)
  have "lifecycle_inv (srv (exit_process 0 True None s))"
    using drives_exit [of s 0 True None] lifecycle.steps s(1) by (auto simp: drives_def core_def)
  then have "serve_inv (exit_process 0 True None s)" if "so_hard_exit (opts s)"
    using that s by (auto simp: exit_process_def serve_inv_def core_def pc_inv_def)
  then show ?thesis
    using s fail_body_inv [OF s(1,2)] enter_finally_inv [OF s(1,2)] readiness_inv [OF s] publish_inv [OF s(1,2)]
      begin_abandon_inv [OF s(1,2,5)]
    by (simp add: step_wakes_def split: task.split option.split)
qed

section \<open>The events keep the invariant\<close>

lemma future_done_facts:
  "lifecycle_step (Future_Done n oc) x = Some (Ok t) \<Longrightarrow>
     lstate t = lstate x \<and> requested t = requested x \<and> starting t = starting x"
  by (auto simp: lifecycle_step_def split: if_splits option.splits)

lemma complete_step_inv:
  assumes "lifecycle_inv (srv s)" "waits s = (if pending_step s = None then 1 else 0)" "pc_inv s"
    "step_stage s = Startup \<and> r = None \<longrightarrow> lstate (srv s) = RUNNING"
  shows "serve_inv (complete_step r s)"
proof -
  let ?c = "complete_step r s"
  have "lifecycle_inv (srv ?c)" using drives_complete [of s r] lifecycle.steps assms(1) by (auto simp: drives_def)
  then have "core ?c" using assms(2) by (auto simp: core_def complete_step_def Let_def split: option.splits sum.splits)
  moreover have "pc_inv ?c"
    using assms(3,4) future_done_facts [of _ _ "srv s"]
    by (auto simp: complete_step_def pc_inv_def Let_def split: option.splits sum.splits serve_pc.splits)
  ultimately show ?thesis by (simp add: serve_inv_def)
qed

text \<open>A server whose step changed keeps the invariant once the startup step is settled.\<close>

lemma settle_startup_inv:
  assumes "lifecycle_inv (srv s)" "waits s = (if pending_step s = None then 1 else 0)" "pc_inv s"
  shows "serve_inv (settle_startup f s)"
  using assms complete_step_inv [OF assms] by (auto simp: settle_startup_def serve_inv_def core_def)

lemma end_work_running: "lstate x = RUNNING \<Longrightarrow> end_work k x = Ok y \<Longrightarrow> lstate y = RUNNING"
  by (auto simp: end_work_def settle_def)

lemma retire_running: "lstate x = RUNNING \<Longrightarrow> retire n b x = Ok y \<Longrightarrow> lstate y = RUNNING"
  by (auto simp: retire_def close_orphan_listener_def closing_eq Let_def dest: end_work_running [rotated]
      split: option.splits if_splits)

lemma running_stays:
  assumes "lifecycle_inv x" "lifecycle_step e x = Some (Ok y)" "lstate x = RUNNING" "e \<noteq> Shutdown_Call"
  shows "lstate y = RUNNING"
proof -
  have x: "starting x = S_idle" "draining x = None" "stop_task x = None"
    using assms(1,3) by (auto simp: lifecycle_inv_def drain_pre_def split: option.splits)
  then show ?thesis using assms(2-4)
    by (cases e) (auto simp: lifecycle_step_def start_call_def start_cancel_def start_resume_def adopt_def adopt_again_def
        spawn_def Let_def split: if_splits option.splits dest: retire_running)
qed

lemma server_change_pc_inv:
  assumes inv: "serve_inv s" and mv: "lifecycle_next\<^sup>*\<^sup>* (srv s) t"
    and run: "step_task s' = T_done None \<longrightarrow> step_task s = T_done None \<and> (lstate (srv s) = RUNNING \<and> step_stage s = Startup \<and> \<not> published s \<longrightarrow> lstate t = RUNNING)"
    and same: "pc s' = pc s" "srv s' = t" "opts s' = opts s" "failed s' = failed s" "captured s' = captured s"
      "effects s' = effects s" "pending_step s' = pending_step s" "step_stage s' = step_stage s"
  shows "pc_inv s'"
proof -
  have m: "moves (srv s) t"
    using mv by induction (auto intro: moves_same moves_trans lifecycle_step_moves elim!: lifecycle_nextE)
  have "lstate t = STOPPED" if "lstate (srv s) = STOPPED"
  proof -
    have "allowed\<^sup>*\<^sup>* STOPPED (lstate t)" using m that by (simp add: moves_def)
    then show ?thesis by (cases rule: converse_rtranclpE) (simp_all add: allowed_def)
  qed
  then show ?thesis
    using inv m run by (cases "pc s"; cases "failed s") (simp_all add: serve_inv_def pc_inv_def same moves_def)
qed

lemma server_event_inv:
  assumes inv: "serve_inv s" and st: "server_event e f s = Some t"
  shows "serve_inv t"
proof -
  obtain u where u: "server_event_ok e s" "lifecycle_step e (srv s) = Some (Ok u)"
    and t: "t = settle_startup f (s\<lparr>srv := u, step_asked := (step_asked s \<and> e \<noteq> Start_Cancel)\<rparr>)"
    using st by (auto simp: server_event_def split: if_splits option.splits sum.splits)
  have l: "lifecycle_inv (srv s)" using inv by (simp add: serve_inv_def core_def)
  have "e \<noteq> Shutdown_Call" if "step_stage s = Startup" "\<not> published s"
    using u(1) that by (auto simp: server_shared_def)
  then have run: "lstate (srv s) = RUNNING \<and> step_stage s = Startup \<and> \<not> published s \<longrightarrow> lstate u = RUNNING"
    using running_stays [OF l u(2)] by auto
  let ?s = "s\<lparr>srv := u, step_asked := (step_asked s \<and> e \<noteq> Start_Cancel)\<rparr>"
  have "lifecycle_next\<^sup>*\<^sup>* (srv s) u" using u(2) by (auto intro: lifecycle_nextI)
  then have "pc_inv ?s" by (rule server_change_pc_inv [OF inv]) (use run in auto)
  then show ?thesis unfolding t
    using lifecycle_event [OF l u(2)] inv by (intro settle_startup_inv) (auto simp: serve_inv_def core_def)
qed

lemma step_begins_inv:
  assumes inv: "serve_inv s" and st: "step_begins lock f s = Some t"
  shows "serve_inv t"
proof -
  have s: "lifecycle_inv (srv s)" "waits s = (if pending_step s = None then 1 else 0)" "pc_inv s"
    "step_task s = T_created"
    using inv st by (auto simp: serve_inv_def core_def step_begins_def split: if_splits)
  have ready: "serve_inv (s\<lparr>step_task := T_running\<rparr>)" if "step_stage s \<noteq> Startup"
    using that inv by (auto simp: serve_inv_def core_def pc_inv_def split: serve_pc.splits)
  show ?thesis
  proof (cases "start_call lock (srv s)")
    case (Inr u)
    have e: "lifecycle_step (Start_Call lock) (srv s) = Some (Ok u)" using Inr by (simp add: lifecycle_step_def)
    let ?s = "s\<lparr>srv := u, step_task := T_running\<rparr>"
    have "lifecycle_next\<^sup>*\<^sup>* (srv s) u" using e by (auto intro: lifecycle_nextI)
    then have "pc_inv ?s" by (rule server_change_pc_inv [OF inv]) auto
    then have "serve_inv (settle_startup f ?s)"
      using lifecycle_event [OF s(1) e] s(2) by (intro settle_startup_inv) auto
    then show ?thesis
      using st complete_step_inv [OF s(1-3), of "Some CANCELLED"] ready Inr by (auto simp: step_begins_def split: if_splits)
  qed (use st complete_step_inv [OF s(1-3), of "Some CANCELLED"] ready in \<open>auto simp: step_begins_def split: if_splits\<close>)
qed

lemma end_raising_inv: "core s \<Longrightarrow> fatals s = [] \<Longrightarrow> requested (srv s) \<Longrightarrow> serve_inv (end_serve (s\<lparr>raising := r\<rparr>))"
  by (rule end_serve_inv) (auto intro: core_same)

lemma shutdown_cancelled_inv:
  assumes "core s" "fatals s = []" "requested (srv s)"
  shows "serve_inv (shutdown_cancelled owner s)"
proof -
  have k: "kept x (cancel_sessions x)" for x
    using fold_cancel_kept [where s = x and ns = "sessions x"] by (simp add: cancel_sessions_def)
  let ?s = "case stop_task (srv s) of
           Some n \<Rightarrow> if owner \<and> fut (srv s) n = Pending then s\<lparr>srv := cancel_sessions (srv s)\<rparr> else s
         | None \<Rightarrow> s"
  have "drives s ?s"
    by (auto split: option.splits intro: drives_same drives_step [of Shutdown_Cancelled] simp: lifecycle_step_def)
  then have "lifecycle_inv (srv ?s)" using assms(1) lifecycle.steps by (auto simp: drives_def core_def)
  then have "core ?s" "fatals ?s = []" "requested (srv ?s)"
    using assms k [of "srv s"] by (auto simp: core_def kept_def split: option.splits)
  then show ?thesis unfolding shutdown_cancelled_def by (rule end_raising_inv)
qed

lemma serve_step_inv:
  assumes inv: "serve_inv s" and st: "serve_step e s = Some t"
  shows "serve_inv t"
proof -
  have c: "core s" using inv by (simp add: serve_inv_def)
  then have l: "lifecycle_inv (srv s)" "waits s = (if pending_step s = None then 1 else 0)" by (simp_all add: core_def)
  have live: "(case pc s of V_exited c \<Rightarrow> True | _ \<Rightarrow> False) = False"
    using st by (cases "pc s") (simp_all add: serve_step_def)
  then have f: "fatals s = []" using inv by (cases "pc s") (simp_all add: serve_inv_def pc_inv_def)
  note st = st [unfolded serve_step_def live if_False]
  show ?thesis
  proof (cases e)
    case Stop_Requested
    then have "t = s\<lparr>stop_set := True\<rparr>" using st by (simp split: if_splits)
    then show ?thesis using inv by (cases "pc s"; cases "failed s") (simp_all add: serve_inv_def core_def pc_inv_def)
  next
    case (Step_Begins lock f)
    then show ?thesis using st step_begins_inv [OF inv] by simp
  next
    case (Step_Ends r)
    then have "t = complete_step r s" "step_stage s = Readiness" using st by (simp_all split: if_splits)
    then show ?thesis using inv complete_step_inv [OF l, of r] by (simp add: serve_inv_def)
  next
    case (Server x f)
    then show ?thesis using st server_event_inv [OF inv] by simp
  next
    case Wake
    then have w: "wake s = Some t" using st by simp
    show ?thesis
    proof (cases "pc s")
      case (V_step x)
      then show ?thesis using w step_wakes_inv [OF inv] by (auto simp: wake_def split: if_splits)
    next
      case (V_abandon x y)
      then show ?thesis using w after_abandon_inv [OF c f] by (auto simp: wake_def split: if_splits)
    next
      case V_stop
      then show ?thesis using w enter_finally_inv [OF c f] by (auto simp: wake_def split: if_splits)
    next
      case (V_shutdown owner)
      then have "requested (srv s)" using inv by (simp add: serve_inv_def pc_inv_def)
      then show ?thesis using w V_shutdown end_serve_inv [OF c f] end_raising_inv [OF c f]
        by (auto simp: wake_def shutdown_wakes_def split: option.splits outcome.splits if_splits)
    qed (use w in \<open>simp_all add: wake_def\<close>)
  next
    case Timeout
    then show ?thesis using st after_abandon_inv [OF c f] by (cases "pc s") auto
  next
    case Cancel
    have "pc s = V_shutdown owner \<Longrightarrow> requested (srv s)" for owner using inv by (simp add: serve_inv_def pc_inv_def)
    then show ?thesis
      using Cancel st after_abandon_inv [OF c f] fail_body_inv [OF c f] shutdown_cancelled_inv [OF c f]
      by (cases "pc s") (auto simp: serve_cancel_def)
  qed
qed

interpretation serving: invariant_system serve_init serve_next serve_inv
  by unfold_locales (auto simp: serve_init_inv elim!: serve_nextE dest: serve_step_inv)

abbreviation serve_reach :: "serving_state \<Rightarrow> bool" where
  "serve_reach \<equiv> reach serve_init serve_next"

lemma serve_server_reach: "serve_reach s \<Longrightarrow> server_reach (srv s)"
proof (induction rule: reach.induct)
  case (reach_init s)
  then obtain b f h where "srv s = new_server b f h"
    by (fastforce simp: serve_init_def serve_call_def split: if_splits sum.splits)
  then have "lifecycle_init (srv s)" by (auto simp: lifecycle_init_def)
  then show ?case by (rule reach.reach_init)
next
  case (reach_step s t)
  obtain e where "serve_step e s = Some t" using reach_step.hyps(2) by (rule serve_nextE)
  then have "drives s t" by (rule serve_drives)
  then have "lifecycle_next\<^sup>*\<^sup>* (srv s) (srv t)" using lifecycle.reachable [OF reach_step.IH] by (simp add: drives_def)
  then show ?case by (rule reach_steps [OF _ reach_step.IH])
qed

section \<open>How \<open>serve\<close> ends\<close>

fun serve_run :: "sevent list \<Rightarrow> serving_state \<Rightarrow> serving_state option" where
  "serve_run [] s = Some s"
| "serve_run (e # es) s = (case serve_step e s of None \<Rightarrow> None | Some t \<Rightarrow> serve_run es t)"

lemma serve_run_append:
  "serve_run (es @ fs) s = (case serve_run es s of None \<Rightarrow> None | Some t \<Rightarrow> serve_run fs t)"
  by (induction es arbitrary: s) (simp_all split: option.splits)

lemma serve_run_steps: "serve_run es s = Some t \<Longrightarrow> serve_next\<^sup>*\<^sup>* s t"
  by (induction es arbitrary: s) (auto split: option.splits intro: converse_rtranclp_into_rtranclp serve_nextI)

text \<open>C11: how \<open>serve\<close> ends. When it has returned, \<open>shutdown()\<close> was called and no signal handler is left;
  with \<open>hard_exit_on_stop\<close> the server is then \<open>stopped\<close>, its ledger empty, its lock
  released and its backend closed. When it has left the process, \<open>hard_exit_on_stop\<close> was set, the status is 1
  exactly if \<open>serve\<close> was failing, and that failure was reported exactly once (to
  \<open>on_fatal\<close> when it is an \<open>Exception\<close>); \<open>serve\<close> never waits for an abandoned step twice.\<close>

theorem serve_ends_clean:
  assumes "serve_reach s"
  shows "(\<forall>r. pc s = V_returned r \<longrightarrow>
       requested (srv s) \<and> captured s = [] \<and> r = failed s \<and> fatals s = [] \<and>
       (so_hard_exit (opts s) \<longrightarrow>
          lstate (srv s) = STOPPED \<and> ledger (srv s) = [] \<and> lock_fd (srv s) = None \<and> \<not> backend_open (srv s))) \<and>
     (\<forall>c. pc s = V_exited c \<longrightarrow> so_hard_exit (opts s) \<and> c = (if failed s = None then 0 else 1) \<and>
       fatals s = map (report_before_hard_exit (so_on_fatal (opts s))) (case failed s of None \<Rightarrow> [] | Some f \<Rightarrow> [f])) \<and>
     waits s \<le> 1"
proof -
  have inv: "serve_inv s" by (rule serving.reachable [OF assms])
  then have l: "lifecycle_inv (srv s)" "waits s \<le> 1" by (simp_all add: serve_inv_def core_def)
  have q: "quiescent (srv s)" if "lstate (srv s) = STOPPED"
    using l(1) that by (auto simp: lifecycle_inv_def drain_pre_def split: option.splits)
  show ?thesis
    using inv l q by (cases "pc s"; cases "failed s") (auto simp: serve_inv_def pc_inv_def quiescent_def)
qed

text \<open>A supervised server that is stopped after it became ready.\<close>

definition sample_options :: serve_options where
  "sample_options = \<lparr>so_hard_exit = True, so_on_fatal = True, so_ready = False, so_publish = Some None,
     so_signals = [''SIGINT'', ''SIGTERM''], so_stdin_eof = True\<rparr>"

definition sample_call :: serving_state where
  "sample_call = projr (serve_call sample_options (default_config\<lparr>cfg_socket_path := Some ''/tmp/stt.sock''\<rparr>) None No_Hook)"

definition sample_startup :: "sevent list" where
  "sample_startup = [Step_Begins (Some 3) CANCELLED, Server Backend_Started CANCELLED, Server (Bind_Done 1 (7, 9)) CANCELLED,
     Server (Callback 1 False) CANCELLED, Server Start_Resume CANCELLED]"

definition sample_stop :: "sevent list" where
  "sample_stop = [Wake, Stop_Requested, Wake, Server Stop_Task_Runs CANCELLED, Server (Future_Done 4 Result) CANCELLED,
     Server (Callback 4 False) CANCELLED, Server (Drain_Step False) CANCELLED, Server (Future_Done 5 Result) CANCELLED,
     Server (Callback 5 False) CANCELLED, Server (Drain_Step False) CANCELLED, Server (Callback 2 False) CANCELLED, Wake]"

lemmas serve_simps = serve_step_def step_begins_def settle_startup_def server_event_def wake_def step_over_def
  step_wakes_def publish_def enter_finally_def enter_shutdown_def shutdown_wakes_def callback_ran_def end_serve_def
  live_work_count_def drain_step_def drain_backend_def start_close_def finish_drain_def keep_lock_eq after_close_def
  cancel_sessions_def sample_simps release_lock_def linger_def serve_over_def complete_step_def

lemma sample_call_init: "serve_init sample_call"
proof -
  have "serve_call sample_options (default_config\<lparr>cfg_socket_path := Some ''/tmp/stt.sock''\<rparr>) None No_Hook = Ok sample_call"
    by (simp add: sample_call_def serve_call_def sample_options_def post_init_def default_config_def)
  then show ?thesis unfolding serve_init_def by blast
qed

definition sample_up :: serving_state where
  "sample_up = the (serve_run sample_startup sample_call)"

lemma sample_up_run:
  "serve_run sample_startup sample_call = Some sample_up \<and> lstate (srv sample_up) = RUNNING \<and>
   pc sample_up = V_step Startup \<and> \<not> stop_set sample_up \<and> effects sample_up = []"
  by (simp add: sample_up_def sample_startup_def sample_call_def serve_call_def sample_options_def post_init_def
      default_config_def serve_simps)

definition sample_done :: serving_state where
  "sample_done = the (serve_run sample_stop sample_up)"

lemma sample_done_run:
  "serve_run sample_stop sample_up = Some sample_done \<and> pc sample_done = V_returned None"
  by (simp add: sample_done_def sample_up_def sample_stop_def sample_startup_def sample_call_def serve_call_def sample_options_def post_init_def
      default_config_def serve_simps)

lemma sample_serve_reach: "serve_reach sample_up" "serve_reach sample_done"
proof -
  have c: "serve_reach sample_call" by (rule reach_init) (rule sample_call_init)
  show u: "serve_reach sample_up" using reach_steps [OF serve_run_steps c] sample_up_run by blast
  show "serve_reach sample_done" using reach_steps [OF serve_run_steps u] sample_done_run by blast
qed

theorem serve_ends_clean_witness:
  "lstate (srv sample_done) = STOPPED \<and> ledger (srv sample_done) = [] \<and> captured sample_done = []"
proof -
  have "opts sample_done = sample_options"
    by (simp add: sample_done_def sample_up_def sample_stop_def sample_startup_def sample_call_def serve_call_def
        sample_options_def post_init_def default_config_def serve_simps)
  then show ?thesis
    using serve_ends_clean [OF sample_serve_reach(2)] sample_done_run by (simp add: sample_options_def)
qed

section \<open>When the ready event is published\<close>

lemma published_same [simp]:
  "published (exit_process c a f s) = published s" "published (end_serve s) = published s"
  "published (enter_shutdown s) = published s" "published (enter_finally s) = published s"
  "published (fail_body g s) = published s" "published (after_abandon st fin b s) = published s"
  "published (begin_readiness s) = published s" "published (begin_abandon st fin s) = published s"
  "published (complete_step r s) = published s" "published (settle_startup g s) = published s"
  "published (shutdown_cancelled ow s) = published s"
proof -
  show a: "published (exit_process c a f s) = published s" for c a f s
    by (auto simp: exit_process_def Let_def report_fatal(2) [symmetric] split: option.split)
  show b: "published (end_serve s) = published s" for s
    by (auto simp: end_serve_def Let_def a split: option.split)
  show c: "published (enter_shutdown s) = published s" for s
    by (auto simp: enter_shutdown_def Let_def b split: sum.split)
  show d: "published (begin_abandon st fin s) = published s" for st fin s by (simp add: begin_abandon_def)
  show e: "published (enter_finally s) = published s" for s
    by (simp add: enter_finally_def c d split: option.split)
  show f: "published (fail_body g s) = published s" for g s by (simp add: fail_body_def e)
  show "published (after_abandon st fin b s) = published s"
    by (simp add: after_abandon_def Let_def c e f adopt_step_facts)
  show "published (begin_readiness s) = published s" by (simp add: begin_readiness_def f adopt_step_facts)
  show g: "published (complete_step r s) = published s" for r s
    by (auto simp: complete_step_def Let_def split: option.split sum.split)
  show "published (settle_startup g s) = published s" by (simp add: settle_startup_def g)
  show "published (shutdown_cancelled ow s) = published s" by (simp add: shutdown_cancelled_def b split: option.split)
qed

text \<open>\<open>publish_ready\<close> is called only after a stop check: when an event makes \<open>serve\<close> publish, no
  stop has been requested, the last step has returned normally, that step is the readiness
  preparation if there is one, and a server whose startup was the last step is running.\<close>

theorem serve_publishes_when_ready:
  assumes "serve_reach s" "serve_step e s = Some t" "\<not> published s" "published t"
  shows "e = Wake \<and> \<not> stop_set s \<and> step_task s = T_done None \<and>
     (so_ready (opts s) \<longrightarrow> step_stage s = Readiness) \<and> (step_stage s = Startup \<longrightarrow> lstate (srv s) = RUNNING)"
proof -
  have live: "(case pc s of V_exited c \<Rightarrow> True | _ \<Rightarrow> False) = False"
    using assms(2) by (cases "pc s") (simp_all add: serve_step_def)
  note st = assms(2) [unfolded serve_step_def live if_False]
  have e: "e = Wake"
  proof (rule ccontr)
    assume "e \<noteq> Wake"
    then have "published t = published s" using st
      by (cases e; cases "pc s")
        (auto simp: step_begins_def server_event_def serve_cancel_def split: if_splits sum.splits option.splits)
    then show False using assms(3,4) by simp
  qed
  then have w: "wake s = Some t" using st by simp
  have inv: "pc_inv s" using serving.reachable [OF assms(1)] by (simp add: serve_inv_def)
  obtain sg where sg: "pc s = V_step sg" "t = step_wakes sg s"
    using w assms(3,4) by (auto simp: wake_def shutdown_wakes_def split: serve_pc.splits if_splits option.splits outcome.splits)
  then show ?thesis using inv assms(3,4) e
    by (cases sg) (auto simp: step_wakes_def pc_inv_def split: task.splits option.splits if_splits)
qed

theorem serve_publishes_when_ready_witness:
  "\<not> stop_set sample_up \<and> step_task sample_up = T_done None \<and> lstate (srv sample_up) = RUNNING"
proof -
  have "\<exists>t. serve_step Wake sample_up = Some t \<and> published t \<and> so_ready (opts sample_up) = False \<and> step_stage sample_up = Startup"
    by (simp add: sample_up_def sample_startup_def sample_call_def serve_call_def sample_options_def post_init_def
        default_config_def serve_simps)
  then obtain t where "serve_step Wake sample_up = Some t" "published t" "step_stage sample_up = Startup" by auto
  then show ?thesis using serve_publishes_when_ready [OF sample_serve_reach(1), of Wake t] sample_up_run by simp
qed

section \<open>A stopped \<open>serve\<close> can always leave\<close>

text \<open>What ends the stop task of a server, whatever its sessions and its backend do: the task's own
  start, the expiry of its drain's waits, the callback of its entry.\<close>

lemma settle_keeps_stop: "settle x = Ok t \<Longrightarrow> stop_task t = stop_task x \<and> fut t = fut x \<and> ledger t = ledger x"
  by (auto simp: settle_def transition_def release_lock_def UNLOCKED_STATES_def Let_def split: if_splits)

lemma end_work_stop:
  "end_work k x = Ok t \<Longrightarrow> stop_task t = stop_task x \<and> fut t = fut x \<and> ledger t = ledger_pop k (ledger x)"
  using settle_keeps_stop [of "x\<lparr>ledger := ledger_pop k (ledger x)\<rparr>" t] by (simp add: end_work_def)

lemma keep_lock_stop: "stop_task (keep_lock_for_leftover_work cb x) = stop_task x"
proof -
  have "kept x (cancel_sessions x)"
    using fold_cancel_kept [where s = x and ns = "sessions x"] by (simp add: cancel_sessions_def)
  then have "stop_task (cancel_sessions x) = stop_task x" by (simp add: kept_def)
  then show ?thesis
    by (simp add: keep_lock_for_leftover_work_def start_close_def spawn_def linger_def Let_def
        split: option.split idle_answer.split)
qed

lemma finish_drain_stop:
  "finish_drain d oc x = Ok t \<Longrightarrow> dr_owner d = Some n \<Longrightarrow> stop_task t = stop_task x \<and> fut t n = oc \<and> draining t = None"
  using finish_drain_draining [of d oc x t]
  by (auto simp: finish_drain_def bind_result_Ok_iff keep_lock_stop dest!: end_work_stop)

text \<open>A stop task in its drain, or done.\<close>

definition stopping_in :: "nat \<Rightarrow> nat \<Rightarrow> server \<Rightarrow> bool" where
  "stopping_in n k t \<longleftrightarrow> stop_task t = Some n \<and> drain_left t \<le> k \<and> (draining t = None \<longrightarrow> fut t n \<noteq> Pending)"

lemma drain_backend_stop:
  assumes "drain_backend d x = Ok t" "dr_owner d = Some n" "stop_task x = Some n"
  shows "stopping_in n 1 t"
proof (cases "dr_close_backend d")
  case True
  then show ?thesis using assms drain_backend_left [OF assms(1)]
    by (auto simp: drain_backend_def stopping_in_def start_close_def spawn_def Let_def split: option.splits)
next
  case False
  then have "finish_drain d Result x = Ok t" using assms(1) by (simp add: drain_backend_def)
  then show ?thesis using finish_drain_stop [OF _ assms(2)] assms(3) by (auto simp: stopping_in_def drain_left_def)
qed

lemma drain_listener_stop:
  assumes "drain_listener d x = Ok t" "dr_owner d = Some n" "stop_task x = Some n"
  shows "stopping_in n 2 t"
proof (cases "dr_closer d")
  case None
  then have "stopping_in n 1 t" using assms drain_backend_stop by (simp add: drain_listener_def)
  then show ?thesis by (simp add: stopping_in_def)
qed (use assms in \<open>auto simp: drain_listener_def stopping_in_def drain_left_def\<close>)

lemma drain_step_stop:
  assumes "drain_step True d x = Some (Ok t)" "dr_owner d = Some n" "stop_task x = Some n"
  shows "stopping_in n (drain_rank (dr_wait d) - 1) t"
proof -
  have l: "stop_task (linger c k x) = Some n" for c k using assms(3) by (simp add: linger_def)
  have up: "stopping_in n k t \<Longrightarrow> k \<le> m \<Longrightarrow> stopping_in n m t" for k m by (auto simp: stopping_in_def)
  have fin: "stopping_in n 0 t" if "finish_drain d oc y = Ok t" "stop_task y = Some n" "oc \<noteq> Pending" for oc y
    using finish_drain_stop [OF that(1) assms(2)] that by (auto simp: stopping_in_def drain_left_def)
  show ?thesis
  proof (cases "dr_wait d")
    case (D_sessions ns)
    then have "drain_listener d x = Ok t \<or> t = (ask_cancel ns x)\<lparr>draining := Some (d\<lparr>dr_wait := D_grace\<rparr>)\<rparr>"
      using assms(1) by (auto simp: drain_step_def split: if_splits)
    then show ?thesis using drain_listener_stop [OF _ assms(2,3)] up [of 2 3] D_sessions assms(3)
      by (auto simp: stopping_in_def drain_left_def ask_cancel_def)
  next
    case D_grace
    then show ?thesis using assms drain_listener_stop [OF _ assms(2,3)] by (simp add: drain_step_def)
  next
    case (D_listener c)
    then show ?thesis using assms drain_backend_stop [OF _ assms(2)] l by (auto simp: drain_step_def split: if_splits)
  next
    case (D_close c)
    then show ?thesis using assms(1) fin l assms(3) by (auto simp: drain_step_def split: if_splits)
  qed
qed

lemma begin_drain_stop:
  assumes "begin_drain cb (Some n) x = Ok t" "stop_task x = Some n"
  shows "stopping_in n 4 t"
proof -
  obtain tok u c v where u: "begin_work (x\<lparr>shutdown_event := True\<rparr>) = (tok, Ok u)" "close_listener u = Ok (c, v)"
    using assms(1) by (cases "begin_work (x\<lparr>shutdown_event := True\<rparr>)") (auto simp: begin_drain_def bind_result_Ok_iff Let_def)
  let ?d = "\<lparr>dr_token = tok, dr_close_backend = cb, dr_closer = c, dr_wait = D_sessions (sessions u), dr_owner = Some n\<rparr>"
  have t: "t = v\<lparr>draining := Some ?d\<rparr> \<or> drain_listener ?d v = Ok t"
    using assms(1) by (auto simp: begin_drain_def Let_def u split: if_splits)
  have "stop_task u = Some n" using u(1) assms(2) by (auto simp: begin_work_def hand_off_def Let_def)
  then have v: "stop_task v = Some n"
    using u(2) by (cases "listener u") (auto simp: close_listener_def closing_eq Let_def)
  have "drain_left (v\<lparr>draining := Some ?d\<rparr>) \<le> 4" by (rule drain_left_le)
  then have "t = v\<lparr>draining := Some ?d\<rparr> \<Longrightarrow> stopping_in n 4 t" using v by (simp add: stopping_in_def)
  moreover have "stopping_in n 2 t" if "drain_listener ?d v = Ok t" by (rule drain_listener_stop [OF that _ v]) simp
  ultimately show ?thesis using t by (auto simp: stopping_in_def)
qed

definition stop_left :: "nat \<Rightarrow> server \<Rightarrow> nat" where
  "stop_left n x =
     (if fut x n \<noteq> Pending then (if callback_ran n x then 0 else 1)
      else case draining x of None \<Rightarrow> 6 | Some d \<Rightarrow> 1 + drain_rank (dr_wait d))"

lemma stop_left_le: "stop_left n x \<le> 6"
proof -
  have "drain_rank w \<le> 4" for w by (cases w) simp_all
  then have "drain_rank w \<le> 5" for w by (rule le_trans) simp
  then show ?thesis by (simp add: stop_left_def split: option.split)
qed

lemma stopping_in_left: "stopping_in n k t \<Longrightarrow> stop_left n t \<le> Suc k"
  by (auto simp: stopping_in_def stop_left_def drain_left_def split: option.splits)

definition stop_progress :: "levent set" where
  "stop_progress = {Stop_Task_Runs, Drain_Step True} \<union> range (\<lambda>n. Callback n False)"

lemma stop_task_progress:
  assumes "lifecycle_inv x" "stop_task x = Some n" "stop_left n x > 0"
  shows "\<exists>e \<in> stop_progress. \<exists>t. lifecycle_step e x = Some (Ok t) \<and> stop_task t = Some n \<and> stop_left n t < stop_left n x"
proof (cases "fut x n = Pending")
  case False
  then obtain w where w: "ledger_get (Fut n) (ledger x) = Some w" "wk_callback w" "stop_left n x = 1"
    using assms(3) by (auto simp: stop_left_def callback_ran_def split: if_splits option.splits)
  let ?e = "Callback n False"
  have st: "lifecycle_step ?e x = Some (retire n False x)" using w False by (simp add: lifecycle_step_def)
  then obtain t where t: "retire n False x = Ok t" using lifecycle_step_ok [OF assms(1)] by blast
  let ?x1 = "x\<lparr>ledger := ledger_put (Fut n) (w\<lparr>wk_callback := False, wk_then := False\<rparr>) (ledger x)\<rparr>"
  have "n \<noteq> fresh x" using stop_task_old [OF assms(1,2)] by simp
  then have cl: "fut (closing n True (record_bound_socket ?x1)) n = fut x n" by simp
  have "end_work (Fut n) ?x1 = Ok t \<or> end_work (Fut n) (closing n True (record_bound_socket ?x1)) = Ok t"
    using t w by (auto simp: retire_def close_orphan_listener_def closing_eq Let_def split: if_splits)
  then have "stop_task t = Some n \<and> fut t n = fut x n \<and> ledger_get (Fut n) (ledger t) = None"
    using cl assms(2) by (auto dest!: end_work_stop simp: ledger_get_def ledger_pop_def map_of_eq_None_iff)
  then have "stop_task t = Some n" "stop_left n t = 0" using False by (simp_all add: stop_left_def callback_ran_def)
  then show ?thesis using st t w(3) by (intro bexI [of _ ?e] exI [of _ t]) (simp_all add: stop_progress_def)
next
  case True
  show ?thesis
  proof (cases "draining x")
    case None
    let ?e = Stop_Task_Runs
    have st: "lifecycle_step ?e x = Some (begin_drain True (Some n) x)" using None True assms(2) by (simp add: lifecycle_step_def)
    then obtain t where t: "begin_drain True (Some n) x = Ok t" using lifecycle_step_ok [OF assms(1)] by blast
    have s: "stopping_in n 4 t" by (rule begin_drain_stop [OF t assms(2)])
    then have "stop_left n t < stop_left n x" using stopping_in_left [OF s] None True by (simp add: stop_left_def)
    then show ?thesis using st t s by (intro bexI [of _ ?e]) (auto simp: stop_progress_def stopping_in_def)
  next
    case (Some d)
    let ?e = "Drain_Step True"
    have d: "dr_owner d = Some n"
      using assms(1,2) Some by (auto simp: lifecycle_inv_def drain_pre_def split: option.splits)
    obtain r where r: "lifecycle_step ?e x = Some r" "drain_step True d x = Some r"
      using drain_step_enabled [of d x] Some by (auto simp: lifecycle_step_def)
    then obtain t where t: "r = Ok t" using lifecycle_step_ok [OF assms(1)] by blast
    have s: "stopping_in n (drain_rank (dr_wait d) - 1) t" by (rule drain_step_stop) (use r t d assms(2) in auto)
    have "drain_rank (dr_wait d) > 0" by (cases "dr_wait d") simp_all
    then have "stop_left n t < stop_left n x" using stopping_in_left [OF s] Some True by (simp add: stop_left_def)
    then show ?thesis using r t s by (intro bexI [of _ ?e]) (auto simp: stop_progress_def stopping_in_def)
  qed
qed

text \<open>The events that end \<open>serve\<close> itself: its own wake-ups, the expiry of its wait, the progress of the
  stop task.\<close>

definition serve_progress :: "sevent set" where
  "serve_progress = {Wake, Timeout} \<union> (\<lambda>e. Server e CANCELLED) ` stop_progress"

lemma shutdown_server_step:
  assumes "serve_inv s" "pc s = V_shutdown owner" "stop_task (srv s) = Some n" "e \<in> stop_progress"
    "lifecycle_step e (srv s) = Some (Ok t)"
  shows "serve_step (Server e CANCELLED) s = Some (s\<lparr>srv := t\<rparr>)"
proof -
  have "starting (srv s) = S_idle"
    using assms(1,3) by (auto simp: serve_inv_def core_def lifecycle_inv_def drain_pre_def start_pre_def leftover_def
        quiescent_def split: option.splits lifecycle.splits)
  then have "\<not> (step_stage s = Startup \<and> step_task s = T_running)" using assms(1) by (auto simp: serve_inv_def core_def)
  moreover have "server_event_ok e s" "e \<noteq> Start_Cancel" using assms(4) by (auto simp: stop_progress_def)
  ultimately show ?thesis using assms(2,5) by (auto simp: serve_step_def server_event_def settle_startup_def)
qed

lemma shutdown_ends:
  assumes "serve_inv s" "pc s = V_shutdown owner"
  shows "\<exists>es t. length es \<le> 7 \<and> set es \<subseteq> serve_progress \<and> serve_run es s = Some t \<and> serve_over t"
proof -
  have end_over: "serve_over (end_serve u)" for u
    by (auto simp: serve_over_def end_serve_def exit_process_def Let_def split: option.split)
  have wake: "\<exists>t. serve_step Wake u = Some t \<and> serve_over t"
    if "pc u = V_shutdown owner" "\<forall>n. stop_task (srv u) = Some n \<longrightarrow> stop_left n (srv u) = 0" for u
    using that end_over
    by (cases "stop_task (srv u)"; cases "fut (srv u) (the (stop_task (srv u)))")
      (auto simp: serve_step_def wake_def shutdown_wakes_def stop_left_def split: option.splits if_splits)
  show ?thesis
  proof (cases "stop_task (srv s)")
    case None
    then obtain t where "serve_step Wake s = Some t" "serve_over t" using wake [OF assms(2)] None by auto
    then show ?thesis by (intro exI [of _ "[Wake]"]) (simp add: serve_progress_def)
  next
    case (Some n)
    have "\<exists>es t. length es \<le> Suc (stop_left n (srv s)) \<and> set es \<subseteq> serve_progress \<and> serve_run es s = Some t \<and> serve_over t"
      using assms Some
    proof (induction "stop_left n (srv s)" arbitrary: s rule: less_induct)
      case less
      show ?case
      proof (cases "stop_left n (srv s) = 0")
        case True
        then obtain t where "serve_step Wake s = Some t" "serve_over t" using wake [OF less.prems(2)] less.prems(3) True by auto
        then show ?thesis by (intro exI [of _ "[Wake]"]) (simp add: serve_progress_def)
      next
        case False
        have l: "lifecycle_inv (srv s)" using less.prems(1) by (simp add: serve_inv_def core_def)
        obtain e t where e: "e \<in> stop_progress" "lifecycle_step e (srv s) = Some (Ok t)" "stop_task t = Some n"
          "stop_left n t < stop_left n (srv s)"
          using stop_task_progress [OF l less.prems(3)] False by auto
        have st: "serve_step (Server e CANCELLED) s = Some (s\<lparr>srv := t\<rparr>)"
          by (rule shutdown_server_step [OF less.prems e(1,2)])
        have "\<exists>es u. length es \<le> Suc (stop_left n t) \<and> set es \<subseteq> serve_progress \<and>
            serve_run es (s\<lparr>srv := t\<rparr>) = Some u \<and> serve_over u"
          using less.hyps [of "s\<lparr>srv := t\<rparr>"] e less.prems(2) serve_step_inv [OF less.prems(1) st] by simp
        then obtain es u where "length es \<le> Suc (stop_left n t)" "set es \<subseteq> serve_progress"
          "serve_run es (s\<lparr>srv := t\<rparr>) = Some u" "serve_over u" by blast
        then show ?thesis using st e
          by (intro exI [of _ "Server e CANCELLED # es"] exI [of _ u]) (auto simp: serve_progress_def)
      qed
    qed
    then obtain es t where es: "length es \<le> Suc (stop_left n (srv s))" "set es \<subseteq> serve_progress"
      "serve_run es s = Some t" "serve_over t" by blast
    have "length es \<le> 7" using es(1) stop_left_le [of n "srv s"] by linarith
    then show ?thesis using es(2-4) by blast
  qed
qed

definition leaving :: "serving_state \<Rightarrow> bool" where
  "leaving s \<longleftrightarrow> serve_over s \<or> (\<exists>owner. pc s = V_shutdown owner)"

lemma leaving_ends:
  assumes "serve_inv s" "leaving s"
  shows "\<exists>es t. length es \<le> 7 \<and> set es \<subseteq> serve_progress \<and> serve_run es s = Some t \<and> serve_over t"
proof (cases "serve_over s")
  case True
  then show ?thesis by (intro exI [of _ "[]"]) simp
qed (use assms shutdown_ends in \<open>auto simp: leaving_def\<close>)

lemma leaving_enter: "leaving (enter_shutdown s)"
  by (auto simp: enter_shutdown_def end_serve_def exit_process_def leaving_def serve_over_def Let_def
      split: sum.split option.split)

lemma leaving_finally: "leaving (enter_finally s) \<or> (\<exists>st fin. pc (enter_finally s) = V_abandon st fin)"
  by (auto simp: enter_finally_def begin_abandon_def leaving_enter split: option.split)

lemma leaving_timeout:
  assumes "serve_inv s" "pc s = V_abandon st fin"
  shows "\<exists>t. serve_step Timeout s = Some t \<and> leaving t"
proof -
  have "pending_step s = None" using assms by (simp add: serve_inv_def pc_inv_def)
  then have "leaving (after_abandon st fin False s)"
    by (simp add: after_abandon_def Let_def leaving_enter enter_finally_def adopt_step_facts)
  then show ?thesis using assms(2) by (simp add: serve_step_def)
qed

lemma abandon_ends:
  assumes "serve_inv s" "leaving s \<or> (\<exists>st fin. pc s = V_abandon st fin)"
  shows "\<exists>es t. length es \<le> 8 \<and> set es \<subseteq> serve_progress \<and> serve_run es s = Some t \<and> serve_over t"
proof (cases "leaving s")
  case True
  obtain es t where es: "length es \<le> 7" "set es \<subseteq> serve_progress" "serve_run es s = Some t" "serve_over t"
    using leaving_ends [OF assms(1) True] by blast
  have "length es \<le> 8" using es(1) by linarith
  then show ?thesis using es(2-4) by blast
next
  case False
  then obtain u where u: "serve_step Timeout s = Some u" "leaving u" using assms leaving_timeout by blast
  then obtain es t where "length es \<le> 7" "set es \<subseteq> serve_progress" "serve_run es u = Some t" "serve_over t"
    using leaving_ends [OF serve_step_inv [OF assms(1) u(1)]] by blast
  then show ?thesis using u(1) by (intro exI [of _ "Timeout # es"] exI [of _ t]) (auto simp: serve_progress_def)
qed

text \<open>C12: a requested stop always ends \<open>serve\<close>: from every reachable state in which a stop has been
  requested, at most nine further events end it, and these are only its own wake-ups, the expiry of
  its bounded wait for the abandoned step, and the progress of the server's stop task under expired
  timers; no step, session, peer, backend or further signal has to cooperate.\<close>

theorem serve_stop_ends:
  assumes "serve_reach s" "stop_set s"
  shows "\<exists>es t. length es \<le> 9 \<and> set es \<subseteq> serve_progress \<and> serve_run es s = Some t \<and> serve_over t"
proof -
  have inv: "serve_inv s" by (rule serving.reachable [OF assms(1)])
  have late: ?thesis if lv: "leaving s \<or> (\<exists>st fin. pc s = V_abandon st fin)"
  proof -
    obtain es t where es: "length es \<le> 8" "set es \<subseteq> serve_progress" "serve_run es s = Some t" "serve_over t"
      using abandon_ends [OF inv lv] by blast
    have "length es \<le> 9" using es(1) by linarith
    then show ?thesis using es(2-4) by blast
  qed
  have wake: ?thesis if u: "wake s = Some u" "leaving u \<or> (\<exists>st fin. pc u = V_abandon st fin)" "\<not> serve_over s" for u
  proof -
    have st: "serve_step Wake s = Some u" using u(1,3) by (cases "pc s") (simp_all add: serve_step_def serve_over_def)
    obtain es t where "length es \<le> 8" "set es \<subseteq> serve_progress" "serve_run es u = Some t" "serve_over t"
      using abandon_ends [OF serve_step_inv [OF inv st] u(2)] by blast
    then show ?thesis using st by (intro exI [of _ "Wake # es"] exI [of _ t]) (auto simp: serve_progress_def)
  qed
  show ?thesis
  proof (cases "pc s")
    case (V_step st)
    then have lv: "leaving (step_wakes st s) \<or> (\<exists>st' fin. pc (step_wakes st s) = V_abandon st' fin)"
      using assms(2) leaving_finally [of s] leaving_finally [of "s\<lparr>failed := Some f\<rparr>" for f]
      by (auto simp: step_wakes_def fail_body_def begin_abandon_def exit_process_def leaving_def serve_over_def Let_def
          split: task.split option.split)
    show ?thesis by (rule wake [OF _ lv]) (use V_step assms(2) in \<open>simp_all add: wake_def serve_over_def\<close>)
  next
    case V_stop
    then show ?thesis using wake [OF _ leaving_finally] assms(2) by (simp add: wake_def serve_over_def)
  qed (use late in \<open>auto simp: leaving_def serve_over_def\<close>)
qed

theorem serve_stop_ends_witness:
  "\<exists>s t es. pc s = V_step Startup \<and> lstate (srv s) = RUNNING \<and> length es \<le> 9 \<and> serve_run es s = Some t \<and> serve_over t"
proof -
  let ?s = "sample_up\<lparr>stop_set := True\<rparr>"
  have "serve_step Stop_Requested sample_up = Some ?s"
    by (simp add: sample_up_def sample_startup_def sample_call_def serve_call_def sample_options_def post_init_def
        default_config_def serve_simps)
  then have "serve_reach ?s" by (rule reach_step [OF sample_serve_reach(1) serve_nextI])
  then obtain es t where "length es \<le> 9" "serve_run es ?s = Some t" "serve_over t"
    using serve_stop_ends [of ?s] by auto
  then show ?thesis using sample_up_run by (intro exI [of _ ?s] exI [of _ t] exI [of _ es]) simp
qed

section \<open>The order of the effects\<close>

abbreviation readies :: "serving_state \<Rightarrow> effect list" where
  "readies s \<equiv> filter (\<lambda>e. e = Published) (effects s)"

text \<open>A failure is reported last.\<close>

definition fatal_last :: "serving_state \<Rightarrow> bool" where
  "fatal_last s \<longleftrightarrow> list_all (\<lambda>e. \<not> is_fatal e) (butlast (effects s))"

lemma report_not_published: "report_before_hard_exit b f \<noteq> Published"
  by (auto simp: report_before_hard_exit_def split: failure.split)

lemma fatal_last_none: "fatals s = [] \<Longrightarrow> fatal_last s"
  by (auto simp: fatal_last_def filter_empty_conv list_all_iff dest: in_set_butlastD)

lemma exit_process_effects:
  "readies (exit_process c a f s) = readies s" "fatals s = [] \<Longrightarrow> fatal_last (exit_process c a f s)"
  by (auto simp: exit_process_def Let_def report_not_published report_not_published [symmetric] fatal_last_def
      filter_empty_conv list_all_iff butlast_append dest: in_set_butlastD split: option.split)

lemma end_serve_effects:
  "readies (end_serve s) = readies s" "fatals s = [] \<Longrightarrow> fatal_last (end_serve s)"
  by (auto simp: end_serve_def Let_def exit_process_effects fatal_last_none split: option.split)

lemma enter_shutdown_effects:
  "readies (enter_shutdown s) = readies s" "fatals s = [] \<Longrightarrow> fatal_last (enter_shutdown s)"
  by (auto simp: enter_shutdown_def Let_def end_serve_effects fatal_last_none split: sum.split)

lemma enter_finally_effects:
  "readies (enter_finally s) = readies s" "fatals s = [] \<Longrightarrow> fatal_last (enter_finally s)"
  by (auto simp: enter_finally_def begin_abandon_def enter_shutdown_effects fatal_last_none split: option.split)

lemma fail_body_effects:
  "readies (fail_body f s) = readies s" "fatals s = [] \<Longrightarrow> fatal_last (fail_body f s)"
  by (simp_all add: fail_body_def enter_finally_effects)

lemma after_abandon_effects:
  "readies (after_abandon st fin b s) = readies s" "fatals s = [] \<Longrightarrow> fatal_last (after_abandon st fin b s)"
  by (simp_all add: after_abandon_def Let_def fail_body_effects enter_finally_effects enter_shutdown_effects adopt_step_facts)

lemma other_effects:
  "effects (complete_step r s) = effects s" "effects (settle_startup f s) = effects s"
  by (auto simp: complete_step_def settle_startup_def Let_def split: option.split sum.split)

lemma publish_effects:
  "readies s = [] \<Longrightarrow> readies (publish s) = [] \<or> readies (publish s) = [Published]"
  "fatals s = [] \<Longrightarrow> fatal_last (publish s)"
  by (auto simp: publish_def Let_def fail_body_effects fatal_last_none split: option.split)

lemma begin_readiness_effects:
  "readies (begin_readiness s) = readies s" "fatals s = [] \<Longrightarrow> fatal_last (begin_readiness s)"
  by (auto simp: begin_readiness_def adopt_step_facts fail_body_effects fatal_last_none)

lemma step_wakes_effects:
  "readies s = [] \<Longrightarrow> readies (step_wakes st s) = [] \<or> readies (step_wakes st s) = [Published]"
  "fatals s = [] \<Longrightarrow> fatal_last (step_wakes st s)"
proof -
  have b: "readies (begin_abandon st False s) = readies s" "fatals s = [] \<Longrightarrow> fatal_last (begin_abandon st False s)"
    by (simp_all add: begin_abandon_def fatal_last_none)
  have "(\<exists>f. step_wakes st s = fail_body f s) \<or> step_wakes st s \<in> {enter_finally s, begin_readiness s, publish s,
      exit_process 0 True None s, begin_abandon st False s}"
    by (simp add: step_wakes_def split: task.split option.split) blast
  then consider f where "step_wakes st s = fail_body f s" | "step_wakes st s = enter_finally s"
    | "step_wakes st s = begin_readiness s" | "step_wakes st s = publish s"
    | "step_wakes st s = exit_process 0 True None s" | "step_wakes st s = begin_abandon st False s"
    by blast
  then show "readies s = [] \<Longrightarrow> readies (step_wakes st s) = [] \<or> readies (step_wakes st s) = [Published]"
    "fatals s = [] \<Longrightarrow> fatal_last (step_wakes st s)"
    by (cases; simp only: fail_body_effects enter_finally_effects begin_readiness_effects publish_effects
      exit_process_effects b simp_thms)+
qed

lemma shutdown_wakes_effects:
  "shutdown_wakes ow s = Some t \<Longrightarrow> readies t = readies s \<and> (fatals s = [] \<longrightarrow> fatal_last t)"
  by (auto simp: shutdown_wakes_def end_serve_effects split: option.splits outcome.splits if_splits)

lemma shutdown_cancelled_effects:
  "readies (shutdown_cancelled ow s) = readies s" "fatals s = [] \<Longrightarrow> fatal_last (shutdown_cancelled ow s)"
  by (auto simp: shutdown_cancelled_def end_serve_effects split: option.split)

lemma step_begins_effects: "step_begins l f s = Some t \<Longrightarrow> effects t = effects s"
  by (auto simp: step_begins_def other_effects split: if_splits sum.splits)

lemma server_event_effects: "server_event e f s = Some t \<Longrightarrow> effects t = effects s"
  by (auto simp: server_event_def other_effects split: if_splits sum.splits option.splits)

lemma wake_effects:
  assumes "wake s = Some t" "pc_inv s"
  shows "(readies t = readies s \<or> readies s = [] \<and> readies t = [Published]) \<and> (fatals s = [] \<longrightarrow> fatal_last t)"
proof (cases "pc s")
  case (V_step st)
  then have "readies s = []" using assms(2) by (auto simp: pc_inv_def filter_empty_conv)
  then show ?thesis using assms(1) V_step step_wakes_effects by (auto simp: wake_def split: if_splits)
next
  case (V_abandon st fin)
  then show ?thesis using assms(1) after_abandon_effects by (auto simp: wake_def split: if_splits)
next
  case V_stop
  then show ?thesis using assms(1) enter_finally_effects by (auto simp: wake_def split: if_splits)
next
  case (V_shutdown ow)
  then show ?thesis using assms(1) shutdown_wakes_effects by (auto simp: wake_def)
qed (use assms(1) in \<open>simp_all add: wake_def\<close>)

lemma serve_step_effects:
  assumes "serve_step e s = Some t" "serve_inv s"
  shows "(readies t = readies s \<or> readies s = [] \<and> readies t = [Published]) \<and> fatal_last t"
proof -
  have live: "(case pc s of V_exited c \<Rightarrow> True | _ \<Rightarrow> False) = False"
    using assms(1) by (cases "pc s") (simp_all add: serve_step_def)
  have f: "fatals s = []" using assms(2) live by (cases "pc s") (simp_all add: serve_inv_def pc_inv_def)
  note st = assms(1) [unfolded serve_step_def live if_False]
  show ?thesis
  proof (cases e)
    case Wake
    then show ?thesis using st wake_effects [of s t] assms(2) f by (simp add: serve_inv_def)
  next
    case (Step_Begins l g)
    then have "effects t = effects s" using st step_begins_effects by simp
    then show ?thesis using f fatal_last_none [of t] by simp
  next
    case (Server l g)
    then have "effects t = effects s" using st server_event_effects by simp
    then show ?thesis using f fatal_last_none [of t] by simp
  next
    case Cancel
    then show ?thesis using st f fail_body_effects after_abandon_effects shutdown_cancelled_effects
      by (cases "pc s") (auto simp: serve_cancel_def)
  next
    case Timeout
    then show ?thesis using st f after_abandon_effects by (cases "pc s") auto
  next
    case (Step_Ends r)
    then have "effects t = effects s" using st by (auto simp: other_effects split: if_splits)
    then show ?thesis using f fatal_last_none [of t] by simp
  next
    case Stop_Requested
    then have "effects t = effects s" using st by (auto split: if_splits)
    then show ?thesis using f fatal_last_none [of t] by simp
  qed
qed

lemma ready_once: "serve_reach s \<Longrightarrow> length (readies s) \<le> 1 \<and> fatal_last s"
proof (induction rule: reach.induct)
  case (reach_init s)
  then show ?case by (auto simp: serve_init_def serve_call_def fatal_last_def split: if_splits sum.splits)
next
  case (reach_step s t)
  obtain e where "serve_step e s = Some t" using reach_step.hyps(2) by (rule serve_nextE)
  from serve_step_effects [OF this serving.reachable [OF reach_step.hyps(1)]] show ?case using reach_step.IH by auto
qed

end
