(* ===== verification/Client.thy ===== *)
theory Client
  imports Json_Text Session_Turns Env
begin

text \<open>
  The client of \<open>stt_server/client.py\<close>: endpoint resolution, the handshake, the control events it
  sends and the iterator over the server's events; and the loop of the example service
  (\<open>examples/pipecat_stt_service.py\<close>) and of the file example over that iterator.

  What the connection delivers is a list of frames; its end is the end of the connection. The
  client's text frames are \<open>json.dumps\<close> texts, so what the server makes of them is the server model
  applied to these very texts.
\<close>

section \<open>Endpoints\<close>

record endpoint =
  ep_uri :: "string option"
  ep_socket_path :: "string option"
  ep_host :: "string option"
  ep_port :: "int option"

text \<open>\<open>(env.get(k) or "").strip() or None\<close>\<close>

definition env_stripped :: "environ \<Rightarrow> string \<Rightarrow> string option" where
  "env_stripped env k =
     (let v = strip (case env k of None \<Rightarrow> [] | Some v \<Rightarrow> v) in if v = [] then None else Some v)"

text \<open>\<open>None\<close>: \<open>int()\<close> raised \<open>ValueError\<close>.\<close>

definition resolve_endpoint_from_env :: "environ \<Rightarrow> endpoint option" where
  "resolve_endpoint_from_env env =
     (let uri = env_stripped env ''STT_WS_URI'';
          sock = env_stripped env ''STT_WS_SOCKET'';
          host = env_stripped env ''STT_WS_HOST'';
          port = (case env_stripped env ''STT_WS_PORT'' of
                    None \<Rightarrow> Some None | Some p \<Rightarrow> map_option Some (py_int p))
      in case port of None \<Rightarrow> None
         | Some port \<Rightarrow> Some
             (if uri \<noteq> None then \<lparr>ep_uri = uri, ep_socket_path = None, ep_host = None, ep_port = None\<rparr>
              else if sock \<noteq> None then \<lparr>ep_uri = uri, ep_socket_path = sock, ep_host = None, ep_port = None\<rparr>
              else \<lparr>ep_uri = uri, ep_socket_path = sock, ep_host = host, ep_port = port\<rparr>))"

text \<open>An address as \<open>ipaddress\<close> parses it, with its \<open>is_loopback\<close>; the parser (\<open>None\<close>:
  \<open>ValueError\<close>) and \<open>urlsplit\<close> (scheme and host name) are arguments.\<close>

datatype address = V4 bool | V6 bool

fun is_loopback :: "address \<Rightarrow> bool" where
  "is_loopback (V4 b) = b"
| "is_loopback (V6 b) = b"

definition is_cleartext_remote ::
  "(string \<Rightarrow> (string \<times> string option) option) \<Rightarrow> (string \<Rightarrow> address option) \<Rightarrow> string \<Rightarrow> bool" where
  "is_cleartext_remote urlsplit ip_address uri =
     (case urlsplit uri of
        None \<Rightarrow> False
      | Some (scheme, hostname) \<Rightarrow>
          if lower scheme \<noteq> ''ws'' then False
          else
            let host = lower (case hostname of None \<Rightarrow> [] | Some h \<Rightarrow> h)
            in if host = [] \<or> host \<in> {''localhost'', ''127.0.0.1'', ''::1''} then False
               else case ip_address host of None \<Rightarrow> True | Some a \<Rightarrow> \<not> is_loopback a)"

definition format_host_for_uri :: "(string \<Rightarrow> address option) \<Rightarrow> string \<Rightarrow> string" where
  "format_host_for_uri ip_address host =
     (case ip_address host of Some (V6 b) \<Rightarrow> ''['' @ host @ '']'' | _ \<Rightarrow> host)"

section \<open>The client\<close>

record client =
  cl_socket_path :: "string option"
  cl_host :: "string option"
  cl_port :: "int option"
  cl_uri :: "string option"
  cl_auth_token :: "string option"
  cl_connected :: bool
  cl_closed :: bool

text \<open>\<open>None\<close>: \<open>ValueError\<close>. \<open>expanduser\<close> is the home directory lookup.\<close>

definition make_client :: "(string \<Rightarrow> string) \<Rightarrow> endpoint \<Rightarrow> string option \<Rightarrow> client option" where
  "make_client expanduser e token =
     (if ep_uri e = None \<and> ep_socket_path e = None \<and> (ep_host e = None \<or> ep_port e = None) then None
      else Some \<lparr>cl_socket_path = (case ep_socket_path e of
                    Some p \<Rightarrow> if p \<noteq> [] then Some (expanduser p) else None | None \<Rightarrow> None),
                 cl_host = ep_host e, cl_port = ep_port e, cl_uri = ep_uri e, cl_auth_token = token,
                 cl_connected = False, cl_closed = False\<rparr>)"

text \<open>What \<open>connect\<close> opens: a URI, or the Unix socket; with the headers it sends.\<close>

datatype target = To_Uri string | To_Socket string

definition connect_target :: "(string \<Rightarrow> address option) \<Rightarrow> client \<Rightarrow> target" where
  "connect_target ip_address c =
     (case cl_uri c of
        Some (x # xs) \<Rightarrow> To_Uri (x # xs)
      | _ \<Rightarrow>
          (case cl_socket_path c of
             Some (x # xs) \<Rightarrow> To_Socket (x # xs)
           | _ \<Rightarrow>
               To_Uri (''ws://'' @ format_host_for_uri ip_address (the (cl_host c)) @ '':'' @
                 (case cl_port c of Some p \<Rightarrow> show_int p | None \<Rightarrow> ''None'') @ ''/'')))"

definition connect_headers :: "client \<Rightarrow> (string \<times> string) list" where
  "connect_headers c =
     (case cl_auth_token c of
        Some (x # xs) \<Rightarrow> [(''Authorization'', ''Bearer '' @ x # xs)] | _ \<Rightarrow> [])"

section \<open>Receiving\<close>

datatype frame = F_Text string | F_Binary "byte list"

text \<open>\<open>Unexpected expected got\<close>: the \<open>RuntimeError\<close> of the handshake.\<close>

datatype client_error =
    Connection_Closed | Unexpected_Binary | Unexpected string json | Json_Decode | Json_Value | Not_A_Dict
  | Foreign_Text

definition recv_json :: "frame list \<Rightarrow> (client_error + json) \<times> frame list" where
  "recv_json fs =
     (case fs of
        [] \<Rightarrow> (Raise Connection_Closed, [])
      | F_Binary b # gs \<Rightarrow> (Raise Unexpected_Binary, gs)
      | F_Text t # gs \<Rightarrow>
          ((case loads t of Loaded j \<Rightarrow> Ok j | DecodeError \<Rightarrow> Raise Json_Decode
            | LoadsValueError \<Rightarrow> Raise Json_Value | Unmodelled \<Rightarrow> Raise Foreign_Text), gs))"

text \<open>\<open>x.get(k)\<close>\<close>

fun get_member :: "string \<Rightarrow> json \<Rightarrow> json option" where
  "get_member k (JObj kvs) = Some (jget_or kvs k JNull)"
| "get_member k _ = None"

definition expect :: "string \<Rightarrow> frame list \<Rightarrow> (client_error + json) \<times> frame list" where
  "expect t fs =
     (case recv_json fs of
        (Inl e, gs) \<Rightarrow> (Raise e, gs)
      | (Inr j, gs) \<Rightarrow>
          (case get_member ''type'' j of
             None \<Rightarrow> (Raise Not_A_Dict, gs)
           | Some v \<Rightarrow> if v = JStr t then (Ok j, gs) else (Raise (Unexpected t v), gs)))"

text \<open>The handshake of \<open>connect\<close>: the hello, and what is left to receive.\<close>

definition connect :: "frame list \<Rightarrow> (client_error + json) \<times> frame list" where
  "connect fs =
     (case expect EVT_SERVER_HELLO fs of
        (Inl e, gs) \<Rightarrow> (Raise e, gs)
      | (Inr hello, gs) \<Rightarrow>
          (case expect EVT_SESSION_CREATED gs of
             (Inl e, hs) \<Rightarrow> (Raise e, hs)
           | (Inr created, hs) \<Rightarrow> (Ok hello, hs)))"

text \<open>\<open>events()\<close>: what it yields, and how it ends (\<open>None\<close>: with the connection). A binary frame and a
  text that is no JSON are skipped.\<close>

fun events :: "frame list \<Rightarrow> json list \<times> client_error option" where
  "events [] = ([], None)"
| "events (F_Binary b # fs) = events fs"
| "events (F_Text t # fs) =
     (case loads t of
        Loaded j \<Rightarrow> (let (js, e) = events fs in (j # js, e))
      | DecodeError \<Rightarrow> events fs
      | LoadsValueError \<Rightarrow> ([], Some Json_Value)
      | Unmodelled \<Rightarrow> ([], Some Foreign_Text))"

section \<open>Control events\<close>

definition nullable :: "string option \<Rightarrow> json" where
  "nullable x = (case x of None \<Rightarrow> JNull | Some t \<Rightarrow> JStr t)"

definition update_session :: "string option \<Rightarrow> string option \<Rightarrow> json" where
  "update_session turn_detection language =
     JObj [(''type'', JStr EVT_SESSION_UPDATE),
       (''session'', JObj
          [(''type'', JStr ''transcription''),
           (''audio'', JObj
             [(''input'', JObj
                ([(''format'', JObj
                    [(''encoding'', JStr AUDIO_FORMAT), (''rate'', JInt (int AUDIO_SAMPLE_RATE_HZ)),
                     (''channels'', JInt (int AUDIO_CHANNELS))]),
                  (''turn_detection'', nullable turn_detection)] @
                 (case language of None \<Rightarrow> [] | Some l \<Rightarrow> [(''language'', JStr l)])))])])]"

definition send_audio_base64 :: "byte list \<Rightarrow> json" where
  "send_audio_base64 pcm = JObj [(''type'', JStr EVT_AUDIO_APPEND), (''audio'', JStr (b64encode pcm))]"

definition commit :: json where "commit = JObj [(''type'', JStr EVT_AUDIO_COMMIT)]"
definition status :: json where "status = JObj [(''type'', JStr EVT_SERVER_STATUS_REQ)]"
definition close_session :: json where "close_session = JObj [(''type'', JStr EVT_SESSION_CLOSE)]"
definition cancel :: json where "cancel = JObj [(''type'', JStr EVT_SESSION_CANCEL)]"

text \<open>\<open>close()\<close> closes the socket once and swallows its failures.\<close>

definition close_client :: "client \<Rightarrow> client \<times> bool" where
  "close_client c =
     (if cl_closed c then (c, False) else (c\<lparr>cl_closed := True\<rparr>, cl_connected c))"

section \<open>The example service\<close>

text \<open>What \<open>run_stt\<close> yields; \<open>Waiting\<close>: the loop goes on waiting on the open connection after the
  events received so far. The message of an error event is what \<open>ev.get("message")\<close> returns.\<close>

datatype service_frame =
    Transcription string | Server_Error json | Closed_Early | Wrong_Rate | Request_Failed

datatype service_run = Yields "service_frame list" | Waiting

text \<open>\<open>(ev.get("transcript") or "")\<close>; \<open>None\<close>: a value that has no \<open>strip\<close>.\<close>

definition transcript_of :: "json \<Rightarrow> string option" where
  "transcript_of ev =
     (case get_member ''transcript'' ev of
        None \<Rightarrow> None
      | Some v \<Rightarrow> if \<not> truthy v then Some [] else (case v of JStr x \<Rightarrow> Some x | _ \<Rightarrow> None))"

fun run_stt_events :: "json list \<Rightarrow> service_run" where
  "run_stt_events [] = Waiting"
| "run_stt_events (ev # evs) =
     (case get_member ''type'' ev of
        None \<Rightarrow> Yields [Request_Failed]
      | Some t \<Rightarrow>
          if t = JStr EVT_TRANSCRIPT_COMPLETED then
            (case transcript_of ev of
               None \<Rightarrow> Yields [Request_Failed]
             | Some tx \<Rightarrow> Yields (if strip tx \<noteq> [] then [Transcription tx] else []))
          else if t = JStr EVT_ERROR then
            (case get_member ''message'' ev of
               Some m \<Rightarrow> Yields [Server_Error m] | None \<Rightarrow> Yields [Request_Failed])
          else if t = JStr EVT_SESSION_CLOSED then Yields [Closed_Early]
          else run_stt_events evs)"

definition run_stt :: "nat \<Rightarrow> json list \<Rightarrow> service_run" where
  "run_stt sample_rate evs =
     (if sample_rate \<noteq> AUDIO_SAMPLE_RATE_HZ then Yields [Wrong_Rate] else run_stt_events evs)"

section \<open>What the server makes of the client's events\<close>

lemma handle_json_text:
  assumes "json_text (JObj msg) = Some t" "jget msg ''type'' = Some (JStr name)" "name \<in> set CLIENT_EVENT_TYPES"
    "jget msg ''event_id'' = None"
  shows "handle_text w t s = dispatch w name msg None s"
  using loads_json_text [OF assms(1)] assms(2-4) by (simp add: handle_text_def handle_message_def Let_def)

lemmas event_names = CLIENT_EVENT_TYPES_def EVT_SESSION_UPDATE_def EVT_TRANSCRIPTION_SESSION_UPDATE_def EVT_AUDIO_APPEND_def
  EVT_AUDIO_COMMIT_def EVT_AUDIO_CLEAR_def EVT_SERVER_STATUS_REQ_def EVT_SESSION_CLOSE_def EVT_SESSION_CANCEL_def

lemma show_small: "length (show_nat 16000) \<le> 4300" "length (show_nat 1) \<le> 4300"
  by (simp_all add: show_nat.simps)

lemma update_session_text: "json_text (update_session td lang) \<noteq> None"
  using show_small
  by (auto simp: update_session_def nullable_def AUDIO_SAMPLE_RATE_HZ_def AUDIO_CHANNELS_def split: option.splits)

lemma handled_json:
  assumes "json_text (JObj msg) \<noteq> None" "jget msg ''type'' = Some (JStr name)" "name \<in> set CLIENT_EVENT_TYPES"
    "jget msg ''event_id'' = None"
  shows "\<exists>t. json_text (JObj msg) = Some t \<and> handle_text w t s = dispatch w name msg None s"
  using assms handle_json_text by blast

lemma handled_simple:
  "name \<in> set CLIENT_EVENT_TYPES \<Longrightarrow>
     \<exists>t. json_text (JObj [(''type'', JStr name)]) = Some t \<and> handle_text w t s = dispatch w name [(''type'', JStr name)] None s"
  by (rule handled_json) (simp_all add: jget_def)

lemma jget_Cons: "jget (kv # kvs) k = (case jget kvs k of Some v \<Rightarrow> Some v | None \<Rightarrow> if fst kv = k then Some (snd kv) else None)"
  by (cases kv) (auto simp: jget_def map_add_def split: option.split)

lemma jget_Nil [simp]: "jget [] k = None"
  by (simp add: jget_def)

lemma handled_update:
  "\<exists>t. json_text (update_session None lang) = Some t \<and>
     handle_text w t s = on_session_update w (case update_session None lang of JObj kvs \<Rightarrow> kvs | _ \<Rightarrow> []) None s"
proof -
  obtain msg where m: "update_session None lang = JObj msg" "jget msg ''type'' = Some (JStr EVT_SESSION_UPDATE)" "jget msg ''event_id'' = None"
    by (simp add: update_session_def jget_Cons)
  have "\<exists>t. json_text (JObj msg) = Some t \<and> handle_text w t s = dispatch w EVT_SESSION_UPDATE msg None s"
    by (rule handled_json) (use m update_session_text [of None lang] in \<open>simp_all add: event_names\<close>)
  then show ?thesis using m by (simp add: dispatch_def)
qed

text \<open>C16: the client and the server speak the same protocol: the text of every control event of the
  client is handled by the server as that operation. An audio append in base64 is the binary append
  of the same bytes; a session update without turn detection is accepted, sets the language if one
  is given, and is answered with \<open>session.updated\<close> and \<open>transcription_session.updated\<close>.\<close>

theorem client_speaks_protocol:
  "(\<exists>t. json_text (send_audio_base64 pcm) = Some t \<and> handle_text w t s = Done (handle_binary_audio w pcm s)) \<and>
   (\<exists>t. json_text commit = Some t \<and> handle_text w t s = Done (on_commit w None s)) \<and>
   (\<exists>t. json_text status = Some t \<and> handle_text w t s = Done (on_status w s)) \<and>
   (\<exists>t. json_text close_session = Some t \<and> handle_text w t s = Done (on_close w s)) \<and>
   (\<exists>t. json_text cancel = Some t \<and> handle_text w t s = Done (on_cancel w s)) \<and>
   (\<exists>t. json_text (update_session None lang) = Some t \<and>
      (let c = (config s)(''turn_detection'' \<mapsto> JNull);
           s1 = s\<lparr>config := (case lang of None \<Rightarrow> c | Some l \<Rightarrow> c(''language'' \<mapsto> JStr l))\<rparr>
       in handle_text w t s = Done
            (emit w False (\<lambda>eid. session_frame EVT_TRANSCRIPTION_SESSION_UPDATED eid (session_snapshot s1))
              (emit w False (\<lambda>eid. session_frame EVT_SESSION_UPDATED eid (session_snapshot s1)) s1))))"
proof (intro conjI)
  show "\<exists>t. json_text (send_audio_base64 pcm) = Some t \<and> handle_text w t s = Done (handle_binary_audio w pcm s)"
    using handled_json [where name = EVT_AUDIO_APPEND and w = w and s = s and
        msg = "[(''type'', JStr EVT_AUDIO_APPEND), (''audio'', JStr (b64encode pcm))]"]
    by (simp add: send_audio_base64_def jget_Cons dispatch_def event_names on_audio_append_json_def b64decode_encode)
  show "\<exists>t. json_text commit = Some t \<and> handle_text w t s = Done (on_commit w None s)"
    using handled_simple [of EVT_AUDIO_COMMIT w s] by (simp add: commit_def dispatch_def event_names)
  show "\<exists>t. json_text status = Some t \<and> handle_text w t s = Done (on_status w s)"
    using handled_simple [of EVT_SERVER_STATUS_REQ w s] by (simp add: status_def dispatch_def event_names)
  show "\<exists>t. json_text close_session = Some t \<and> handle_text w t s = Done (on_close w s)"
    using handled_simple [of EVT_SESSION_CLOSE w s] by (simp add: close_session_def dispatch_def event_names)
  show "\<exists>t. json_text cancel = Some t \<and> handle_text w t s = Done (on_cancel w s)"
    using handled_simple [of EVT_SESSION_CANCEL w s] by (simp add: cancel_def dispatch_def event_names)
  show "\<exists>t. json_text (update_session None lang) = Some t \<and>
      (let c = (config s)(''turn_detection'' \<mapsto> JNull);
           s1 = s\<lparr>config := (case lang of None \<Rightarrow> c | Some l \<Rightarrow> c(''language'' \<mapsto> JStr l))\<rparr>
       in handle_text w t s = Done
            (emit w False (\<lambda>eid. session_frame EVT_TRANSCRIPTION_SESSION_UPDATED eid (session_snapshot s1))
              (emit w False (\<lambda>eid. session_frame EVT_SESSION_UPDATED eid (session_snapshot s1)) s1)))"
  proof (cases lang)
    case None
    then show ?thesis using handled_update [of lang w s]
      by (auto simp: update_session_def nullable_def on_session_update_def jget_Cons jget_or_def or_dict_def format_problem_def
          equals_str_def take_language_def Let_def)
  next
    case (Some l)
    then show ?thesis using handled_update [of lang w s]
      by (auto simp: update_session_def nullable_def on_session_update_def jget_Cons jget_or_def or_dict_def format_problem_def
          equals_str_def take_language_def Let_def)
  qed
qed

section \<open>What the client makes of the server's frames\<close>

lemma recv_json_text: "json_text j = Some t \<Longrightarrow> recv_json (F_Text t # fs) = (Ok j, fs)"
  using loads_json_text by (simp add: recv_json_def)

lemma events_texts: "map json_text js = map Some ts \<Longrightarrow> events (map F_Text ts) = (js, None)"
proof (induction js arbitrary: ts)
  case (Cons j js)
  then obtain t us where t: "ts = t # us" "json_text j = Some t" "map json_text js = map Some us" by (cases ts) auto
  then show ?case using Cons.IH [of us] loads_json_text [OF t(2)] by simp
qed simp

lemma emit_delivers:
  assumes "\<not> closed (emit w False mk s)" "ws_open s \<or> closed s"
  shows "\<not> closed s \<and> ws_open (emit w False mk s) \<and> sent (emit w False mk s) = sent s @ [mk (event_id w s)]"
  using assms
  by (cases "w_pending w (calls s)") (auto simp: emit_def send_def do_close_def tick_def split: if_splits)

lemma closed_emit: "closed s \<Longrightarrow> closed (emit w False mk s)"
  by (simp add: emit_def send_def tick_def)

lemma greeting_frames:
  assumes "\<not> closed (open_session w n)"
  shows "\<exists>e1 e2 e3 u. config u = [''turn_detection'' \<mapsto> JNull] \<and> sent (open_session w n) =
    [hello_frame w e1, session_frame EVT_SESSION_CREATED e2 (session_snapshot u),
     session_frame EVT_TRANSCRIPTION_SESSION_CREATED e3 (session_snapshot u)]"
proof -
  define s0 where "s0 = \<lparr>session_id = fresh_session_id w n, config = [''turn_detection'' \<mapsto> JNull],
    buffer = [], in_flight = None, current_stream = False, stream_cancels = 0,
    closed = False, started = w_monotonic w n, phase = Receiving, ws_open = True,
    ws_close = None, sent = [], calls = Suc n, shutting_down = False\<rparr>"
  have s0: "ws_open s0" "sent s0 = []" by (simp_all add: s0_def)
  define s1 where "s1 = emit w False (hello_frame w) s0"
  define s2 where "s2 = emit w False (\<lambda>eid. session_frame EVT_SESSION_CREATED eid (session_snapshot s1)) s1"
  let ?mk = "\<lambda>eid. session_frame EVT_TRANSCRIPTION_SESSION_CREATED eid (session_snapshot s1)"
  have o3: "open_session w n = emit w False ?mk s2" 
    unfolding open_session_def s0_def [symmetric] s1_def s2_def Let_def by (rule refl)
  have c: "\<not> closed s2" "\<not> closed s1" using assms closed_emit unfolding o3 s2_def by blast+
  have d1: "ws_open s1" "sent s1 = [hello_frame w (event_id w s0)]"
    using emit_delivers [of w "hello_frame w" s0] c(2) s0 by (simp_all add: s1_def)
  have d2: "ws_open s2" "sent s2 = sent s1 @ [session_frame EVT_SESSION_CREATED (event_id w s1) (session_snapshot s1)]"
    using emit_delivers [of w _ s1] c(1) d1 unfolding s2_def by auto
  have "sent (open_session w n) = sent s2 @ [?mk (event_id w s2)]"
    using emit_delivers [of w ?mk s2] assms d2 unfolding o3 by simp
  moreover have "config s1 = [''turn_detection'' \<mapsto> JNull]"
    by (auto simp: s1_def s0_def emit_def send_def do_close_def tick_def split: option.split)
  ultimately show ?thesis using d1 d2 by auto
qed

text \<open>The handshake and the iterator deliver what the server sent: unless the greeting already
  overflowed the send queue, \<open>connect\<close> accepts it and returns the server's hello, which names
  the backend and the model, and \<open>events()\<close> then yields the frames that follow, unchanged and
  in order, to the end of the connection.\<close>

theorem client_receives_session:
  assumes "\<not> closed (open_session w n)" "sent s = take 2 (sent (open_session w n)) @ rest"
    "map json_text (sent s) = map Some ts"
  shows "\<exists>hello fs. connect (map F_Text ts) = (Ok hello, fs) \<and> events fs = (rest, None) \<and> hello = hd (sent s) \<and>
    get_member ''backend'' hello = Some (JObj [(''name'', JStr (w_backend_name w)), (''model'', w_backend_model w)])"
proof -
  obtain e1 e2 snap where g: "sent s = hello_frame w e1 # session_frame EVT_SESSION_CREATED e2 snap # rest"
    using greeting_frames [OF assms(1)] assms(2) by auto
  then obtain t1 t2 us where t: "ts = t1 # t2 # us" "json_text (hello_frame w e1) = Some t1"
    "json_text (session_frame EVT_SESSION_CREATED e2 snap) = Some t2" "map json_text rest = map Some us"
    using assms(3) by (auto simp: Cons_eq_map_conv)
  have "get_member ''type'' (hello_frame w e1) = Some (JStr EVT_SERVER_HELLO)"
    "get_member ''type'' (session_frame EVT_SESSION_CREATED e2 snap) = Some (JStr EVT_SESSION_CREATED)"
    by (simp_all add: hello_frame_def session_frame_def jget_or_def jget_Cons)
  then have "connect (map F_Text ts) = (Ok (hello_frame w e1), map F_Text us)"
    using t recv_json_text by (simp add: connect_def expect_def)
  moreover have "get_member ''backend'' (hello_frame w e1) =
      Some (JObj [(''name'', JStr (w_backend_name w)), (''model'', w_backend_model w)])"
    by (simp add: hello_frame_def jget_or_def jget_Cons)
  ultimately show ?thesis using events_texts [OF t(4)] g by simp
qed

text \<open>A server without backpressure whose backend reports no model.\<close>

definition quiet_world :: world where
  "quiet_world = \<lparr>w_uuid = (\<lambda>n. replicate 16 (CHR ''0'')), w_pending = (\<lambda>n. None), w_monotonic = (\<lambda>n. 0), w_pid = 1,
     w_maxrss = 0, w_platform = ''linux'', w_json_error = (\<lambda>t. []), w_str_value = (\<lambda>j. []), w_config = default_config,
     w_backend_name = ''echo'', w_backend_model = JNull\<rparr>"

text \<open>The values that have a text.\<close>

definition has_text :: "json \<Rightarrow> bool" where "has_text j \<longleftrightarrow> json_text j \<noteq> None"

lemma has_text_obj: "has_text (JObj kvs) \<longleftrightarrow> list_all (\<lambda>(k, v). has_text v) kvs"
  unfolding has_text_def by (induction kvs) (auto simp: those_Some split: option.splits)

lemma has_text_atoms: "has_text JNull" "has_text (JBool b)" "has_text (JStr t)" "has_text (JInt 16000)" "has_text (JInt 1)"
  using show_small by (simp_all add: has_text_def)

lemma quiet_greeting:
  "\<not> closed (open_session quiet_world 0) \<and> length (sent (open_session quiet_world 0)) = 3 \<and>
   list_all has_text (sent (open_session quiet_world 0))"
proof -
  have q: "w_pending quiet_world k = None" for k by (simp add: quiet_world_def)
  have c: "\<not> closed (emit quiet_world False mk u)" if "\<not> closed u" for mk u
    using that by (simp add: emit_def send_def tick_def q)
  have c: "\<not> closed (open_session quiet_world 0)" unfolding open_session_def Let_def by (intro c) simp
  have h: "has_text (hello_frame quiet_world e)" for e
    by (simp add: hello_frame_def has_text_obj has_text_atoms AUDIO_SAMPLE_RATE_HZ_def AUDIO_CHANNELS_def quiet_world_def)
  have "has_text (session_frame t e (session_snapshot u))" if "config u = [''turn_detection'' \<mapsto> JNull]" for t e u
    using that by (simp add: session_frame_def session_snapshot_def config_get_def has_text_obj has_text_atoms
        AUDIO_SAMPLE_RATE_HZ_def AUDIO_CHANNELS_def)
  then show ?thesis using greeting_frames [OF c] c h by auto
qed

lemma texts_of: "list_all has_text js \<Longrightarrow> map json_text js = map Some (map (\<lambda>j. the (json_text j)) js)"
  by (induction js) (auto simp: has_text_def)

theorem client_receives_session_witness:
  "\<exists>ts hello fs. connect (map F_Text ts) = (Ok hello, fs) \<and> length (fst (events fs)) = 1 \<and>
     get_member ''backend'' hello = Some (JObj [(''name'', JStr ''echo''), (''model'', JNull)])"
proof -
  let ?s = "open_session quiet_world 0"
  have s: "sent ?s = take 2 (sent ?s) @ drop 2 (sent ?s)" "length (drop 2 (sent ?s)) = 1" using quiet_greeting by simp_all
  obtain hello fs where "connect (map F_Text (map (\<lambda>j. the (json_text j)) (sent ?s))) = (Ok hello, fs)"
    "events fs = (drop 2 (sent ?s), None)"
    "get_member ''backend'' hello = Some (JObj [(''name'', JStr (w_backend_name quiet_world)), (''model'', w_backend_model quiet_world)])"
    using client_receives_session [OF _ s(1) texts_of] quiet_greeting by blast
  then show ?thesis using s(2)
    by (intro exI [of _ "map (\<lambda>j. the (json_text j)) (sent ?s)"] exI [of _ hello] exI [of _ fs]) (simp add: quiet_world_def)
qed

section \<open>The example service\<close>

lemma completed_event:
  "run_stt_events (completed_frame item eid tx # evs) = Yields (if strip tx \<noteq> [] then [Transcription tx] else [])"
  by (simp add: completed_frame_def transcript_of_def jget_or_def jget_Cons)

lemma ignored_event:
  "get_member ''type'' ev = Some (JStr t) \<Longrightarrow> t \<notin> {EVT_TRANSCRIPT_COMPLETED, EVT_ERROR, EVT_SESSION_CLOSED} \<Longrightarrow>
     run_stt_events (ev # evs) = run_stt_events evs"
  by simp

lemma failed_event: "run_stt_events (failed_frame item eid # evs) = run_stt_events evs"
  by (rule ignored_event [of _ EVT_TRANSCRIPT_FAILED])
    (simp_all add: failed_frame_def jget_or_def jget_Cons EVT_TRANSCRIPT_FAILED_def EVT_TRANSCRIPT_COMPLETED_def
      EVT_ERROR_def EVT_SESSION_CLOSED_def)

lemma error_event: "run_stt_events (error_frame code message cid eid # evs) = Yields [Server_Error JNull]"
  by (simp add: error_frame_def jget_or_def jget_Cons EVT_ERROR_def EVT_TRANSCRIPT_COMPLETED_def split: option.split)

text \<open>C17: what the example service makes of the three ways in which the server ends an utterance: a transcript
  is yielded unless it is blank; an error event is yielded, but always without its text, which the
  server puts in the frame's \<open>error\<close> member and not beside its type; and the \<open>failed\<close> event of a decode
  that failed is passed over, so the service keeps waiting for something the server will not send.\<close>

theorem run_stt_outcomes:
  "run_stt_events (completed_frame item eid tx # evs) = Yields (if strip tx \<noteq> [] then [Transcription tx] else []) \<and>
   run_stt_events (error_frame code message cid eid # evs) = Yields [Server_Error JNull] \<and>
   run_stt_events (failed_frame item eid # evs) = run_stt_events evs \<and>
   run_stt AUDIO_SAMPLE_RATE_HZ [failed_frame item eid] = Waiting"
  by (simp add: completed_event error_event failed_event run_stt_def del: run_stt_events.simps(2))

end
