(* ===== verification/Wire_Types.thy ===== *)
theory Wire_Types
  imports Session_Turns
begin

text \<open>
  The types of the server's events: for each event of \<open>stt_server/protocol.py\<close> that the server sends,
  the members of its frame and their JSON types, as the payloads of \<open>stt_server/server.py\<close> build them. Every frame
  of every session has the type its event declares.
\<close>

section \<open>Types of JSON values\<close>

text \<open>A record's members: those it must have and those it may have; no other.\<close>

datatype jtype =
    T_Any | T_Null | T_Str | T_Int | T_Float | T_Const json
  | T_Record "(string \<times> jtype) list" "(string \<times> jtype) list"

fun has_jtype :: "jtype \<Rightarrow> json \<Rightarrow> bool"
  and has_members :: "(string \<times> jtype) list \<Rightarrow> (string \<times> json) list \<Rightarrow> bool"
  and may_have :: "(string \<times> jtype) list \<Rightarrow> (string \<times> json) list \<Rightarrow> bool" where
  "has_jtype T_Any j = True"
| "has_jtype T_Null j = (j = JNull)"
| "has_jtype T_Str j = (case j of JStr t \<Rightarrow> True | _ \<Rightarrow> False)"
| "has_jtype T_Int j = (case j of JInt i \<Rightarrow> True | _ \<Rightarrow> False)"
| "has_jtype T_Float j = (case j of JFloat x \<Rightarrow> True | _ \<Rightarrow> False)"
| "has_jtype (T_Const c) j = (j = c)"
| "has_jtype (T_Record req opt) j =
     (case j of
        JObj kvs \<Rightarrow>
          has_members req kvs \<and> may_have opt kvs \<and>
          list_all (\<lambda>(k, v). k \<in> fst ` set req \<or> k \<in> fst ` set opt) kvs \<and> distinct (map fst kvs)
      | _ \<Rightarrow> False)"
| "has_members [] kvs = True"
| "has_members ((k, t) # fs) kvs =
     ((case jget kvs k of None \<Rightarrow> False | Some v \<Rightarrow> has_jtype t v) \<and> has_members fs kvs)"
| "may_have [] kvs = True"
| "may_have ((k, t) # fs) kvs =
     ((case jget kvs k of None \<Rightarrow> True | Some v \<Rightarrow> has_jtype t v) \<and> may_have fs kvs)"

section \<open>The server's events\<close>

definition event_record :: "string \<Rightarrow> (string \<times> jtype) list \<Rightarrow> (string \<times> jtype) list \<Rightarrow> jtype" where
  "event_record name req opt = T_Record ((''type'', T_Const (JStr name)) # (''event_id'', T_Str) # req) opt"

definition audio_type :: jtype where
  "audio_type = T_Record [(''encoding'', T_Const (JStr AUDIO_FORMAT)), (''rate'', T_Const (JInt (int AUDIO_SAMPLE_RATE_HZ))),
     (''channels'', T_Const (JInt (int AUDIO_CHANNELS)))] []"

definition backend_type :: jtype where
  "backend_type = T_Record [(''name'', T_Str), (''model'', T_Any)] []"

text \<open>A session's turn detection is always null; its language is whatever the client sent.\<close>

definition session_type :: jtype where
  "session_type = T_Record
     [(''id'', T_Str), (''object'', T_Const (JStr ''realtime.transcription_session'')),
      (''type'', T_Const (JStr ''transcription'')), (''input_audio_format'', T_Const (JStr AUDIO_FORMAT)),
      (''turn_detection'', T_Null), (''input_audio_transcription'', T_Record [(''language'', T_Any)] []),
      (''audio'', T_Record [(''input'', T_Record
         [(''format'', audio_type), (''turn_detection'', T_Null), (''language'', T_Any)] [])] [])] []"

definition error_object :: jtype where
  "error_object = T_Record [(''type'', T_Str), (''code'', T_Str), (''message'', T_Str)] [(''event_id'', T_Str)]"

definition hello_type :: jtype where
  "hello_type = event_record EVT_SERVER_HELLO
     [(''protocol_version'', T_Const (JStr PROTOCOL_VERSION)),
      (''capabilities'', T_Record [(''binary_audio'', T_Const (JBool True)),
         (''base64_audio_append'', T_Const (JBool True)), (''server_vad'', T_Const (JBool False))] []),
      (''audio'', T_Record [(''format'', T_Const (JStr AUDIO_FORMAT)),
         (''rate'', T_Const (JInt (int AUDIO_SAMPLE_RATE_HZ))), (''channels'', T_Const (JInt (int AUDIO_CHANNELS)))] []),
      (''backend'', backend_type)] []"

definition session_event :: "string \<Rightarrow> jtype" where
  "session_event name = event_record name [(''session'', session_type)] []"

definition closed_type :: jtype where
  "closed_type = event_record EVT_SESSION_CLOSED [(''session_id'', T_Str), (''reason'', T_Str)] []"

definition committed_type :: jtype where
  "committed_type = event_record EVT_AUDIO_COMMITTED [(''item_id'', T_Str)] [(''previous_event_id'', T_Str)]"

definition cleared_type :: jtype where
  "cleared_type = event_record EVT_AUDIO_CLEARED [] [(''previous_event_id'', T_Str)]"

text \<open>The events about one utterance.\<close>

definition item_event :: "string \<Rightarrow> (string \<times> jtype) list \<Rightarrow> jtype" where
  "item_event name extra = event_record name ([(''item_id'', T_Str), (''content_index'', T_Const (JInt 0))] @ extra) []"

definition status_type :: jtype where
  "status_type = event_record EVT_SERVER_STATUS
     [(''session_id'', T_Str), (''backend'', backend_type), (''queue_depth'', T_Int), (''uncommitted_bytes'', T_Int),
      (''uptime_seconds'', T_Float), (''pid'', T_Int), (''rss_bytes'', T_Int)] []"

definition error_type :: jtype where
  "error_type = event_record EVT_ERROR [(''error'', error_object)] []"

definition failure_object :: jtype where
  "failure_object = T_Record [(''type'', T_Str), (''code'', T_Str), (''message'', T_Str)] []"

definition server_events :: "jtype list" where
  "server_events =
     [hello_type, session_event EVT_SESSION_CREATED, session_event EVT_SESSION_UPDATED,
      session_event EVT_TRANSCRIPTION_SESSION_CREATED, session_event EVT_TRANSCRIPTION_SESSION_UPDATED,
      closed_type, committed_type, cleared_type,
      item_event EVT_TRANSCRIPT_DELTA [(''delta'', T_Str)], item_event EVT_TRANSCRIPT_COMPLETED [(''transcript'', T_Str)],
      item_event EVT_TRANSCRIPT_FAILED [(''error'', failure_object)], status_type, error_type]"

definition typed_frame :: "json \<Rightarrow> bool" where
  "typed_frame j = list_ex (\<lambda>t. has_jtype t j) server_events"

lemma typed_frameI: "has_jtype t j \<Longrightarrow> t \<in> set server_events \<Longrightarrow> typed_frame j"
  unfolding typed_frame_def list_ex_iff by (rule bexI)

lemmas frame_defs = event_record_def jget_def backend_type_def

lemma hello_typed: "has_jtype hello_type (hello_frame w e)"
  by (simp add: hello_type_def hello_frame_def frame_defs)

lemma error_typed: "has_jtype error_type (error_frame c m cid e)"
  by (simp add: error_type_def error_object_def error_frame_def frame_defs split: option.split)

lemma ack_typed:
  "has_jtype committed_type (ack_frame EVT_AUDIO_COMMITTED e [(''item_id'', JStr i)] cid)"
  "has_jtype cleared_type (ack_frame EVT_AUDIO_CLEARED e [] cid)"
  by (simp_all add: committed_type_def cleared_type_def ack_frame_def frame_defs split: option.split)

lemma item_typed:
  "has_jtype (item_event EVT_TRANSCRIPT_DELTA [(''delta'', T_Str)]) (delta_frame i e tx)"
  "has_jtype (item_event EVT_TRANSCRIPT_COMPLETED [(''transcript'', T_Str)]) (completed_frame i e tx)"
  "has_jtype (item_event EVT_TRANSCRIPT_FAILED [(''error'', failure_object)]) (failed_frame i e)"
  by (simp_all add: item_event_def delta_frame_def completed_frame_def failed_frame_def failure_object_def frame_defs)

lemma closing_typed:
  "has_jtype closed_type (closed_frame sid e r)" "has_jtype status_type (status_frame w s)"
  by (simp_all add: closed_type_def status_type_def closed_frame_def status_frame_def frame_defs)

lemma frame_typed:
  "typed_frame (hello_frame w e)"
  "typed_frame (error_frame c m cid e)"
  "typed_frame (ack_frame EVT_AUDIO_COMMITTED e [(''item_id'', JStr i)] cid)"
  "typed_frame (ack_frame EVT_AUDIO_CLEARED e [] cid)"
  "typed_frame (delta_frame i e tx)" "typed_frame (completed_frame i e tx)" "typed_frame (failed_frame i e)"
  "typed_frame (closed_frame sid e r)" "typed_frame (status_frame w s)"
  by (rule typed_frameI, rule hello_typed error_typed ack_typed item_typed closing_typed, simp add: server_events_def)+

text \<open>A session frame is typed when the session has no turn detection.\<close>

abbreviation no_vad :: "session \<Rightarrow> bool" where
  "no_vad s \<equiv> config s ''turn_detection'' = Some JNull"

lemma session_typed:
  "no_vad s \<Longrightarrow> has_jtype session_type (session_snapshot s)"
  by (simp add: session_type_def session_snapshot_def audio_type_def jget_def config_get_def)

lemma session_frame_typed:
  assumes "no_vad s"
    "t \<in> {EVT_SESSION_CREATED, EVT_SESSION_UPDATED, EVT_TRANSCRIPTION_SESSION_CREATED, EVT_TRANSCRIPTION_SESSION_UPDATED}"
  shows "typed_frame (session_frame t e (session_snapshot s))"
proof -
  have "has_jtype (session_event t) (session_frame t e (session_snapshot s))"
    using session_typed [OF assms(1)] by (simp add: session_event_def session_frame_def frame_defs)
  moreover have "session_event t \<in> set server_events"
    using assms(2) by (auto simp: server_events_def)
  ultimately show ?thesis by (rule typed_frameI)
qed

section \<open>What an operation sends\<close>

definition sends :: "session \<Rightarrow> session \<Rightarrow> bool" where
  "sends s t \<longleftrightarrow> (\<exists>fs. sent t = sent s @ fs \<and> list_all typed_frame fs)"

lemma sends_same: "sent t = sent s \<Longrightarrow> sends s t"
  by (simp add: sends_def)

lemma sends_from: "sent s' = sent s \<Longrightarrow> sends s' t \<Longrightarrow> sends s t"
  by (simp add: sends_def)

lemma sends_to: "sends s t \<Longrightarrow> sent t' = sent t \<Longrightarrow> sends s t'"
  by (simp add: sends_def)

lemma sends_emit_after: "sends s t \<Longrightarrow> (\<And>i. typed_frame (mk i)) \<Longrightarrow> sends s (emit w f mk t)"
  by (cases w f mk t rule: emit_cases) (auto simp: sends_def)

lemma sends_emit: "(\<And>i. typed_frame (mk i)) \<Longrightarrow> sends s (emit w f mk s)"
  by (rule sends_emit_after) (simp_all add: sends_same)

lemma sends_error: "sends s (send_error w c m cid s)"
  by (simp add: send_error_def sends_emit frame_typed)

lemma sends_error_after: "sends s t \<Longrightarrow> sends s (send_error w c m cid t)"
  by (simp add: send_error_def sends_emit_after frame_typed)

lemmas sends_intros = sends_error sends_emit frame_typed

lemma sends_binary: "sends s (handle_binary_audio w data s)"
  by (simp add: handle_binary_audio_def sends_error sends_same)

lemma sends_append: "sends s (on_audio_append_json w msg s)"
  by (simp add: on_audio_append_json_def sends_error sends_binary split: option.split json.split sum.split)

lemma sends_commit: "sends s (on_commit w cid s)"
proof -
  have "sends s (emit w False (\<lambda>eid. ack_frame EVT_AUDIO_COMMITTED eid [(''item_id'', JStr (item_id w s))] cid)
      (tick (s\<lparr>buffer := []\<rparr>)))"
    by (rule sends_from [OF _ sends_emit]) (simp_all add: tick_def frame_typed)
  then show ?thesis using sends_error by (auto simp: on_commit_def Let_def elim: sends_to)
qed

lemma sends_clear: "sends s (on_clear w cid s)"
proof -
  have "sends s (emit w False (\<lambda>eid. ack_frame EVT_AUDIO_CLEARED eid [] cid) (s\<lparr>buffer := []\<rparr>))"
    by (rule sends_from [OF _ sends_emit]) (simp_all add: frame_typed)
  then show ?thesis using sends_error by (simp add: on_clear_def)
qed

lemma sends_status: "sends s (on_status w s)"
  by (simp add: on_status_emit sends_emit frame_typed)

lemma sends_finish_close: "sends s (finish_close w r s)"
proof -
  have "sends s (emit w True (\<lambda>eid. closed_frame (session_id s) eid r) (s\<lparr>closed := True\<rparr>))"
    by (rule sends_from [OF _ sends_emit]) (simp_all add: frame_typed)
  then show ?thesis by (auto simp: finish_close_def do_close_def elim: sends_to)
qed

lemma sends_teardown: "sends s (teardown_session s)"
  by (simp add: teardown_session_def sends_same)

lemma sends_close: "sends s (on_close w s)"
  using sends_from [OF _ sends_finish_close, of "request_cancel s"] sends_finish_close
  by (simp add: on_close_def sends_same)

lemma sends_cancel: "sends s (on_cancel w s)"
  using sends_from [OF _ sends_finish_close, where s = s]
  by (auto simp: on_cancel_def Let_def sends_same)

lemma sends_update:
  assumes "on_session_update w msg cid s = Done t" "no_vad s"
  shows "sends s t"
proof -
  have c: "config (s\<lparr>config := take_language x y c\<rparr>) ''turn_detection'' = Some JNull"
    if "scan_turn_detection ks (config s) = (c, b)" for ks c b x y
    using scan_turn_detection_config [OF that] assms(2) by (simp add: take_language_config)
  have u: "sends s (emit w False (\<lambda>eid. session_frame EVT_TRANSCRIPTION_SESSION_UPDATED eid (session_snapshot u))
      (emit w False (\<lambda>eid. session_frame EVT_SESSION_UPDATED eid (session_snapshot u)) u))"
    if "no_vad u" "sent u = sent s" for u
    by (intro sends_emit_after session_frame_typed) (use that in \<open>auto intro: sends_same\<close>)
  have e: "sends s (send_error w INVALID_CONFIG m cid (s\<lparr>config := c\<rparr>))" for m c
    by (rule sends_error_after) (simp add: sends_same)
  show ?thesis
    using assms(1) u c e sends_error [of s w INVALID_CONFIG _ cid]
    by (auto simp: on_session_update_def Let_def split: option.splits prod.splits if_splits
        simp del: scan_turn_detection.simps)
qed

lemma sends_text:
  assumes "handle_text w raw s = Done t" "no_vad s"
  shows "sends s t"
proof -
  have d: "sends s t" if "dispatch w n msg cid s = Done t" for n msg cid
    using that sends_update [OF _ assms(2), of w msg cid t] sends_append [of s w msg] sends_commit [of s w cid]
      sends_clear [of s w cid] sends_status [of s w] sends_close [of s w] sends_cancel [of s w]
    by (auto simp: dispatch_def sends_same split: if_splits)
  show ?thesis using assms(1) sends_error [of s w] d
    by (auto simp: handle_text_def handle_message_def Let_def split: loaded.splits json.splits option.splits if_splits)
qed

lemma sends_message:
  assumes "on_message w h s = Some t" "\<And>u. h s = Done u \<Longrightarrow> sends s u" "\<And>u. h s = Raised u \<Longrightarrow> u = s"
  shows "sends s t"
  using assms sends_teardown [of s] sends_error [of s w]
  by (auto simp: on_message_def split: if_splits outcome.splits)

lemma sends_resume: "sends s (resume_handler w c s)"
  by (simp add: resume_handler_def sends_teardown sends_finish_close sends_same split: phase.split)

lemma sends_trans: "sends s t \<Longrightarrow> sends t u \<Longrightarrow> sends s u"
  by (auto simp: sends_def)

lemma sends_finish_decode: "sends s (finish_decode w c d s)"
  unfolding finish_decode_def by (rule sends_from [OF _ sends_resume]) simp

lemma sends_finish_after: "sends s t \<Longrightarrow> sends s (finish_decode w c d t)"
  using sends_trans sends_finish_decode by blast

lemma sends_decode: "decode_step w e d s = Some t \<Longrightarrow> sends s t"
  using sends_finish_after [OF sends_emit, where s = s]
  by (auto simp: decode_step_def sends_same sends_emit frame_typed split: event.splits decode_stage.splits if_splits)

lemma sends_unwind: "decode_unwind w d s = Some t \<Longrightarrow> sends s t"
  using sends_from [OF _ sends_finish_decode, of "s\<lparr>stream_cancels := Suc (stream_cancels s)\<rparr>"]
  by (auto simp: decode_unwind_def sends_finish_decode split: if_splits)

lemma sends_step:
  assumes "session_step w e s = Some t" "no_vad s"
  shows "sends s t"
proof -
  have dec: "sends s t" if "with_decode (decode_step w e') s = Some t" for e'
    using that by (rule with_decode_inv) (rule sends_decode)
  have unw: "sends s t" if "with_decode (decode_unwind w) s = Some t"
    using that by (rule with_decode_inv) (rule sends_unwind)
  have bin: "sends s t" if "on_message w (\<lambda>s. Done (handle_binary_audio w b s)) s = Some t" for b
    by (rule sends_message [OF that]) (auto simp: sends_binary)
  have tex: "sends s t" if "on_message w (handle_text w r) s = Some t" for r
    by (rule sends_message [OF that]) (auto intro: sends_text [OF _ assms(2)] dest: handle_text_raised)
  show ?thesis
    using assms(1) bin tex dec unw sends_teardown [of s]
    by (cases e) (auto simp: session_step_def with_decode_def sends_same split: if_splits phase.splits option.splits)
qed

lemma open_sends: "list_all typed_frame (sent (open_session w n))"
proof -
  let ?s0 = "\<lparr>session_id = fresh_session_id w n, config = [''turn_detection'' \<mapsto> JNull],
                buffer = [], in_flight = None, current_stream = False, stream_cancels = 0,
                closed = False, started = w_monotonic w n, phase = Receiving, ws_open = True,
                ws_close = None, sent = [], calls = Suc n, shutting_down = False\<rparr>"
  have "sends ?s0 (open_session w n)"
    unfolding open_session_def Let_def
    by (intro sends_emit_after sends_same frame_typed session_frame_typed) simp_all
  then show ?thesis by (simp add: sends_def)
qed

text \<open>C5: every frame a session ever sends, from the greeting to the last answer, whatever the client, the
  backend and the network do, has the type of the event it names: an object with exactly the
  members of that event, each of its JSON type, an event id among them; in particular every session object
  it describes has no turn detection and the fixed audio format.\<close>

theorem session_frames_typed:
  assumes "session_reach w s"
  shows "list_all typed_frame (sent s)"
  using assms
proof (induction rule: reach.induct)
  case (reach_init s)
  then show ?case by (auto simp: session_init_def open_sends)
next
  case (reach_step s t)
  obtain e where e: "session_step w e s = Some t" using reach_step.hyps(2) by (rule session_nextE)
  have "no_vad s" using session.reachable [OF reach_step.hyps(1)] by (simp add: session_inv_def data_inv_def)
  from sends_step [OF e this] show ?case using reach_step.IH by (auto simp: sends_def)
qed

theorem session_frames_typed_witness:
  "list_all typed_frame (sent sample_busy)"
  using session_frames_typed sample_reach by blast

end
