(* ===== verification/Cli_Args.thy ===== *)
theory Cli_Args
  imports Backends
begin

text \<open>
  The command line of \<open>stt_server/__main__.py\<close>: the three argument parsers, the choice of the
  subcommand in \<open>main\<close>, and what the standard library's \<open>argparse\<close> makes of an argument list for them;
  and the reader of an installed agent's arguments, \<open>scripts/read_stt_plist.py\<close>, which reads the same
  flags without \<open>argparse\<close>. A result of \<open>None\<close> is a run that \<open>argparse\<close> ends itself, with the help text
  or a usage error.
\<close>

section \<open>Parsers\<close>

datatype action = Store | Store_Int | Store_Float | Store_Choice "string list" | Store_True | Show_Help

datatype arg_value = A_Str string | A_Int int | A_Float pyfloat | A_True

record arg_parser =
  ap_abbrev :: bool
  ap_options :: "(string \<times> action) list"
  ap_required :: "string list"

type_synonym namespace = "string \<Rightarrow> arg_value option"

definition BACKEND_CHOICES :: "string list" where
  "BACKEND_CHOICES = map fst BACKENDS"

definition help_option :: "(string \<times> action) list" where
  "help_option = [(''-h'', Show_Help), (''--help'', Show_Help)]"

definition add_endpoint_flags :: "bool \<Rightarrow> (string \<times> action) list" where
  "add_endpoint_flags include_uri =
     [(''--socket-path'', Store), (''--host'', Store), (''--port'', Store_Int)] @
     (if include_uri then [(''--uri'', Store)] else []) @ [(''--auth-token-file'', Store)]"

definition serve_parser :: arg_parser where
  "serve_parser = \<lparr>ap_abbrev = False,
     ap_options = help_option @ add_endpoint_flags False @
       [(''--backend'', Store_Choice BACKEND_CHOICES), (''--model'', Store), (''--log-level'', Store),
        (''--supervised'', Store_True)],
     ap_required = []\<rparr>"

definition prefetch_parser :: arg_parser where
  "prefetch_parser = \<lparr>ap_abbrev = True,
     ap_options = help_option @
       [(''--backend'', Store_Choice BACKEND_CHOICES), (''--model'', Store), (''--check'', Store_True),
        (''--json'', Store_True), (''--log-level'', Store)],
     ap_required = [''--backend'']\<rparr>"

definition status_parser :: arg_parser where
  "status_parser = \<lparr>ap_abbrev = True,
     ap_options = help_option @ add_endpoint_flags True @ [(''--timeout'', Store_Float), (''--json'', Store_True)],
     ap_required = []\<rparr>"

section \<open>What \<open>argparse\<close> makes of an argument list\<close>

text \<open>The option a string names, in full, before a \<open>=\<close>, or by a unique prefix; with the value after
  the \<open>=\<close>.\<close>

definition named_before :: "string \<Rightarrow> string \<times> string option" where
  "named_before a = (let (n, eq, v) = partition_at (CHR ''='') a in (n, if eq then Some v else None))"

definition abbreviated :: "arg_parser \<Rightarrow> string \<Rightarrow> (string \<times> action) list" where
  "abbreviated p a =
     (if prefix ''--'' a
      then (if ap_abbrev p then filter (\<lambda>(n, k). prefix (fst (named_before a)) n) (ap_options p) else [])
      else filter (\<lambda>(n, k). n = take 2 a) (ap_options p))"

definition find_option :: "arg_parser \<Rightarrow> string \<Rightarrow> (string \<times> action \<times> string option) option" where
  "find_option p a =
     (case map_of (ap_options p) a of
        Some k \<Rightarrow> Some (a, k, None)
      | None \<Rightarrow>
          (case named_before a of
             (n, Some v) \<Rightarrow>
               (case map_of (ap_options p) n of
                  Some k \<Rightarrow> Some (n, k, Some v)
                | None \<Rightarrow> (case abbreviated p a of [(m, k)] \<Rightarrow> Some (m, k, Some v) | _ \<Rightarrow> None))
           | (n, None) \<Rightarrow> (case abbreviated p a of [(m, k)] \<Rightarrow> Some (m, k, None) | _ \<Rightarrow> None)))"

text \<open>\<open>^-\d+$|^-\d*\.\d+$\<close>, where the end may stand before a final line feed.\<close>

definition negative_number :: "string \<Rightarrow> bool" where
  "negative_number v =
     (case v of
        [] \<Rightarrow> False
      | c # cs \<Rightarrow>
          let ds = (if cs \<noteq> [] \<and> last cs = CHR 0x0A then butlast cs else cs);
              (a, dot, b) = partition_at (CHR ''.'') ds
          in c = CHR ''-'' \<and> list_all is_digit a \<and> list_all is_digit b \<and> (if dot then b \<noteq> [] else a \<noteq> []))"

text \<open>A string that can be the value of the option before it.\<close>

definition is_value :: "arg_parser \<Rightarrow> string \<Rightarrow> bool" where
  "is_value p v =
     (v = [] \<or> hd v \<noteq> CHR ''-'' \<or>
      v \<noteq> ''--'' \<and> map_of (ap_options p) v = None \<and>
      (length v = 1 \<or>
       \<not> (snd (named_before v) \<noteq> None \<and> map_of (ap_options p) (fst (named_before v)) \<noteq> None) \<and>
       abbreviated p v = [] \<and> (negative_number v \<or> CHR '' '' \<in> set v)))"

fun convert :: "action \<Rightarrow> string \<Rightarrow> arg_value option" where
  "convert Store v = Some (A_Str v)"
| "convert Store_Int v = map_option A_Int (py_int v)"
| "convert Store_Float v = map_option A_Float (py_float v)"
| "convert (Store_Choice cs) v = (if v \<in> set cs then Some (A_Str v) else None)"
| "convert Store_True v = None"
| "convert Show_Help v = None"

fun parse_args :: "arg_parser \<Rightarrow> string list \<Rightarrow> namespace \<Rightarrow> namespace option" where
  "parse_args p [] ns = (if list_all (\<lambda>r. ns r \<noteq> None) (ap_required p) then Some ns else None)"
| "parse_args p (a # rest) ns =
     (case find_option p a of
        None \<Rightarrow> None
      | Some (n, k, explicit) \<Rightarrow>
          if k = Show_Help then None
          else if k = Store_True then (if explicit = None then parse_args p rest (ns(n \<mapsto> A_True)) else None)
          else case explicit of
            Some v \<Rightarrow> (case convert k v of None \<Rightarrow> None | Some x \<Rightarrow> parse_args p rest (ns(n \<mapsto> x)))
          | None \<Rightarrow>
              (case rest of
                 [] \<Rightarrow> None
               | v # rest' \<Rightarrow>
                   if \<not> is_value p v then None
                   else case convert k v of None \<Rightarrow> None | Some x \<Rightarrow> parse_args p rest' (ns(n \<mapsto> x))))"

section \<open>The subcommand\<close>

datatype command = Cmd_Serve namespace | Cmd_Status namespace | Cmd_Prefetch namespace

definition run_parser :: "string \<Rightarrow> string list \<Rightarrow> command option" where
  "run_parser sub rest =
     (if sub = ''status'' then map_option Cmd_Status (parse_args status_parser rest Map.empty)
      else if sub = ''prefetch'' then map_option Cmd_Prefetch (parse_args prefetch_parser rest Map.empty)
      else map_option Cmd_Serve (parse_args serve_parser rest Map.empty))"

definition main_command :: "string list \<Rightarrow> command option" where
  "main_command argv =
     (case argv of
        [] \<Rightarrow> run_parser ''serve'' []
      | a # rest \<Rightarrow>
          if \<not> prefix ''-'' a \<and> a \<in> {''serve'', ''status'', ''prefetch''} then run_parser a rest
          else if a \<in> {''-h'', ''--help''} then None
          else run_parser ''serve'' argv)"

end
