(* ===== verification/Plist.thy ===== *)
theory Plist
  imports Cli_Args
begin

text \<open>
  \<open>scripts/read_stt_plist.py\<close>: the reader of an installed agent's property list. Its three states, the
  serve flags of its arguments, its tokens, and the exit statuses of the command. The reader of the
  arguments is shown to agree with the server's own parser.

  The file system and \<open>plistlib\<close> are inputs.
\<close>

section \<open>Property lists\<close>

datatype plist_value =
    P_Str string | P_Bool bool | P_Int int | P_List "plist_value list" | P_Dict "(string \<times> plist_value) list"
  | P_Other string bool

text \<open>\<open>P_Other\<close>: a date, a number or data, by its type and truth.\<close>

type_synonym plist = "(string \<times> plist_value) list"

fun plist_truthy :: "plist_value \<Rightarrow> bool" where
  "plist_truthy (P_Str t) = (t \<noteq> [])"
| "plist_truthy (P_Bool b) = b"
| "plist_truthy (P_Int i) = (i \<noteq> 0)"
| "plist_truthy (P_List xs) = (xs \<noteq> [])"
| "plist_truthy (P_Dict kvs) = (kvs \<noteq> [])"
| "plist_truthy (P_Other t b) = b"

fun type_name :: "plist_value \<Rightarrow> string" where
  "type_name (P_Str t) = ''str''"
| "type_name (P_Bool b) = ''bool''"
| "type_name (P_Int i) = ''int''"
| "type_name (P_List xs) = ''list''"
| "type_name (P_Dict kvs) = ''dict''"
| "type_name (P_Other t b) = t"

section \<open>Reading the file\<close>

text \<open>What \<open>open\<close>, \<open>fstat\<close> and the reads answer, each failure by its type.\<close>

record plist_world =
  pw_open :: "string + unit"
  pw_regular :: "string + bool"
  pw_reads :: "(string + nat list) list"
  pw_parse :: "nat list \<Rightarrow> string + plist_value"

fun read_chunks :: "(string + nat list) list \<Rightarrow> nat list \<Rightarrow> string + nat list" where
  "read_chunks [] acc = Ok acc"
| "read_chunks (Inl e # cs) acc = Raise e"
| "read_chunks (Inr c # cs) acc = (if c = [] then Ok acc else read_chunks cs (acc @ c))"

text \<open>\<open>None\<close>: no file. A refusal is the text of \<open>MalformedPlist\<close>.\<close>

definition read_bytes :: "plist_world \<Rightarrow> string + nat list option" where
  "read_bytes w =
     (case pw_open w of
        Inl e \<Rightarrow> if e = ''FileNotFoundError'' then Ok None else Raise e
      | Inr u \<Rightarrow>
          (case pw_regular w of
             Inl e \<Rightarrow> Raise e
           | Inr regular \<Rightarrow>
               if \<not> regular then Raise ''not a regular file''
               else bind_result (read_chunks (pw_reads w) []) (\<lambda>bs. Ok (Some bs))))"

definition wrong_kind :: "plist \<Rightarrow> string \<Rightarrow> string \<Rightarrow> (plist_value \<Rightarrow> bool) \<Rightarrow> string option" where
  "wrong_kind data key kind ok =
     (case map_of data key of
        None \<Rightarrow> None
      | Some v \<Rightarrow> if ok v then None else Some (key @ '' is '' @ type_name v @ '', not a '' @ kind))"

fun is_list :: "plist_value \<Rightarrow> bool" where
  "is_list (P_List xs) = True"
| "is_list v = False"

fun is_dict :: "plist_value \<Rightarrow> bool" where
  "is_dict (P_Dict kvs) = True"
| "is_dict v = False"

fun is_str :: "plist_value \<Rightarrow> bool" where
  "is_str (P_Str t) = True"
| "is_str v = False"

definition arguments_of :: "plist \<Rightarrow> plist_value list" where
  "arguments_of data = (case map_of data ''ProgramArguments'' of Some (P_List args) \<Rightarrow> args | _ \<Rightarrow> [])"

definition loads_plist :: "plist_world \<Rightarrow> nat list \<Rightarrow> string + plist" where
  "loads_plist w raw =
     (case pw_parse w raw of
        Inl e \<Rightarrow> Raise e
      | Inr (P_Dict data) \<Rightarrow>
          (case wrong_kind data ''ProgramArguments'' ''list'' is_list of
             Some e \<Rightarrow> Raise e
           | None \<Rightarrow>
               (case wrong_kind data ''EnvironmentVariables'' ''dict'' is_dict of
                  Some e \<Rightarrow> Raise e
                | None \<Rightarrow>
                    (case find (\<lambda>a. \<not> is_str a) (arguments_of data) of
                       Some a \<Rightarrow> Raise (''ProgramArguments holds a '' @ type_name a @ '', not only strings'')
                     | None \<Rightarrow> Ok data)))
      | Inr v \<Rightarrow> Raise (''top level is '' @ type_name v @ '', not a dict''))"

definition load_plist :: "plist_world \<Rightarrow> string + plist" where
  "load_plist w = bind_result (read_bytes w) (\<lambda>r. case r of None \<Rightarrow> Ok [] | Some raw \<Rightarrow> loads_plist w raw)"

section \<open>Flags and tokens\<close>

definition SERVE_FLAGS :: "string list" where
  "SERVE_FLAGS = [''--host'', ''--port'', ''--socket-path'', ''--auth-token-file'']"

definition SWITCHES :: "string list" where
  "SWITCHES = [''--supervised'', ''--help'']"

definition ENV_TOKENS :: "string list" where
  "ENV_TOKENS = [''PIPECAT_STT_AUTH_TOKEN'', ''KODA_STT_AUTH_TOKEN'']"

definition FIELDS :: "string list" where
  "FIELDS = map (drop 2) SERVE_FLAGS @ [''interpreter'']"

fun read_argv_flags :: "string \<Rightarrow> (string \<Rightarrow> string option) \<Rightarrow> string list \<Rightarrow> (string \<Rightarrow> string option)" where
  "read_argv_flags expect found [] = found"
| "read_argv_flags expect found (el # els) =
     (if expect \<noteq> [] then
        read_argv_flags [] (if expect \<in> set SERVE_FLAGS then found(expect \<mapsto> el) else found) els
      else if prefix ''--'' el then
        (let (n, eq, v) = partition_at (CHR ''='') el
         in if eq then read_argv_flags [] (if n \<in> set SERVE_FLAGS then found(n \<mapsto> v) else found) els
            else if el \<notin> set SWITCHES then read_argv_flags el found els
            else read_argv_flags [] found els)
      else read_argv_flags [] found els)"

fun plist_str :: "plist_value \<Rightarrow> string" where
  "plist_str (P_Str t) = t"
| "plist_str v = type_name v"

text \<open>A loaded list's arguments are strings, so \<open>str\<close> of one is the string itself.\<close>

definition program_arguments :: "plist \<Rightarrow> string list" where
  "program_arguments plist = map plist_str (arguments_of plist)"

definition read_flags :: "plist \<Rightarrow> (string \<Rightarrow> string option)" where
  "read_flags plist = read_argv_flags [] Map.empty (program_arguments plist)"

definition parse_port :: "string \<Rightarrow> int option" where
  "parse_port value = py_int value"

definition read_field :: "plist \<Rightarrow> string \<Rightarrow> string" where
  "read_field plist name =
     (if name = ''interpreter'' then (case program_arguments plist of [] \<Rightarrow> [] | a # as \<Rightarrow> a)
      else case read_flags plist (''--'' @ name) of None \<Rightarrow> [] | Some v \<Rightarrow> v)"

definition env_variable :: "plist \<Rightarrow> string \<Rightarrow> plist_value option" where
  "env_variable plist k =
     (case map_of plist ''EnvironmentVariables'' of Some (P_Dict env) \<Rightarrow> map_of env k | _ \<Rightarrow> None)"

fun first_token :: "plist \<Rightarrow> string list \<Rightarrow> string" where
  "first_token plist [] = []"
| "first_token plist (k # ks) =
     (case env_variable plist k of
        Some (P_Str v) \<Rightarrow> if strip v \<noteq> [] then strip v else first_token plist ks
      | _ \<Rightarrow> first_token plist ks)"

definition env_token :: "plist \<Rightarrow> string" where
  "env_token plist = first_token plist ENV_TOKENS"

definition has_auth :: "plist \<Rightarrow> bool" where
  "has_auth plist =
     (list_ex (\<lambda>k. case env_variable plist k of None \<Rightarrow> False | Some v \<Rightarrow> plist_truthy v) ENV_TOKENS \<or>
      (case read_flags plist ''--auth-token-file'' of None \<Rightarrow> False | Some v \<Rightarrow> v \<noteq> []))"

section \<open>The command\<close>

definition NO_AUTH :: nat where "NO_AUTH = 3"

text \<open>The exit status and what is written to stdout.\<close>

definition read_main :: "plist_world \<Rightarrow> string list \<Rightarrow> nat \<times> string" where
  "read_main w args =
     (if length args = 2 \<and> args ! 0 = ''--has-auth'' then
        (case load_plist w of Inl e \<Rightarrow> (2, []) | Inr plist \<Rightarrow> (if has_auth plist then 0 else NO_AUTH, []))
      else
        let strict = (take 1 args = [''--strict'']); args = (if strict then drop 1 args else args)
        in if length args \<noteq> 3 \<or> args ! 0 \<noteq> ''--field'' \<or> args ! 1 \<notin> set FIELDS then (2, [])
           else case load_plist w of
             Inl e \<Rightarrow> if strict then (2, []) else (0, [])
           | Inr plist \<Rightarrow> (0, read_field plist (args ! 1)))"

section \<open>The reader and the server's parser\<close>

text \<open>The texts found agree with the parsed values: the port's text is one that \<open>int\<close> takes for it.\<close>

fun flag_agrees :: "string \<Rightarrow> string option \<Rightarrow> arg_value option \<Rightarrow> bool" where
  "flag_agrees f None None = True"
| "flag_agrees f (Some v) (Some (A_Str u)) = (f \<noteq> ''--port'' \<and> u = v)"
| "flag_agrees f (Some v) (Some (A_Int k)) = (f = ''--port'' \<and> parse_port v = Some k)"
| "flag_agrees f _ _ = False"

definition same_flags :: "(string \<Rightarrow> string option) \<Rightarrow> namespace \<Rightarrow> bool" where
  "same_flags found ns \<longleftrightarrow> (\<forall>f \<in> set SERVE_FLAGS. flag_agrees f (found f) (ns f))"

lemma serve_options:
  "map_of (ap_options serve_parser) n = Some k \<Longrightarrow> k \<noteq> Show_Help \<Longrightarrow>
     prefix ''--'' n \<and> CHR ''='' \<notin> set n \<and> (k = Store_True \<longleftrightarrow> n \<in> set SWITCHES) \<and>
     (n \<in> set SERVE_FLAGS \<longrightarrow> k = (if n = ''--port'' then Store_Int else Store))"
  by (auto simp: serve_parser_def help_option_def add_endpoint_flags_def SWITCHES_def SERVE_FLAGS_def split: if_splits)

lemma short_serve: "(m, k) \<in> set (ap_options serve_parser) \<Longrightarrow> length m \<le> 2 \<Longrightarrow> k = Show_Help"
  by (auto simp: serve_parser_def help_option_def add_endpoint_flags_def)

lemma abbreviated_serve: "abbreviated serve_parser a = [(m, k)] \<Longrightarrow> k = Show_Help"
proof -
  assume a: "abbreviated serve_parser a = [(m, k)]"
  have "\<not> ap_abbrev serve_parser" by (simp add: serve_parser_def)
  then have f: "filter (\<lambda>(n, k). n = take 2 a) (ap_options serve_parser) = [(m, k)]"
    using a by (simp add: abbreviated_def split: if_splits)
  have "(m, k) \<in> set (filter (\<lambda>(n, k). n = take 2 a) (ap_options serve_parser))" unfolding f by simp
  then have "(m, k) \<in> set (ap_options serve_parser)" "length m \<le> 2" by auto
  then show ?thesis by (rule short_serve)
qed

lemma partition_eq_of: "CHR ''='' \<notin> set n \<Longrightarrow> partition_at (CHR ''='') n = (n, False, [])"
proof -
  assume "CHR ''='' \<notin> set n"
  then have a: "\<forall>c \<in> set n. c \<noteq> CHR ''=''" by metis
  show ?thesis
    unfolding partition_at_def Let_def takeWhile_eq_all_conv [THEN iffD2, OF a] dropWhile_eq_Nil_conv [THEN iffD2, OF a]
    by simp
qed

lemma find_serve_option:
  assumes "find_option serve_parser a = Some (n, k, e)" "k \<noteq> Show_Help"
  shows "map_of (ap_options serve_parser) n = Some k \<and>
    (case e of None \<Rightarrow> a = n | Some v \<Rightarrow> partition_at (CHR ''='') a = (n, True, v) \<and> prefix ''--'' a)"
proof -
  consider "map_of (ap_options serve_parser) a = Some k" "n = a" "e = None"
    | v where "named_before a = (n, Some v)" "map_of (ap_options serve_parser) n = Some k" "e = Some v"
    using assms abbreviated_serve by (auto simp: find_option_def split: option.splits prod.splits list.splits)
  then show ?thesis
  proof cases
    case (2 v)
    obtain eq where q: "partition_at (CHR ''='') a = (n, True, v)"
      using 2(1) by (auto simp: named_before_def split: prod.splits if_splits)
    then have "n = takeWhile (\<lambda>c. c \<noteq> CHR ''='') a" by (simp add: partition_at_def Let_def)
    then have "prefix n a" using takeWhile_is_prefix by metis
    then show ?thesis using q 2 serve_options [OF 2(2) assms(2)] by (auto intro: prefix_order.trans)
  qed auto
qed

lemma same_flags_put:
  assumes "same_flags found ns" "map_of (ap_options serve_parser) n = Some k" "k \<noteq> Show_Help" "k \<noteq> Store_True"
    "convert k v = Some x"
  shows "same_flags (if n \<in> set SERVE_FLAGS then found(n \<mapsto> v) else found) (ns(n \<mapsto> x))"
proof (cases "n \<in> set SERVE_FLAGS")
  case True
  then have "k = (if n = ''--port'' then Store_Int else Store)" using serve_options [OF assms(2,3)] by blast
  then have "flag_agrees n (Some v) (Some x)" using assms(5) by (auto simp: parse_port_def split: if_splits)
  then show ?thesis using assms(1) True by (simp add: same_flags_def)
next
  case False
  then show ?thesis using assms(1) by (auto simp: same_flags_def)
qed

lemma reader_agrees:
  "parse_args serve_parser argv ns = Some ns' \<Longrightarrow> same_flags found ns \<Longrightarrow> same_flags (read_argv_flags [] found argv) ns'"
proof (induction argv arbitrary: ns found rule: length_induct)
  case (1 argv)
  show ?case
  proof (cases argv)
    case Nil
    then show ?thesis using "1.prems" by (simp split: if_splits)
  next
    case (Cons a rest)
    obtain n k e where f: "find_option serve_parser a = Some (n, k, e)" "k \<noteq> Show_Help"
      using "1.prems"(1) Cons by (auto split: option.splits if_splits)
    note o = find_serve_option [OF f]
    have m: "map_of (ap_options serve_parser) n = Some k" using o by blast
    note so = serve_options [OF m f(2)]
    note pq = partition_eq_of [of n]
    show ?thesis
    proof (cases "k = Store_True")
      case True
      then have e: "e = None" "parse_args serve_parser rest (ns(n \<mapsto> A_True)) = Some ns'"
        using "1.prems"(1) Cons f by (auto split: if_splits)
      then have "a = n" using o by simp
      moreover have "n \<notin> set SERVE_FLAGS" using so True by (auto simp: SWITCHES_def SERVE_FLAGS_def)
      then have s: "same_flags found (ns(n \<mapsto> A_True))" using "1.prems"(2) by (auto simp: same_flags_def)
      have "same_flags (read_argv_flags [] found rest) ns'"
        using "1.IH" [rule_format, of rest] Cons e(2) s by simp
      ultimately show ?thesis using Cons so True pq by simp
    next
      case False
      show ?thesis
      proof (cases e)
        case (Some v)
        then obtain x where x: "convert k v = Some x" "parse_args serve_parser rest (ns(n \<mapsto> x)) = Some ns'"
          using "1.prems"(1) Cons f False by (auto split: option.splits)
        note s = same_flags_put [OF "1.prems"(2) m f(2) False x(1)]
        have "same_flags (read_argv_flags [] (if n \<in> set SERVE_FLAGS then found(n \<mapsto> v) else found) rest) ns'"
          using "1.IH" [rule_format, of rest] Cons x(2) s by simp
        then show ?thesis using Cons o Some by simp
      next
        case None
        then obtain v rest' x where x: "rest = v # rest'" "convert k v = Some x" "parse_args serve_parser rest' (ns(n \<mapsto> x)) = Some ns'"
          using "1.prems"(1) Cons f False by (auto split: option.splits list.splits if_splits)
        note s = same_flags_put [OF "1.prems"(2) m f(2) False x(2)]
        have "same_flags (read_argv_flags [] (if n \<in> set SERVE_FLAGS then found(n \<mapsto> v) else found) rest') ns'"
          using "1.IH" [rule_format, of rest'] Cons x(1,3) s by simp
        moreover have "a = n" "n \<noteq> []" using o None so by auto
        ultimately show ?thesis using Cons x(1) so False pq by simp
      qed
    qed
  qed
qed

lemma skip_words:
  "list_all (\<lambda>a. \<not> prefix ''--'' a) pre \<Longrightarrow> read_argv_flags [] found (pre @ argv) = read_argv_flags [] found argv"
  by (induction pre) auto

lemma reader_flags:
  assumes "main_command argv = Some (Cmd_Serve ns)" "list_all (\<lambda>a. \<not> prefix ''--'' a) pre"
  shows "\<forall>f \<in> set SERVE_FLAGS. flag_agrees f (read_argv_flags [] Map.empty (pre @ argv) f) (ns f)"
proof -
  have empty: "same_flags Map.empty Map.empty" by (simp add: same_flags_def)
  consider "parse_args serve_parser argv Map.empty = Some ns"
    | rest where "argv = ''serve'' # rest" "parse_args serve_parser rest Map.empty = Some ns"
    using assms(1) by (auto simp: main_command_def run_parser_def split: list.splits if_splits)
  then have "same_flags (read_argv_flags [] Map.empty argv) ns"
  proof cases
    case 1
    then show ?thesis using reader_agrees empty by blast
  next
    case 2
    then show ?thesis using reader_agrees [OF _ empty] by simp
  qed
  then show ?thesis using skip_words [OF assms(2)] by (simp add: same_flags_def)
qed

text \<open>C14: the reader of an installed agent's arguments agrees with the server's own parser: for every list of
  arguments the server accepts, behind any words that are no flags (the interpreter, \<open>-m\<close>, the module),
  each endpoint flag and the token file are absent in both or have the same value, the port being the number
  \<open>int\<close> makes of the text.\<close>

theorem reader_agrees_with_server:
  assumes "main_command argv = Some (Cmd_Serve ns)" "list_all (\<lambda>a. \<not> prefix ''--'' a) pre"
  shows "\<forall>f \<in> set SERVE_FLAGS. flag_agrees f (read_argv_flags [] Map.empty (pre @ argv) f) (ns f)"
  by (rule reader_flags [OF assms])

definition sample_argv :: "string list" where
  "sample_argv = [''--log-level'', ''--a b'', ''--host=127.0.0.1'', ''--port'', ''9_100'', ''--supervised'']"

lemma sample_argv_parsed:
  "main_command sample_argv =
     Some (Cmd_Serve (Map.empty(''--log-level'' \<mapsto> A_Str ''--a b'', ''--host'' \<mapsto> A_Str ''127.0.0.1'', ''--port'' \<mapsto> A_Int 9100,
       ''--supervised'' \<mapsto> A_True)))"
  by (simp add: main_command_def sample_argv_def run_parser_def find_option_def named_before_def partition_at_def
      serve_parser_def help_option_def add_endpoint_flags_def is_value_def abbreviated_def py_int_def strip_def lstrip_def
      is_space_def is_digit_def digit_val_def in_range_def)

theorem reader_agrees_with_server_witness:
  "flag_agrees ''--port'' (read_argv_flags [] Map.empty ([''/usr/bin/python3'', ''-m'', ''stt_server''] @ sample_argv) ''--port'') (Some (A_Int 9100))"
  using reader_agrees_with_server [OF sample_argv_parsed, of "[''/usr/bin/python3'', ''-m'', ''stt_server'']"]
  by (auto simp: SERVE_FLAGS_def)

end
