(* ===== verification/Cli.thy ===== *)
theory Cli
  imports Plist Auth Client Prefetch Serve Socket_Lock
begin

text \<open>
  The commands of \<open>stt_server/__main__.py\<close>: the model and the token of a server, the check of the
  listener before the model load, the events of a supervised server, the status probe and the
  prefetch command. \<open>argparse\<close>'s part is \<open>Cli_Args\<close>; what \<open>serve()\<close> does is \<open>Serve\<close>, whose final
  states this theory turns into the events a supervisor sees and the exit status.
\<close>

section \<open>Settings\<close>

definition resolve_model :: "string \<Rightarrow> string option \<Rightarrow> string option" where
  "resolve_model backend model =
     (case model of
        Some m \<Rightarrow> Some m
      | None \<Rightarrow> (case map_of BACKENDS backend of Some e \<Rightarrow> be_default_model e | None \<Rightarrow> None))"

text \<open>How a command ends: normally, with \<open>SystemExit\<close> (and its \<open>__cause__\<close>), with another exception, or
  in \<open>os._exit\<close>.\<close>

datatype exit_code = Exit_Status int | Exit_Text string

datatype ended = Returned | Sys_Exit exit_code "store option" | Raised store | Left int

datatype built_backend = Built_Echo | Built_Model string "string option"

definition make_backend :: "(string \<Rightarrow> bool) \<Rightarrow> string \<Rightarrow> string option \<Rightarrow> ended + built_backend" where
  "make_backend importable name model =
     (case import_backend importable name of
        Inl (Unknown_Backend n) \<Rightarrow> Raise (Sys_Exit (Exit_Text (''unknown backend: '' @ n)) None)
      | Inl (Import_Failed m) \<Rightarrow> Raise (Raised (import_exn (Import_Failed m)))
      | Inr loaded \<Rightarrow>
          (case be_class_name (lb_entry loaded) of
             None \<Rightarrow> Ok Built_Echo
           | Some c \<Rightarrow> Ok (Built_Model c model)))"

text \<open>A token is a list of code points. \<open>parse_path\<close>: whether the path is absolute, and its components.\<close>

definition code_points :: "string \<Rightarrow> nat list" where
  "code_points = map of_char"

definition resolve_auth_token ::
  "token_world \<Rightarrow> (string \<Rightarrow> bool \<times> path) \<Rightarrow> environ \<Rightarrow> string option \<Rightarrow> bool \<Rightarrow> token_problem + nat list option" where
  "resolve_auth_token w parse_path env token_file client =
     (case token_file of
        Some (c # cs) \<Rightarrow> (let (is_abs, p) = parse_path (c # cs) in read_token_file w (\<not> client) is_abs p)
      | _ \<Rightarrow>
          if client then
            (let v = strip (case env ''STT_WS_TOKEN'' of None \<Rightarrow> [] | Some v \<Rightarrow> v)
             in Ok (if v = [] then None else Some (code_points v)))
          else
            (let v = strip (case env_first env [''PIPECAT_STT_AUTH_TOKEN'', ''KODA_STT_AUTH_TOKEN''] None of
                              None \<Rightarrow> [] | Some v \<Rightarrow> v)
             in if v = [] then Ok None
                else if check_token_chars (code_points v) then Ok (Some (code_points v))
                else Raise Token_Bad_Chars))"

section \<open>The listener's check\<close>

text \<open>The probe's connection: accepted, timed out, or refused; and the binds to the resolved addresses.\<close>

datatype connect_result = Connected | Connect_Timeout | Connect_Refused | Connect_No_Entry | Connect_Again | Connect_Error int

record listen_world =
  lo_euid :: int
  lo_lock :: lock_world
  lo_is_socket :: bool
  lo_connect :: connect_result
  lo_addresses :: "os_error + os_error option list"

fun bind_all :: "os_error option list \<Rightarrow> os_error option" where
  "bind_all [] = None"
| "bind_all (None # bs) = bind_all bs"
| "bind_all (Some e # bs) = Some e"

definition preflight_listener :: "listen_world \<Rightarrow> string option \<Rightarrow> string option \<Rightarrow> int option \<Rightarrow> os_error option" where
  "preflight_listener w socket_path host port =
     (case socket_path of
        Some (c # cs) \<Rightarrow>
          if socket_lock_held (lo_euid w) (lo_lock w) then Some EADDRINUSE
          else if lo_is_socket w then
            (case lo_connect w of
               Connected \<Rightarrow> Some EADDRINUSE
             | Connect_Timeout \<Rightarrow> Some EADDRINUSE
             | Connect_Refused \<Rightarrow> None
             | Connect_No_Entry \<Rightarrow> None
             | Connect_Again \<Rightarrow> Some EADDRINUSE
             | Connect_Error e \<Rightarrow> Some (EOTHER e))
          else None
      | _ \<Rightarrow>
          (case (host, port) of
             (Some (h # hs), Some p) \<Rightarrow>
               if p = 0 then None
               else (case lo_addresses w of Inl e \<Rightarrow> Some e | Inr bs \<Rightarrow> bind_all bs)
           | _ \<Rightarrow> None))"

section \<open>A supervised server\<close>

definition errno_of :: "int \<Rightarrow> os_error \<Rightarrow> int" where
  "errno_of in_use e =
     (case e of EADDRINUSE \<Rightarrow> in_use | EACCES \<Rightarrow> 13 | ENOENT \<Rightarrow> 2 | EPERM \<Rightarrow> 1 | EOTHER n \<Rightarrow> n | _ \<Rightarrow> 0)"

text \<open>An \<open>OSError\<close> gets the subclass of its number.\<close>

definition os_exn :: "int \<Rightarrow> os_error \<Rightarrow> string \<Rightarrow> store" where
  "os_exn in_use e message =
     [\<lparr>ex_name = (if e = EACCES then ''PermissionError'' else ''OSError''), ex_module = ''builtins'',
       ex_mro = (if e = EACCES then [''PermissionError''] else []) @ [''OSError'', ''Exception''],
       ex_errno = Some (errno_of in_use e), ex_str = message,
       ex_cause = None, ex_context = None, ex_dict = True, ex_download = False, ex_invalid = False\<rparr>]"

definition error_event :: "int \<Rightarrow> store \<Rightarrow> json" where
  "error_event in_use st =
     (let (c, message) = classify_startup_error in_use st 0
      in JObj [(''event'', JStr ''error''), (''code'', JStr (code_text c)), (''message'', JStr message),
               (''exc_type'', JStr (ex_name (st ! 0)))])"

definition config_event :: "string \<Rightarrow> json" where
  "config_event message =
     JObj [(''event'', JStr ''error''), (''code'', JStr (code_text CODE_CONFIG)), (''message'', JStr message),
           (''exc_type'', JStr ''SystemExit'')]"

text \<open>The ready event: a Unix socket's server has neither host nor port.\<close>

record ready_info =
  ri_backend :: string
  ri_model :: "string option"
  ri_socket_path :: "string option"
  ri_host :: "string option"
  ri_port :: "nat option"
  ri_listening :: "nat option"
  ri_pid :: nat

definition opt_num :: "nat option \<Rightarrow> json" where
  "opt_num x = (case x of None \<Rightarrow> JNull | Some n \<Rightarrow> JInt (int n))"

definition emit_ready :: "ready_info \<Rightarrow> json" where
  "emit_ready i =
     (let unix = (case ri_socket_path i of Some (c # cs) \<Rightarrow> True | _ \<Rightarrow> False)
      in JObj [(''event'', JStr ''ready''), (''backend'', JStr (ri_backend i)), (''model'', opt_str (ri_model i)),
               (''host'', if unix then JNull else opt_str (ri_host i)),
               (''port'', if unix then JNull
                  else (case ri_listening i of Some n \<Rightarrow> if n \<noteq> 0 then JInt (int n) else opt_num (ri_port i)
                        | None \<Rightarrow> opt_num (ri_port i))),
               (''socket_path'', opt_str (ri_socket_path i)), (''rate'', JInt (int AUDIO_SAMPLE_RATE_HZ)),
               (''pid'', JInt (int (ri_pid i)))])"

text \<open>\<open>_report_fatal\<close>: the event of a failure, given to \<open>serve\<close> as its \<open>on_fatal\<close>.\<close>

definition report_fatal_event :: "int \<Rightarrow> bool \<Rightarrow> store \<Rightarrow> json list" where
  "report_fatal_event in_use supervised st = (if supervised then [error_event in_use st] else [])"

text \<open>What a \<open>serve()\<close> that is over has written, and how it ended. \<open>exc\<close>: the exception behind a failure
  of the model; a notification that raised wrote no event.\<close>

definition effect_events :: "int \<Rightarrow> (failure \<Rightarrow> store) \<Rightarrow> bool \<Rightarrow> json \<Rightarrow> serving_state \<Rightarrow> json list" where
  "effect_events in_use exc supervised ready s =
     concat (map (\<lambda>e. case e of
         Published \<Rightarrow> if so_publish (opts s) = Some None then [ready] else []
       | On_Fatal f \<Rightarrow> report_fatal_event in_use supervised (exc f)
       | _ \<Rightarrow> []) (effects s))"

fun serve_ended :: "(failure \<Rightarrow> store) \<Rightarrow> serve_pc \<Rightarrow> ended" where
  "serve_ended exc (V_returned None) = Returned"
| "serve_ended exc (V_returned (Some f)) = Raised (exc f)"
| "serve_ended exc (V_exited c) = Left c"
| "serve_ended exc v = Returned"

definition run_serve :: "(string \<Rightarrow> bool) \<Rightarrow> string \<Rightarrow> string option \<Rightarrow> ended \<Rightarrow> ended" where
  "run_serve importable backend model served =
     (case make_backend importable backend (resolve_model backend model) of
        Inl r \<Rightarrow> r
      | Inr b \<Rightarrow>
          (case served of
             Raised e \<Rightarrow>
               if caught ''ValueError'' e \<or> caught ''OSError'' e \<or> caught ''ImportError'' e
               then Sys_Exit (Exit_Status 1) (Some e) else Raised e
           | r \<Rightarrow> r))"

text \<open>The handlers of \<open>_cmd_serve\<close>: the events they add to those of the run, and the end of the command.\<close>

definition supervised_end :: "int \<Rightarrow> ended \<Rightarrow> json list \<times> ended" where
  "supervised_end in_use r =
     (case r of
        Sys_Exit c (Some cause) \<Rightarrow> ([error_event in_use cause], r)
      | Sys_Exit (Exit_Text m) None \<Rightarrow> ([config_event m], r)
      | Raised e \<Rightarrow>
          if caught ''Exception'' e then ([error_event in_use e], Sys_Exit (Exit_Status 1) None) else ([], r)
      | _ \<Rightarrow> ([], r))"

definition cmd_serve ::
  "int \<Rightarrow> bool \<Rightarrow> (os_error \<times> string) option \<Rightarrow> json list \<times> ended \<Rightarrow> json list \<times> ended" where
  "cmd_serve in_use supervised preflight run =
     (if \<not> supervised then run
      else case preflight of
        Some (e, m) \<Rightarrow> supervised_end in_use (Sys_Exit (Exit_Status 1) (Some (os_exn in_use e m)))
      | None \<Rightarrow> (let (more, r) = supervised_end in_use (snd run) in (fst run @ more, r)))"

fun exit_status :: "ended \<Rightarrow> int" where
  "exit_status Returned = 0"
| "exit_status (Sys_Exit (Exit_Status n) cause) = n"
| "exit_status (Sys_Exit (Exit_Text t) cause) = 1"
| "exit_status (Raised e) = 1"
| "exit_status (Left c) = c"

section \<open>What a supervisor sees\<close>

lemma events_no_fatal:
  assumes "so_publish (opts s) = Some None"
  shows "list_all (\<lambda>e. \<not> is_fatal e) es \<Longrightarrow>
    concat (map (\<lambda>e. case e of
         Published \<Rightarrow> if so_publish (opts s) = Some None then [ready] else []
       | On_Fatal f \<Rightarrow> report_fatal_event in_use b (exc f)
       | _ \<Rightarrow> []) es) = replicate (length (filter (\<lambda>e. e = Published) es)) ready"
  using assms by (induction es) (auto split: effect.split)

lemma effect_events_split:
  assumes "so_publish (opts s) = Some None" "length (readies s) \<le> 1" "fatal_last s"
  shows "effect_events in_use exc b ready s =
    (if published s then [ready] else []) @
    concat (map (\<lambda>e. case e of On_Fatal f \<Rightarrow> report_fatal_event in_use b (exc f) | _ \<Rightarrow> []) (fatals s))"
proof (cases "effects s = [] \<or> \<not> is_fatal (last (effects s))")
  case True
  then have "list_all (\<lambda>e. \<not> is_fatal e) (effects s)" using assms(3)
    by (cases "effects s" rule: rev_cases) (auto simp: fatal_last_def)
  then have n: "fatals s = []" "effect_events in_use exc b ready s = replicate (length (readies s)) ready"
    using events_no_fatal [OF assms(1)] by (simp_all add: effect_events_def filter_empty_conv list_all_iff)
  moreover have "readies s = [] \<longleftrightarrow> \<not> published s" by (auto simp: filter_empty_conv)
  ultimately show ?thesis using assms(2) by (cases "readies s") auto
next
  case False
  then obtain es f where e: "effects s = es @ [f]" "is_fatal f" by (metis append_butlast_last_id)
  have n: "list_all (\<lambda>e. \<not> is_fatal e) es" using assms(3) e by (simp add: fatal_last_def)
  then have "filter is_fatal es = []" by (simp add: filter_empty_conv list_all_iff)
  have r: "readies s = filter (\<lambda>e. e = Published) es" "published s \<longleftrightarrow> Published \<in> set es"
    using e by (cases f; simp)+
  have "filter (\<lambda>e. e = Published) es = [] \<longleftrightarrow> Published \<notin> set es" by (auto simp: filter_empty_conv)
  then have "replicate (length (filter (\<lambda>e. e = Published) es)) ready = (if published s then [ready] else [])"
    using assms(2) r by (cases "filter (\<lambda>e. e = Published) es") auto
  then show ?thesis
    using events_no_fatal [OF assms(1) n] e \<open>filter is_fatal es = []\<close> by (cases f) (simp_all add: effect_events_def)
qed

lemma end_exception:
  assumes "make_backend importable backend (resolve_model backend model) = Ok b" "caught ''Exception'' e"
  shows "\<exists>c. cmd_serve in_use True None (evs, run_serve importable backend model (Raised e)) =
    (evs @ [error_event in_use e], Sys_Exit (Exit_Status 1) c)"
  using assms
  by (cases "caught ''ValueError'' e \<or> caught ''OSError'' e \<or> caught ''ImportError'' e")
    (simp_all add: cmd_serve_def run_serve_def supervised_end_def)

lemma end_base:
  assumes "make_backend importable backend (resolve_model backend model) = Ok b"
    "\<And>c. c \<in> {''Exception'', ''ValueError'', ''OSError'', ''ImportError''} \<Longrightarrow> \<not> caught c e"
  shows "cmd_serve in_use True None (evs, run_serve importable backend model (Raised e)) = (evs, Raised e)"
  using assms(1) assms(2) [of "''Exception''"] assms(2) [of "''ValueError''"] assms(2) [of "''OSError''"]
    assms(2) [of "''ImportError''"]
  by (simp add: cmd_serve_def run_serve_def supervised_end_def)

text \<open>An exception of the model stands for one of the right kind.\<close>

definition faithful :: "(failure \<Rightarrow> store) \<Rightarrow> bool" where
  "faithful exc \<longleftrightarrow>
     (\<forall>n. caught ''Exception'' (exc (Exception_of n)) \<and>
        \<not> (\<exists>c \<in> {''Exception'', ''ValueError'', ''OSError'', ''ImportError''}. caught c (exc (Base_of n))))"

text \<open>C13: what the parent of a supervised server sees. However startup, readiness, stops, cancellations and
  the server's own work interleave: when \<open>serve()\<close> is over, the events written are at most one ready
  event, followed by exactly one error event if \<open>serve\<close> failed with an \<open>Exception\<close> and none
  otherwise, whether the failure went through the exception handlers or through the hard exit that
  skips them; and the exit status is 0 exactly when nothing failed.\<close>

theorem supervised_events:
  assumes "serve_reach s" "serve_over s" "faithful exc" "so_on_fatal (opts s)" "so_publish (opts s) = Some None"
    "make_backend importable backend (resolve_model backend model) = Ok b"
    "cmd_serve in_use True None
       (effect_events in_use exc True ready s, run_serve importable backend model (serve_ended exc (pc s))) = (evs, r)"
  shows "evs = (if published s then [ready] else []) @
      (case failed s of Some (Exception_of n) \<Rightarrow> [error_event in_use (exc (Exception_of n))] | _ \<Rightarrow> []) \<and>
    (exit_status r = 0 \<longleftrightarrow> failed s = None)"
proof -
  have x: "effect_events in_use exc True ready s = (if published s then [ready] else []) @
    concat (map (\<lambda>e. case e of On_Fatal f \<Rightarrow> report_fatal_event in_use True (exc f) | _ \<Rightarrow> []) (fatals s))"
    using effect_events_split [OF assms(5)] ready_once [OF assms(1)] by blast
  have inv: "pc_inv s" using serving.reachable [OF assms(1)] by (simp add: serve_inv_def)
  have b: "\<not> caught c (exc (Base_of n))" if "c \<in> {''Exception'', ''ValueError'', ''OSError'', ''ImportError''}" for c n
    using assms(3) that unfolding faithful_def by blast
  have e: "caught ''Exception'' (exc (Exception_of n))" for n using assms(3) unfolding faithful_def by blast
  from assms(2) consider r1 where "pc s = V_returned r1" | c where "pc s = V_exited c"
    by (auto simp: serve_over_def split: serve_pc.splits)
  then show ?thesis
  proof cases
    case 1
    then have f: "fatals s = []" "r1 = failed s" using inv by (simp_all add: pc_inv_def)
    show ?thesis
    proof (cases "failed s")
      case None
      then show ?thesis using assms(6,7) 1 f x
        by (auto simp: cmd_serve_def run_serve_def supervised_end_def)
    next
      case (Some g)
      then have c: "cmd_serve in_use True None (effect_events in_use exc True ready s,
          run_serve importable backend model (Raised (exc g))) = (evs, r)" using assms(7) 1 f by simp
      show ?thesis
      proof (cases g)
        case (Exception_of n)
        obtain k where "evs = effect_events in_use exc True ready s @ [error_event in_use (exc g)]" "r = Sys_Exit (Exit_Status 1) k"
          using end_exception [OF assms(6) e [of n], of in_use "effect_events in_use exc True ready s"] c Exception_of by auto
        then show ?thesis using Some f(1) x Exception_of by simp
      next
        case (Base_of n)
        have "\<not> caught k (exc g)" if "k \<in> {''Exception'', ''ValueError'', ''OSError'', ''ImportError''}" for k
          using b [OF that, of n] Base_of by simp
        then have "evs = effect_events in_use exc True ready s" "r = Raised (exc g)"
          using c end_base [OF assms(6), of "exc g" in_use "effect_events in_use exc True ready s"] by auto
        then show ?thesis using Some f(1) x Base_of by simp
      qed
    qed
  next
    case 2
    then have f: "fatals s = (case failed s of None \<Rightarrow> [] | Some f \<Rightarrow> [report_before_hard_exit (so_on_fatal (opts s)) f])"
      "c = (if failed s = None then 0 else 1)" using inv by (simp_all add: pc_inv_def)
    then have "r = Left c" "evs = effect_events in_use exc True ready s"
      using assms(6,7) 2 by (auto simp: cmd_serve_def run_serve_def supervised_end_def)
    then show ?thesis using x f assms(4)
      by (cases "failed s") (auto simp: report_before_hard_exit_def report_fatal_event_def split: failure.splits)
  qed
qed

definition sample_exc :: "failure \<Rightarrow> store" where
  "sample_exc f =
     (case f of Exception_of n \<Rightarrow> new_exn [''RuntimeError'', ''Exception''] [] | Base_of n \<Rightarrow> new_exn [''CancelledError''] [])"

lemma sample_exc_faithful: "faithful sample_exc"
  by (auto simp: faithful_def sample_exc_def new_exn_def caught_def is_instance_def)

theorem supervised_events_witness:
  "effect_events 98 sample_exc True JNull sample_done = [JNull]"
proof -
  have s: "opts sample_done = sample_options" "failed sample_done = None" "published sample_done"
    by (simp_all add: sample_done_def sample_up_def sample_stop_def sample_startup_def sample_call_def serve_call_def
        sample_options_def post_init_def default_config_def serve_simps)
  have o: "serve_over sample_done" using sample_done_run by (simp add: serve_over_def)
  have m: "make_backend (\<lambda>m. True) ''echo'' (resolve_model ''echo'' None) = Ok Built_Echo"
    by (simp add: make_backend_def import_backend_def BACKENDS_def)
  obtain evs r where c: "cmd_serve 98 True None (effect_events 98 sample_exc True JNull sample_done,
      run_serve (\<lambda>m. True) ''echo'' None (serve_ended sample_exc (pc sample_done))) = (evs, r)" by fastforce
  have "evs = [JNull]"
    using supervised_events [OF sample_serve_reach(2) o sample_exc_faithful _ _ m c] s by (simp add: sample_options_def)
  moreover have "evs = effect_events 98 sample_exc True JNull sample_done"
    using c m sample_done_run by (simp add: cmd_serve_def run_serve_def supervised_end_def)
  ultimately show ?thesis by simp
qed

section \<open>Who needs a token\<close>

text \<open>The environment launchd gives the agent, as far as the plist sets it.\<close>

definition plist_environ :: "plist \<Rightarrow> environ" where
  "plist_environ plist k = (case env_variable plist k of Some (P_Str v) \<Rightarrow> Some v | _ \<Rightarrow> None)"

lemma first_token_env:
  "first_token plist ks = (case env_first (plist_environ plist) ks None of None \<Rightarrow> [] | Some v \<Rightarrow> strip v)"
  by (induction ks) (auto simp: plist_environ_def split: option.splits plist_value.splits)

lemma env_first_None: "env_first env ks None = None \<longleftrightarrow> (\<forall>k \<in> set ks. \<forall>v. env k = Some v \<longrightarrow> strip v = [])"
  by (induction ks) (auto split: option.splits)

definition string_environ :: "plist \<Rightarrow> bool" where
  "string_environ plist \<longleftrightarrow> (\<forall>k v. env_variable plist k = Some v \<longrightarrow> is_str v)"

text \<open>The token file a parsed command line names.\<close>

definition token_file_of :: "namespace \<Rightarrow> string option" where
  "token_file_of ns = (case ns ''--auth-token-file'' of Some (A_Str v) \<Rightarrow> Some v | _ \<Rightarrow> None)"

lemma token_file_agrees:
  assumes "main_command argv = Some (Cmd_Serve ns)" "list_all (\<lambda>a. \<not> prefix ''--'' a) pre"
    "program_arguments plist = pre @ argv"
  shows "read_flags plist ''--auth-token-file'' = token_file_of ns"
proof -
  have "flag_agrees ''--auth-token-file'' (read_flags plist ''--auth-token-file'') (ns ''--auth-token-file'')"
    using reader_flags [OF assms(1,2)] assms(3) by (simp add: read_flags_def SERVE_FLAGS_def)
  then show ?thesis
    by (cases "read_flags plist ''--auth-token-file''"; cases "ns ''--auth-token-file''")
      (auto simp: token_file_of_def elim: flag_agrees.elims)
qed

lemma strict_read_token: "read_token_file w True a p \<noteq> Ok None"
  by (auto simp: read_token_file_def bind_result_Ok_iff)

text \<open>C15: \<open>--has-auth\<close> against the server itself. For an agent whose variables are strings and whose arguments the
  server accepts: whenever the server would require a token (or refuse to start over one), the reader
  says so; a token it takes from the environment is the one the reader finds; and the reader is wrong only
  in one way: it says a token is required although the server runs without one exactly when no token
  file is named and a token variable is not empty but blank.\<close>

theorem has_auth_against_server:
  assumes "main_command argv = Some (Cmd_Serve ns)" "list_all (\<lambda>a. \<not> prefix ''--'' a) pre"
    "program_arguments plist = pre @ argv" "string_environ plist"
    "resolve_auth_token w parse_path (plist_environ plist) (token_file_of ns) False = r"
  shows "(r \<noteq> Ok None \<longrightarrow> has_auth plist) \<and>
    (\<forall>t. r = Ok (Some t) \<and> token_file_of ns = None \<longrightarrow> t = code_points (env_token plist)) \<and>
    (has_auth plist \<and> r = Ok None \<longleftrightarrow>
       (token_file_of ns = None \<or> token_file_of ns = Some []) \<and> env_token plist = [] \<and>
       (\<exists>k v. k \<in> set ENV_TOKENS \<and> plist_environ plist k = Some v \<and> v \<noteq> []))"
proof -
  have f: "read_flags plist ''--auth-token-file'' = token_file_of ns" by (rule token_file_agrees [OF assms(1-3)])
  have str: "env_variable plist k = Some v \<longleftrightarrow> (\<exists>u. v = P_Str u \<and> plist_environ plist k = Some u)" for k v
    using assms(4) unfolding string_environ_def plist_environ_def
    by (cases "env_variable plist k"; cases v) (force split: plist_value.splits)+
  have env: "list_ex (\<lambda>k. case env_variable plist k of None \<Rightarrow> False | Some v \<Rightarrow> plist_truthy v) ENV_TOKENS \<longleftrightarrow>
      (\<exists>k v. k \<in> set ENV_TOKENS \<and> plist_environ plist k = Some v \<and> v \<noteq> [])"
    using str by (auto simp: list_ex_iff split: option.splits)
  have tok: "env_token plist = (case env_first (plist_environ plist) ENV_TOKENS None of None \<Rightarrow> [] | Some v \<Rightarrow> strip v)"
    by (simp add: env_token_def first_token_env)
  have ne: "(\<exists>k v. k \<in> set ENV_TOKENS \<and> plist_environ plist k = Some v \<and> v \<noteq> [])" if "env_token plist \<noteq> []"
  proof -
    have "env_first (plist_environ plist) ENV_TOKENS None \<noteq> None"
      using that tok by (cases "env_first (plist_environ plist) ENV_TOKENS None") simp_all
    then obtain k v where "k \<in> set ENV_TOKENS" "plist_environ plist k = Some v" "strip v \<noteq> []"
      unfolding env_first_None by blast
    moreover have "v \<noteq> []" using \<open>strip v \<noteq> []\<close> by (auto simp: strip_eq_Nil_iff)
    ultimately show ?thesis by blast
  qed
  let ?E = "\<exists>k v. k \<in> set ENV_TOKENS \<and> plist_environ plist k = Some v \<and> v \<noteq> []"
  show ?thesis
  proof (cases "token_file_of ns = None \<or> token_file_of ns = Some []")
    case False
    then obtain c cs where c: "token_file_of ns = Some (c # cs)" by (cases "token_file_of ns"; cases "the (token_file_of ns)") auto
    then have "r \<noteq> Ok None" "has_auth plist" using assms(5) f strict_read_token
      by (auto simp: resolve_auth_token_def has_auth_def split: prod.splits)
    then show ?thesis using c by simp
  next
    case True
    have h: "has_auth plist = ?E" unfolding has_auth_def f env using True by auto
    have "r = (let v = env_token plist in if v = [] then Ok None
                else if check_token_chars (code_points v) then Ok (Some (code_points v)) else Raise Token_Bad_Chars)"
      unfolding assms(5) [symmetric] resolve_auth_token_def tok ENV_TOKENS_def using True
      by (cases "env_first (plist_environ plist) [''PIPECAT_STT_AUTH_TOKEN'', ''KODA_STT_AUTH_TOKEN''] None")
        (auto simp: strip_eq_Nil_iff simp del: env_first.simps)
    then have "r = Ok None \<longleftrightarrow> env_token plist = []" "\<And>t. r = Ok (Some t) \<Longrightarrow> t = code_points (env_token plist)"
      by (auto simp: Let_def split: if_splits)
    then show ?thesis using h ne True by blast
  qed
qed

text \<open>An agent whose only token variable holds a blank.\<close>

definition blank_agent :: plist where
  "blank_agent = [(''ProgramArguments'', P_List (map P_Str ([''/usr/bin/python3'', ''-m'', ''stt_server''] @ sample_argv))),
     (''EnvironmentVariables'', P_Dict [(''KODA_STT_AUTH_TOKEN'', P_Str '' '')])]"

theorem has_auth_against_server_witness:
  "has_auth blank_agent \<and> resolve_auth_token sample_tokens (\<lambda>p. (True, [p])) (plist_environ blank_agent) None False = Ok None"
proof -
  have a: "arguments_of blank_agent = map P_Str ([''/usr/bin/python3'', ''-m'', ''stt_server''] @ sample_argv)"
    "env_variable blank_agent k = (if k = ''KODA_STT_AUTH_TOKEN'' then Some (P_Str '' '') else None)" for k
    by (simp_all add: blank_agent_def arguments_of_def env_variable_def)
  have p: "program_arguments blank_agent = [''/usr/bin/python3'', ''-m'', ''stt_server''] @ sample_argv"
    unfolding program_arguments_def a(1) map_map by (simp add: comp_def)
  have s: "strip '' '' = []" by (simp add: strip_eq_Nil_iff is_space_def)
  have e: "env_token blank_agent = []" "string_environ blank_agent"
    "plist_environ blank_agent ''KODA_STT_AUTH_TOKEN'' = Some '' ''"
    by (simp_all add: env_token_def ENV_TOKENS_def a(2) s string_environ_def plist_environ_def)
  have r: "resolve_auth_token sample_tokens (\<lambda>p. (True, [p])) (plist_environ blank_agent) None False = Ok None"
    by (simp add: resolve_auth_token_def plist_environ_def a(2) s Let_def strip_eq_Nil_iff)
  note h = has_auth_against_server [OF sample_argv_parsed _ p e(2), of sample_tokens "\<lambda>p. (True, [p])"]
  show ?thesis using h r e by (auto simp: token_file_of_def ENV_TOKENS_def)
qed

section \<open>The status probe\<close>

text \<open>\<open>dotenv\<close>: the environment after the two \<open>load_dotenv\<close> calls, of a library the program may lack.\<close>

record probe_args =
  pa_uri :: "string option"
  pa_socket_path :: "string option"
  pa_host :: "string option"
  pa_port :: "int option"
  pa_token_file :: "string option"

definition given :: "string option \<Rightarrow> bool" where
  "given x = (case x of Some (c # cs) \<Rightarrow> True | _ \<Rightarrow> False)"

definition resolve_probe_endpoint :: "(environ \<Rightarrow> environ) \<Rightarrow> environ \<Rightarrow> probe_args \<Rightarrow> endpoint option" where
  "resolve_probe_endpoint dotenv env0 a =
     (let env = dotenv env0
      in if given (pa_uri a) \<or> given (pa_socket_path a) \<or> given (pa_host a) \<or> pa_port a \<noteq> None then
           let uri = pa_uri a;
               sock = (if given uri then None else pa_socket_path a)
           in Some \<lparr>ep_uri = uri, ep_socket_path = sock,
                    ep_host = (if given uri \<or> given sock then None else pa_host a),
                    ep_port = (if given uri \<or> given sock then None else pa_port a)\<rparr>
         else
           map_option (\<lambda>r.
             if given (ep_uri r) \<or> given (ep_socket_path r) \<or> given (ep_host r) then r
             else case env ''STT_WS_DEFAULT_SOCKET'' of
               Some (c # cs) \<Rightarrow> r\<lparr>ep_socket_path := Some (c # cs)\<rparr> | _ \<Rightarrow> r)
             (resolve_endpoint_from_env env))"

text \<open>The warning before a token goes over a cleartext connection to another host.\<close>

definition effective_uri :: "(string \<Rightarrow> address option) \<Rightarrow> endpoint \<Rightarrow> string option" where
  "effective_uri ip_address e =
     (if given (ep_uri e) then ep_uri e
      else case (given (ep_socket_path e), ep_host e, ep_port e) of
        (False, Some (c # cs), Some p) \<Rightarrow> Some (''ws://'' @ format_host_for_uri ip_address (c # cs) @ '':'' @ show_int p @ ''/'')
      | _ \<Rightarrow> ep_uri e)"

definition warns_cleartext ::
  "(string \<Rightarrow> (string \<times> string option) option) \<Rightarrow> (string \<Rightarrow> address option) \<Rightarrow> endpoint \<Rightarrow> nat list option \<Rightarrow> bool" where
  "warns_cleartext urlsplit ip_address e token =
     (case token of
        None \<Rightarrow> False
      | Some t \<Rightarrow> t \<noteq> [] \<and>
          (case effective_uri ip_address e of
             Some (c # cs) \<Rightarrow> is_cleartext_remote urlsplit ip_address (c # cs) | _ \<Rightarrow> False))"

text \<open>The reply: the first status event; an event that is no object raises. \<open>Closed_Early\<close>: the connection
  ended without one.\<close>

datatype probe_failure =
    Bad_Port | Bad_Token token_problem | No_Endpoint | Probe_OS | Probe_Timeout | Probe_Client client_error | No_Reply

fun first_status :: "json list \<Rightarrow> client_error option \<Rightarrow> probe_failure + json" where
  "first_status [] e = (case e of None \<Rightarrow> Raise No_Reply | Some x \<Rightarrow> Raise (Probe_Client x))"
| "first_status (ev # evs) e =
     (case get_member ''type'' ev of
        None \<Rightarrow> Raise (Probe_Client Not_A_Dict)
      | Some t \<Rightarrow> if t = JStr EVT_SERVER_STATUS then Ok ev else first_status evs e)"

definition probe_reply :: "frame list \<Rightarrow> probe_failure + json \<times> json" where
  "probe_reply fs =
     (case connect fs of
        (Inl e, gs) \<Rightarrow> Raise (Probe_Client e)
      | (Inr hello, gs) \<Rightarrow>
          bind_result (first_status (fst (events gs)) (snd (events gs))) (\<lambda>st. Ok (hello, st)))"

text \<open>The probe's run: \<open>answer\<close> is what the opened connection delivers within the timeout, or how
  opening it failed.\<close>

definition probe_status ::
  "token_world \<Rightarrow> (string \<Rightarrow> bool \<times> path) \<Rightarrow> (string \<Rightarrow> string) \<Rightarrow> (environ \<Rightarrow> environ) \<Rightarrow> environ \<Rightarrow> probe_args \<Rightarrow>
   (client \<Rightarrow> probe_failure + frame list) \<Rightarrow> probe_failure + json \<times> json" where
  "probe_status w parse_path expanduser dotenv env a answer =
     (case resolve_probe_endpoint dotenv env a of
        None \<Rightarrow> Raise Bad_Port
      | Some e \<Rightarrow>
          (case resolve_auth_token w parse_path (dotenv env) (pa_token_file a) True of
             Inl p \<Rightarrow> Raise (Bad_Token p)
           | Inr token \<Rightarrow>
               (case make_client expanduser e (map_option (map char_of) token) of
                  None \<Rightarrow> Raise No_Endpoint
                | Some c \<Rightarrow> bind_result (answer c) probe_reply)))"

definition cmd_status :: "probe_failure + json \<times> json \<Rightarrow> ended" where
  "cmd_status r = (case r of Inl e \<Rightarrow> Sys_Exit (Exit_Status 1) None | Inr x \<Rightarrow> Returned)"

definition cmd_prefetch :: "string \<Rightarrow> string option \<Rightarrow> (string option \<Rightarrow> (pf_event list \<times> nat) option) \<Rightarrow> (pf_event list \<times> ended) option" where
  "cmd_prefetch backend model run =
     map_option (\<lambda>(evs, k). (evs, if k = 0 then Returned else Sys_Exit (Exit_Status (int k)) None))
       (run (resolve_model backend model))"

section \<open>The warm-up\<close>

text \<open>\<open>_warm\<close>: one second of silence through a stream of the backend; \<open>None\<close>: the decode raised.\<close>

definition warm_pcm :: "byte list" where
  "warm_pcm = concat (replicate 16000 [0, 0])"

definition warm ::
  "'s \<Rightarrow> (byte list \<Rightarrow> 's \<Rightarrow> 's) \<Rightarrow> ('s \<Rightarrow> 's option) \<Rightarrow> ('s \<Rightarrow> transcript_event list) \<Rightarrow> transcript_event list option" where
  "warm opened feed_to end_of events_of = map_option events_of (end_of (feed_to warm_pcm opened))"

lemma warm_even: "length warm_pcm = 32000 \<and> even (length warm_pcm)"
  by (simp add: warm_pcm_def length_concat sum_list_replicate)

lemma env_stripped_cong: "env k = env' k \<Longrightarrow> env_stripped env k = env_stripped env' k"
  by (simp add: env_stripped_def)

lemma endpoint_cong:
  assumes "\<forall>k. k \<notin> set ENV_TOKENS \<longrightarrow> env k = env' k"
  shows "resolve_endpoint_from_env env = resolve_endpoint_from_env env'"
proof -
  have "env_stripped env k = env_stripped env' k" if "k \<notin> set ENV_TOKENS" for k
    using env_stripped_cong assms that by blast
  then show ?thesis by (simp add: resolve_endpoint_from_env_def ENV_TOKENS_def)
qed

lemma probe_endpoint_cong:
  assumes "\<forall>k. k \<notin> set ENV_TOKENS \<longrightarrow> dotenv env k = dotenv env' k"
  shows "resolve_probe_endpoint dotenv env a = resolve_probe_endpoint dotenv env' a"
proof -
  have "dotenv env ''STT_WS_DEFAULT_SOCKET'' = dotenv env' ''STT_WS_DEFAULT_SOCKET''"
    using assms by (simp add: ENV_TOKENS_def)
  then show ?thesis using endpoint_cong [of "dotenv env" "dotenv env'", OF assms]
    unfolding resolve_probe_endpoint_def Let_def by (simp only:)
qed

lemma probe_token_cong:
  assumes "\<forall>k. k \<notin> set ENV_TOKENS \<longrightarrow> env k = env' k"
  shows "resolve_auth_token w parse_path env tf True = resolve_auth_token w parse_path env' tf True"
proof -
  have "env ''STT_WS_TOKEN'' = env' ''STT_WS_TOKEN''" using assms by (simp add: ENV_TOKENS_def)
  then show ?thesis by (simp add: resolve_auth_token_def split: option.split list.split)
qed

lemma env_first_cong: "\<forall>k \<in> set ks. env k = env' k \<Longrightarrow> env_first env ks d = env_first env' ks d"
  by (induction ks) (auto split: option.split)

lemma server_token_cong:
  "resolve_auth_token w parse_path (env(''STT_WS_TOKEN'' := v)) tf False = resolve_auth_token w parse_path env tf False"
proof -
  have "env_first (env(''STT_WS_TOKEN'' := v)) [''PIPECAT_STT_AUTH_TOKEN'', ''KODA_STT_AUTH_TOKEN''] None =
      env_first env [''PIPECAT_STT_AUTH_TOKEN'', ''KODA_STT_AUTH_TOKEN''] None"
    by (rule env_first_cong) simp
  then show ?thesis unfolding resolve_auth_token_def by (simp only: if_False)
qed

text \<open>The status probe never uses the server's secret: its endpoint, its token, and so everything it sends
  and reports, are the same whatever \<open>PIPECAT_STT_AUTH_TOKEN\<close> and \<open>KODA_STT_AUTH_TOKEN\<close> hold; and the
  server's token does not depend on the client's \<open>STT_WS_TOKEN\<close>.\<close>

theorem tokens_separate:
  assumes "\<forall>k. k \<notin> set ENV_TOKENS \<longrightarrow> dotenv env k = dotenv env' k"
  shows "probe_status w parse_path expanduser dotenv env a answer = probe_status w parse_path expanduser dotenv env' a answer \<and>
    resolve_auth_token w parse_path (env(''STT_WS_TOKEN'' := v)) tf False = resolve_auth_token w parse_path env tf False"
  unfolding probe_status_def probe_endpoint_cong [of dotenv env env', OF assms]
    probe_token_cong [of "dotenv env" "dotenv env'", OF assms]
  by (simp add: server_token_cong)

definition sample_probe :: probe_args where
  "sample_probe = \<lparr>pa_uri = None, pa_socket_path = Some ''/tmp/stt.sock'', pa_host = None, pa_port = None, pa_token_file = None\<rparr>"

theorem tokens_separate_witness:
  "probe_status sample_tokens (\<lambda>p. (True, [p])) (\<lambda>p. p) (\<lambda>e. e) [''KODA_STT_AUTH_TOKEN'' \<mapsto> ''secret''] sample_probe (\<lambda>c. Ok []) =
   probe_status sample_tokens (\<lambda>p. (True, [p])) (\<lambda>p. p) (\<lambda>e. e) Map.empty sample_probe (\<lambda>c. Ok [])"
  using tokens_separate [of "\<lambda>e. e" "[''KODA_STT_AUTH_TOKEN'' \<mapsto> ''secret'']" Map.empty sample_tokens
      "\<lambda>p. (True, [p])" "\<lambda>p. p" sample_probe "\<lambda>c. Ok []"] by (simp add: ENV_TOKENS_def)

end
