(* ===== verification/Squat_Check.thy ===== *)
theory Squat_Check
  imports Json_Text "HOL-Library.List_Lexorder" "HOL-Library.Char_ord"
begin

text \<open>
  \<open>scripts/squat_check.py\<close>: the one reader of \<open>launchctl print\<close> answers and of \<open>lsof\<close> listings, and the check
  that warns when an agent's port is held by a process that is not the agent. The answers of the two
  commands are inputs, one per call in the order the program makes them.

  What a warning is worth is stated against a job of launchd that moves on while the check runs.
\<close>

section \<open>lsof\<close>

text \<open>A command's exit status, stdout and stderr; \<open>None\<close>: it could not run or timed out.\<close>

type_synonym run_answer = "(int \<times> string \<times> string) option"

definition stripped_lines :: "string \<Rightarrow> string list" where
  "stripped_lines t = filter (\<lambda>l. l \<noteq> []) (map strip (splitlines t))"

definition only_warnings :: "string \<Rightarrow> bool" where
  "only_warnings err = list_all (prefix ''lsof: WARNING'') (stripped_lines err)"

definition lsof_output :: "run_answer \<Rightarrow> string option" where
  "lsof_output a =
     (case a of
        None \<Rightarrow> None
      | Some (rc, out, err) \<Rightarrow> if rc = 0 \<or> (rc = 1 \<and> only_warnings err) then Some out else None)"

definition WILDCARDS :: "string list" where "WILDCARDS = [''*'', ''::'', ''0.0.0.0'', []]"
definition LOCALHOST :: "string list" where "LOCALHOST = [''127.0.0.1'', ''::1'']"

definition bracket :: "char \<Rightarrow> bool" where
  "bracket c \<longleftrightarrow> c = CHR ''['' \<or> c = CHR '']''"

definition norm_addr :: "string \<Rightarrow> string" where
  "norm_addr a = lower (rev (dropWhile bracket (rev (dropWhile bracket (strip a)))))"

text \<open>\<open>addr.rsplit(":", 1)[0]\<close>\<close>

definition before_port :: "string \<Rightarrow> string" where
  "before_port a =
     (case dropWhile (\<lambda>c. c \<noteq> CHR '':'') (rev a) of [] \<Rightarrow> a | c # cs \<Rightarrow> rev cs)"

definition addr_matches :: "string option \<Rightarrow> string \<Rightarrow> bool" where
  "addr_matches host a =
     (case host of
        None \<Rightarrow> True
      | Some h \<Rightarrow>
          let base = norm_addr (before_port a); want = norm_addr h
          in if want \<in> set WILDCARDS \<or> base \<in> set WILDCARDS then True
             else if want = ''localhost'' then base \<in> set LOCALHOST
             else base = want)"

text \<open>One process of the listing is over: it counts once, if an address of it matches.\<close>

definition flush_pid :: "string option \<Rightarrow> string option \<Rightarrow> string list \<Rightarrow> string list \<Rightarrow> string list" where
  "flush_pid host cur addrs pids =
     (case cur of
        None \<Rightarrow> pids
      | Some p \<Rightarrow> if list_ex (addr_matches host) addrs \<and> p \<notin> set pids then pids @ [p] else pids)"

fun parse_lines :: "string option \<Rightarrow> string option \<Rightarrow> string list \<Rightarrow> string list \<Rightarrow> string list \<Rightarrow> string list" where
  "parse_lines host cur addrs pids [] = flush_pid host cur addrs pids"
| "parse_lines host cur addrs pids (l # ls) =
     (case l of
        [] \<Rightarrow> parse_lines host cur addrs pids ls
      | c # cs \<Rightarrow>
          if c = CHR ''p'' then parse_lines host (Some cs) [] (flush_pid host cur addrs pids) ls
          else if c = CHR ''n'' then parse_lines host cur (addrs @ [cs]) pids ls
          else parse_lines host cur addrs pids ls)"

definition parse_listing :: "string option \<Rightarrow> string \<Rightarrow> string list" where
  "parse_listing host out = parse_lines host None [] [] (splitlines out)"

definition listener_pids :: "string option \<Rightarrow> run_answer \<Rightarrow> string list option" where
  "listener_pids host a = map_option (parse_listing host) (lsof_output a)"

text \<open>Sorted pids of any listing: Python sorts strings by code points, the order of \<open>List_Lexorder\<close>.\<close>

definition pid_entries :: "string \<Rightarrow> string list" where
  "pid_entries out = sort (remdups (map tl (filter (prefix ''p'') (splitlines out))))"

definition lsof_pids :: "run_answer \<Rightarrow> string list option" where
  "lsof_pids a = map_option pid_entries (lsof_output a)"

text \<open>The processes that serve an endpoint: with a socket path, the holders of its lock file, if that exists.\<close>

definition endpoint_holders :: "string option \<Rightarrow> string option \<Rightarrow> bool \<Rightarrow> run_answer \<Rightarrow> string list option" where
  "endpoint_holders host socket_path lock_exists a =
     (case socket_path of
        Some (c # cs) \<Rightarrow> if lock_exists then lsof_pids a else Some []
      | _ \<Rightarrow> listener_pids host a)"

text \<open>The first command name of a listing.\<close>

definition command_name :: "run_answer \<Rightarrow> string" where
  "command_name a =
     (let out = (case lsof_output a of None \<Rightarrow> [] | Some t \<Rightarrow> t)
      in case find (\<lambda>l. prefix ''c'' l) (splitlines out) of
           Some (c # d # ds) \<Rightarrow> d # ds
         | _ \<Rightarrow> ''?'')"

section \<open>launchctl print\<close>

definition UNKNOWN :: string where "UNKNOWN = ''unknown''"

definition runs_readable :: "string option \<Rightarrow> bool" where
  "runs_readable r = (case r of None \<Rightarrow> False | Some x \<Rightarrow> x \<noteq> [] \<and> x \<noteq> UNKNOWN)"

record job_print =
  jp_loaded :: bool
  jp_pid :: "string option"
  jp_runs :: "string option"
  jp_argv :: "string list"

text \<open>The regular expressions anchor at the beginning of a line; white space before the key may
  span lines.\<close>

definition text_lines :: "string \<Rightarrow> string list" where
  "text_lines t = split_on [CHR 0x0A] t"

fun first_number :: "string \<Rightarrow> string list \<Rightarrow> string option" where
  "first_number key [] = None"
| "first_number key (l # ls) =
     (let r = lstrip l; n = takeWhile is_digit (drop (length key) r)
      in if prefix key r \<and> n \<noteq> [] then Some n else first_number key ls)"

definition parse_launchd_pid :: "string \<Rightarrow> string option" where
  "parse_launchd_pid t = first_number ''pid = '' (text_lines t)"

definition parse_runs :: "string \<Rightarrow> string option" where
  "parse_runs t = first_number ''runs = '' (text_lines t)"

fun until_close :: "string list \<Rightarrow> string list option" where
  "until_close [] = None"
| "until_close (l # ls) = (if prefix ''}'' (lstrip l) then Some [] else map_option ((#) l) (until_close ls))"

fun argument_lines :: "string list \<Rightarrow> string list" where
  "argument_lines [] = []"
| "argument_lines (l # ls) =
     (if prefix ''arguments = {'' (lstrip l) \<and> strip (drop 13 (lstrip l)) = []
      then (case until_close ls of Some c \<Rightarrow> c | None \<Rightarrow> argument_lines ls)
      else argument_lines ls)"

definition parse_job_argv :: "string \<Rightarrow> string list" where
  "parse_job_argv t = concat (map stripped_lines (argument_lines (text_lines t)))"

definition contains :: "string \<Rightarrow> string \<Rightarrow> bool" where
  "contains pat t = list_ex (prefix pat) (suffixes t)"

definition NOT_LOADED_RC :: int where "NOT_LOADED_RC = 113"

definition parse_print :: "int \<Rightarrow> string \<Rightarrow> job_print option" where
  "parse_print rc t =
     (if rc = 0 then
        (let pid = parse_launchd_pid t; runs = parse_runs t
         in Some \<lparr>jp_loaded = True, jp_pid = pid,
              jp_runs = (if runs = None \<and> pid \<noteq> None then Some UNKNOWN else runs), jp_argv = parse_job_argv t\<rparr>)
      else if rc = NOT_LOADED_RC \<or> contains ''could not find service'' (lower t)
      then Some \<lparr>jp_loaded = False, jp_pid = None, jp_runs = None, jp_argv = []\<rparr>
      else None)"

definition classify_print :: "int \<Rightarrow> string \<Rightarrow> (bool \<times> string option) option" where
  "classify_print rc t = map_option (\<lambda>j. (jp_loaded j, jp_pid j)) (parse_print rc t)"

definition read_print :: "run_answer \<Rightarrow> (int \<times> string) option" where
  "read_print a = map_option (\<lambda>(rc, out, err). (rc, out @ [CHR 0x0A] @ err)) a"

definition read_job_print :: "run_answer \<Rightarrow> job_print option" where
  "read_job_print a = (case read_print a of None \<Rightarrow> None | Some (rc, t) \<Rightarrow> parse_print rc t)"

definition launchd_state :: "run_answer \<Rightarrow> (bool \<times> string option) option" where
  "launchd_state a = map_option (\<lambda>j. (jp_loaded j, jp_pid j)) (read_job_print a)"

section \<open>The check\<close>

datatype finding = Squatter | Label_Not_Running

text \<open>An empty or missing pid is none.\<close>

definition the_pid :: "string option \<Rightarrow> string" where
  "the_pid p = (case p of None \<Rightarrow> [] | Some x \<Rightarrow> x)"

definition finding :: "string list \<Rightarrow> string \<Rightarrow> finding option" where
  "finding listeners pid =
     (if listeners = [] then None
      else if pid \<noteq> [] then (if list_ex (\<lambda>p. p \<noteq> pid) listeners then Some Squatter else None)
      else Some Label_Not_Running)"

record squat_world =
  sw_lsof1 :: run_answer
  sw_print2 :: run_answer
  sw_lsof2 :: run_answer
  sw_print3 :: run_answer
  sw_command :: "string \<Rightarrow> run_answer"

text \<open>The calls made, the exit status, and what a warning names: the port's holders with their commands,
  and the kind.\<close>

datatype call = C_lsof | C_sleep | C_print | C_command string

type_synonym verdict = "call list \<times> nat \<times> (finding \<times> (string \<times> string) list) option"

definition calling :: "call \<Rightarrow> verdict \<Rightarrow> verdict" where
  "calling c v = (c # fst v, snd v)"

definition warn :: "squat_world \<Rightarrow> string list \<Rightarrow> string \<Rightarrow> finding \<Rightarrow> verdict" where
  "warn w listeners pid kind =
     (let named = (if kind = Squatter then filter (\<lambda>p. p \<noteq> pid) listeners else listeners)
      in (map C_command listeners, 3, Some (kind, map (\<lambda>p. (p, command_name (sw_command w p))) named)))"

definition bracket_read :: "squat_world \<Rightarrow> string \<Rightarrow> string option \<Rightarrow> nat option" where
  "bracket_read w pid runs =
     (case read_job_print (sw_print3 w) of
        None \<Rightarrow> Some 2
      | Some after \<Rightarrow>
          if \<not> jp_loaded after then Some 0
          else if the_pid (jp_pid after) \<noteq> pid \<or> \<not> runs_readable runs \<or> jp_runs after \<noteq> runs then Some 2
          else None)"

definition confirm :: "squat_world \<Rightarrow> string option \<Rightarrow> bool \<Rightarrow> string \<Rightarrow> string option \<Rightarrow> bool \<Rightarrow> verdict" where
  "confirm w host label pid runs pid_current =
     calling C_lsof
     (case listener_pids host (sw_lsof2 w) of
        None \<Rightarrow> ([], 2, None)
      | Some listeners \<Rightarrow>
          (case finding listeners pid of
             None \<Rightarrow> ([], 0, None)
           | Some kind \<Rightarrow>
               if \<not> pid_current then ([], 2, None)
               else if label then
                 calling C_print
                   (case bracket_read w pid runs of Some k \<Rightarrow> ([], k, None) | None \<Rightarrow> warn w listeners pid kind)
               else warn w listeners pid kind))"

definition check :: "squat_world \<Rightarrow> string option \<Rightarrow> string option \<Rightarrow> bool \<Rightarrow> bool \<Rightarrow> verdict" where
  "check w host pid0 loaded label =
     (let pid = the_pid pid0
      in if \<not> loaded then ([], 0, None)
      else calling C_lsof
        (case listener_pids host (sw_lsof1 w) of
           None \<Rightarrow> ([], 2, None)
         | Some listeners \<Rightarrow>
             if finding listeners pid = None then ([], 0, None)
             else calling C_sleep
               (if \<not> label then confirm w host label pid None True
                else calling C_print
                  (case read_job_print (sw_print2 w) of
                     None \<Rightarrow> confirm w host label pid None False
                   | Some job \<Rightarrow>
                       if \<not> jp_loaded job then ([], 0, None)
                       else confirm w host label (the_pid (jp_pid job)) (jp_runs job) True))))"

definition squat_main :: "squat_world \<Rightarrow> string option \<Rightarrow> int \<Rightarrow> string \<Rightarrow> bool \<Rightarrow> verdict" where
  "squat_main w host rc stdin label =
     (case classify_print rc stdin of
        None \<Rightarrow> ([], 2, None)
      | Some (loaded, pid) \<Rightarrow> check w host pid loaded label)"

text \<open>The worst case of the waits, in seconds.\<close>

definition LSOF_TIMEOUT :: nat where "LSOF_TIMEOUT = 10"
definition LAUNCHCTL_TIMEOUT :: nat where "LAUNCHCTL_TIMEOUT = 10"
definition CONFIRM_SLEEP :: nat where "CONFIRM_SLEEP = 1"

definition cli_bound :: "nat \<Rightarrow> nat" where
  "cli_bound listeners =
     2 * LSOF_TIMEOUT + CONFIRM_SLEEP + 2 * LAUNCHCTL_TIMEOUT + listeners * LSOF_TIMEOUT"

section \<open>A job of launchd\<close>

text \<open>It starts under some pid, which counts, or exits; it is unloaded (\<open>bootout\<close>), and loaded again (\<open>bootstrap\<close>, as the
  recipes and the installer do), with a spawn counter of its own: nothing is known about where that counter begins.
  \<open>js_loads\<close> tells one load of the label from the next; no reading shows it.\<close>

record job =
  js_loaded :: bool
  js_pid :: "string option"
  js_runs :: nat
  js_loads :: nat

inductive job_moves :: "job \<Rightarrow> job \<Rightarrow> bool" where
  job_starts: "js_loaded j \<Longrightarrow> js_pid j = None \<Longrightarrow> job_moves j (j\<lparr>js_pid := Some p, js_runs := Suc (js_runs j)\<rparr>)"
| job_exits: "js_pid j = Some p \<Longrightarrow> job_moves j (j\<lparr>js_pid := None\<rparr>)"
| job_unloaded: "job_moves j (j\<lparr>js_loaded := False, js_pid := None\<rparr>)"
| job_loaded: "\<not> js_loaded j \<Longrightarrow>
    job_moves j (j\<lparr>js_loaded := True, js_pid := None, js_runs := r, js_loads := Suc (js_loads j)\<rparr>)"

inductive_cases job_movesE: "job_moves j k"

text \<open>The label was unloaded and loaded again between two moments.\<close>

definition reloaded :: "job \<Rightarrow> job \<Rightarrow> bool" where
  "reloaded j k \<longleftrightarrow> js_loads j < js_loads k"

text \<open>What one answer of \<open>launchctl print\<close> says about the job it was read from.\<close>

definition answers :: "job \<Rightarrow> run_answer \<Rightarrow> bool" where
  "answers j a \<longleftrightarrow>
     (\<forall>jp. read_job_print a = Some jp \<longrightarrow>
        jp_loaded jp = js_loaded j \<and>
        (jp_loaded jp \<longrightarrow> the_pid (jp_pid jp) = the_pid (js_pid j) \<and>
          (runs_readable (jp_runs jp) \<longrightarrow> (\<exists>r. jp_runs jp = Some r \<and> py_int r = Some (int (js_runs j))))))"

lemma job_loads_mono: "job_moves\<^sup>*\<^sup>* j k \<Longrightarrow> js_loads j \<le> js_loads k"
  by (induction rule: rtranclp_induct) (auto elim!: job_movesE)

lemma reloaded_iff: "job_moves\<^sup>*\<^sup>* j k \<Longrightarrow> reloaded j k \<longleftrightarrow> js_loads k \<noteq> js_loads j"
  using job_loads_mono by (auto simp: reloaded_def order.strict_iff_order)

text \<open>Within one load the counter only grows, and a job that is loaded was loaded.\<close>

lemma job_moves_mono:
  "job_moves\<^sup>*\<^sup>* j k \<Longrightarrow> js_loads k = js_loads j \<Longrightarrow> js_runs j \<le> js_runs k \<and> (js_loaded k \<longrightarrow> js_loaded j)"
proof (induction rule: rtranclp_induct)
  case (step k l)
  have m: "js_loads j \<le> js_loads k" using job_loads_mono step.hyps(1) by blast
  show ?case using step.hyps(2) m step.IH step.prems by (auto elim!: job_movesE)
qed simp

text \<open>Without a new run a job's pid is the one it had, or none.\<close>

lemma job_same_run:
  "job_moves\<^sup>*\<^sup>* j k \<Longrightarrow> js_loads k = js_loads j \<Longrightarrow> js_runs k = js_runs j \<Longrightarrow> js_pid k = js_pid j \<or> js_pid k = None"
proof (induction rule: rtranclp_induct)
  case (step k l)
  have m: "js_loads j \<le> js_loads k" "js_loads k = js_loads j \<longrightarrow> js_runs j \<le> js_runs k"
    using job_loads_mono job_moves_mono step.hyps(1) by blast+
  show ?case using step.hyps(2) m step.IH step.prems by (auto elim!: job_movesE)
qed simp

text \<open>Two readings with one pid and one spawn count frame a time in which the job held, or a reload.\<close>

lemma job_held:
  assumes "job_moves\<^sup>*\<^sup>* j k" "job_moves\<^sup>*\<^sup>* k l" "js_runs l = js_runs j" "js_pid l = js_pid j" "\<not> reloaded j l"
  shows "js_pid k = js_pid j \<and> js_runs k = js_runs j \<and> (js_loaded l \<longrightarrow> js_loaded k)"
proof -
  have g: "js_loads k = js_loads j" "js_loads l = js_loads k"
    using job_loads_mono [OF assms(1)] job_loads_mono [OF assms(2)] assms(5) by (auto simp: reloaded_def)
  note m = job_moves_mono [OF assms(1) g(1)] job_moves_mono [OF assms(2) g(2)]
  have r: "js_runs k = js_runs j" using m assms(3) by linarith
  have "js_pid k = js_pid j \<or> js_pid k = None" "js_pid l = js_pid k \<or> js_pid l = None"
    using job_same_run [OF assms(1) g(1) r] job_same_run [OF assms(2) g(2)] r assms(3) by auto
  moreover have "js_pid k = js_pid j" if "js_pid k = None" using calculation(2) assms(4) that by auto
  ultimately show ?thesis using r m by blast
qed

lemma the_pid_inj: "the_pid a = the_pid b \<Longrightarrow> a \<noteq> Some [] \<Longrightarrow> b \<noteq> Some [] \<Longrightarrow> a = b"
  by (auto simp: the_pid_def split: option.splits)

lemmas verdict_splits = option.splits if_splits prod.splits

lemma confirm_warns:
  assumes "snd (confirm w host True pid runs cur) = (3, x)"
  shows "cur \<and> (\<exists>ls after. listener_pids host (sw_lsof2 w) = Some ls \<and> finding ls pid \<noteq> None \<and>
      read_job_print (sw_print3 w) = Some after \<and> jp_loaded after \<and> the_pid (jp_pid after) = pid \<and>
      runs_readable runs \<and> jp_runs after = runs)"
  using assms by (auto simp: confirm_def calling_def bracket_read_def split: verdict_splits)

lemma check_warns:
  assumes "snd (check w host pid0 loaded True) = (3, x)"
  shows "loaded \<and> (\<exists>jp. read_job_print (sw_print2 w) = Some jp \<and> jp_loaded jp \<and>
     snd (confirm w host True (the_pid (jp_pid jp)) (jp_runs jp) True) = (3, x))"
  using assms confirm_warns [of w host _ _ False x]
  by (auto simp: check_def calling_def Let_def split: verdict_splits)

lemma lsof_pids_sorted: "lsof_pids a = Some ps \<Longrightarrow> sorted ps \<and> distinct ps"
  by (auto simp: lsof_pids_def pid_entries_def)

lemma finding_foreign: "finding ls pid \<noteq> None \<longleftrightarrow> (\<exists>p \<in> set ls. p \<noteq> pid \<or> pid = [])"
  by (cases ls) (auto simp: finding_def list_ex_iff)

text \<open>C31: a warning is never about a restart in flight. When the check, given the agent's label, warns, then the job was
  loaded when the caller asked, and the second listing shows the listeners the warning is about. Whatever the job did
  before, between and after the readings (start, exit, be unloaded and loaded again), one of two things is true at every
  moment between the two readings around that listing, so also when the listing was made: either the job was loaded and
  a listed pid is not the job's pid (or it had none), so a process that was not the agent held the port; or the
  label was unloaded and loaded again between the two readings, and its new load came to the same pid and spawn
  count: the one thing these readings cannot tell from a job that held.\<close>

theorem squat_warning_sound:
  assumes "snd (check w host pid0 loaded True) = (3, x)"
    and "answers j (sw_print2 w)" "answers l (sw_print3 w)" "job_moves\<^sup>*\<^sup>* j k" "job_moves\<^sup>*\<^sup>* k l"
    and "js_pid j \<noteq> Some []" "js_pid l \<noteq> Some []"
  shows "loaded \<and> (\<exists>ls. listener_pids host (sw_lsof2 w) = Some ls \<and>
    (js_loaded k \<and> (\<exists>p \<in> set ls. js_pid k \<noteq> Some p) \<or>
     reloaded j l \<and> js_loaded l \<and> js_pid l = js_pid j \<and> js_runs l = js_runs j))"
proof -
  obtain jp where jp: "loaded" "read_job_print (sw_print2 w) = Some jp" "jp_loaded jp"
    "snd (confirm w host True (the_pid (jp_pid jp)) (jp_runs jp) True) = (3, x)"
    using check_warns [OF assms(1)] by blast
  obtain ls after where c: "listener_pids host (sw_lsof2 w) = Some ls" "finding ls (the_pid (jp_pid jp)) \<noteq> None"
    "read_job_print (sw_print3 w) = Some after" "jp_loaded after" "the_pid (jp_pid after) = the_pid (jp_pid jp)"
    "runs_readable (jp_runs jp)" "jp_runs after = jp_runs jp"
    using confirm_warns [OF jp(4)] by blast
  have j: "the_pid (jp_pid jp) = the_pid (js_pid j)" "\<exists>r. jp_runs jp = Some r \<and> py_int r = Some (int (js_runs j))"
    using assms(2) jp(2,3) c(6) by (auto simp: answers_def)
  have l: "js_loaded l" "the_pid (jp_pid after) = the_pid (js_pid l)" "\<exists>r. jp_runs jp = Some r \<and> py_int r = Some (int (js_runs l))"
    using assms(3) c(3,4,6,7) by (auto simp: answers_def)
  have same: "js_pid l = js_pid j" "js_runs l = js_runs j" using the_pid_inj j l(2,3) c(5) assms(6,7) by (metis, auto)
  show ?thesis
  proof (cases "reloaded j l")
    case False
    have h: "js_pid k = js_pid j" "js_loaded k" using job_held [OF assms(4,5) same(2,1) False] l(1) by simp_all
    obtain p where p: "p \<in> set ls" "p \<noteq> the_pid (js_pid j) \<or> the_pid (js_pid j) = []"
      using c(2) j(1) unfolding finding_foreign by auto
    have "js_pid k \<noteq> Some p" using p(2) h assms(6) by (cases "js_pid j") (auto simp: the_pid_def)
    then show ?thesis using jp(1) c(1) p(1) h(2) by blast
  qed (use jp(1) c(1) l(1) same in blast)
qed

definition sample_print :: run_answer where
  "sample_print = Some (0, [CHR 0x09] @ ''pid = 12'' @ [CHR 0x0A] @ '' runs = 3'', [])"

definition sample_lsof :: run_answer where
  "sample_lsof = Some (0, ''p77'' @ [CHR 0x0A] @ ''n*:9000'', [])"

definition sample_squat :: squat_world where
  "sample_squat = \<lparr>sw_lsof1 = sample_lsof, sw_print2 = sample_print, sw_lsof2 = sample_lsof, sw_print3 = sample_print,
     sw_command = (\<lambda>p. None)\<rparr>"

lemma sample_print_read:
  "read_job_print sample_print = Some \<lparr>jp_loaded = True, jp_pid = Some ''12'', jp_runs = Some ''3'', jp_argv = []\<rparr>"
  by (simp add: read_job_print_def read_print_def sample_print_def parse_print_def parse_launchd_pid_def parse_runs_def
      parse_job_argv_def text_lines_def split_on_def split_on_from.simps lstrip_def is_space_def is_digit_def in_range_def)

lemma sample_lsof_read: "listener_pids (Some ''127.0.0.1'') sample_lsof = Some [''77'']"
  by (simp add: listener_pids_def lsof_output_def sample_lsof_def parse_listing_def splitlines_def is_linebreak_def
      flush_pid_def addr_matches_def norm_addr_def before_port_def WILDCARDS_def strip_def lstrip_def is_space_def
      bracket_def lower_def lower_char_def in_range_def)

lemma sample_squat_warned:
  "snd (check sample_squat (Some ''127.0.0.1'') (Some ''12'') True True) = (3, Some (Squatter, [(''77'', ''?'')]))"
  by (simp add: check_def confirm_def calling_def bracket_read_def warn_def finding_def sample_squat_def
      sample_print_read sample_lsof_read the_pid_def runs_readable_def UNKNOWN_def command_name_def lsof_output_def splitlines_def Let_def)

theorem squat_warning_sound_witness:
  "\<exists>ls. listener_pids (Some ''127.0.0.1'') (sw_lsof2 sample_squat) = Some ls \<and> (\<exists>p \<in> set ls. Some ''12'' \<noteq> Some p)"
proof -
  let ?j = "\<lparr>js_loaded = True, js_pid = Some ''12'', js_runs = 3, js_loads = 0\<rparr>"
  have "py_int ''3'' = Some 3"
    by (simp add: py_int_def strip_def lstrip_def is_space_def is_digit_def digit_val_def in_range_def)
  then have a: "answers ?j (sw_print2 sample_squat)" "answers ?j (sw_print3 sample_squat)"
    by (simp_all add: answers_def sample_squat_def sample_print_read)
  show ?thesis using squat_warning_sound [OF sample_squat_warned a, of ?j] by (auto simp: reloaded_def)
qed

text \<open>The exception is real: between two answers that show no pid and one spawn, a job can be unloaded, loaded again,
  started, listen, and exit.\<close>

lemma reload_unseen:
  fixes j :: job
  assumes "js_loaded j" "js_pid j = None" "js_runs j = Suc n"
  shows "\<exists>k l. job_moves\<^sup>*\<^sup>* j k \<and> job_moves\<^sup>*\<^sup>* k l \<and> js_pid k = Some p \<and> js_loaded l \<and> js_pid l = js_pid j \<and> js_runs l = js_runs j"
proof -
  let ?a = "j\<lparr>js_loaded := False, js_pid := None\<rparr>"
  let ?b = "?a\<lparr>js_loaded := True, js_pid := None, js_runs := n, js_loads := Suc (js_loads ?a)\<rparr>"
  let ?k = "?b\<lparr>js_pid := Some p, js_runs := Suc (js_runs ?b)\<rparr>"
  let ?l = "?k\<lparr>js_pid := None\<rparr>"
  have "job_moves j ?a" by (rule job_unloaded)
  moreover have "job_moves ?a ?b" by (rule job_loaded) simp
  moreover have "job_moves ?b ?k" by (rule job_starts) simp_all
  moreover have "job_moves ?k ?l" by (rule job_exits) simp
  ultimately have "job_moves\<^sup>*\<^sup>* j ?k" "job_moves\<^sup>*\<^sup>* ?k ?l"
    by (meson converse_rtranclp_into_rtranclp rtranclp.rtrancl_refl)+
  then show ?thesis using assms by (intro exI [of _ ?k] exI [of _ ?l]) simp
qed

section \<open>How long the check takes\<close>

fun call_bound :: "call \<Rightarrow> nat" where
  "call_bound C_lsof = LSOF_TIMEOUT"
| "call_bound C_sleep = CONFIRM_SLEEP"
| "call_bound C_print = LAUNCHCTL_TIMEOUT"
| "call_bound (C_command p) = LSOF_TIMEOUT"

definition waits_of :: "verdict \<Rightarrow> nat" where
  "waits_of v = sum_list (map call_bound (fst v))"

lemma waits_calling: "waits_of (calling c v) = call_bound c + waits_of v"
  by (simp add: waits_of_def calling_def)

lemma waits_warn: "waits_of (warn w ls pid kind) = length ls * LSOF_TIMEOUT"
  by (induction ls) (simp_all add: waits_of_def warn_def Let_def)

definition second_listeners :: "squat_world \<Rightarrow> string option \<Rightarrow> nat" where
  "second_listeners w host = (case listener_pids host (sw_lsof2 w) of None \<Rightarrow> 0 | Some ls \<Rightarrow> length ls)"

lemma waits_confirm:
  "waits_of (confirm w host label pid runs cur) \<le>
     LSOF_TIMEOUT + (if label then LAUNCHCTL_TIMEOUT else 0) + second_listeners w host * LSOF_TIMEOUT"
proof -
  have z: "waits_of ([], v) = 0" for v by (simp add: waits_of_def)
  show ?thesis
    by (cases "listener_pids host (sw_lsof2 w)"; cases "bracket_read w pid runs")
      (auto simp: confirm_def waits_calling waits_warn z second_listeners_def split: option.split)
qed

text \<open>The check never waits longer than the bound its callers budget for it: the timeouts of all the calls it
  makes and its pause add up to at most \<open>cli_bound\<close> of the number of processes its second listing shows,
  for every state of the machine and every answer.\<close>

theorem squat_check_bounded:
  "waits_of (squat_main w host rc stdin label) \<le> cli_bound (second_listeners w host)"
proof -
  have z: "waits_of ([], v) = 0" for v by (simp add: waits_of_def)
  have k: "waits_of (confirm w host label p r cur) \<le> 20 + second_listeners w host * 10" for p r cur
    using waits_confirm [of w host label p r cur] by (simp add: LSOF_TIMEOUT_def LAUNCHCTL_TIMEOUT_def split: if_splits)
  have c: "waits_of (check w host pid loaded label) \<le> cli_bound (second_listeners w host)" for pid loaded
  proof (cases "read_job_print (sw_print2 w)")
    case None
    then show ?thesis using k [of "the_pid pid" None True] k [of "the_pid pid" None False]
      by (auto simp: check_def waits_calling z cli_bound_def LSOF_TIMEOUT_def LAUNCHCTL_TIMEOUT_def CONFIRM_SLEEP_def Let_def
          split: option.split)
  next
    case (Some job)
    then show ?thesis using k [of "the_pid pid" None True] k [of "the_pid (jp_pid job)" "jp_runs job" True]
      by (auto simp: check_def waits_calling z cli_bound_def LSOF_TIMEOUT_def LAUNCHCTL_TIMEOUT_def CONFIRM_SLEEP_def Let_def
          split: option.split)
  qed
  show ?thesis using c by (auto simp: squat_main_def z split: option.split)
qed

end
