(* ===== verification/Verified_Connect.thy ===== *)
theory Verified_Connect
  imports Squat_Check Admission
begin

text \<open>
  \<open>scripts/_smoke_lib.py\<close>, first half: the failure channel between the launchd harness and its runner, the
  harness's environment, and the one rule for sending a token to an agent: only over a connection whose server
  end was shown, on that same connection, to be the agent's process. The kernel's, \<open>lsof\<close>'s and \<open>launchctl\<close>'s
  answers are inputs; so is the clock, in milliseconds.
\<close>

section \<open>The failure channel\<close>

datatype row_outcome = PASS | FAIL | SKIPPED

type_synonym row = "string \<times> row_outcome \<times> string"

definition LAUNCHD_FAIL_MARK :: string where "LAUNCHD_FAIL_MARK = ''FAIL: launchd check failed: ''"

fun join_words :: "string list \<Rightarrow> string" where
  "join_words [] = []"
| "join_words [w] = w"
| "join_words (w # ws) = w @ '' '' @ join_words ws"

definition failure_text :: "row \<Rightarrow> string" where
  "failure_text r = (case r of (name, oc, detail) \<Rightarrow> name @ '': '' @ join_words (split_ws detail))"

definition launchd_fail_lines :: "row list \<Rightarrow> string list" where
  "launchd_fail_lines rows = map (\<lambda>r. LAUNCHD_FAIL_MARK @ failure_text r) (filter (\<lambda>(_, oc, _). oc = FAIL) rows)"

definition launchd_failures :: "string \<Rightarrow> string list" where
  "launchd_failures stdout =
     map (drop (length LAUNCHD_FAIL_MARK)) (filter (prefix LAUNCHD_FAIL_MARK) (splitlines stdout))"

section \<open>The harness's environment\<close>

definition SAFE_PATH :: string where "SAFE_PATH = ''/usr/bin:/bin:/usr/sbin:/sbin''"

definition HARNESS_KEEP :: "string list" where
  "HARNESS_KEEP = [''HOME'', ''USER'', ''TMPDIR'', ''PIPECAT_STT_LABEL'', ''KODA_STT_LABEL'', ''PIPECAT_STT_LOG_DIR'',
     ''KODA_STT_LOG_DIR'']"

definition harness_env :: "(string \<rightharpoonup> string) \<Rightarrow> string \<rightharpoonup> string" where
  "harness_env base = (\<lambda>k. if k \<in> set HARNESS_KEEP then base k else None)(''PATH'' \<mapsto> SAFE_PATH)"

datatype skip = Needs_Macos | Ci_Is_Set

definition launchd_skip_reason :: "(string \<rightharpoonup> string) \<Rightarrow> string \<Rightarrow> skip option" where
  "launchd_skip_reason env platform =
     (if platform \<noteq> ''darwin'' then Some Needs_Macos
      else if env ''CI'' \<noteq> None then Some Ci_Is_Set else None)"

text \<open>The directories from a socket's parent up to the root: \<open>Inl\<close> is the \<open>SystemExit\<close> at the first that others
  cannot traverse, or the \<open>OSError\<close> of one that has no mode. The path is resolved, the nearest part first.\<close>

fun chain_traversable :: "(string list \<Rightarrow> nat option) \<Rightarrow> string list \<Rightarrow> string list + unit" where
  "chain_traversable mode up =
     (case mode up of
        None \<Rightarrow> Raise up
      | Some m \<Rightarrow> if m mod 2 = 0 then Raise up else (case up of [] \<Rightarrow> Ok () | d # ds \<Rightarrow> chain_traversable mode ds))"

definition assert_chain_traversable :: "(string list \<Rightarrow> nat option) \<Rightarrow> string list \<Rightarrow> string list + unit" where
  "assert_chain_traversable mode sock = chain_traversable mode (tl (rev sock))"

section \<open>Who holds the server end\<close>

datatype endpoint_addr = Unix_At string | Tcp_At string string

text \<open>One connection attempt: whether it connects, the two addresses of the socket, what the kernel says about
  the peer, and one \<open>lsof\<close> answer and clock reading per poll.\<close>

record dial =
  d_connects :: bool
  d_darwin :: bool
  d_peer :: "int option"
  d_local :: "string \<times> int"
  d_remote :: "string \<times> int"
  d_begun :: int
  d_lsof :: "nat \<Rightarrow> run_answer"
  d_clock :: "nat \<Rightarrow> int"

definition SERVER_END_SETTLE :: int where "SERVER_END_SETTLE = 3000"
definition HANDSHAKE_TIMEOUT :: int where "HANDSHAKE_TIMEOUT = 5000"
definition STATUS_LINE_MAX :: nat where "STATUS_LINE_MAX = 4096"

definition unix_peer_pid :: "dial \<Rightarrow> string option" where
  "unix_peer_pid d =
     (if \<not> d_darwin d then None
      else case d_peer d of None \<Rightarrow> None | Some p \<Rightarrow> if 0 < p then Some (show_int p) else None)"

definition lsof_addr :: "string \<times> int \<Rightarrow> string" where
  "lsof_addr a =
     (case a of (host, port) \<Rightarrow>
        if CHR '':'' \<in> set host then ''['' @ host @ '']:'' @ show_int port else host @ '':'' @ show_int port)"

definition end_name :: "dial \<Rightarrow> string" where
  "end_name d = lsof_addr (d_remote d) @ ''->'' @ lsof_addr (d_local d)"

fun end_entries :: "string \<Rightarrow> string \<Rightarrow> string list \<Rightarrow> string list" where
  "end_entries want cur [] = []"
| "end_entries want cur (l # ls) =
     (if prefix ''p'' l then end_entries want (tl l) ls
      else if prefix ''n'' l \<and> tl l = want \<and> cur \<noteq> [] then cur # end_entries want cur ls
      else end_entries want cur ls)"

definition end_pids :: "string \<Rightarrow> string \<Rightarrow> string list" where
  "end_pids want out = sort (remdups (end_entries want [] (splitlines out)))"

text \<open>\<open>None\<close>: the loop never ends; \<open>Some None\<close>: \<open>lsof\<close> cannot tell.\<close>

partial_function (option) poll_server_end :: "dial \<Rightarrow> int \<Rightarrow> nat \<Rightarrow> string list option option" where
  "poll_server_end d deadline n =
     (case lsof_output (d_lsof d n) of
        None \<Rightarrow> Some None
      | Some out \<Rightarrow>
          if end_pids (end_name d) out \<noteq> [] \<or> deadline \<le> d_clock d n
          then Some (Some (end_pids (end_name d) out))
          else poll_server_end d deadline (Suc n))"

definition tcp_server_end_pids :: "dial \<Rightarrow> int \<Rightarrow> string list option option" where
  "tcp_server_end_pids d settle = poll_server_end d (d_begun d + settle) 0"

definition server_end :: "dial \<Rightarrow> endpoint_addr \<Rightarrow> string list option option" where
  "server_end d ep =
     (case ep of
        Unix_At _ \<Rightarrow> Some (map_option (\<lambda>p. [p]) (unix_peer_pid d))
      | Tcp_At _ _ \<Rightarrow> tcp_server_end_pids d SERVER_END_SETTLE)"

section \<open>Verified connections\<close>

text \<open>Why there is no socket: all are an \<open>EndpointRefused\<close> but \<open>Port_Not_Number\<close>, the \<open>ValueError\<close> of \<open>int(port)\<close>, which
  passes the handlers of \<open>OSError\<close> and of \<open>EndpointRefused\<close>.\<close>

datatype end_refusal = No_Identity | Child_Gone | No_Host | Port_Not_Number | Cannot_Connect | Cannot_Identify | Not_Visible
  | Held_By "string list" | Changed

definition endpoint_refused :: "end_refusal \<Rightarrow> bool" where
  "endpoint_refused e \<longleftrightarrow> e \<noteq> Port_Not_Number"

text \<open>What is done to the socket; an exception leaves no socket open.\<close>

datatype sock_op = Sock_Open | Sock_Send string | Sock_Close

type_synonym dialled = "(sock_op list \<times> (end_refusal + unit)) option"

definition dial_up :: "dial \<Rightarrow> endpoint_addr \<Rightarrow> sock_op list \<times> (end_refusal + unit)" where
  "dial_up d ep =
     (case ep of
        Unix_At p \<Rightarrow> if d_connects d then ([Sock_Open], Ok ()) else ([Sock_Open, Sock_Close], Raise Cannot_Connect)
      | Tcp_At host port \<Rightarrow>
          if host = [] then ([], Raise No_Host)
          else if py_int port = None then ([], Raise Port_Not_Number)
          else if d_connects d then ([Sock_Open], Ok ()) else ([], Raise Cannot_Connect))"

definition connect_held_by :: "dial \<Rightarrow> endpoint_addr \<Rightarrow> string \<Rightarrow> bool \<Rightarrow> dialled" where
  "connect_held_by d ep pid still_same =
     (case dial_up d ep of
        (ops, Inl e) \<Rightarrow> Some (ops, Raise e)
      | (ops, Inr _) \<Rightarrow>
          (case server_end d ep of
             None \<Rightarrow> None
           | Some owners \<Rightarrow>
               (let refuse = (\<lambda>e. Some (ops @ [Sock_Close], Raise e))
                in case owners of
                     None \<Rightarrow> refuse Cannot_Identify
                   | Some ps \<Rightarrow>
                       if ps = [] then refuse Not_Visible
                       else if ps \<noteq> [pid] then refuse (Held_By ps)
                       else if \<not> still_same then refuse Changed
                       else Some (ops, Ok ()))))"

type_synonym identity = "string option \<times> string option"

definition launchd_identity :: "run_answer \<Rightarrow> (bool \<times> identity) option" where
  "launchd_identity a = map_option (\<lambda>j. (jp_loaded j, jp_pid j, jp_runs j)) (read_job_print a)"

definition launchd_pid_runs :: "run_answer \<Rightarrow> identity option" where
  "launchd_pid_runs a =
     (case launchd_identity a of Some (loaded, i) \<Rightarrow> if loaded then Some i else None | None \<Rightarrow> None)"

definition readable_identity :: "identity \<Rightarrow> bool" where
  "readable_identity i \<longleftrightarrow> the_pid (fst i) \<noteq> [] \<and> runs_readable (snd i)"

text \<open>True: the fresh reading gives the identity again.\<close>

definition confirm_identity_unchanged :: "identity option \<Rightarrow> identity \<Rightarrow> bool" where
  "confirm_identity_unchanged now i \<longleftrightarrow> readable_identity i \<and> now = Some i"

definition connect_verified :: "dial \<Rightarrow> endpoint_addr \<Rightarrow> identity \<Rightarrow> identity option \<Rightarrow> dialled" where
  "connect_verified d ep i now =
     (if \<not> readable_identity i then Some ([], Raise No_Identity)
      else connect_held_by d ep (the_pid (fst i)) (confirm_identity_unchanged now i))"

text \<open>For a child of the caller's own: \<open>alive\<close> and \<open>still\<close> are the two polls.\<close>

definition connect_verified_child :: "dial \<Rightarrow> endpoint_addr \<Rightarrow> int \<Rightarrow> bool \<Rightarrow> bool \<Rightarrow> dialled" where
  "connect_verified_child d ep child alive still =
     (if \<not> alive then Some ([], Raise Child_Gone) else connect_held_by d ep (show_int child) still)"

section \<open>The handshake\<close>

abbreviation CRLF :: string where "CRLF \<equiv> [CHR 0x0D, CHR 0x0A]"

text \<open>What the peer does with a request: when it is taken (\<open>None\<close>: the send fails), then what arrives and when;
  the end of the list is the end of the stream.\<close>

record reply =
  r_sent :: "int option"
  r_arrivals :: "(int \<times> string) list"

type_synonym peer = "string \<Rightarrow> reply"

datatype handshake = Status int | No_Status_Line | Too_Long | Timed_Out | Io_Error | Value_Error

definition request_lines :: "string \<Rightarrow> string option \<Rightarrow> string list" where
  "request_lines key token =
     [''GET / HTTP/1.1'', ''Host: localhost'', ''Upgrade: websocket'', ''Connection: Upgrade'',
      ''Sec-WebSocket-Key: '' @ key, ''Sec-WebSocket-Version: 13'']
     @ (case token of Some (c # cs) \<Rightarrow> [''Authorization: Bearer '' @ c # cs] | _ \<Rightarrow> [])"

definition request_text :: "string \<Rightarrow> string option \<Rightarrow> string" where
  "request_text key token = concat (map (\<lambda>l. l @ CRLF) (request_lines key token)) @ CRLF"

definition is_ascii :: "string \<Rightarrow> bool" where
  "is_ascii s = list_all (\<lambda>c. (of_char c :: nat) < 128) s"

text \<open>The reading loop: the bytes read so far, the time. One deadline, a limit on the bytes.\<close>

function read_status :: "int \<Rightarrow> int \<Rightarrow> string \<Rightarrow> (int \<times> string) list \<Rightarrow> (handshake + string) \<times> int \<times> nat" where
  "read_status deadline now buf arrivals =
     (if sublist CRLF buf then (Ok buf, now, length buf)
      else if STATUS_LINE_MAX \<le> length buf then (Raise Too_Long, now, length buf)
      else if deadline \<le> now then (Raise Timed_Out, now, length buf)
      else case arrivals of
        [] \<Rightarrow> (Ok buf, now, length buf)
      | (t, seg) # later \<Rightarrow>
          if deadline \<le> t then (Raise Timed_Out, deadline, length buf)
          else
            let n = min 1024 (STATUS_LINE_MAX - length buf); chunk = take n seg; left = drop n seg
            in if chunk = [] then (Ok buf, max now t, length buf)
               else read_status deadline (max now t) (buf @ chunk) (if left = [] then later else (t, left) # later))"
  by pat_completeness auto
termination
proof (relation "measure (\<lambda>(deadline, now, buf, arrivals). STATUS_LINE_MAX - length buf)", goal_cases)
  case (2 deadline now buf arrivals p later t seg n chunk left)
  then have "0 < min (length seg) (min 1024 (STATUS_LINE_MAX - length buf))" "length buf < STATUS_LINE_MAX" by auto
  then have "STATUS_LINE_MAX - (length buf + min (length seg) (min 1024 (STATUS_LINE_MAX - length buf))) < STATUS_LINE_MAX - length buf"
    by linarith
  then show ?case using 2 by simp
qed simp

declare read_status.simps [simp del]

text \<open>\<open>str.isdigit\<close> for code points 0..255: also the superscripts, which \<open>int\<close> rejects.\<close>

definition is_digit_char :: "char \<Rightarrow> bool" where
  "is_digit_char c \<longleftrightarrow> is_digit c \<or> (of_char c :: nat) \<in> {178, 179, 185}"

definition parse_status :: "string \<Rightarrow> handshake" where
  "parse_status buf =
     (case split_ws (hd (split_on CRLF buf)) of
        proto # code # _ \<Rightarrow>
          if \<not> prefix ''HTTP/'' proto \<or> \<not> list_all is_digit_char code then No_Status_Line
          else (case py_int code of None \<Rightarrow> Value_Error | Some n \<Rightarrow> Status n)
      | _ \<Rightarrow> No_Status_Line)"

text \<open>A connected socket, or an address to connect to (\<open>None\<close>: it refuses).\<close>

datatype via = Over_Sock peer | At_Address "peer option" | No_Address

definition exchange :: "peer \<Rightarrow> string \<Rightarrow> string option \<Rightarrow> sock_op list \<times> handshake" where
  "exchange peer key token =
     (if \<not> is_ascii (case token of Some t \<Rightarrow> t | None \<Rightarrow> []) then ([Sock_Close], Value_Error)
      else let r = peer (request_text key token) in
        ([Sock_Send (request_text key token), Sock_Close],
         (case r_sent r of
            None \<Rightarrow> Io_Error
          | Some t \<Rightarrow>
              if HANDSHAKE_TIMEOUT \<le> t then Timed_Out
              else case fst (read_status HANDSHAKE_TIMEOUT t [] (r_arrivals r)) of
                Inl e \<Rightarrow> e
              | Inr buf \<Rightarrow> parse_status buf)))"

definition ws_handshake_status :: "via \<Rightarrow> string \<Rightarrow> string option \<Rightarrow> sock_op list \<times> handshake" where
  "ws_handshake_status v key token =
     (case v of
        Over_Sock peer \<Rightarrow> exchange peer key token
      | At_Address p \<Rightarrow>
          if token \<noteq> None then ([], Value_Error)
          else (case p of None \<Rightarrow> ([], Io_Error) | Some peer \<Rightarrow> exchange peer key token)
      | No_Address \<Rightarrow> ([], Value_Error))"

section \<open>The token gate\<close>

datatype gate = Gate_Ok | No_Token | Answered nat handshake | Not_Connected end_refusal

text \<open>\<open>connect\<close>: what each of the three calls gives. The requests sent, in order, and the verdict.\<close>

fun gate_steps :: "nat \<Rightarrow> (string option \<times> int) list \<Rightarrow> (nat \<Rightarrow> end_refusal + peer) \<Rightarrow> (nat \<Rightarrow> string) \<Rightarrow> sock_op list \<times> gate" where
  "gate_steps n [] connect key = ([], Gate_Ok)"
| "gate_steps n ((token, want) # steps) connect key =
     (case connect n of
        Inl e \<Rightarrow> ([], Not_Connected e)
      | Inr peer \<Rightarrow>
          let (ops, got) = ws_handshake_status (Over_Sock peer) (key n) token
          in if got \<noteq> Status want then (ops, Answered n got)
             else let (more_ops, verdict) = gate_steps (Suc n) steps connect key in (ops @ more_ops, verdict))"

definition gate_plan :: "string \<Rightarrow> (string option \<times> int) list" where
  "gate_plan token = [(None, 401), (Some (token @ ''x''), 401), (Some token, 101)]"

definition assert_token_gate :: "string \<Rightarrow> (nat \<Rightarrow> end_refusal + peer) \<Rightarrow> (nat \<Rightarrow> string) \<Rightarrow> sock_op list \<times> gate" where
  "assert_token_gate file connect key =
     (if strip file = [] then ([], No_Token) else gate_steps 0 (gate_plan (strip file)) connect key)"

section \<open>The failure channel reads back\<close>

definition unbroken :: "string \<Rightarrow> bool" where
  "unbroken s \<longleftrightarrow> list_all (\<lambda>c. \<not> is_linebreak c) s"

abbreviation LF :: char where "LF \<equiv> CHR 0x0A"

definition printed :: "string list \<Rightarrow> string" where
  "printed ls = concat (map (\<lambda>l. l @ [LF]) ls)"

lemma linebreak_is_space: "is_linebreak c \<Longrightarrow> is_space c"
  by (auto simp: is_linebreak_def is_space_def Let_def)

lemma lines_from_line: "unbroken l \<Longrightarrow> lines_from False cur (l @ LF # s) = (cur @ l) # lines_from False [] s"
  by (induction l arbitrary: cur) (auto simp: unbroken_def is_linebreak_def)

lemma splitlines_printed: "list_all unbroken ls \<Longrightarrow> splitlines (printed ls) = ls"
  by (induction ls) (simp_all add: splitlines_def printed_def lines_from_line)

lemma join_words_in: "c \<in> set (join_words ws) \<Longrightarrow> c = CHR '' '' \<or> (\<exists>w \<in> set ws. c \<in> set w)"
  by (induction ws rule: join_words.induct) auto

lemma join_words_unbroken: "unbroken (join_words (split_ws d))"
proof -
  have "\<not> is_linebreak c" if "c \<in> set (join_words (split_ws d))" for c
    using join_words_in [OF that] split_ws_tokens [of _ d] linebreak_is_space [of c]
    by (auto simp: is_linebreak_def)
  then show ?thesis by (simp add: unbroken_def list_all_iff)
qed

lemma unbroken_append [simp]: "unbroken (a @ b) \<longleftrightarrow> unbroken a \<and> unbroken b"
  by (simp add: unbroken_def)

lemma unbroken_consts [simp]: "unbroken '': ''" "unbroken LAUNCHD_FAIL_MARK"
  by (simp_all add: unbroken_def is_linebreak_def LAUNCHD_FAIL_MARK_def)

lemma failure_text_unbroken: "unbroken (fst r) \<Longrightarrow> unbroken (failure_text r)"
  using unbroken_append unbroken_consts(1) join_words_unbroken by (auto simp: failure_text_def split: prod.splits simp del: append.simps)

text \<open>What the runner reads from the harness's output is exactly its failing checks, in order: whatever the
  details of the rows contain (line breaks, the mark itself), and whatever unmarked lines are printed before,
  no failure is lost, split or made up.\<close>

theorem failures_round_trip:
  assumes "\<forall>r \<in> set rows. unbroken (fst r)"
    and "\<forall>l \<in> set other. unbroken l \<and> \<not> prefix LAUNCHD_FAIL_MARK l"
  shows "launchd_failures (printed (other @ launchd_fail_lines rows)) =
    map failure_text (filter (\<lambda>(_, oc, _). oc = FAIL) rows)"
proof -
  have "list_all unbroken (other @ launchd_fail_lines rows)"
    using assms by (fastforce simp: list_all_iff launchd_fail_lines_def intro!: failure_text_unbroken)
  moreover have "filter (prefix LAUNCHD_FAIL_MARK) other = []" using assms(2) by (simp add: filter_empty_conv)
  moreover have "filter (prefix LAUNCHD_FAIL_MARK) (launchd_fail_lines rows) = launchd_fail_lines rows"
    by (simp add: launchd_fail_lines_def filter_map comp_def)
  ultimately show ?thesis by (simp add: launchd_failures_def splitlines_printed launchd_fail_lines_def comp_def)
qed

definition sample_rows :: "row list" where
  "sample_rows = [(''guard'', PASS, ''ok''), (''token'', FAIL, ''no'' @ [LF] @ ''FAIL: launchd check failed: x'')]"

theorem failures_round_trip_witness:
  "launchd_failures (printed ([''done''] @ launchd_fail_lines sample_rows)) = map failure_text [sample_rows ! 1]"
proof -
  have "\<forall>r \<in> set sample_rows. unbroken (fst r)" "\<forall>l \<in> set [''done'']. unbroken l \<and> \<not> prefix LAUNCHD_FAIL_MARK l"
    by (simp_all add: sample_rows_def unbroken_def is_linebreak_def LAUNCHD_FAIL_MARK_def)
  from failures_round_trip [OF this] show ?thesis by (simp add: sample_rows_def)
qed

section \<open>Who gets the token\<close>

text \<open>No branch sends anything, and every end_refusal leaves no socket open.\<close>

lemma dial_up_ops: "dial_up d ep = (ops, r) \<Longrightarrow> ops \<in> {[], [Sock_Open], [Sock_Open, Sock_Close]} \<and> (r = Ok () \<longrightarrow> ops = [Sock_Open])"
  by (auto simp: dial_up_def split: endpoint_addr.splits if_splits)

lemma connect_held_by_Ok:
  "connect_held_by d ep pid still = Some (ops, Ok u) \<longleftrightarrow>
     dial_up d ep = ([Sock_Open], Ok ()) \<and> ops = [Sock_Open] \<and> server_end d ep = Some (Some [pid]) \<and> still"
proof -
  obtain o1 r where d: "dial_up d ep = (o1, r)" by (cases "dial_up d ep")
  have o: "r = Ok () \<Longrightarrow> o1 = [Sock_Open]" using dial_up_ops [OF d] by blast
  show ?thesis
  proof (cases "r = Ok ()")
    case True
    then show ?thesis using d o
      by (cases "server_end d ep"; cases "the (server_end d ep)") (auto simp: connect_held_by_def Let_def)
  next
    case False
    then obtain e where "r = Raise e" by (cases r) auto
    then show ?thesis using d by (auto simp: connect_held_by_def)
  qed
qed

lemma connect_verified_Ok:
  "connect_verified d ep i now = Some (ops, Ok u) \<longleftrightarrow>
     readable_identity i \<and> dial_up d ep = ([Sock_Open], Ok ()) \<and> ops = [Sock_Open] \<and>
     server_end d ep = Some (Some [the_pid (fst i)]) \<and> now = Some i"
  by (auto simp: connect_verified_def connect_held_by_Ok confirm_identity_unchanged_def)

text \<open>The job is loaded and runs as \<open>p\<close>, with the spawn count it had at \<open>j\<close>.\<close>

definition same_run :: "job \<Rightarrow> job \<Rightarrow> string \<Rightarrow> bool" where
  "same_run k j p \<longleftrightarrow> js_loaded k \<and> js_pid k = Some p \<and> js_runs k = js_runs j"

lemma identity_read:
  assumes "launchd_pid_runs a = Some i" "readable_identity i" "answers j a" "js_pid j \<noteq> Some []"
  shows "js_loaded j \<and> js_pid j = Some (the_pid (fst i)) \<and> (\<exists>r. snd i = Some r \<and> py_int r = Some (int (js_runs j)))"
proof -
  obtain jp where jp: "read_job_print a = Some jp" "jp_loaded jp" "i = (jp_pid jp, jp_runs jp)"
    using assms(1) by (auto simp: launchd_pid_runs_def launchd_identity_def split: option.splits if_splits)
  have "js_loaded j" "the_pid (fst i) = the_pid (js_pid j)" "\<exists>r. snd i = Some r \<and> py_int r = Some (int (js_runs j))"
    using assms(2,3) jp by (auto simp: answers_def readable_identity_def)
  moreover have "js_pid j = Some (the_pid (js_pid j))"
    using assms(2) calculation(2) by (cases "js_pid j") (auto simp: readable_identity_def the_pid_def)
  ultimately show ?thesis by simp
qed

lemma identity_held:
  assumes "launchd_pid_runs a = Some i" "launchd_pid_runs b = Some i" "readable_identity i" "answers j a" "answers l b"
    "js_pid j \<noteq> Some []" "js_pid l \<noteq> Some []" "job_moves\<^sup>*\<^sup>* j k" "job_moves\<^sup>*\<^sup>* k l"
  shows "same_run k j (the_pid (fst i)) \<or> reloaded j l \<and> same_run l j (the_pid (fst i))"
proof -
  note j = identity_read [OF assms(1,3,4,6)] and l = identity_read [OF assms(2,3,5,7)]
  have s: "js_runs l = js_runs j" "js_pid l = js_pid j" using j l by auto
  show ?thesis
  proof (cases "reloaded j l")
    case False
    then show ?thesis using job_held [OF assms(8,9) s False] j l by (simp add: same_run_def)
  qed (use s j l in \<open>simp add: same_run_def\<close>)
qed

text \<open>C27: the rule for sending a token. If \<open>connect_verified\<close>, given the identity the caller read, hands out a socket,
  then nothing was sent on it, and the one process at its server end is the one the kernel or \<open>lsof\<close> named for this
  very connection. The job may do anything meanwhile: start, exit, be unloaded and loaded again. At the moment of
  that observation (\<open>k\<close>, between the caller's reading at \<open>j\<close> and the second one at \<open>l\<close>) that process was the
  running job's own; and when the closing check at \<open>n\<close> passes, the job had not been restarted or unloaded at any moment
  \<open>m\<close> from the first reading to it. The one exception, which pids and counters cannot show: the label was loaded
  anew between the two readings and its new load came to the very same pid and spawn count.\<close>

theorem verified_end_is_the_job:
  assumes "connect_verified d ep i (launchd_pid_runs b) = Some (ops, Ok u)"
    and "launchd_pid_runs a = Some i" "answers j a" "answers l b" "answers n c"
    and "js_pid j \<noteq> Some []" "js_pid l \<noteq> Some []" "js_pid n \<noteq> Some []"
    and "job_moves\<^sup>*\<^sup>* j k" "job_moves\<^sup>*\<^sup>* k l" "job_moves\<^sup>*\<^sup>* l m" "job_moves\<^sup>*\<^sup>* m n"
  shows "ops = [Sock_Open] \<and>
    (\<exists>p. server_end d ep = Some (Some [p]) \<and> (same_run k j p \<or> reloaded j l \<and> same_run l j p) \<and>
       (confirm_identity_unchanged (launchd_pid_runs c) i \<longrightarrow> same_run m j p \<or> reloaded j n \<and> same_run n j p))"
proof -
  have o: "readable_identity i" "ops = [Sock_Open]" "server_end d ep = Some (Some [the_pid (fst i)])"
    "launchd_pid_runs b = Some i"
    using assms(1) by (simp_all add: connect_verified_Ok)
  note k = identity_held [OF assms(2) o(4,1) assms(3,4,6,7,9,10)]
  have "same_run m j (the_pid (fst i)) \<or> reloaded j n \<and> same_run n j (the_pid (fst i))"
    if "confirm_identity_unchanged (launchd_pid_runs c) i"
  proof -
    have c: "launchd_pid_runs c = Some i" using that by (simp add: confirm_identity_unchanged_def)
    have "job_moves\<^sup>*\<^sup>* j m" using assms(9,10,11) by (meson rtranclp_trans)
    from identity_held [OF assms(2) c o(1) assms(3,5,6,8) this assms(12)] show ?thesis .
  qed
  then show ?thesis using o k by blast
qed

definition sample_dial :: dial where
  "sample_dial = \<lparr>d_connects = True, d_darwin = True, d_peer = Some 12, d_local = ([], 0), d_remote = ([], 0),
     d_begun = 0, d_lsof = (\<lambda>n. None), d_clock = (\<lambda>n. 0)\<rparr>"

lemma sample_identity: "launchd_pid_runs sample_print = Some (Some ''12'', Some ''3'')"
  by (simp add: launchd_pid_runs_def launchd_identity_def sample_print_read)

lemma show_twelve: "show_int 12 = ''12''" by code_simp

lemma sample_connected:
  "connect_verified sample_dial (Unix_At ''/s'') (Some ''12'', Some ''3'') (launchd_pid_runs sample_print) = Some ([Sock_Open], Ok ())"
  by (simp add: connect_verified_Ok sample_identity sample_dial_def dial_up_def server_end_def unix_peer_pid_def
      readable_identity_def the_pid_def runs_readable_def UNKNOWN_def show_twelve)

theorem verified_end_is_the_job_witness:
  "\<exists>p. server_end sample_dial (Unix_At ''/s'') = Some (Some [p]) \<and> Some ''12'' = Some p"
proof -
  let ?j = "\<lparr>js_loaded = True, js_pid = Some ''12'', js_runs = 3, js_loads = 0\<rparr>"
  have "py_int ''3'' = Some 3"
    by (simp add: py_int_def strip_def lstrip_def is_space_def is_digit_def digit_val_def in_range_def)
  then have a: "answers ?j sample_print" by (simp add: answers_def sample_print_read)
  show ?thesis
    using verified_end_is_the_job [OF sample_connected sample_identity a a a, of ?j ?j] by (auto simp: same_run_def reloaded_def)
qed

section \<open>The waits end\<close>

definition poll_settled :: "dial \<Rightarrow> int \<Rightarrow> nat \<Rightarrow> bool" where
  "poll_settled d deadline n \<longleftrightarrow>
     (case lsof_output (d_lsof d n) of
        None \<Rightarrow> True | Some out \<Rightarrow> end_pids (end_name d) out \<noteq> [] \<or> deadline \<le> d_clock d n)"

definition poll_answer :: "dial \<Rightarrow> nat \<Rightarrow> string list option" where
  "poll_answer d n = map_option (end_pids (end_name d)) (lsof_output (d_lsof d n))"

lemma poll_unfold:
  "poll_server_end d deadline n =
     (if poll_settled d deadline n then Some (poll_answer d n) else poll_server_end d deadline (Suc n))"
  by (subst poll_server_end.simps) (auto simp: poll_settled_def poll_answer_def split: option.splits)

lemma poll_until: "\<forall>m < n. k \<le> m \<longrightarrow> \<not> poll_settled d deadline m \<Longrightarrow> k \<le> n \<Longrightarrow> poll_settled d deadline n \<Longrightarrow>
  poll_server_end d deadline k = Some (poll_answer d n)"
proof (induction "n - k" arbitrary: k)
  case 0
  then show ?case by (simp add: poll_unfold)
next
  case (Suc i)
  then have "\<not> poll_settled d deadline k" "poll_server_end d deadline (Suc k) = Some (poll_answer d n)" by auto
  then show ?case by (simp add: poll_unfold [of d deadline k])
qed

lemma clock_pace: "\<forall>n. d_clock d n + 100 \<le> d_clock d (Suc n) \<Longrightarrow> d_clock d 0 + 100 * int n \<le> d_clock d n"
proof (induction n)
  case (Suc n)
  then have "d_clock d n + 100 \<le> d_clock d (Suc n)" "d_clock d 0 + 100 * int n \<le> d_clock d n" by blast+
  then show ?case by simp
qed simp

text \<open>Looking for the server end of a connection always ends. When every poll takes at least the pause of a
  tenth of a second, it makes at most one poll per tenth of the settling time and two more, and its answer is that
  of its last poll, all earlier ones having been readable and empty.\<close>

theorem server_end_poll_ends:
  assumes "d_begun d \<le> d_clock d 0" "\<forall>n. d_clock d n + 100 \<le> d_clock d (Suc n)" "0 \<le> settle"
  shows "\<exists>n \<le> nat settle div 100 + 1. tcp_server_end_pids d settle = Some (poll_answer d n) \<and>
    (\<forall>m < n. poll_answer d m = Some [])"
proof -
  let ?D = "d_begun d + settle" and ?N = "nat settle div 100 + 1"
  have "nat settle \<le> 100 * ?N" using dividend_less_div_times [of 100 "nat settle"] by simp
  then have "settle \<le> 100 * int ?N" by linarith
  then have "?D \<le> d_clock d ?N" using clock_pace [OF assms(2), of ?N] assms(1) by linarith
  then have N: "poll_settled d ?D ?N" by (auto simp: poll_settled_def split: option.split)
  then obtain n where n: "poll_settled d ?D n" "n \<le> ?N" "\<forall>m < n. \<not> poll_settled d ?D m"
    using ex_least_nat_le [of "poll_settled d ?D" ?N] by blast
  have "tcp_server_end_pids d settle = Some (poll_answer d n)"
    unfolding tcp_server_end_pids_def by (rule poll_until) (use n in simp_all)
  moreover have "poll_answer d m = Some []" if "m < n" for m
    using n(3) that by (cases "lsof_output (d_lsof d m)") (auto simp: poll_settled_def poll_answer_def)
  ultimately show ?thesis using n(2) by blast
qed

definition late_dial :: dial where
  "late_dial = sample_dial\<lparr>d_local := (''127.0.0.1'', 5), d_remote := (''127.0.0.1'', 9), d_clock := (\<lambda>n. 100 * int n),
     d_lsof := (\<lambda>n. if n < 2 then Some (1, [], []) else Some (0, ''p12'' @ [LF] @ ''n127.0.0.1:9->127.0.0.1:5'', []))\<rparr>"

theorem server_end_poll_ends_witness:
  "\<exists>n \<le> nat 3000 div 100 + 1. tcp_server_end_pids late_dial 3000 = Some (poll_answer late_dial n) \<and>
    (\<forall>m < n. poll_answer late_dial m = Some [])"
  by (rule server_end_poll_ends) (simp_all add: late_dial_def sample_dial_def)

text \<open>The reading loop of the handshake: neither a peer that sends for ever nor one that trickles bytes gets past
  the one deadline or the limit.\<close>

lemma read_status_more:
  assumes "\<not> sublist CRLF buf" "\<not> STATUS_LINE_MAX \<le> length buf" "\<not> deadline \<le> now" "\<not> deadline \<le> t"
    and "take (min 1024 (STATUS_LINE_MAX - length buf)) seg \<noteq> []"
  shows "read_status deadline now buf ((t, seg) # later) =
    read_status deadline (max now t) (buf @ take (min 1024 (STATUS_LINE_MAX - length buf)) seg)
      (if drop (min 1024 (STATUS_LINE_MAX - length buf)) seg = [] then later
       else (t, drop (min 1024 (STATUS_LINE_MAX - length buf)) seg) # later)"
  by (subst read_status.simps) (simp only: Let_def list.case prod.case if_False assms)

lemma read_status_bounded:
  "read_status deadline now buf arrivals = (r, t, n) \<Longrightarrow>
     n \<le> max STATUS_LINE_MAX (length buf) \<and> t \<le> max now deadline \<and> (\<forall>s. r = Ok s \<longrightarrow> t = now \<or> t < deadline)"
proof (induction deadline now buf arrivals rule: read_status.induct)
  case (1 deadline now buf arrivals)
  show ?case
  proof (cases "sublist CRLF buf \<or> STATUS_LINE_MAX \<le> length buf \<or> deadline \<le> now")
    case True
    then show ?thesis using "1.prems" by (subst (asm) read_status.simps) (auto split: if_splits)
  next
    case go: False
    show ?thesis
    proof (cases arrivals)
      case Nil
      then show ?thesis using "1.prems" go by (subst (asm) read_status.simps) auto
    next
      case (Cons a later)
      obtain arr seg where a: "a = (arr, seg)" by (cases a)
      let ?n = "min 1024 (STATUS_LINE_MAX - length buf)"
      show ?thesis
      proof (cases "deadline \<le> arr \<or> take ?n seg = []")
        case True
        then show ?thesis using "1.prems" go Cons a by (subst (asm) read_status.simps) (auto split: if_splits)
      next
        case False
        have p: "read_status deadline (max now arr) (buf @ take ?n seg)
            (if drop ?n seg = [] then later else (arr, drop ?n seg) # later) = (r, t, n)"
          using "1.prems" read_status_more [of buf deadline now arr seg later] go False Cons a by simp
        have "n \<le> max STATUS_LINE_MAX (length (buf @ take ?n seg)) \<and> t \<le> max (max now arr) deadline \<and>
            (\<forall>s. r = Ok s \<longrightarrow> t = max now arr \<or> t < deadline)"
          using "1.IH" [OF _ _ _ Cons a [symmetric] _ refl refl refl _ p] go False by blast
        moreover have "length (buf @ take ?n seg) \<le> STATUS_LINE_MAX" using go by auto
        ultimately show ?thesis using go False by auto
      qed
    qed
  qed
qed

section \<open>The gate against the server\<close>

text \<open>The status line a server answers with, in one segment; the HTTP library's words for the few statuses.\<close>

definition status_reply :: "nat \<Rightarrow> reply" where
  "status_reply k = \<lparr>r_sent = Some 1, r_arrivals = [(2, ''HTTP/1.1 '' @ show_nat k @ '' reason'' @ CRLF)]\<rparr>"

definition admission_status :: "admission \<Rightarrow> nat" where
  "admission_status a = (case a of Admit \<Rightarrow> 101 | Respond k _ \<Rightarrow> k | Check_Raises \<Rightarrow> 500)"

lemma status_read:
  "k \<in> {101, 401, 403, 500} \<Longrightarrow>
     (case fst (read_status HANDSHAKE_TIMEOUT 1 [] (r_arrivals (status_reply k))) of Inl e \<Rightarrow> e | Inr buf \<Rightarrow> parse_status buf)
       = Status (int k)"
proof -
  have "(case fst (read_status HANDSHAKE_TIMEOUT 1 [] (r_arrivals (status_reply 101))) of Inl e \<Rightarrow> e | Inr buf \<Rightarrow> parse_status buf) = Status 101"
    "(case fst (read_status HANDSHAKE_TIMEOUT 1 [] (r_arrivals (status_reply 401))) of Inl e \<Rightarrow> e | Inr buf \<Rightarrow> parse_status buf) = Status 401"
    "(case fst (read_status HANDSHAKE_TIMEOUT 1 [] (r_arrivals (status_reply 403))) of Inl e \<Rightarrow> e | Inr buf \<Rightarrow> parse_status buf) = Status 403"
    "(case fst (read_status HANDSHAKE_TIMEOUT 1 [] (r_arrivals (status_reply 500))) of Inl e \<Rightarrow> e | Inr buf \<Rightarrow> parse_status buf) = Status 500"
    by code_simp+
  then show "k \<in> {101, 401, 403, 500} \<Longrightarrow> ?thesis" by auto
qed

text \<open>A request as the handshake library hands it to the server's check: the headers the gate wrote.\<close>

definition carries :: "request \<Rightarrow> string option \<Rightarrow> bool" where
  "carries r token \<longleftrightarrow>
     req_header r ''Origin'' = Absent \<and>
     req_header r ''Authorization'' = (case token of None \<Rightarrow> Absent | Some t \<Rightarrow> Header (''Bearer '' @ t))"

lemma server_status:
  assumes "carries r token" "cfg_socket_path c = None"
  shows "admission_status (process_request platform euid c r) =
    (case cfg_auth_token c of
       None \<Rightarrow> 101 | Some t \<Rightarrow> if t = [] \<or> token = Some t then 101 else 401)"
  using assms
  by (cases token; cases "cfg_auth_token c")
    (auto simp: process_request_def check_headers_def carries_def admission_status_def utf8_inj)

definition server_peer :: "string \<Rightarrow> int \<Rightarrow> server_config \<Rightarrow> (string \<Rightarrow> request) \<Rightarrow> peer" where
  "server_peer platform euid c parse = (\<lambda>req. status_reply (admission_status (process_request platform euid c (parse req))))"

lemma server_answers:
  assumes "carries (parse (request_text key token)) token" "cfg_socket_path c = None"
    and "is_ascii (case token of Some t \<Rightarrow> t | None \<Rightarrow> [])"
  shows "snd (ws_handshake_status (Over_Sock (server_peer platform euid c parse)) key token) =
    Status (case cfg_auth_token c of None \<Rightarrow> 101 | Some t \<Rightarrow> if t = [] \<or> token = Some t then 101 else 401)"
proof -
  let ?k = "admission_status (process_request platform euid c (parse (request_text key token)))"
  have k: "?k = (case cfg_auth_token c of None \<Rightarrow> 101 | Some t \<Rightarrow> if t = [] \<or> token = Some t then 101 else 401)"
    by (rule server_status [OF assms(1,2)])
  have "?k \<in> {101, 401, 403, 500}" unfolding k by (simp split: option.split)
  from status_read [OF this] have "snd (ws_handshake_status (Over_Sock (server_peer platform euid c parse)) key token) = Status (int ?k)"
    using assms(3) by (simp add: ws_handshake_status_def exchange_def server_peer_def Let_def)
      (simp add: status_reply_def HANDSHAKE_TIMEOUT_def)
  then show ?thesis unfolding k by (simp split: option.split)
qed

lemma gate_steps_Ok:
  "snd (gate_steps n steps connect key) = Gate_Ok \<longleftrightarrow>
     (\<forall>i < length steps. \<exists>peer. connect (n + i) = Ok peer \<and>
        snd (ws_handshake_status (Over_Sock peer) (key (n + i)) (fst (steps ! i))) = Status (snd (steps ! i)))"
proof (induction n steps connect key rule: gate_steps.induct)
  case (2 n token want steps connect key)
  show ?case
  proof (cases "connect n")
    case (Inr peer)
    then show ?thesis using "2.IH" [OF Inr surjective_pairing [symmetric]]
      by (auto simp: All_less_Suc2 split: prod.split)
  qed (auto simp: All_less_Suc2)
qed simp

text \<open>C28: the gate passes exactly the servers it is meant to pass. Against a server of this program on a TCP
  endpoint, the three requests (no token, a wrong one, the one of the file) succeed as required if and only if the
  server was configured with the very token the file holds: a server without a token, with another one, or
  with an empty one fails the gate.\<close>

theorem gate_iff_server_has_token:
  assumes "strip file \<noteq> []" "is_ascii (strip file)" "cfg_socket_path c = None"
    and "\<forall>n < 3. connect n = Ok (server_peer platform euid c parse)"
    and "\<forall>n < 3. carries (parse (request_text (key n) (fst (gate_plan (strip file) ! n)))) (fst (gate_plan (strip file) ! n))"
  shows "snd (assert_token_gate file connect key) = Gate_Ok \<longleftrightarrow> cfg_auth_token c = Some (strip file)"
proof -
  let ?t = "strip file"
  define want where "want = (\<lambda>token. case cfg_auth_token c of None \<Rightarrow> 101 | Some t \<Rightarrow> if t = [] \<or> token = Some t then 101 else (401::int))"
  have a: "snd (ws_handshake_status (Over_Sock (server_peer platform euid c parse)) (key i) (fst (gate_plan ?t ! i))) =
      Status (want (fst (gate_plan ?t ! i)))" if "i < 3" for i
  unfolding want_def
  proof (rule server_answers)
    have "i = 0 \<or> i = 1 \<or> i = 2" using that by auto
    then show "is_ascii (case fst (gate_plan ?t ! i) of Some t \<Rightarrow> t | None \<Rightarrow> [])"
      using assms(2) by (auto simp: gate_plan_def is_ascii_def)
  qed (use assms(3,5) that in auto)
  have len: "length (gate_plan ?t) = 3" by (simp add: gate_plan_def)
  have "snd (assert_token_gate file connect key) = Gate_Ok \<longleftrightarrow>
      (\<forall>i < 3. want (fst (gate_plan ?t ! i)) = snd (gate_plan ?t ! i))"
    using assms(1,4) a by (simp add: assert_token_gate_def gate_steps_Ok len)
  also have "\<dots> \<longleftrightarrow> want None = 401 \<and> want (Some (?t @ ''x'')) = 401 \<and> want (Some ?t) = 101"
    by (auto simp: gate_plan_def numeral_3_eq_3 All_less_Suc2)
  also have "\<dots> \<longleftrightarrow> cfg_auth_token c = Some ?t"
    using assms(1) by (cases "cfg_auth_token c") (auto simp: want_def)
  finally show ?thesis .
qed

text \<open>A reader of the header lines.\<close>

definition header_of :: "string list \<Rightarrow> string \<Rightarrow> header" where
  "header_of ls h =
     (case filter (prefix (h @ '': '')) ls of [] \<Rightarrow> Absent | [l] \<Rightarrow> Header (drop (length h + 2) l) | _ \<Rightarrow> Repeated)"

definition parse_headers :: "string \<Rightarrow> request" where
  "parse_headers req = \<lparr>req_transport = True, req_socket = None, req_header = header_of (split_on CRLF req)\<rparr>"

lemma sample_requests:
  "carries (parse_headers (request_text ''k'' None)) None"
  "carries (parse_headers (request_text ''k'' (Some ''tx''))) (Some ''tx'')"
  "carries (parse_headers (request_text ''k'' (Some ''t''))) (Some ''t'')"
  by code_simp+

theorem gate_iff_server_has_token_witness:
  "snd (assert_token_gate ''t'' (\<lambda>n. Ok (server_peer ''linux'' 0 (default_config\<lparr>cfg_auth_token := Some ''t''\<rparr>) parse_headers))
     (\<lambda>n. ''k'')) = Gate_Ok"
proof -
  let ?c = "default_config\<lparr>cfg_auth_token := Some ''t''\<rparr>"
  have t: "strip ''t'' = ''t''" by (simp add: strip_def lstrip_def is_space_def)
  have "\<forall>n < 3. carries (parse_headers (request_text ''k'' (fst (gate_plan ''t'' ! n)))) (fst (gate_plan ''t'' ! n))"
    using sample_requests by (simp add: gate_plan_def numeral_3_eq_3 All_less_Suc2)
  then show ?thesis
    using gate_iff_server_has_token [of "''t''" ?c "\<lambda>n. Ok (server_peer ''linux'' 0 ?c parse_headers)" "''linux''" 0 parse_headers "\<lambda>n. ''k''"]
    by (simp add: t is_ascii_def default_config_def)
qed

end
