(* ===== verification/Owned_Group.thy ===== *)
theory Owned_Group
  imports Prelude
begin

text \<open>
  \<open>scripts/_smoke_lib.py\<close>, second half: \<open>OwnedGroup\<close> and \<open>run_owned\<close>, the one life cycle of a child whose whole
  process group may have to be killed, and \<open>held_signals\<close>. One run is a state machine: the program's own steps, and
  what the system does meanwhile (time passes, the leader exits, members fork, signals arrive, a number that
  is free again is given to somebody else).

  What the system guarantees is in the guards of \<open>kill_answer\<close>: a group that lost all its processes is the only
  one to answer "no such process", and "not permitted" for a group whose leader has exited means that the dead
  leader is all that is left of it.
\<close>

section \<open>State\<close>

datatype leader = No_Child | Running | Zombie | Reaped

text \<open>Whom the child's number, and that of its group, belong to.\<close>

datatype holder = Nobody | Child | Stranger

datatype signal_target = The_Leader | The_Group

datatype run_phase = Starting | Setting_Up | Setup_Kill | Setup_Reap | Waiting | Killing | Reaping | Delivering | Done

datatype kill_answer = Killed | No_Process | Not_Permitted | Kill_Failed

text \<open>How the run ends: a result (with the flag \<open>timed_out\<close>), \<open>GroupNotStopped\<close>, the exception of the redelivered
  signal's handler (carrying \<open>GroupNotStopped\<close> or not), or the failure that was in flight.\<close>

datatype ending = Returns bool | Group_Not_Stopped | Handler_Raises bool | Raises_In_Flight

datatype disposition = Handler_Returns | Handler_Fails | Ignored | Default_Action

record run_options =
  ro_timeout :: int
  ro_grace :: int
  ro_stop_on_signal :: bool
  ro_interrupt_signal :: "nat option"
  ro_timeout_signal :: "nat option"
  ro_main_thread :: bool
  ro_handler :: "nat \<Rightarrow> disposition"

text \<open>The signals sent are recorded with the holder of the number at that time. \<open>g_members\<close>: the processes of
  the group besides its leader. \<open>g_failed\<close>: an exception is in flight.\<close>

record group_run =
  g_phase :: run_phase
  g_leader :: leader
  g_holder :: holder
  g_members :: nat
  g_now :: int
  g_deadline :: int
  g_stop_at :: "int option"
  g_timed_out :: bool
  g_got :: "nat list"
  g_failed :: bool
  g_reaped :: bool
  g_kill_error :: bool
  g_kills :: nat
  g_not_stopped :: bool
  g_readers :: bool
  g_pipes_open :: bool
  g_sent :: "(signal_target \<times> nat \<times> holder) list"
  g_delivered :: "nat option"
  g_ending :: "ending option"

definition initial_run :: group_run where
  "initial_run = \<lparr>g_phase = Starting, g_leader = No_Child, g_holder = Nobody, g_members = 0, g_now = 0, g_deadline = 0,
     g_stop_at = None, g_timed_out = False, g_got = [], g_failed = False, g_reaped = False, g_kill_error = False,
     g_kills = 0, g_not_stopped = False, g_readers = False, g_pipes_open = False, g_sent = [], g_delivered = None,
     g_ending = None\<rparr>"

section \<open>Operations of a group\<close>

definition SIGKILL :: nat where "SIGKILL = 9"

definition send_signal :: "signal_target \<Rightarrow> nat \<Rightarrow> group_run \<Rightarrow> group_run" where
  "send_signal t sig s = s\<lparr>g_sent := g_sent s @ [(t, sig, g_holder s)]\<rparr>"

text \<open>\<open>_require_owned\<close>: both signal methods raise once the leader is reaped; here that has no next state.\<close>

definition signal_leader :: "nat option \<Rightarrow> group_run \<Rightarrow> group_run option" where
  "signal_leader sig s =
     (case sig of
        None \<Rightarrow> Some s
      | Some k \<Rightarrow> if g_reaped s then None else Some (send_signal The_Leader k s))"

definition answer_possible :: "kill_answer \<Rightarrow> group_run \<Rightarrow> bool" where
  "answer_possible a s =
     (case a of
        No_Process \<Rightarrow> g_members s = 0 \<and> g_leader s \<noteq> Running
      | Not_Permitted \<Rightarrow> g_leader s = Running \<or> g_members s = 0
      | _ \<Rightarrow> True)"

definition kill_group :: "kill_answer \<Rightarrow> group_run \<Rightarrow> group_run option" where
  "kill_group a s =
     (if g_reaped s \<or> \<not> answer_possible a s then None
      else
        let s1 = (send_signal The_Group SIGKILL s)\<lparr>g_kills := Suc (g_kills s)\<rparr>
        in Some (case a of
             Killed \<Rightarrow> s1\<lparr>g_kill_error := False, g_members := 0\<rparr>
           | No_Process \<Rightarrow> s1\<lparr>g_kill_error := False\<rparr>
           | Not_Permitted \<Rightarrow> s1\<lparr>g_kill_error := (g_leader s = Running)\<rparr>
           | Kill_Failed \<Rightarrow> s1\<lparr>g_kill_error := True\<rparr>))"

text \<open>The wait for the leader, then the readers' joins: the pipes are closed only if every reader has stopped.\<close>

definition reap_group :: "bool \<Rightarrow> bool \<Rightarrow> group_run \<Rightarrow> group_run option" where
  "reap_group waited readers_left s =
     (if waited \<noteq> (g_leader s = Zombie) then None
      else
        let s1 = (if waited then s\<lparr>g_leader := Reaped, g_reaped := True, g_holder := Nobody\<rparr> else s)
        in Some (s1\<lparr>g_readers := g_readers s \<and> readers_left,
                    g_pipes_open := g_pipes_open s \<and> g_readers s \<and> readers_left\<rparr>))"

definition stop_verdict :: "group_run \<Rightarrow> bool" where
  "stop_verdict s \<longleftrightarrow> g_kill_error s \<or> \<not> g_reaped s"

section \<open>The steps of a run\<close>

text \<open>One round of the waiting loop.\<close>

definition begin_stop :: "run_options \<Rightarrow> nat option \<Rightarrow> group_run \<Rightarrow> group_run option" where
  "begin_stop opts sig s =
     map_option (\<lambda>s1. s1\<lparr>g_stop_at := Some (g_now s + ro_grace opts),
                        g_phase := (if ro_grace opts \<le> 0 then Killing else Waiting)\<rparr>)
       (signal_leader sig s)"

definition wait_round :: "run_options \<Rightarrow> group_run \<Rightarrow> group_run option" where
  "wait_round opts s =
     (if g_leader s \<noteq> Running then Some (s\<lparr>g_phase := Killing\<rparr>)
      else case g_stop_at s of
        Some t \<Rightarrow> Some (if t \<le> g_now s then s\<lparr>g_phase := Killing\<rparr> else s)
      | None \<Rightarrow>
          if g_got s \<noteq> [] \<and> ro_stop_on_signal opts then begin_stop opts (ro_interrupt_signal opts) s
          else if g_deadline s \<le> g_now s then begin_stop opts (ro_timeout_signal opts) (s\<lparr>g_timed_out := True\<rparr>)
          else Some s)"

text \<open>\<open>redeliver\<close>: whether it raises.\<close>

definition redeliver :: "disposition \<Rightarrow> bool" where
  "redeliver d \<longleftrightarrow> d = Handler_Fails \<or> d = Default_Action"

definition run_ending :: "run_options \<Rightarrow> group_run \<Rightarrow> ending" where
  "run_ending opts s =
     (if g_got s \<noteq> [] \<and> redeliver (ro_handler opts (hd (g_got s))) then Handler_Raises (g_not_stopped s)
      else if g_not_stopped s then Group_Not_Stopped
      else if g_failed s then Raises_In_Flight
      else Returns (g_timed_out s))"

definition first_held :: "group_run \<Rightarrow> nat option" where
  "first_held s = (case g_got s of [] \<Rightarrow> None | sig # _ \<Rightarrow> Some sig)"

definition finish_run :: "run_options \<Rightarrow> group_run \<Rightarrow> group_run" where
  "finish_run opts s =
     s\<lparr>g_phase := Done, g_delivered := first_held s, g_ending := Some (run_ending opts s)\<rparr>"

datatype run_event =
    Spawned bool | Set_Up bool | Round | Round_Raises
  | Kill kill_answer | Reap bool bool | Deliver
  | Time int | Leader_Exits | Member_Forks | Member_Exits | Signal_Arrives nat | Number_Reused

fun own :: "run_event \<Rightarrow> bool" where
  "own (Time _) \<longleftrightarrow> False"
| "own Leader_Exits \<longleftrightarrow> False"
| "own Member_Forks \<longleftrightarrow> False"
| "own Member_Exits \<longleftrightarrow> False"
| "own (Signal_Arrives _) \<longleftrightarrow> False"
| "own Number_Reused \<longleftrightarrow> False"
| "own _ \<longleftrightarrow> True"

text \<open>The child exists after \<open>Popen\<close>; its constructor may fail afterwards, and then kills and reaps it itself. A round
  may raise too (the exit watch). A signal is held from before the start until the group is reaped.\<close>

fun run_step :: "run_options \<Rightarrow> run_event \<Rightarrow> group_run \<Rightarrow> group_run option" where
  "run_step opts (Spawned ok) s =
     (if g_phase s \<noteq> Starting then None
      else if ok then Some (s\<lparr>g_phase := Setting_Up, g_leader := Running, g_holder := Child, g_pipes_open := True, g_readers := True\<rparr>)
      else Some (s\<lparr>g_phase := Delivering, g_failed := True\<rparr>))"
| "run_step opts (Set_Up ok) s =
     (if g_phase s \<noteq> Setting_Up then None
      else if ok then Some (s\<lparr>g_phase := Waiting, g_deadline := g_now s + ro_timeout opts\<rparr>)
      else Some (s\<lparr>g_phase := Setup_Kill, g_failed := True\<rparr>))"
| "run_step opts Round s = (if g_phase s \<noteq> Waiting then None else wait_round opts s)"
| "run_step opts Round_Raises s = (if g_phase s \<noteq> Waiting then None else Some (s\<lparr>g_phase := Killing, g_failed := True\<rparr>))"
| "run_step opts (Kill a) s =
     (if g_phase s = Setup_Kill then map_option (\<lambda>s1. s1\<lparr>g_phase := Setup_Reap\<rparr>) (kill_group a s)
      else if g_phase s = Killing then map_option (\<lambda>s1. s1\<lparr>g_phase := Reaping\<rparr>) (kill_group a s)
      else None)"
| "run_step opts (Reap waited left) s =
     (if g_phase s = Setup_Reap \<or> g_phase s = Reaping
      then map_option (\<lambda>s1. s1\<lparr>g_phase := Delivering, g_not_stopped := stop_verdict s1\<rparr>) (reap_group waited left s)
      else None)"
| "run_step opts Deliver s = (if g_phase s \<noteq> Delivering then None else Some (finish_run opts s))"
| "run_step opts (Time t) s = (if 0 < t then Some (s\<lparr>g_now := g_now s + t\<rparr>) else None)"
| "run_step opts Leader_Exits s = (if g_leader s = Running then Some (s\<lparr>g_leader := Zombie\<rparr>) else None)"
| "run_step opts Member_Forks s =
     (if g_members s > 0 \<or> (g_leader s = Running \<and> (g_kills s = 0 \<or> g_kill_error s)) then Some (s\<lparr>g_members := Suc (g_members s)\<rparr>) else None)"
| "run_step opts Member_Exits s = (if g_members s > 0 then Some (s\<lparr>g_members := g_members s - 1\<rparr>) else None)"
| "run_step opts (Signal_Arrives sig) s =
     (if ro_main_thread opts \<and> g_phase s \<notin> {Delivering, Done} then Some (s\<lparr>g_got := g_got s @ [sig]\<rparr>) else None)"
| "run_step opts Number_Reused s = (if g_holder s = Nobody \<and> g_leader s = Reaped then Some (s\<lparr>g_holder := Stranger\<rparr>) else None)"

inductive reachable_run :: "run_options \<Rightarrow> group_run \<Rightarrow> bool" for opts where
  run_init: "reachable_run opts initial_run"
| run_next: "reachable_run opts s \<Longrightarrow> run_step opts e s = Some s' \<Longrightarrow> reachable_run opts s'"

section \<open>The invariant\<close>

text \<open>Before the group is reaped the leader is this process's own child, and so is the number.\<close>

fun number_of :: "leader \<Rightarrow> holder \<Rightarrow> bool" where
  "number_of No_Child h \<longleftrightarrow> h = Nobody"
| "number_of Running h \<longleftrightarrow> h = Child"
| "number_of Zombie h \<longleftrightarrow> h = Child"
| "number_of Reaped h \<longleftrightarrow> h \<noteq> Child"

text \<open>What a phase needs of the leader, the number of kills, the members and the verdict so far.\<close>

fun phase_leader :: "run_phase \<Rightarrow> leader \<Rightarrow> bool" where
  "phase_leader Starting l \<longleftrightarrow> l = No_Child"
| "phase_leader Delivering l \<longleftrightarrow> True"
| "phase_leader Done l \<longleftrightarrow> True"
| "phase_leader _ l \<longleftrightarrow> l = Running \<or> l = Zombie"

fun phase_kills :: "run_phase \<Rightarrow> leader \<Rightarrow> nat \<Rightarrow> bool" where
  "phase_kills Setup_Reap l n \<longleftrightarrow> n = 1"
| "phase_kills Reaping l n \<longleftrightarrow> n = 1"
| "phase_kills Delivering l n \<longleftrightarrow> n = (if l = No_Child then 0 else 1)"
| "phase_kills Done l n \<longleftrightarrow> n = (if l = No_Child then 0 else 1)"
| "phase_kills _ l n \<longleftrightarrow> n = 0"

fun phase_verdict :: "run_phase \<Rightarrow> leader \<Rightarrow> bool \<Rightarrow> bool \<Rightarrow> bool \<Rightarrow> bool" where
  "phase_verdict Delivering l failed stopped ns \<longleftrightarrow> (if l = No_Child then failed \<and> \<not> ns else ns = (\<not> stopped))"
| "phase_verdict Done l failed stopped ns \<longleftrightarrow> (if l = No_Child then failed \<and> \<not> ns else ns = (\<not> stopped))"
| "phase_verdict _ l failed stopped ns \<longleftrightarrow> \<not> ns"

definition owned_inv :: "group_run \<Rightarrow> bool" where
  "owned_inv s \<longleftrightarrow>
     g_reaped s = (g_leader s = Reaped) \<and> number_of (g_leader s) (g_holder s) \<and>
     phase_leader (g_phase s) (g_leader s) \<and> phase_kills (g_phase s) (g_leader s) (g_kills s) \<and>
     phase_verdict (g_phase s) (g_leader s) (g_failed s) (g_leader s = Reaped \<and> \<not> g_kill_error s) (g_not_stopped s) \<and>
     list_all (\<lambda>x. snd (snd x) = Child) (g_sent s) \<and>
     (g_leader s = No_Child \<longrightarrow> g_members s = 0) \<and>
     (g_kills s = 0 \<or> g_kill_error s \<or> g_members s = 0) \<and>
     (g_readers s \<longrightarrow> g_pipes_open s)"

text \<open>What the invariant does not look at.\<close>

lemma owned_inv_frame [simp]:
  "owned_inv (s\<lparr>g_now := t\<rparr>) = owned_inv s"
  "owned_inv (s\<lparr>g_got := g\<rparr>) = owned_inv s"
  "owned_inv (s\<lparr>g_deadline := t\<rparr>) = owned_inv s"
  "owned_inv (s\<lparr>g_stop_at := u\<rparr>) = owned_inv s"
  "owned_inv (s\<lparr>g_timed_out := b\<rparr>) = owned_inv s"
  by (simp_all add: owned_inv_def)

lemma owned_env:
  "owned_inv s \<Longrightarrow> g_leader s = Running \<Longrightarrow> owned_inv (s\<lparr>g_leader := Zombie\<rparr>)"
  "owned_inv s \<Longrightarrow> 0 < g_members s \<or> (g_leader s = Running \<and> (g_kills s = 0 \<or> g_kill_error s)) \<Longrightarrow>
     owned_inv (s\<lparr>g_members := Suc (g_members s)\<rparr>)"
  "owned_inv s \<Longrightarrow> owned_inv (s\<lparr>g_members := g_members s - Suc 0\<rparr>)"
  "owned_inv s \<Longrightarrow> g_leader s = Reaped \<Longrightarrow> owned_inv (s\<lparr>g_holder := Stranger\<rparr>)"
  by (cases "g_phase s"; auto simp: owned_inv_def)+

lemma owned_unreaped: "owned_inv s \<Longrightarrow> g_leader s = Running \<or> g_leader s = Zombie \<Longrightarrow> \<not> g_reaped s \<and> g_holder s = Child"
  by (cases "g_leader s") (simp_all add: owned_inv_def)

lemma owned_waiting: "owned_inv s \<Longrightarrow> g_phase s \<notin> {Starting, Delivering, Done} \<Longrightarrow> g_leader s = Running \<or> g_leader s = Zombie"
  by (cases "g_phase s") (simp_all add: owned_inv_def)

lemma owned_kill_phase: "owned_inv s \<Longrightarrow> g_phase s = Waiting \<Longrightarrow> owned_inv (s\<lparr>g_phase := Killing\<rparr>)"
  by (simp add: owned_inv_def)

lemma owned_fail: "owned_inv s \<Longrightarrow> g_phase s \<in> {Waiting, Killing, Setting_Up} \<Longrightarrow> owned_inv (s\<lparr>g_failed := True\<rparr>)"
  by (auto simp: owned_inv_def)

lemma owned_send:
  assumes "owned_inv s" "g_phase s \<notin> {Starting, Delivering, Done}"
  shows "owned_inv (send_signal t k s)"
proof -
  have "g_holder s = Child" using owned_waiting [OF assms] owned_unreaped [OF assms(1)] by blast
  then show ?thesis using assms(1) by (simp add: owned_inv_def send_signal_def)
qed

lemma send_signal_fields [simp]:
  "g_phase (send_signal t k s) = g_phase s" "g_now (send_signal t k s) = g_now s" "g_reaped (send_signal t k s) = g_reaped s"
  "g_stop_at (send_signal t k s) = g_stop_at s" "g_leader (send_signal t k s) = g_leader s"
  by (simp_all add: send_signal_def)

lemma owned_signal_leader:
  assumes "owned_inv s" "g_phase s = Waiting"
  shows "\<exists>s1. signal_leader sig s = Some s1 \<and> owned_inv s1 \<and> g_phase s1 = Waiting \<and> g_now s1 = g_now s"
  using assms owned_send [of s] owned_waiting [of s] owned_unreaped [of s]
  by (cases sig) (simp_all add: signal_leader_def)

lemma owned_begin_stop:
  assumes "owned_inv s" "g_phase s = Waiting"
  shows "\<exists>s1. begin_stop opts sig s = Some s1 \<and> owned_inv s1 \<and> g_phase s1 \<in> {Waiting, Killing} \<and>
    g_stop_at s1 = Some (g_now s + ro_grace opts)"
proof -
  obtain s1 where s1: "signal_leader sig s = Some s1" "owned_inv s1" "g_phase s1 = Waiting"
    using owned_signal_leader [OF assms, of sig] by blast
  then have "owned_inv (s1\<lparr>g_phase := Killing\<rparr>)" "owned_inv (s1\<lparr>g_phase := Waiting\<rparr>)"
    by (simp_all add: owned_kill_phase) (simp add: owned_inv_def)
  moreover have "owned_inv (s1\<lparr>g_stop_at := u, g_phase := p\<rparr>) = owned_inv (s1\<lparr>g_phase := p\<rparr>)" for u p
    by (simp add: owned_inv_def)
  ultimately show ?thesis using s1 by (auto simp: begin_stop_def)
qed

lemma owned_wait_round:
  assumes "owned_inv s" "g_phase s = Waiting"
  shows "\<exists>s1. wait_round opts s = Some s1 \<and> owned_inv s1 \<and> g_phase s1 \<in> {Waiting, Killing}"
proof -
  obtain a where a: "begin_stop opts (ro_interrupt_signal opts) s = Some a" "owned_inv a" "g_phase a \<in> {Waiting, Killing}"
    using owned_begin_stop [OF assms] by blast
  obtain b where b: "begin_stop opts (ro_timeout_signal opts) (s\<lparr>g_timed_out := True\<rparr>) = Some b" "owned_inv b" "g_phase b \<in> {Waiting, Killing}"
    using owned_begin_stop [of "s\<lparr>g_timed_out := True\<rparr>"] assms by (auto simp del: insert_iff)
  show ?thesis using assms a b owned_kill_phase [OF assms] by (cases "g_stop_at s") (simp_all add: wait_round_def)
qed

lemma owned_killed:
  assumes "owned_inv s" "(g_phase s, p) \<in> {(Setup_Kill, Setup_Reap), (Killing, Reaping)}" "ke \<or> m = 0"
  shows "owned_inv (s\<lparr>g_kills := Suc (g_kills s), g_kill_error := ke, g_members := m, g_phase := p\<rparr>)"
proof -
  have l: "g_leader s = Running \<or> g_leader s = Zombie" using owned_waiting [OF assms(1)] assms(2) by auto
  have q: "(g_phase s = Setup_Kill \<and> p = Setup_Reap) \<or> (g_phase s = Killing \<and> p = Reaping)" using assms(2) by auto
  have c: "g_reaped s = (g_leader s = Reaped)" "number_of (g_leader s) (g_holder s)" "g_kills s = 0" "\<not> g_not_stopped s"
    "list_all (\<lambda>x. snd (snd x) = Child) (g_sent s)" "g_readers s \<longrightarrow> g_pipes_open s"
    using assms(1) q by (auto simp: owned_inv_def)
  show ?thesis using q
  proof (elim disjE conjE)
    assume "p = Setup_Reap"
    then show ?thesis using c l assms(3) by (elim disjE) (simp_all add: owned_inv_def)
  next
    assume "p = Reaping"
    then show ?thesis using c l assms(3) by (elim disjE) (simp_all add: owned_inv_def)
  qed
qed

lemma kill_group_result:
  assumes "kill_group a s = Some s1"
  shows "\<exists>ke m. (ke \<or> m = 0) \<and> s1 = (send_signal The_Group SIGKILL s)\<lparr>g_kills := Suc (g_kills s), g_kill_error := ke, g_members := m\<rparr>"
proof -
  let ?s = "send_signal The_Group SIGKILL s"
  have m: "g_members ?s = g_members s" by (simp add: send_signal_def)
  have p: "answer_possible a s" using assms by (simp add: kill_group_def split: if_split_asm)
  have keep: "?s\<lparr>g_kills := k, g_kill_error := ke\<rparr> = ?s\<lparr>g_kills := k, g_kill_error := ke, g_members := g_members s\<rparr>" for k ke
    by (simp add: send_signal_def)
  show ?thesis
  proof (cases a)
    case Killed
    then show ?thesis using assms p by (auto simp: kill_group_def Let_def split: if_split_asm)
  next
    case No_Process
    then have "g_members s = 0" using p by (simp add: answer_possible_def)
    then show ?thesis using assms p No_Process keep by (auto simp: kill_group_def Let_def split: if_split_asm)
  next
    case Not_Permitted
    then have "g_leader s = Running \<or> g_members s = 0" using p by (simp add: answer_possible_def)
    then show ?thesis using assms p Not_Permitted keep by (auto simp: kill_group_def Let_def split: if_split_asm)
  next
    case Kill_Failed
    then show ?thesis using assms p keep by (auto simp: kill_group_def Let_def split: if_split_asm)
  qed
qed

lemma owned_kill:
  assumes "owned_inv s" "(g_phase s, p) \<in> {(Setup_Kill, Setup_Reap), (Killing, Reaping)}" "kill_group a s = Some s1"
  shows "owned_inv (s1\<lparr>g_phase := p\<rparr>)"
proof -
  have i: "owned_inv (send_signal The_Group SIGKILL s)" by (rule owned_send [OF assms(1)]) (use assms(2) in auto)
  have k: "g_kills (send_signal The_Group SIGKILL s) = g_kills s" by (simp add: send_signal_def)
  obtain ke m where "ke \<or> m = 0"
    "s1 = (send_signal The_Group SIGKILL s)\<lparr>g_kills := Suc (g_kills s), g_kill_error := ke, g_members := m\<rparr>"
    using kill_group_result [OF assms(3)] by blast
  then show ?thesis using owned_killed [OF i, of p ke m] assms(2) k by simp
qed

lemma owned_reap:
  assumes "owned_inv s" "g_phase s \<in> {Setup_Reap, Reaping}" "reap_group w l s = Some s1"
  shows "owned_inv (s1\<lparr>g_phase := Delivering, g_not_stopped := stop_verdict s1\<rparr>)"
proof -
  have ph: "g_phase s \<notin> {Starting, Delivering, Done}" using assms(2) by auto
  have w: "w = (g_leader s = Zombie)" using assms(3) by (simp add: reap_group_def split: if_split_asm)
  have i: "owned_inv s" "g_phase s = Setup_Reap \<or> g_phase s = Reaping" using assms by auto
  consider "g_leader s = Running" | "g_leader s = Zombie" using owned_waiting [OF assms(1) ph] by blast
  then show ?thesis
  proof cases
    case 1
    then show ?thesis using i assms(3) w by (auto simp: reap_group_def stop_verdict_def owned_inv_def Let_def)
  next
    case 2
    then show ?thesis using i assms(3) w by (auto simp: reap_group_def stop_verdict_def owned_inv_def Let_def)
  qed
qed

lemma owned_finish: "owned_inv s \<Longrightarrow> g_phase s = Delivering \<Longrightarrow> owned_inv (finish_run opts s)"
  by (cases "g_leader s") (auto simp: finish_run_def owned_inv_def Let_def)

lemma owned_spawn:
  "owned_inv s \<Longrightarrow> g_phase s = Starting \<Longrightarrow>
     owned_inv (s\<lparr>g_phase := Setting_Up, g_leader := Running, g_holder := Child, g_pipes_open := True, g_readers := True\<rparr>) \<and>
     owned_inv (s\<lparr>g_phase := Delivering, g_failed := True\<rparr>)"
  by (auto simp: owned_inv_def)

lemma owned_set_up:
  "owned_inv s \<Longrightarrow> g_phase s = Setting_Up \<Longrightarrow>
     owned_inv (s\<lparr>g_phase := Waiting\<rparr>) \<and> owned_inv (s\<lparr>g_phase := Setup_Kill, g_failed := True\<rparr>)"
  by (auto simp: owned_inv_def)

lemma owned_raise: "owned_inv s \<Longrightarrow> g_phase s = Waiting \<Longrightarrow> owned_inv (s\<lparr>g_phase := Killing, g_failed := True\<rparr>)"
  by (auto simp: owned_inv_def)

lemma owned_step: "run_step opts e s = Some s' \<Longrightarrow> owned_inv s \<Longrightarrow> owned_inv s'"
proof (cases e)
  case Round
  then show "run_step opts e s = Some s' \<Longrightarrow> owned_inv s \<Longrightarrow> owned_inv s'"
    using owned_wait_round [of s opts] by (auto split: if_split_asm)
next
  case (Kill a)
  then show "run_step opts e s = Some s' \<Longrightarrow> owned_inv s \<Longrightarrow> owned_inv s'"
    using owned_kill [of s _ a] by (auto split: if_split_asm)
next
  case (Reap w l)
  then show "run_step opts e s = Some s' \<Longrightarrow> owned_inv s \<Longrightarrow> owned_inv s'"
    using owned_reap [of s w l] by (auto split: if_split_asm)
qed (auto simp: owned_env owned_spawn owned_set_up owned_raise owned_finish split: if_split_asm)

lemma reachable_owned: "reachable_run opts s \<Longrightarrow> owned_inv s"
proof (induction rule: reachable_run.induct)
  case run_init
  show ?case by (simp add: initial_run_def owned_inv_def)
qed (rule owned_step)

section \<open>How a run ends\<close>

definition ending_inv :: "run_options \<Rightarrow> group_run \<Rightarrow> bool" where
  "ending_inv opts s \<longleftrightarrow>
     (if g_phase s = Done then g_ending s = Some (run_ending opts s) \<and> g_delivered s = first_held s
      else g_ending s = None \<and> g_delivered s = None)"

lemma kill_group_frame: "kill_group a s = Some s1 \<Longrightarrow> g_ending s1 = g_ending s \<and> g_delivered s1 = g_delivered s"
  using kill_group_result [of a s s1] by (auto simp: send_signal_def)

lemma reap_group_frame: "reap_group w l s = Some s1 \<Longrightarrow> g_ending s1 = g_ending s \<and> g_delivered s1 = g_delivered s"
  by (auto simp: reap_group_def Let_def split: if_split_asm)

lemma begin_stop_frame:
  "begin_stop opts sig s = Some s1 \<Longrightarrow> g_ending s1 = g_ending s \<and> g_delivered s1 = g_delivered s \<and> g_phase s1 \<noteq> Done"
  by (auto simp: begin_stop_def signal_leader_def send_signal_def split: option.splits if_split_asm)

lemma wait_round_frame:
  "wait_round opts s = Some s1 \<Longrightarrow> g_phase s \<noteq> Done \<Longrightarrow> g_ending s1 = g_ending s \<and> g_delivered s1 = g_delivered s \<and> g_phase s1 \<noteq> Done"
  using begin_stop_frame [of opts _ s s1] begin_stop_frame [of opts _ "s\<lparr>g_timed_out := True\<rparr>" s1]
  by (auto simp: wait_round_def split: option.splits if_split_asm)

lemma ending_inv_frame [simp]:
  "ending_inv opts (s\<lparr>g_now := t\<rparr>) = ending_inv opts s"
  "ending_inv opts (s\<lparr>g_leader := l\<rparr>) = ending_inv opts s"
  "ending_inv opts (s\<lparr>g_members := n\<rparr>) = ending_inv opts s"
  "ending_inv opts (s\<lparr>g_holder := h\<rparr>) = ending_inv opts s"
  by (simp_all add: ending_inv_def run_ending_def first_held_def)

lemma ending_finish: "ending_inv opts (finish_run opts s)"
  by (simp add: ending_inv_def finish_run_def run_ending_def first_held_def)

lemma ending_open: "ending_inv opts s \<Longrightarrow> g_phase s \<noteq> Done \<Longrightarrow> g_ending s = None \<and> g_delivered s = None"
  by (simp add: ending_inv_def)

lemma ending_openI: "g_ending s = None \<Longrightarrow> g_delivered s = None \<Longrightarrow> g_phase s \<noteq> Done \<Longrightarrow> ending_inv opts s"
  by (simp add: ending_inv_def)

lemma ending_step: "run_step opts e s = Some s' \<Longrightarrow> ending_inv opts s \<Longrightarrow> ending_inv opts s'"
proof (cases e)
  case Round
  then show "run_step opts e s = Some s' \<Longrightarrow> ending_inv opts s \<Longrightarrow> ending_inv opts s'"
    using wait_round_frame [of opts s s'] ending_open [of opts s] by (auto intro!: ending_openI split: if_split_asm)
next
  case (Kill a)
  then show "run_step opts e s = Some s' \<Longrightarrow> ending_inv opts s \<Longrightarrow> ending_inv opts s'"
    using kill_group_frame [of a s] ending_open [of opts s] by (auto intro!: ending_openI split: if_split_asm)
next
  case (Reap w l)
  then show "run_step opts e s = Some s' \<Longrightarrow> ending_inv opts s \<Longrightarrow> ending_inv opts s'"
    using reap_group_frame [of w l s] ending_open [of opts s] by (auto intro!: ending_openI split: if_split_asm)
next
  case Deliver
  then show "run_step opts e s = Some s' \<Longrightarrow> ending_inv opts s \<Longrightarrow> ending_inv opts s'"
    by (auto simp: ending_finish split: if_split_asm)
next
  case (Spawned b)
  then show "run_step opts e s = Some s' \<Longrightarrow> ending_inv opts s \<Longrightarrow> ending_inv opts s'"
    using ending_open [of opts s] by (auto intro!: ending_openI split: if_split_asm)
next
  case (Set_Up b)
  then show "run_step opts e s = Some s' \<Longrightarrow> ending_inv opts s \<Longrightarrow> ending_inv opts s'"
    using ending_open [of opts s] by (auto intro!: ending_openI split: if_split_asm)
next
  case Round_Raises
  then show "run_step opts e s = Some s' \<Longrightarrow> ending_inv opts s \<Longrightarrow> ending_inv opts s'"
    using ending_open [of opts s] by (auto intro!: ending_openI split: if_split_asm)
next
  case (Signal_Arrives k)
  then show "run_step opts e s = Some s' \<Longrightarrow> ending_inv opts s \<Longrightarrow> ending_inv opts s'"
    using ending_open [of opts s] by (auto intro!: ending_openI split: if_split_asm)
qed (auto split: if_split_asm)

lemma reachable_ending: "reachable_run opts s \<Longrightarrow> ending_inv opts s"
proof (induction rule: reachable_run.induct)
  case run_init
  show ?case by (simp add: initial_run_def ending_inv_def)
qed (rule ending_step)

text \<open>C29: the group is signalled only while it is this process's own. Whatever the child, the system and the user do,
  in every run every signal sent to the leader or to its group was sent while that number belonged to the
  child, never after it was reaped and the number could be somebody else's; the group is killed at most once;
  and no pipe is closed while a thread may still read it.\<close>

theorem group_signals_own:
  assumes "reachable_run opts s"
  shows "(\<forall>(t, sig, h) \<in> set (g_sent s). h = Child) \<and> g_kills s \<le> 1 \<and> (g_readers s \<longrightarrow> g_pipes_open s)"
proof -
  note i = reachable_owned [OF assms]
  have "g_kills s \<le> 1" using i by (cases "g_phase s") (auto simp: owned_inv_def)
  then show ?thesis using i by (auto simp: owned_inv_def list_all_iff)
qed

lemma run_outcome:
  assumes "reachable_run opts s" "g_ending s = Some e"
  shows "(\<forall>b. e = Returns b \<longrightarrow> g_leader s = Reaped \<and> g_members s = 0 \<and> g_kills s = 1)"
    and "g_leader s \<noteq> No_Child \<and> \<not> (g_leader s = Reaped \<and> g_members s = 0) \<longrightarrow> e = Group_Not_Stopped \<or> e = Handler_Raises True"
    and "g_delivered s = first_held s"
    and "(\<exists>b. e = Handler_Raises b) \<longleftrightarrow> (\<exists>sig. first_held s = Some sig \<and> redeliver (ro_handler opts sig))"
proof -
  note i = reachable_owned [OF assms(1)]
  have d: "g_phase s = Done" "e = run_ending opts s" "g_delivered s = first_held s"
    using reachable_ending [OF assms(1)] assms(2) by (auto simp: ending_inv_def split: if_split_asm)
  have v: "if g_leader s = No_Child then g_failed s \<and> \<not> g_not_stopped s
      else g_kills s = 1 \<and> g_not_stopped s = (\<not> (g_leader s = Reaped \<and> \<not> g_kill_error s))"
    "g_kills s = 0 \<or> g_kill_error s \<or> g_members s = 0"
    using i d(1) by (auto simp: owned_inv_def split: if_split_asm)
  show "\<forall>b. e = Returns b \<longrightarrow> g_leader s = Reaped \<and> g_members s = 0 \<and> g_kills s = 1"
    using v unfolding d(2) by (auto simp: run_ending_def split: if_split_asm)
  show "g_leader s \<noteq> No_Child \<and> \<not> (g_leader s = Reaped \<and> g_members s = 0) \<longrightarrow> e = Group_Not_Stopped \<or> e = Handler_Raises True"
    using v unfolding d(2) by (auto simp: run_ending_def split: if_split_asm)
  show "g_delivered s = first_held s" by (rule d(3))
  show "(\<exists>b. e = Handler_Raises b) \<longleftrightarrow> (\<exists>sig. first_held s = Some sig \<and> redeliver (ro_handler opts sig))"
    unfolding d(2) by (cases "g_got s") (auto simp: run_ending_def first_held_def)
qed

text \<open>What the end of a run says. A result is returned only when the leader was reaped and no process of its group
  is left, after the one kill; when a child was started and its group could not be shown stopped, the run ends with
  \<open>GroupNotStopped\<close> or with an exception that carries it; and the first held signal is always handed to its
  handler, whose failure no result hides.\<close>

theorem run_owned_outcome:
  assumes "reachable_run opts s" "g_ending s = Some e"
  shows "(\<forall>b. e = Returns b \<longrightarrow> g_leader s = Reaped \<and> g_members s = 0 \<and> g_kills s = 1) \<and>
    (g_leader s \<noteq> No_Child \<and> \<not> (g_leader s = Reaped \<and> g_members s = 0) \<longrightarrow> e = Group_Not_Stopped \<or> e = Handler_Raises True) \<and>
    g_delivered s = first_held s \<and>
    ((\<exists>b. e = Handler_Raises b) \<longleftrightarrow> (\<exists>sig. first_held s = Some sig \<and> redeliver (ro_handler opts sig)))"
  by (intro conjI run_outcome [OF assms])

fun run_events :: "run_options \<Rightarrow> run_event list \<Rightarrow> group_run \<Rightarrow> group_run option" where
  "run_events opts [] s = Some s"
| "run_events opts (e # es) s = (case run_step opts e s of None \<Rightarrow> None | Some s1 \<Rightarrow> run_events opts es s1)"

lemma run_events_reachable: "run_events opts es s = Some s' \<Longrightarrow> reachable_run opts s \<Longrightarrow> reachable_run opts s'"
proof (induction es arbitrary: s)
  case (Cons e es)
  then show ?case using run_next [of opts s e] by (auto split: option.splits)
qed simp

definition sample_run_options :: run_options where
  "sample_run_options = \<lparr>ro_timeout = 10, ro_grace = 5, ro_stop_on_signal = True, ro_interrupt_signal = Some 2,
     ro_timeout_signal = Some 15, ro_main_thread = True, ro_handler = (\<lambda>_. Handler_Returns)\<rparr>"

text \<open>A child with one process of its own; the user interrupts; the leader exits in the grace time.\<close>

definition sample_run_events :: "run_event list" where
  "sample_run_events = [Spawned True, Set_Up True, Member_Forks, Round, Signal_Arrives 2, Round, Time 1, Leader_Exits, Round,
     Kill Killed, Reap True False, Number_Reused, Deliver]"

lemma sample_run_ends:
  "map_option (\<lambda>s. (g_leader s, g_members s, g_ending s, g_delivered s, g_sent s))
     (run_events sample_run_options sample_run_events initial_run) =
   Some (Reaped, 0, Some (Returns False), Some 2, [(The_Leader, 2, Child), (The_Group, 9, Child)])"
  by code_simp

definition sample_run :: group_run where
  "sample_run = the (run_events sample_run_options sample_run_events initial_run)"

lemma sample_run_facts:
  "reachable_run sample_run_options sample_run" "g_ending sample_run = Some (Returns False)"
  "first_held sample_run = Some 2" "g_sent sample_run = [(The_Leader, 2, Child), (The_Group, 9, Child)]"
proof -
  obtain s where s: "run_events sample_run_options sample_run_events initial_run = Some s"
    "g_ending s = Some (Returns False)" "g_delivered s = Some 2" "g_sent s = [(The_Leader, 2, Child), (The_Group, 9, Child)]"
    using sample_run_ends by auto
  then have r: "reachable_run sample_run_options s" using run_events_reachable run_init by blast
  then have "first_held s = Some 2" using reachable_ending [OF r] s(2,3) by (simp add: ending_inv_def split: if_split_asm)
  then show "reachable_run sample_run_options sample_run" "g_ending sample_run = Some (Returns False)"
    "first_held sample_run = Some 2" "g_sent sample_run = [(The_Leader, 2, Child), (The_Group, 9, Child)]"
    using s r by (simp_all add: sample_run_def)
qed

theorem group_signals_own_witness: "map (snd \<circ> snd) (g_sent sample_run) = [Child, Child] \<and> g_kills sample_run \<le> 1"
  using group_signals_own [OF sample_run_facts(1)] sample_run_facts(4) by simp

theorem run_owned_outcome_witness: "g_leader sample_run = Reaped \<and> g_members sample_run = 0 \<and> g_delivered sample_run = Some 2"
  using run_owned_outcome [OF sample_run_facts(1,2)] sample_run_facts(3) by auto

section \<open>A run ends\<close>

fun steps_left :: "run_phase \<Rightarrow> bool \<Rightarrow> nat" where
  "steps_left Starting stopping = 7"
| "steps_left Setting_Up stopping = 6"
| "steps_left Waiting stopping = (if stopping then 4 else 5)"
| "steps_left Killing stopping = 3"
| "steps_left Setup_Kill stopping = 3"
| "steps_left Reaping stopping = 2"
| "steps_left Setup_Reap stopping = 2"
| "steps_left Delivering stopping = 1"
| "steps_left Done stopping = 0"

definition run_rank :: "group_run \<Rightarrow> nat" where
  "run_rank s = steps_left (g_phase s) (g_stop_at s \<noteq> None)"

text \<open>When the waiting must be over: the deadline, or the end of the grace time once a stop has begun.\<close>

definition due :: "group_run \<Rightarrow> int" where
  "due s = (case g_stop_at s of None \<Rightarrow> g_deadline s | Some t \<Rightarrow> t)"

lemma round_rank:
  assumes "wait_round opts s = Some s1" "g_phase s = Waiting" "owned_inv s"
  shows "run_rank s1 < run_rank s \<or> (s1 = s \<and> g_leader s = Running \<and> g_now s < due s)"
proof (cases "g_leader s = Running \<and> g_stop_at s = None \<and> ((g_got s \<noteq> [] \<and> ro_stop_on_signal opts) \<or> g_deadline s \<le> g_now s)")
  case True
  then obtain sig b where b: "begin_stop opts sig (s\<lparr>g_timed_out := b\<rparr>) = Some s1"
    using assms(1) by (cases "g_got s \<noteq> [] \<and> ro_stop_on_signal opts")
      (auto simp: wait_round_def, metis group_run.surjective group_run.update_convs(8))
  then have "g_stop_at s1 \<noteq> None \<and> g_phase s1 \<in> {Waiting, Killing}"
    using owned_begin_stop [of "s\<lparr>g_timed_out := b\<rparr>" opts sig] assms(2,3) by auto
  then show ?thesis using True assms(2) by (auto simp: run_rank_def)
next
  case False
  then show ?thesis using assms(1,2)
    by (auto simp: wait_round_def run_rank_def due_def split: option.splits if_split_asm)
qed

lemma kill_group_stop: "kill_group a s = Some s1 \<Longrightarrow> g_stop_at s1 = g_stop_at s"
  using kill_group_result [of a s s1] by (auto simp: send_signal_def)

lemma reap_group_stop: "reap_group w l s = Some s1 \<Longrightarrow> g_stop_at s1 = g_stop_at s"
  by (auto simp: reap_group_def Let_def split: if_split_asm)

lemma own_step_rank:
  assumes "run_step opts e s = Some s'" "own e" "owned_inv s"
  shows "run_rank s' < run_rank s \<or> (e = Round \<and> s' = s \<and> g_leader s = Running \<and> g_now s < due s)"
proof (cases e)
  case Round
  then show ?thesis using assms round_rank [of opts s s'] by (auto split: if_split_asm)
next
  case (Kill a)
  then show ?thesis using assms kill_group_stop [of a s] by (auto simp: run_rank_def split: if_split_asm)
next
  case (Reap w l)
  then show ?thesis using assms reap_group_stop [of w l s] by (auto simp: run_rank_def split: if_split_asm)
qed (use assms in \<open>auto simp: run_rank_def finish_run_def split: if_split_asm\<close>)

lemma env_step_rank:
  assumes "run_step opts e s = Some s'" "\<not> own e"
  shows "run_rank s' = run_rank s \<and> due s' = due s"
  using assms by (cases e) (auto simp: run_rank_def due_def split: if_split_asm option.split)

text \<open>No phase is stuck: there is always an own step.\<close>

lemma own_step_exists:
  assumes "owned_inv s" "g_phase s \<noteq> Done"
  shows "\<exists>e s'. own e \<and> run_step opts e s = Some s'"
proof (cases "g_phase s")
  case Starting
  then show ?thesis by (intro exI [of _ "Spawned True"]) simp
next
  case Setting_Up
  then show ?thesis by (intro exI [of _ "Set_Up True"]) simp
next
  case Waiting
  then show ?thesis using owned_wait_round [OF assms(1), of opts] by (intro exI [of _ Round]) auto
next
  case Setup_Kill
  then show ?thesis using owned_waiting [OF assms(1)] owned_unreaped [OF assms(1)]
    by (intro exI [of _ "Kill Kill_Failed"]) (simp add: kill_group_def answer_possible_def)
next
  case Killing
  then show ?thesis using owned_waiting [OF assms(1)] owned_unreaped [OF assms(1)]
    by (intro exI [of _ "Kill Kill_Failed"]) (simp add: kill_group_def answer_possible_def)
next
  case Setup_Reap
  then show ?thesis by (intro exI [of _ "Reap (g_leader s = Zombie) False"]) (simp add: reap_group_def Let_def)
next
  case Reaping
  then show ?thesis by (intro exI [of _ "Reap (g_leader s = Zombie) False"]) (simp add: reap_group_def Let_def)
next
  case Delivering
  then show ?thesis by (intro exI [of _ Deliver]) simp
qed (use assms(2) in simp)

text \<open>C30: a run always comes to an end. In every state of a run that is not over the program has a next step; each of
  its steps brings the end nearer (at most seven are ever needed), except a round of the waiting loop that finds the
  leader running before the deadline, or before the end of the grace time once a stop has begun; and nothing
  that happens around it (a signal, a fork, a dead leader, the passing of time) moves the end away.\<close>

theorem run_owned_ends:
  assumes "reachable_run opts s"
  shows "run_rank s \<le> 7 \<and> (g_phase s \<noteq> Done \<longrightarrow> (\<exists>e s'. own e \<and> run_step opts e s = Some s')) \<and>
    (\<forall>e s'. run_step opts e s = Some s' \<longrightarrow>
       (if own e then run_rank s' < run_rank s \<or> (e = Round \<and> s' = s \<and> g_leader s = Running \<and> g_now s < due s)
        else run_rank s' = run_rank s \<and> due s' = due s))"
proof -
  note i = reachable_owned [OF assms]
  have "run_rank s \<le> 7" by (cases "g_phase s") (auto simp: run_rank_def)
  then show ?thesis using own_step_exists [OF i] own_step_rank [OF _ _ i] env_step_rank by auto
qed

theorem run_owned_ends_witness: "run_rank sample_run \<le> 7"
  using run_owned_ends [OF sample_run_facts(1)] by blast

end
