(* ===== verification/Agent_Snapshot.thy ===== *)
theory Agent_Snapshot
  imports Plist Verified_Connect
begin

text \<open>
  \<open>scripts/smoke_launchd.py\<close>, first half: what the launchd harness reads of the agents installed on the machine,
  before it touches anything and again later, and the guard that keeps it off their label and ports. The
  answers of \<open>launchctl\<close>, \<open>lsof\<close>, the installer and the file system are inputs; so is the hash of a plist.

  The ports are read as the server parses them, and an unchanged snapshot means that no agent was restarted.
\<close>

section \<open>Endpoints\<close>

definition SPARE_LABEL :: string where "SPARE_LABEL = ''pipecat.stt-server.smoke''"
definition AGENT_PREFIX :: string where "AGENT_PREFIX = ''pipecat.stt-server''"

type_synonym flags = "string \<Rightarrow> string option"

definition canonical_port :: "flags \<Rightarrow> string option" where
  "canonical_port flags =
     (case flags ''--port'' of
        None \<Rightarrow> None
      | Some v \<Rightarrow> (case parse_port v of None \<Rightarrow> Some UNKNOWN | Some k \<Rightarrow> Some (show_int k)))"

text \<open>An endpoint that was read, or one that could not be.\<close>

datatype served = Serves endpoint_addr | Unreadable

definition argv_endpoint :: "string list \<Rightarrow> served option" where
  "argv_endpoint argv =
     (let flags = read_argv_flags [] Map.empty argv
      in case flags ''--socket-path'' of
           Some (c # cs) \<Rightarrow> Some (Serves (Unix_At (c # cs)))
         | _ \<Rightarrow>
             (case canonical_port flags of
                None \<Rightarrow> None
              | Some p \<Rightarrow>
                  if p = UNKNOWN then Some Unreadable
                  else Some (Serves (Tcp_At (case flags ''--host'' of None \<Rightarrow> [] | Some h \<Rightarrow> h) p))))"

definition job_endpoint :: "string \<Rightarrow> served option" where
  "job_endpoint t = argv_endpoint (parse_job_argv t)"

text \<open>\<open>None\<close>: \<open>LaunchdUnreadable\<close>.\<close>

definition read_job :: "run_answer \<Rightarrow> (bool \<times> string option \<times> string option \<times> served option) option" where
  "read_job a =
     (case read_job_print a of
        None \<Rightarrow> None
      | Some j \<Rightarrow>
          Some (if \<not> jp_loaded j then (False, None, None, None)
                else (True, jp_pid j, jp_runs j, argv_endpoint (jp_argv j))))"

definition require_launchd_state :: "run_answer \<Rightarrow> (bool \<times> string option) option" where
  "require_launchd_state a = launchd_state a"

fun joined :: "string list \<Rightarrow> string" where
  "joined [] = []"
| "joined [p] = p"
| "joined (p # ps) = p @ '','' @ joined ps"

definition endpoint_listener :: "bool \<Rightarrow> string option \<Rightarrow> served option \<Rightarrow> bool \<Rightarrow> run_answer \<Rightarrow> string option" where
  "endpoint_listener loaded pid ep lock_exists a =
     (if \<not> loaded \<or> the_pid pid = [] then None
      else case ep of
        None \<Rightarrow> Some UNKNOWN
      | Some Unreadable \<Rightarrow> Some UNKNOWN
      | Some (Serves e) \<Rightarrow>
          (let pids = (case e of
               Unix_At p \<Rightarrow> endpoint_holders None (Some p) lock_exists a
             | Tcp_At h p \<Rightarrow> endpoint_holders (if h = [] then None else Some h) (Some []) lock_exists a)
           in case pids of
                None \<Rightarrow> Some UNKNOWN
              | Some ps \<Rightarrow> if joined ps = [] then None else Some (joined ps)))"

text \<open>The hash and the recorded port, from one read of the plist.\<close>

definition plist_record :: "(nat list \<Rightarrow> string) \<Rightarrow> plist_world \<Rightarrow> string option \<times> string option" where
  "plist_record sha w =
     (case read_bytes w of
        Inl _ \<Rightarrow> (Some UNKNOWN, Some UNKNOWN)
      | Inr None \<Rightarrow> (None, None)
      | Inr (Some raw) \<Rightarrow>
          (Some (sha raw),
           (case loads_plist w raw of Inl _ \<Rightarrow> Some UNKNOWN | Inr p \<Rightarrow> canonical_port (read_flags p))))"

section \<open>The snapshot\<close>

record agent_state =
  ag_loaded :: bool
  ag_pid :: "string option"
  ag_runs :: "string option"
  ag_endpoint :: "served option"
  ag_plist :: "string option"
  ag_listener :: "string option"
  ag_plist_port :: "string option"

text \<open>The machine while one snapshot is taken.\<close>

record machine =
  mc_list :: run_answer
  mc_plist_names :: "string list"
  mc_print :: "string \<Rightarrow> run_answer"
  mc_plist :: "string \<Rightarrow> plist_world"
  mc_lock_exists :: "string \<Rightarrow> bool"
  mc_lsof :: "string \<Rightarrow> run_answer"
  mc_sha :: "nat list \<Rightarrow> string"

type_synonym snapshot = "(string \<times> agent_state) list"

definition loaded_agent_labels :: "run_answer \<Rightarrow> string list option" where
  "loaded_agent_labels a =
     (case a of
        Some (rc, out, err) \<Rightarrow>
          if rc \<noteq> 0 then None
          else Some (filter (\<lambda>l. prefix AGENT_PREFIX l \<and> l \<noteq> SPARE_LABEL)
                       (map last (filter (\<lambda>ws. ws \<noteq> []) (map split_ws (splitlines out)))))
      | None \<Rightarrow> None)"

definition PLIST_SUFFIX :: string where "PLIST_SUFFIX = ''.plist''"

definition agent_plists :: "string list \<Rightarrow> string list" where
  "agent_plists files =
     sort (filter (\<lambda>f. prefix AGENT_PREFIX f \<and> suffix PLIST_SUFFIX f \<and> f \<noteq> SPARE_LABEL @ PLIST_SUFFIX) files)"

definition real_agent_labels :: "machine \<Rightarrow> string list option" where
  "real_agent_labels m =
     map_option (\<lambda>ls. map (\<lambda>f. take (length f - length PLIST_SUFFIX) f) (agent_plists (mc_plist_names m)) @ ls)
       (loaded_agent_labels (mc_list m))"

definition read_agent :: "machine \<Rightarrow> string \<Rightarrow> agent_state option" where
  "read_agent m label =
     (case read_job (mc_print m label) of
        None \<Rightarrow> None
      | Some (loaded, pid, runs, ep) \<Rightarrow>
          (let (digest, port) = plist_record (mc_sha m) (mc_plist m label)
           in Some \<lparr>ag_loaded = loaded, ag_pid = pid, ag_runs = runs, ag_endpoint = ep, ag_plist = digest,
                ag_listener = endpoint_listener loaded pid ep (mc_lock_exists m label) (mc_lsof m label),
                ag_plist_port = port\<rparr>))"

fun read_agents :: "machine \<Rightarrow> string list \<Rightarrow> snapshot option" where
  "read_agents m [] = Some []"
| "read_agents m (l # ls) =
     (case read_agent m l of
        None \<Rightarrow> None
      | Some st \<Rightarrow> map_option (\<lambda>snap. (l, st) # snap) (read_agents m ls))"

text \<open>\<open>None\<close>: the job list or a job's state cannot be read.\<close>

definition snapshot_real_agents :: "machine \<Rightarrow> snapshot option" where
  "snapshot_real_agents m =
     (case real_agent_labels m of None \<Rightarrow> None | Some ls \<Rightarrow> read_agents m (sort (remdups ls)))"

text \<open>All the fields of an agent, by name.\<close>

datatype field_value = F_Bool bool | F_Text "string option" | F_Endpoint "served option"

definition agent_fields :: "agent_state \<Rightarrow> (string \<times> field_value) list" where
  "agent_fields st =
     [(''loaded'', F_Bool (ag_loaded st)), (''pid'', F_Text (ag_pid st)), (''runs'', F_Text (ag_runs st)),
      (''endpoint'', F_Endpoint (ag_endpoint st)), (''plist'', F_Text (ag_plist st)),
      (''listener'', F_Text (ag_listener st)), (''plist_port'', F_Text (ag_plist_port st))]"

fun unknown_value :: "field_value \<Rightarrow> bool" where
  "unknown_value (F_Bool b) \<longleftrightarrow> False"
| "unknown_value (F_Text t) \<longleftrightarrow> t = Some UNKNOWN"
| "unknown_value (F_Endpoint e) \<longleftrightarrow> e = Some Unreadable"

definition snapshot_unknowns :: "snapshot \<Rightarrow> (string \<times> string list) list" where
  "snapshot_unknowns snap =
     filter (\<lambda>(l, bad). bad \<noteq> [])
       (map (\<lambda>(l, st). (l, map fst (filter (\<lambda>(n, v). unknown_value v) (agent_fields st)))) snap)"

datatype difference = Disappeared string | Appeared string | Unproved string string | Differs string string

definition compare_agents :: "string \<Rightarrow> agent_state \<Rightarrow> agent_state \<Rightarrow> difference list" where
  "compare_agents l b a =
     concat (map (\<lambda>((n, bv), (_, av)).
         if unknown_value bv \<or> unknown_value av then [Unproved l n]
         else if bv \<noteq> av then [Differs l n] else [])
       (zip (agent_fields b) (agent_fields a)))"

definition compare_label :: "snapshot \<Rightarrow> snapshot \<Rightarrow> string \<Rightarrow> difference list" where
  "compare_label before after l =
     (case map_of after l of
        None \<Rightarrow> [Disappeared l]
      | Some a \<Rightarrow> (case map_of before l of None \<Rightarrow> [Appeared l] | Some b \<Rightarrow> compare_agents l b a))"

definition compare_snapshots :: "snapshot \<Rightarrow> snapshot \<Rightarrow> difference list" where
  "compare_snapshots before after =
     concat (map (compare_label before after) (sort (remdups (map fst before @ map fst after))))"

section \<open>The guard\<close>

datatype guard_refusal =
    Cannot_Snapshot | Unknown_Fields "(string \<times> string list) list" | Unreadable_Plist_Port string | Unreadable_Job_Port string
  | Wrong_Label | Wrong_Env string | Canonical_Unreadable string | Canonical_Port | Agent_Port string
  | Cannot_Tell | Has_Listener | Bad_Number

text \<open>The ports of one agent: the one its job serves and the one its plist records.\<close>

definition claim_port :: "string option \<Rightarrow> string \<Rightarrow> (int \<rightharpoonup> string) \<Rightarrow> guard_refusal + (int \<rightharpoonup> string)" where
  "claim_port p label ports =
     (case p of
        Some (c # cs) \<Rightarrow> (case py_int (c # cs) of None \<Rightarrow> Raise Bad_Number | Some k \<Rightarrow> Ok (ports(k \<mapsto> label)))
      | _ \<Rightarrow> Ok ports)"

fun snapshot_ports_from :: "(int \<rightharpoonup> string) \<Rightarrow> snapshot \<Rightarrow> guard_refusal + (int \<rightharpoonup> string)" where
  "snapshot_ports_from ports [] = Ok ports"
| "snapshot_ports_from ports ((label, st) # rest) =
     (if ag_plist_port st = Some UNKNOWN then Raise (Unreadable_Plist_Port label)
      else if ag_endpoint st = Some Unreadable then Raise (Unreadable_Job_Port label)
      else bind_result (claim_port (case ag_endpoint st of Some (Serves (Tcp_At h p)) \<Rightarrow> Some p | _ \<Rightarrow> None) label ports)
        (\<lambda>ports1. bind_result (claim_port (ag_plist_port st) label ports1) (\<lambda>ports2. snapshot_ports_from ports2 rest)))"

definition snapshot_ports :: "snapshot \<Rightarrow> guard_refusal + (int \<rightharpoonup> string)" where
  "snapshot_ports snap = snapshot_ports_from Map.empty snap"

definition CANONICAL_BACKENDS :: "string list" where
  "CANONICAL_BACKENDS = [''mlx'', ''kyutai'', ''parakeet'', ''nemotron'']"

fun canonical_ports_of :: "(string \<Rightarrow> run_answer) \<Rightarrow> string list \<Rightarrow> guard_refusal + int list" where
  "canonical_ports_of installer [] = Ok []"
| "canonical_ports_of installer (b # bs) =
     (case installer b of
        None \<Rightarrow> Raise (Canonical_Unreadable b)
      | Some (rc, out, err) \<Rightarrow>
          if rc \<noteq> 0 \<or> strip out = [] \<or> \<not> list_all is_digit_char (strip out) then Raise (Canonical_Unreadable b)
          else (case py_int (strip out) of
                  None \<Rightarrow> Raise Bad_Number
                | Some k \<Rightarrow> bind_result (canonical_ports_of installer bs) (\<lambda>ks. Ok (k # ks))))"

definition canonical_ports :: "(string \<Rightarrow> run_answer) \<Rightarrow> guard_refusal + int list" where
  "canonical_ports installer = canonical_ports_of installer CANONICAL_BACKENDS"

definition is_listening :: "run_answer \<Rightarrow> bool \<Rightarrow> guard_refusal + bool" where
  "is_listening a connects =
     (case listener_pids None a of
        None \<Rightarrow> Raise Cannot_Tell
      | Some pids \<Rightarrow> Ok (pids \<noteq> [] \<or> connects))"

definition wrong_env :: "(string \<rightharpoonup> string) \<Rightarrow> string option" where
  "wrong_env env = find (\<lambda>n. env n \<noteq> Some SPARE_LABEL) [''PIPECAT_STT_LABEL'', ''KODA_STT_LABEL'']"

definition check_guard ::
  "string \<Rightarrow> int \<Rightarrow> (string \<rightharpoonup> string) \<Rightarrow> int list \<Rightarrow> guard_refusal + bool \<Rightarrow> (int \<rightharpoonup> string) \<Rightarrow> guard_refusal + unit" where
  "check_guard label port env canonical listening agents =
     (if label \<noteq> SPARE_LABEL then Raise Wrong_Label
      else case wrong_env env of
        Some n \<Rightarrow> Raise (Wrong_Env n)
      | None \<Rightarrow>
          if port \<in> set canonical then Raise Canonical_Port
          else case agents port of
            Some l \<Rightarrow> Raise (Agent_Port l)
          | None \<Rightarrow> bind_result listening (\<lambda>b. if b then Raise Has_Listener else Ok ()))"

text \<open>\<open>_locked_main\<close> up to the guard's verdict: the baseline the run will be compared with, or why it is refused.\<close>

definition admit_run ::
  "machine \<Rightarrow> string \<Rightarrow> int \<Rightarrow> (string \<rightharpoonup> string) \<Rightarrow> (string \<Rightarrow> run_answer) \<Rightarrow> run_answer \<Rightarrow> bool \<Rightarrow> guard_refusal + snapshot" where
  "admit_run m label port env installer lsof connects =
     (case snapshot_real_agents m of
        None \<Rightarrow> Raise Cannot_Snapshot
      | Some before \<Rightarrow>
          if snapshot_unknowns before \<noteq> [] then Raise (Unknown_Fields (snapshot_unknowns before))
          else bind_result (snapshot_ports before) (\<lambda>ports.
            bind_result (canonical_ports installer) (\<lambda>canonical.
              bind_result (check_guard label port env canonical (is_listening lsof connects) ports) (\<lambda>_. Ok before))))"

section \<open>Comparing snapshots\<close>

definition known :: "agent_state \<Rightarrow> bool" where
  "known st \<longleftrightarrow> list_all (\<lambda>(n, v). \<not> unknown_value v) (agent_fields st)"

lemma compare_agents_none: "compare_agents l b a = [] \<longleftrightarrow> a = b \<and> known b"
  by (cases a; cases b) (auto simp: compare_agents_def known_def agent_fields_def)

lemma compare_label_none:
  "compare_label before after l = [] \<longleftrightarrow> (\<exists>st. map_of before l = Some st \<and> map_of after l = Some st \<and> known st)"
  by (auto simp: compare_label_def compare_agents_none split: option.splits)

lemma compare_none:
  "compare_snapshots before after = [] \<longleftrightarrow>
     (\<forall>l \<in> fst ` set before \<union> fst ` set after. \<exists>st. map_of before l = Some st \<and> map_of after l = Some st \<and> known st)"
  by (auto simp: compare_snapshots_def concat_eq_Nil_conv compare_label_none)

text \<open>A comparison without differences means exactly that nothing changed and everything was read: it is
  empty if and only if both snapshots have the same agents, each agent has the same seven fields, and none of
  them is a value that could not be read. A field that is unreadable on both sides never counts as unchanged.\<close>

theorem compare_snapshots_iff:
  "compare_snapshots before after = [] \<longleftrightarrow>
     map_of before = map_of after \<and> list_all (\<lambda>l. case map_of before l of None \<Rightarrow> True | Some st \<Rightarrow> known st) (map fst before)"
proof
  assume "compare_snapshots before after = []"
  then have c: "\<exists>st. map_of before l = Some st \<and> map_of after l = Some st \<and> known st"
    if "l \<in> fst ` set before \<union> fst ` set after" for l
    using that unfolding compare_none by blast
  have "map_of before l = map_of after l" for l
  proof (cases "l \<in> fst ` set before \<union> fst ` set after")
    case True
    then show ?thesis using c [of l] by auto
  next
    case False
    then have "map_of before l = None" "map_of after l = None" by (simp_all add: map_of_eq_None_iff)
    then show ?thesis by simp
  qed
  moreover have "case map_of before l of None \<Rightarrow> True | Some st \<Rightarrow> known st" if "l \<in> set (map fst before)" for l
    using c [of l] that by auto
  ultimately show "map_of before = map_of after \<and> list_all (\<lambda>l. case map_of before l of None \<Rightarrow> True | Some st \<Rightarrow> known st) (map fst before)"
    by (auto simp: list_all_iff)
next
  assume a: "map_of before = map_of after \<and> list_all (\<lambda>l. case map_of before l of None \<Rightarrow> True | Some st \<Rightarrow> known st) (map fst before)"
  have "\<exists>st. map_of before l = Some st \<and> map_of after l = Some st \<and> known st" if "l \<in> fst ` set before \<union> fst ` set after" for l
  proof -
    have "map_of before l \<noteq> None" using that a by (metis Un_iff map_of_eq_None_iff)
    then obtain st where st: "map_of before l = Some st" by (cases "map_of before l") auto
    then have "l \<in> set (map fst before)" by (metis image_set map_of_eq_None_iff option.distinct(1))
    then show ?thesis using a st by (auto simp: list_all_iff)
  qed
  then show "compare_snapshots before after = []" unfolding compare_none by blast
qed

lemma read_agents_map: "read_agents m ls = Some snap \<Longrightarrow> map fst snap = ls \<and> (\<forall>l st. map_of snap l = Some st \<longrightarrow> read_agent m l = Some st)"
  by (induction ls arbitrary: snap) (auto split: option.splits if_splits)

lemma snapshot_reads: "snapshot_real_agents m = Some snap \<Longrightarrow> map_of snap l = Some st \<Longrightarrow> read_agent m l = Some st"
  using read_agents_map by (auto simp: snapshot_real_agents_def split: option.splits)

lemma first_number_ne: "first_number key ls \<noteq> Some []"
  by (induction ls) (auto simp: Let_def split: if_splits)

lemma read_agent_identity:
  assumes "read_agent m l = Some st" "ag_pid st \<noteq> None" "known st"
  shows "launchd_pid_runs (mc_print m l) = Some (ag_pid st, ag_runs st) \<and> readable_identity (ag_pid st, ag_runs st)"
proof -
  obtain loaded pid runs ep where r: "read_job (mc_print m l) = Some (loaded, pid, runs, ep)"
    "ag_pid st = pid" "ag_runs st = runs"
    using assms(1) by (auto simp: read_agent_def split: option.splits prod.splits)
  obtain j where j: "read_job_print (mc_print m l) = Some j" "jp_loaded j" "pid = jp_pid j" "runs = jp_runs j"
    using r assms(2) by (auto simp: read_job_def split: option.splits if_splits)
  have k: "runs \<noteq> Some UNKNOWN" using assms(3) r by (auto simp: known_def agent_fields_def)
  obtain rc t where t: "parse_print rc t = Some j" using j(1) by (auto simp: read_job_print_def split: option.splits)
  have "the_pid pid \<noteq> []" "runs_readable runs"
    using t j(2-4) k assms(2) r(2) first_number_ne
    by (auto simp: parse_print_def Let_def parse_launchd_pid_def parse_runs_def the_pid_def runs_readable_def split: if_splits option.splits)
  then show ?thesis using j r by (simp add: launchd_pid_runs_def launchd_identity_def readable_identity_def)
qed

text \<open>C32: an unchanged snapshot means that no running agent was touched in between. If two snapshots of the machine
  compare without differences, then for every agent that the first one shows running, one of two things is true at every
  moment between the two readings of its job: it was loaded and running under the same pid and spawn count, so it had
  not been restarted or stopped, not even to come back under the same pid; or it was unloaded and loaded again in
  between, and its new load runs under the same pid with the same spawn count: a reload that comes back to both is the
  one change of a running agent the comparison cannot see.\<close>

theorem unchanged_means_not_restarted:
  assumes "snapshot_real_agents m1 = Some before" "snapshot_real_agents m2 = Some after" "compare_snapshots before after = []"
    and "map_of before l = Some st" "ag_pid st \<noteq> None"
    and "answers j (mc_print m1 l)" "answers n (mc_print m2 l)" "js_pid j \<noteq> Some []" "js_pid n \<noteq> Some []"
    and "job_moves\<^sup>*\<^sup>* j k" "job_moves\<^sup>*\<^sup>* k n"
  shows "same_run k j (the (ag_pid st)) \<or> reloaded j n \<and> same_run n j (the (ag_pid st))"
proof -
  have "l \<in> fst ` set before" using assms(4) by (metis map_of_eq_None_iff option.distinct(1))
  then have s: "map_of after l = Some st" "known st" using assms(3,4) unfolding compare_none by force+
  note a = read_agent_identity [OF snapshot_reads [OF assms(1,4)] assms(5) s(2)]
    and b = read_agent_identity [OF snapshot_reads [OF assms(2) s(1)] assms(5) s(2)]
  have "the_pid (ag_pid st) = the (ag_pid st)" using assms(5) by (auto simp: the_pid_def)
  then show ?thesis
    using identity_held [of "mc_print m1 l" "(ag_pid st, ag_runs st)" "mc_print m2 l" j n k] a b assms(6-11) by simp
qed

definition sample_agent_print :: run_answer where
  "sample_agent_print =
     Some (0, ''pid = 12'' @ [LF] @ ''runs = 3'' @ [LF] @ ''arguments = {'' @ [LF] @ ''py'' @ [LF] @ ''--port'' @ [LF] @ ''09'' @ [LF] @ ''}'', [])"

definition absent_plist :: plist_world where
  "absent_plist = \<lparr>pw_open = Raise ''FileNotFoundError'', pw_regular = Ok True, pw_reads = [], pw_parse = (\<lambda>_. Raise [])\<rparr>"

definition sample_machine :: machine where
  "sample_machine = \<lparr>mc_list = Some (0, ''12 0 pipecat.stt-server'', []), mc_plist_names = [], mc_print = (\<lambda>_. sample_agent_print),
     mc_plist = (\<lambda>_. absent_plist), mc_lock_exists = (\<lambda>_. False), mc_lsof = (\<lambda>_. sample_lsof), mc_sha = (\<lambda>_. [])\<rparr>"

definition sample_agent :: agent_state where
  "sample_agent = \<lparr>ag_loaded = True, ag_pid = Some ''12'', ag_runs = Some ''3'', ag_endpoint = Some (Serves (Tcp_At [] ''9'')),
     ag_plist = None, ag_listener = Some ''77'', ag_plist_port = None\<rparr>"

lemma sample_agent_printed:
  "read_job_print sample_agent_print =
     Some \<lparr>jp_loaded = True, jp_pid = Some ''12'', jp_runs = Some ''3'', jp_argv = [''py'', ''--port'', ''09'']\<rparr>"
  by (simp add: read_job_print_def read_print_def sample_agent_print_def parse_print_def parse_launchd_pid_def parse_runs_def
      parse_job_argv_def text_lines_def split_on_def split_on_from.simps lstrip_def strip_def is_space_def is_digit_def in_range_def
      stripped_lines_def splitlines_def is_linebreak_def)

lemma sample_port: "parse_port ''09'' = Some 9" "show_int 9 = ''9''"
  by (simp add: parse_port_def py_int_def strip_def lstrip_def is_space_def is_digit_def digit_val_def in_range_def) code_simp

lemma sample_endpoint: "argv_endpoint [''py'', ''--port'', ''09''] = Some (Serves (Tcp_At [] ''9''))"
  by (simp add: argv_endpoint_def canonical_port_def sample_port SERVE_FLAGS_def SWITCHES_def partition_at_def UNKNOWN_def Let_def)

lemma sample_any_listener: "listener_pids None sample_lsof = Some [''77'']"
  by (simp add: listener_pids_def lsof_output_def sample_lsof_def parse_listing_def splitlines_def is_linebreak_def
      flush_pid_def addr_matches_def)

lemma sample_labels: "real_agent_labels sample_machine = Some [''pipecat.stt-server'']"
  by (simp add: real_agent_labels_def sample_machine_def agent_plists_def loaded_agent_labels_def splitlines_def is_linebreak_def
      split_ws_def is_space_def AGENT_PREFIX_def SPARE_LABEL_def)

lemma sample_read: "read_agent sample_machine ''pipecat.stt-server'' = Some sample_agent"
  by (simp add: read_agent_def read_job_def sample_machine_def sample_agent_printed sample_endpoint sample_agent_def
      plist_record_def read_bytes_def absent_plist_def endpoint_listener_def endpoint_holders_def sample_any_listener the_pid_def)

lemma sample_snapshot: "snapshot_real_agents sample_machine = Some [(''pipecat.stt-server'', sample_agent)]"
  by (simp add: snapshot_real_agents_def sample_labels sample_read)

lemma sample_known: "known sample_agent"
  by (simp add: known_def agent_fields_def sample_agent_def UNKNOWN_def)

theorem unchanged_means_not_restarted_witness:
  "ag_pid sample_agent = Some ''12'' \<and> js_loaded \<lparr>js_loaded = True, js_pid = Some ''12'', js_runs = 3, js_loads = 0\<rparr>"
proof -
  let ?j = "\<lparr>js_loaded = True, js_pid = Some ''12'', js_runs = 3, js_loads = 0\<rparr>" and ?s = "[(''pipecat.stt-server'', sample_agent)]"
  have "py_int ''3'' = Some 3"
    by (simp add: py_int_def strip_def lstrip_def is_space_def is_digit_def digit_val_def in_range_def)
  then have a: "answers ?j (mc_print sample_machine ''pipecat.stt-server'')"
    by (simp add: answers_def sample_machine_def sample_agent_printed)
  have c: "compare_snapshots ?s ?s = []" using sample_known by (simp add: compare_none)
  have "same_run ?j ?j (the (ag_pid sample_agent)) \<or> reloaded ?j ?j \<and> same_run ?j ?j (the (ag_pid sample_agent))"
    by (rule unchanged_means_not_restarted [OF sample_snapshot sample_snapshot c, of _ _ ?j ?j])
      (use a in \<open>simp_all add: sample_agent_def\<close>)
  then show ?thesis by (simp add: same_run_def sample_agent_def)
qed

section \<open>What the guard keeps away from\<close>

lemma digit_no_space: "is_digit c \<Longrightarrow> \<not> is_space c"
  by (auto simp: is_digit_def is_space_def in_range_def Let_def)

lemma lstrip_solid: "s \<noteq> [] \<Longrightarrow> \<not> is_space (hd s) \<Longrightarrow> lstrip s = s"
  by (cases s) (simp_all add: lstrip_def)

lemma strip_solid: "s \<noteq> [] \<Longrightarrow> \<not> is_space (hd s) \<Longrightarrow> \<not> is_space (last s) \<Longrightarrow> strip s = s"
  by (simp add: strip_def lstrip_solid hd_rev)

lemma py_int_show: "py_int (show_int k) = Some k"
proof -
  define n where "n = nat \<bar>k\<bar>"
  have d: "list_all is_digit (show_nat n)" by (rule show_nat_digits)
  obtain c cs where c: "show_nat n = c # cs" using digits_show_nat [of n] by (cases "show_nat n") auto
  have e: "is_digit c" "is_digit (last (c # cs))" using d c by (auto simp: list_all_iff)
  have v: "digits_from 0 False (show_nat n) = Some n"
    using digits_show_nat [of n] by blast
  have cm: "c \<noteq> CHR ''-''" "c \<noteq> CHR ''+''" using e(1) by (auto simp: is_digit_def in_range_def)
  show ?thesis
  proof (cases "k < 0")
    case True
    then have s: "show_int k = CHR ''-'' # show_nat n" by (simp add: show_int_def n_def)
    have "strip (CHR ''-'' # show_nat n) = CHR ''-'' # show_nat n"
      using digit_no_space [OF e(2)] c by (intro strip_solid) (simp_all add: is_space_def)
    then show ?thesis using v s True by (simp add: py_int_def n_def)
  next
    case False
    then have s: "show_int k = show_nat n" by (simp add: show_int_def n_def)
    have "strip (show_nat n) = show_nat n"
      using digit_no_space [OF e(1)] digit_no_space [OF e(2)] c by (intro strip_solid) simp_all
    then show ?thesis using v s False c cm by (simp add: py_int_def n_def)
  qed
qed

lemma py_int_empty: "py_int [] = None"
  by (simp add: py_int_def strip_def lstrip_def)

lemma claim_port_Ok:
  assumes "claim_port p l ports = Ok ports'"
  shows "(\<forall>k. ports k \<noteq> None \<longrightarrow> ports' k \<noteq> None) \<and> (\<forall>t k. p = Some t \<longrightarrow> py_int t = Some k \<longrightarrow> ports' k \<noteq> None)"
proof (cases p)
  case None
  then show ?thesis using assms by (simp add: claim_port_def)
next
  case (Some t)
  show ?thesis
  proof (cases t)
    case Nil
    then show ?thesis using assms Some by (simp add: claim_port_def py_int_empty)
  next
    case (Cons c cs)
    then show ?thesis using assms Some by (cases "py_int (c # cs)") (auto simp: claim_port_def)
  qed
qed

definition port_claims :: "agent_state \<Rightarrow> int set" where
  "port_claims st = {k. (\<exists>h p. ag_endpoint st = Some (Serves (Tcp_At h p)) \<and> py_int p = Some k) \<or> (\<exists>p. ag_plist_port st = Some p \<and> py_int p = Some k)}"

lemma snapshot_ports_claims:
  "snapshot_ports_from ports snap = Ok ports' \<Longrightarrow>
     (\<forall>k. ports k \<noteq> None \<longrightarrow> ports' k \<noteq> None) \<and> (\<forall>l st k. (l, st) \<in> set snap \<longrightarrow> k \<in> port_claims st \<longrightarrow> ports' k \<noteq> None)"
proof (induction ports snap rule: snapshot_ports_from.induct)
  case (2 ports label st rest)
  let ?p = "case ag_endpoint st of Some (Serves (Tcp_At h p)) \<Rightarrow> Some p | _ \<Rightarrow> None"
  obtain p1 p2 where p: "claim_port ?p label ports = Ok p1" "claim_port (ag_plist_port st) label p1 = Ok p2"
    "snapshot_ports_from p2 rest = Ok ports'" "ag_plist_port st \<noteq> Some UNKNOWN" "ag_endpoint st \<noteq> Some Unreadable"
    using "2.prems" by (auto simp: bind_result_Ok_iff split: if_splits)
  note a = claim_port_Ok [OF p(1)] and b = claim_port_Ok [OF p(2)] and r = "2.IH" [OF p(4,5) p(3)]
  have own: "p2 k \<noteq> None" if "k \<in> port_claims st" for k
    using that unfolding port_claims_def mem_Collect_eq
  proof (elim disjE exE conjE)
    fix h q assume "ag_endpoint st = Some (Serves (Tcp_At h q))" "py_int q = Some k"
    then show ?thesis using a b by simp
  next
    fix q assume "ag_plist_port st = Some q" "py_int q = Some k"
    then show ?thesis using b by simp
  qed
  have "ports' k \<noteq> None" if "ports k \<noteq> None" for k
    using a [THEN conjunct1, rule_format, OF that] b [THEN conjunct1] r [THEN conjunct1] by blast
  moreover have "ports' k \<noteq> None" if "(l, x) \<in> set ((label, st) # rest)" "k \<in> port_claims x" for l x k
  proof (cases "x = st")
    case True
    then show ?thesis using own that(2) r [THEN conjunct1] by blast
  next
    case False
    then have "(l, x) \<in> set rest" using that(1) by auto
    then show ?thesis using that(2) r [THEN conjunct2] by blast
  qed
  ultimately show ?case by blast
qed simp

lemma admit_run_Ok:
  assumes "admit_run m label port env installer lsof connects = Ok before"
  shows "snapshot_real_agents m = Some before \<and> snapshot_unknowns before = [] \<and> label = SPARE_LABEL \<and> wrong_env env = None \<and>
    (\<exists>ks. canonical_ports installer = Ok ks \<and> port \<notin> set ks) \<and> is_listening lsof connects = Ok False \<and>
    (\<forall>l st. (l, st) \<in> set before \<longrightarrow> port \<notin> port_claims st)"
proof -
  obtain ports ks where p: "snapshot_real_agents m = Some before" "snapshot_unknowns before = []" "snapshot_ports before = Ok ports"
    "canonical_ports installer = Ok ks" "check_guard label port env ks (is_listening lsof connects) ports = Ok ()"
    using assms by (auto simp: admit_run_def bind_result_Ok_iff split: option.splits if_splits)
  have g: "label = SPARE_LABEL" "wrong_env env = None" "port \<notin> set ks" "ports port = None" "is_listening lsof connects = Ok False"
    using p(5) by (auto simp: check_guard_def bind_result_Ok_iff split: if_splits option.splits)
  have "snapshot_ports_from Map.empty before = Ok ports" using p(3) by (simp add: snapshot_ports_def)
  from snapshot_ports_claims [OF this] have "port \<notin> port_claims st" if "(l, st) \<in> set before" for l st
    using that g(4) by blast
  then show ?thesis using p g by blast
qed

lemma show_int_known: "show_int k \<noteq> UNKNOWN"
proof
  assume "show_int k = UNKNOWN"
  then have "py_int UNKNOWN = Some k" using py_int_show [of k] by simp
  then show False by (simp add: UNKNOWN_def py_int_def strip_def lstrip_def is_space_def is_digit_def in_range_def)
qed

text \<open>The endpoint read from the words of a server's command line is the port its own parser takes.\<close>

lemma endpoint_of_server:
  assumes "main_command argv = Some (Cmd_Serve ns)" "list_all (\<lambda>a. \<not> prefix ''--'' a) pre"
    and "ns ''--socket-path'' = None" "ns ''--port'' = Some (A_Int k)"
  shows "\<exists>h. argv_endpoint (pre @ argv) = Some (Serves (Tcp_At h (show_int k)))"
proof -
  let ?f = "read_argv_flags [] Map.empty (pre @ argv)"
  have f: "\<forall>f \<in> set SERVE_FLAGS. flag_agrees f (?f f) (ns f)" by (rule reader_flags [OF assms(1,2)])
  then have "flag_agrees ''--port'' (?f ''--port'') (ns ''--port'')" "flag_agrees ''--socket-path'' (?f ''--socket-path'') (ns ''--socket-path'')"
    by (simp_all add: SERVE_FLAGS_def)
  then obtain v where "?f ''--port'' = Some v" "parse_port v = Some k" "?f ''--socket-path'' = None"
    using assms(3,4) by (cases "?f ''--port''"; cases "?f ''--socket-path''") auto
  then show ?thesis using show_int_known [of k] by (simp add: argv_endpoint_def canonical_port_def Let_def)
qed

text \<open>What the guard lets through. When a run is admitted, its label is the spare one and the environment says so
  too, every agent of the baseline was read completely, nothing listens on the port, and the port is neither a
  canonical one nor that of any agent: an agent whose running job was started with a command line that this
  program's own parser takes for the TCP port \<open>k\<close>, however it is written, has \<open>k\<close> different from the port, and so
  has the port its plist records.\<close>

theorem guard_spares_agents:
  assumes "admit_run m label port env installer lsof connects = Ok before"
    and "map_of before l = Some st" "read_job_print (mc_print m l) = Some j" "jp_loaded j" "jp_argv j = pre @ argv"
    and "list_all (\<lambda>a. \<not> prefix ''--'' a) pre" "main_command argv = Some (Cmd_Serve ns)" "ns ''--socket-path'' = None"
  shows "label = SPARE_LABEL \<and> wrong_env env = None \<and> is_listening lsof connects = Ok False \<and> snapshot_unknowns before = [] \<and>
    (\<exists>ks. canonical_ports installer = Ok ks \<and> port \<notin> set ks) \<and>
    ns ''--port'' \<noteq> Some (A_Int port) \<and> ag_plist_port st \<noteq> Some (show_int port)"
proof -
  note a = admit_run_Ok [OF assms(1)]
  have "(l, st) \<in> set before" using assms(2) by (rule map_of_SomeD)
  then have c: "port \<notin> port_claims st" using a by blast
  have "read_agent m l = Some st" using snapshot_reads a assms(2) by blast
  then have e: "ag_endpoint st = argv_endpoint (pre @ argv)"
    using assms(3-5) by (auto simp: read_agent_def read_job_def split: prod.splits)
  have "ns ''--port'' \<noteq> Some (A_Int port)"
    using endpoint_of_server [OF assms(7,6,8), of port] c e py_int_show [of port] by (auto simp: port_claims_def)
  moreover have "ag_plist_port st \<noteq> Some (show_int port)" using c py_int_show [of port] by (auto simp: port_claims_def)
  ultimately show ?thesis using a by blast
qed

definition sample_serving :: machine where
  "sample_serving = sample_machine\<lparr>mc_print := (\<lambda>_. Some (0, ''pid = 12'' @ [LF] @ ''runs = 3'' @ [LF] @ ''arguments = {'' @ [LF] @ ''py'' @ [LF]
     @ ''serve'' @ [LF] @ ''--port'' @ [LF] @ ''09'' @ [LF] @ ''}'', []))\<rparr>"

lemma sample_serving_print:
  "read_job_print (mc_print sample_serving l) =
     Some \<lparr>jp_loaded = True, jp_pid = Some ''12'', jp_runs = Some ''3'', jp_argv = [''py'', ''serve'', ''--port'', ''09'']\<rparr>"
  by (simp add: read_job_print_def read_print_def sample_serving_def parse_print_def parse_launchd_pid_def parse_runs_def
      parse_job_argv_def text_lines_def split_on_def split_on_from.simps lstrip_def strip_def is_space_def is_digit_def in_range_def
      stripped_lines_def splitlines_def is_linebreak_def)

lemma sample_serving_read: "read_agent sample_serving ''pipecat.stt-server'' = Some sample_agent"
proof -
  have e: "argv_endpoint [''py'', ''serve'', ''--port'', ''09''] = Some (Serves (Tcp_At [] ''9''))"
    by (simp add: argv_endpoint_def canonical_port_def sample_port SERVE_FLAGS_def SWITCHES_def partition_at_def UNKNOWN_def Let_def)
  show ?thesis
    by (simp add: read_agent_def read_job_def sample_serving_print e sample_agent_def)
      (simp add: sample_serving_def sample_machine_def plist_record_def read_bytes_def absent_plist_def endpoint_listener_def
        endpoint_holders_def sample_any_listener the_pid_def)
qed

definition sample_installer :: "string \<Rightarrow> run_answer" where
  "sample_installer = (\<lambda>_. Some (0, ''7'', []))"

lemma sample_admitted:
  "admit_run sample_serving SPARE_LABEL 8 (\<lambda>_. Some SPARE_LABEL) sample_installer (Some (1, [], [])) False =
     Ok [(''pipecat.stt-server'', sample_agent)]"
proof -
  have s: "snapshot_real_agents sample_serving = Some [(''pipecat.stt-server'', sample_agent)]"
  proof -
    have "real_agent_labels sample_serving = Some [''pipecat.stt-server'']"
    proof -
      have "mc_list sample_serving = mc_list sample_machine" "mc_plist_names sample_serving = mc_plist_names sample_machine"
        by (simp_all add: sample_serving_def)
      then show ?thesis using sample_labels by (simp add: real_agent_labels_def)
    qed
    then show ?thesis by (simp add: snapshot_real_agents_def sample_serving_read)
  qed
  have u: "snapshot_unknowns [(''pipecat.stt-server'', sample_agent)] = []"
    by (simp add: snapshot_unknowns_def agent_fields_def sample_agent_def UNKNOWN_def)
  have n: "py_int ''9'' = Some 9" "py_int ''7'' = Some 7" "strip ''7'' = ''7''"
    by (simp_all add: py_int_def strip_def lstrip_def is_space_def is_digit_def digit_val_def in_range_def)
  have p: "snapshot_ports [(''pipecat.stt-server'', sample_agent)] = Ok [9 \<mapsto> ''pipecat.stt-server'']"
    by (simp add: snapshot_ports_def sample_agent_def claim_port_def n)
  have c: "canonical_ports sample_installer = Ok [7, 7, 7, 7]"
    by (simp add: canonical_ports_def CANONICAL_BACKENDS_def sample_installer_def n is_digit_char_def is_digit_def in_range_def)
  have li: "is_listening (Some (1, [], [])) False = Ok False"
    by (simp add: is_listening_def listener_pids_def lsof_output_def only_warnings_def stripped_lines_def splitlines_def
        parse_listing_def flush_pid_def)
  show ?thesis by (simp add: admit_run_def s u p c li check_guard_def wrong_env_def)
qed

lemma sample_serve_parsed:
  "main_command [''serve'', ''--port'', ''09''] = Some (Cmd_Serve [''--port'' \<mapsto> A_Int 9])"
  using sample_port(1)
  by (simp add: main_command_def run_parser_def find_option_def named_before_def partition_at_def
      abbreviated_def serve_parser_def help_option_def add_endpoint_flags_def parse_port_def is_value_def is_digit_def in_range_def)

theorem guard_spares_agents_witness:
  "ag_plist_port sample_agent \<noteq> Some (show_int 8) \<and> is_listening (Some (1, [], [])) False = Ok False"
  using guard_spares_agents [OF sample_admitted, of "''pipecat.stt-server''" sample_agent _ "[''py'']" "[''serve'', ''--port'', ''09'']"]
    sample_serving_print sample_serve_parsed by simp

end
