(* ===== verification/Launchd_Harness.thy ===== *)
theory Launchd_Harness
  imports Agent_Snapshot Owned_Group
begin

text \<open>
  \<open>scripts/smoke_launchd.py\<close>, second half: the harness that installs a spare agent, checks it and removes it again.
  Its checks with the boundaries between them, its calls of the installer (over \<open>Owned_Group\<close>),
  the removal of the spare socket, its signals, and the time it may take. Its teardown is in \<open>Launchd_Teardown\<close>,
  the bodies of its checks in \<open>Launchd_Checks\<close>. Answers of the system are inputs; the texts of rows and problems are
  left out, their kinds are kept.
\<close>

section \<open>Checks and boundaries\<close>

datatype stop_reason = Port_Lost | Launchd_Unreadable | Agents_Changed | Installer_Not_Stopped

text \<open>\<open>Interrupt\<close>: what is no \<open>Exception\<close> (a signal, an exit).\<close>

datatype raised = Stop stop_reason | Check_Failed | Assertion_Failed | Crashed | Interrupt

text \<open>What the harness reads before a check, and how the check's body ends.\<close>

record check_run =
  cr_name :: string
  cr_agents :: "snapshot option"
  cr_listeners :: run_answer
  cr_print :: run_answer
  cr_body :: "raised + string"

definition ensure_real_agents_unchanged :: "snapshot \<Rightarrow> check_run \<Rightarrow> raised + unit" where
  "ensure_real_agents_unchanged baseline c =
     (case cr_agents c of
        None \<Rightarrow> Raise (Stop Agents_Changed)
      | Some now \<Rightarrow> if compare_snapshots baseline now \<noteq> [] then Raise (Stop Agents_Changed) else Ok ())"

definition ensure_port_ours :: "check_run \<Rightarrow> raised + unit" where
  "ensure_port_ours c =
     (case listener_pids None (cr_listeners c) of
        None \<Rightarrow> Raise (Stop Port_Lost)
      | Some pids \<Rightarrow>
          (case require_launchd_state (cr_print c) of
             None \<Rightarrow> Raise (Stop Launchd_Unreadable)
           | Some (_, pid) \<Rightarrow> if filter (\<lambda>p. Some p \<noteq> pid) pids \<noteq> [] then Raise (Stop Port_Lost) else Ok ()))"

definition boundary :: "snapshot \<Rightarrow> bool \<Rightarrow> check_run \<Rightarrow> raised + unit" where
  "boundary baseline first c =
     bind_result (ensure_real_agents_unchanged baseline c) (\<lambda>_. if first then Ok () else ensure_port_ours c)"

text \<open>The rows, the checks whose body ran, whether an installer may still be running, and what propagates.\<close>

record checks_done =
  cd_rows :: "(string \<times> row_outcome) list"
  cd_bodies :: "check_run list"
  cd_frozen :: bool
  cd_raises :: bool

definition no_checks :: checks_done where
  "no_checks = \<lparr>cd_rows = [], cd_bodies = [], cd_frozen = False, cd_raises = False\<rparr>"

definition add_row :: "string \<times> row_outcome \<Rightarrow> checks_done \<Rightarrow> checks_done" where
  "add_row r d = d\<lparr>cd_rows := r # cd_rows d\<rparr>"

definition add_body :: "check_run \<Rightarrow> checks_done \<Rightarrow> checks_done" where
  "add_body c d = d\<lparr>cd_bodies := c # cd_bodies d\<rparr>"

text \<open>A check ended with an exception: stop, propagate, or go on.\<close>

definition check_raised :: "raised \<Rightarrow> string \<Rightarrow> string list \<Rightarrow> checks_done \<Rightarrow> checks_done" where
  "check_raised e name later go_on =
     (case e of
        Stop r \<Rightarrow> no_checks\<lparr>cd_rows := (name, FAIL) # map (\<lambda>n. (n, SKIPPED)) later, cd_frozen := (r = Installer_Not_Stopped)\<rparr>
      | Interrupt \<Rightarrow> no_checks\<lparr>cd_raises := True\<rparr>
      | _ \<Rightarrow> add_row (name, FAIL) go_on)"

fun run_checks :: "snapshot \<Rightarrow> bool \<Rightarrow> check_run list \<Rightarrow> checks_done" where
  "run_checks baseline first [] = no_checks"
| "run_checks baseline first (c # cs) =
     (let go_on = run_checks baseline False cs; later = map cr_name cs
      in case boundary baseline first c of
           Inl e \<Rightarrow> check_raised e (cr_name c) later go_on
         | Inr _ \<Rightarrow>
             add_body c (case cr_body c of
                 Inl e \<Rightarrow> check_raised e (cr_name c) later go_on
               | Inr _ \<Rightarrow> add_row (cr_name c, PASS) go_on))"

section \<open>The installer\<close>

text \<open>The options of the call: no signal to the leader, no grace; during the teardown nothing stops it.\<close>

definition UNLOAD_WAIT :: int where "UNLOAD_WAIT = 30"
definition INSTALL_TIMEOUT :: int where "INSTALL_TIMEOUT = UNLOAD_WAIT + 90"

definition installer_options :: "bool \<Rightarrow> (nat \<Rightarrow> disposition) \<Rightarrow> run_options" where
  "installer_options teardown handler =
     \<lparr>ro_timeout = INSTALL_TIMEOUT * 1000, ro_grace = 0, ro_stop_on_signal = \<not> teardown, ro_interrupt_signal = None,
      ro_timeout_signal = None, ro_main_thread = True, ro_handler = handler\<rparr>"

datatype installed = Refused_To_Run | Installer_Ended | Installer_Timed_Out | May_Still_Run | Other_Exception

text \<open>The result, and whether the owner is frozen afterwards.\<close>

definition run_installer :: "bool \<Rightarrow> ending \<Rightarrow> installed \<times> bool" where
  "run_installer frozen e =
     (if frozen then (Refused_To_Run, True)
      else case e of
        Returns timed_out \<Rightarrow> (if timed_out then Installer_Timed_Out else Installer_Ended, False)
      | Group_Not_Stopped \<Rightarrow> (May_Still_Run, True)
      | Handler_Raises b \<Rightarrow> if b then (May_Still_Run, True) else (Other_Exception, False)
      | Raises_In_Flight \<Rightarrow> (Other_Exception, False))"

definition BENIGN_WARNINGS :: "string list" where
  "BENIGN_WARNINGS = [''warning: socket mode (PIPECAT_STT_SOCKET set): ignoring '', ''warning: launchctl bootstrap failed for '',
     ''a socket agent carries none'']"

definition leave_behind_warnings :: "string \<Rightarrow> string list" where
  "leave_behind_warnings err =
     map strip (filter (\<lambda>l. prefix ''warning:'' (strip l) \<and> \<not> list_ex (\<lambda>b. contains b l) BENIGN_WARNINGS) (splitlines err))"

text \<open>\<open>install\<close>: a failed exit status or a leftover is a failed check.\<close>

definition install :: "int \<Rightarrow> string \<Rightarrow> raised + unit" where
  "install rc err = (if rc \<noteq> 0 \<or> leave_behind_warnings err \<noteq> [] then Raise Check_Failed else Ok ())"

definition SCRUB_PREFIXES :: "string list" where "SCRUB_PREFIXES = [''PIPECAT_STT_'', ''KODA_STT_'']"
definition SCRUB_KEEP :: "string list" where "SCRUB_KEEP = [''PIPECAT_STT_LOG_DIR'', ''KODA_STT_LOG_DIR'']"

definition put_opt :: "string \<Rightarrow> string option \<Rightarrow> (string \<rightharpoonup> string) \<Rightarrow> string \<rightharpoonup> string" where
  "put_opt k v env = (case v of None \<Rightarrow> env | Some x \<Rightarrow> env(k \<mapsto> x))"

definition install_env ::
  "string \<Rightarrow> int \<Rightarrow> string \<Rightarrow> string option \<Rightarrow> string option \<Rightarrow> (string \<rightharpoonup> string) \<Rightarrow> string \<rightharpoonup> string" where
  "install_env label port python sock token base =
     (let inherited = (\<lambda>k. if list_ex (\<lambda>p. prefix p k) SCRUB_PREFIXES \<and> k \<notin> set SCRUB_KEEP then None else harness_env base k)
      in put_opt ''PIPECAT_STT_AUTH_TOKEN_FILE'' token (put_opt ''PIPECAT_STT_SOCKET'' sock
           (inherited(''PIPECAT_STT_LABEL'' \<mapsto> label, ''KODA_STT_LABEL'' \<mapsto> label, ''PIPECAT_STT_BACKEND'' \<mapsto> ''echo'',
             ''PIPECAT_STT_PORT'' \<mapsto> show_int port, ''PIPECAT_STT_HOST'' \<mapsto> ''127.0.0.1'', ''PIPECAT_STT_PYTHON'' \<mapsto> python,
             ''PIPECAT_STT_UNLOAD_WAIT'' \<mapsto> show_int UNLOAD_WAIT))))"

section \<open>What the harness asks of the spare agent\<close>

definition running_identity :: "run_answer \<Rightarrow> raised + identity" where
  "running_identity a =
     (case read_job a of
        None \<Rightarrow> Raise (Stop Launchd_Unreadable)
      | Some (loaded, pid, runs, ep) \<Rightarrow>
          if loaded \<and> readable_identity (pid, runs) then Ok (pid, runs) else Raise Check_Failed)"

text \<open>A fresh reading by \<open>_identity\<close>; an unreadable state raises.\<close>

definition spare_identity :: "run_answer \<Rightarrow> raised + identity option" where
  "spare_identity a =
     (case read_job a of
        None \<Rightarrow> Raise (Stop Launchd_Unreadable)
      | Some (loaded, pid, runs, ep) \<Rightarrow> Ok (if loaded then Some (pid, runs) else None))"

definition is_status :: "handshake \<Rightarrow> bool" where
  "is_status h \<longleftrightarrow> (case h of Status n \<Rightarrow> True | _ \<Rightarrow> False)"

text \<open>\<open>verified_status\<close>, from its three readings of the job; \<open>None\<close>: the look for the server end never ends. The
  second reading happens only when the server end is the job's pid, the third only after an answer.\<close>

definition verified_status ::
  "dial \<Rightarrow> endpoint_addr \<Rightarrow> run_answer \<Rightarrow> run_answer \<Rightarrow> run_answer \<Rightarrow> peer \<Rightarrow> string \<Rightarrow> (raised + handshake) option" where
  "verified_status d ep a b c peer key =
     (case running_identity a of
        Inl e \<Rightarrow> Some (Raise e)
      | Inr i \<Rightarrow>
          (case connect_held_by d ep (the_pid (fst i)) True of
             None \<Rightarrow> None
           | Some (_, Inl e) \<Rightarrow> Some (Raise (if endpoint_refused e then Check_Failed else Crashed))
           | Some (_, Inr _) \<Rightarrow>
               Some (bind_result (spare_identity b) (\<lambda>now.
                 if \<not> confirm_identity_unchanged now i then Raise Check_Failed
                 else
                   let got = snd (ws_handshake_status (Over_Sock peer) key None)
                   in if \<not> is_status got then Ok got
                      else bind_result (spare_identity c) (\<lambda>after.
                        if \<not> confirm_identity_unchanged after i then Raise Check_Failed else Ok got)))))"

text \<open>\<open>squat_warns\<close>: the recipes' command; \<open>cli\<close>: whether it could run and answered in time.\<close>

definition squat_warns :: "run_answer \<Rightarrow> bool \<Rightarrow> squat_world \<Rightarrow> raised + bool" where
  "squat_warns a cli w =
     (case read_print a of
        None \<Rightarrow> Raise (Stop Launchd_Unreadable)
      | Some (rc, t) \<Rightarrow>
          if parse_print rc t = None then Raise (Stop Launchd_Unreadable)
          else if \<not> cli then Raise Check_Failed
          else Ok (fst (snd (squat_main w (Some ''127.0.0.1'') rc t True)) = 3))"

definition expect_transport :: "bool \<Rightarrow> plist \<Rightarrow> int \<Rightarrow> string \<Rightarrow> raised + unit" where
  "expect_transport tcp plist port sock =
     (let p = read_field plist ''port''; s = read_field plist ''socket-path''
      in if tcp then (if p \<noteq> show_int port \<or> s \<noteq> [] then Raise Check_Failed else Ok ())
         else if s \<noteq> sock \<or> p \<noteq> [] then Raise Check_Failed else Ok ())"

section \<open>The socket of the spare agent\<close>

text \<open>The file system while the teardown looks at it: what exists, the inode it opens, the attempts to lock it
  before the wait is over, and the later readings of the two paths.\<close>

record spare_files =
  sf_sock :: bool
  sf_lock :: bool
  sf_open :: "nat option"
  sf_lock_ours :: bool
  sf_attempts :: "bool list"
  sf_lock_then :: "nat option"
  sf_sock_then :: bool
  sf_sock_ours :: bool
  sf_unlink_sock :: bool
  sf_lock_later :: "nat option"
  sf_unlink_lock :: bool

datatype problem = No_Lock_File | Cannot_Open_Lock | Lock_Not_Ours | Still_Held | Lock_Replaced | Sock_Not_Ours | Cannot_Remove string
  | Uninstall_Failed | Other_Socket | Launchd_State | Still_Loaded | Left_Behind "string list" | Frozen

datatype removal = Unlink_Sock | Unlink_Lock

definition unlink_problem :: "bool \<Rightarrow> string \<Rightarrow> problem list" where
  "unlink_problem ok what = (if ok then [] else [Cannot_Remove what])"

definition remove_held :: "spare_files \<Rightarrow> nat \<Rightarrow> removal list \<times> problem list" where
  "remove_held f i =
     (if sf_lock_then f \<noteq> Some i then ([], [Lock_Replaced])
      else
        let (ops, ps) = (if \<not> sf_sock_then f then ([], [])
                         else if sf_sock_ours f then ([Unlink_Sock], unlink_problem (sf_unlink_sock f) ''socket'')
                         else ([], [Sock_Not_Ours]))
        in if sf_lock_later f = Some i then (ops @ [Unlink_Lock], ps @ unlink_problem (sf_unlink_lock f) ''lock'')
           else (ops, ps @ (if sf_lock_later f \<noteq> None then [Lock_Replaced] else [])))"

definition remove_spare_socket :: "spare_files \<Rightarrow> removal list \<times> problem list" where
  "remove_spare_socket f =
     (if \<not> sf_sock f \<and> \<not> sf_lock f then ([], [])
      else if \<not> sf_lock f then ([], [No_Lock_File])
      else case sf_open f of
        None \<Rightarrow> ([], [Cannot_Open_Lock])
      | Some i \<Rightarrow>
          if \<not> sf_lock_ours f then ([], [Lock_Not_Ours])
          else if \<not> list_ex id (sf_attempts f) then ([], [Still_Held])
          else remove_held f i)"

section \<open>Signals around the checks and the teardown\<close>

text \<open>Where \<open>checks_then_teardown\<close> is; the except bodies are places of their own until they have switched to
  "ignore signals". \<open>Escaped\<close>: an exception left the function before the verdict.\<close>

datatype place = Installing nat | Checking | Checked | Inner_Except | Outer_Except | Tearing_Down | Comparing | Printing | Exited
  | Escaped | Killed_By_Signal

datatype sig = Sig_Int | Sig_Term

record harness_run =
  hr_place :: place
  hr_int :: bool
  hr_term :: bool
  hr_tearing :: bool
  hr_interrupted :: bool
  hr_failed :: bool
  hr_torn_down :: bool
  hr_printed :: bool
  hr_early :: bool
  hr_exit :: "nat option"

definition harness_start :: harness_run where
  "harness_start = \<lparr>hr_place = Installing 0, hr_int = False, hr_term = False, hr_tearing = False, hr_interrupted = False,
     hr_failed = False, hr_torn_down = False, hr_printed = False, hr_early = False, hr_exit = None\<rparr>"

text \<open>An exception that is raised at a place.\<close>

fun unwinds :: "place \<Rightarrow> place" where
  "unwinds (Installing n) = Inner_Except"
| "unwinds Checking = Inner_Except"
| "unwinds Checked = Inner_Except"
| "unwinds Inner_Except = Outer_Except"
| "unwinds _ = Escaped"

definition begin_teardown :: "harness_run \<Rightarrow> harness_run" where
  "begin_teardown s = s\<lparr>hr_tearing := True, hr_int := True, hr_term := True, hr_place := Tearing_Down\<rparr>"

definition on_signal :: "harness_run \<Rightarrow> harness_run" where
  "on_signal s = (if hr_tearing s then s else s\<lparr>hr_tearing := True, hr_place := unwinds (hr_place s)\<rparr>)"

text \<open>A signal before its handler is in place has the default effect; \<open>hr_early\<close> records that one did.\<close>

definition signal_arrives :: "sig \<Rightarrow> harness_run \<Rightarrow> harness_run" where
  "signal_arrives k s =
     (if hr_place s \<in> {Exited, Escaped, Killed_By_Signal} then s
      else if (case k of Sig_Int \<Rightarrow> hr_int s | Sig_Term \<Rightarrow> hr_term s) then on_signal s
      else case k of
        Sig_Int \<Rightarrow> s\<lparr>hr_early := True, hr_place := unwinds (hr_place s)\<rparr>
      | Sig_Term \<Rightarrow> s\<lparr>hr_early := True, hr_place := Killed_By_Signal\<rparr>)"

text \<open>The next step of the program; \<open>bad\<close>: a failing row (a check, the teardown, a changed agent), or an exception
  from the checks other than a signal's.\<close>

datatype harness_event = Step bool | Checks_Raise | Arrives sig

fun harness_step :: "harness_event \<Rightarrow> harness_run \<Rightarrow> harness_run option" where
  "harness_step (Arrives k) s = Some (signal_arrives k s)"
| "harness_step Checks_Raise s = (if hr_place s = Checking then Some (s\<lparr>hr_place := Inner_Except\<rparr>) else None)"
| "harness_step (Step bad) s =
     (case hr_place s of
        Installing n \<Rightarrow>
          Some (if n = 0 then s\<lparr>hr_int := True, hr_place := Installing 1\<rparr> else s\<lparr>hr_term := True, hr_place := Checking\<rparr>)
      | Checking \<Rightarrow> Some (s\<lparr>hr_place := Checked, hr_failed := hr_failed s \<or> bad\<rparr>)
      | Checked \<Rightarrow> Some (begin_teardown s)
      | Inner_Except \<Rightarrow> Some ((begin_teardown s)\<lparr>hr_interrupted := True, hr_failed := True\<rparr>)
      | Outer_Except \<Rightarrow> Some ((begin_teardown s)\<lparr>hr_interrupted := True, hr_failed := True\<rparr>)
      | Tearing_Down \<Rightarrow> Some (s\<lparr>hr_place := Comparing, hr_torn_down := True, hr_failed := hr_failed s \<or> bad\<rparr>)
      | Comparing \<Rightarrow> Some (s\<lparr>hr_place := Printing, hr_failed := hr_failed s \<or> bad\<rparr>)
      | Printing \<Rightarrow>
          Some (s\<lparr>hr_place := Exited, hr_printed := True, hr_exit := Some (if hr_interrupted s \<or> hr_failed s then 1 else 0)\<rparr>)
      | _ \<Rightarrow> None)"

inductive harness_reachable :: "harness_run \<Rightarrow> bool" where
  hr_start: "harness_reachable harness_start"
| hr_next: "harness_reachable s \<Longrightarrow> harness_step e s = Some s' \<Longrightarrow> harness_reachable s'"

text \<open>What is true at each place once no signal came too early.\<close>

fun place_ok :: "place \<Rightarrow> harness_run \<Rightarrow> bool" where
  "place_ok (Installing n) s \<longleftrightarrow> \<not> hr_tearing s \<and> \<not> hr_term s \<and> n \<le> 1 \<and> hr_int s = (n = 1)"
| "place_ok Checking s \<longleftrightarrow> \<not> hr_tearing s \<and> hr_int s \<and> hr_term s"
| "place_ok Checked s \<longleftrightarrow> \<not> hr_tearing s \<and> hr_int s \<and> hr_term s"
| "place_ok Inner_Except s \<longleftrightarrow> hr_int s \<and> (hr_tearing s \<or> hr_term s)"
| "place_ok Outer_Except s \<longleftrightarrow> hr_int s \<and> hr_tearing s"
| "place_ok Escaped s \<longleftrightarrow> False"
| "place_ok Killed_By_Signal s \<longleftrightarrow> False"
| "place_ok Tearing_Down s \<longleftrightarrow> hr_tearing s \<and> hr_int s \<and> hr_term s"
| "place_ok Comparing s \<longleftrightarrow> hr_tearing s \<and> hr_int s \<and> hr_term s \<and> hr_torn_down s"
| "place_ok Printing s \<longleftrightarrow> hr_tearing s \<and> hr_int s \<and> hr_term s \<and> hr_torn_down s"
| "place_ok Exited s \<longleftrightarrow> hr_torn_down s \<and> hr_printed s \<and> hr_exit s = Some (if hr_interrupted s \<or> hr_failed s then 1 else 0)"

definition harness_inv :: "harness_run \<Rightarrow> bool" where
  "harness_inv s \<longleftrightarrow> hr_early s \<or> place_ok (hr_place s) s"

fun places_left :: "place \<Rightarrow> nat" where
  "places_left (Installing n) = 9 - n"
| "places_left Checking = 7"
| "places_left Checked = 6"
| "places_left Inner_Except = 5"
| "places_left Outer_Except = 4"
| "places_left Tearing_Down = 3"
| "places_left Comparing = 2"
| "places_left Printing = 1"
| "places_left _ = 0"

lemma early_stays: "harness_step e s = Some s' \<Longrightarrow> hr_early s \<Longrightarrow> hr_early s'"
proof (cases e)
  case (Arrives k)
  then show "harness_step e s = Some s' \<Longrightarrow> hr_early s \<Longrightarrow> hr_early s'"
    by (cases k) (auto simp: signal_arrives_def on_signal_def)
next
  case (Step bad)
  then show "harness_step e s = Some s' \<Longrightarrow> hr_early s \<Longrightarrow> hr_early s'"
    by (cases "hr_place s") (auto simp: begin_teardown_def split: if_split_asm)
qed (auto split: if_split_asm)

lemma signal_place_ok:
  assumes "place_ok (hr_place s) s" "\<not> hr_early s" "\<not> hr_early (signal_arrives k s)"
  shows "place_ok (hr_place (signal_arrives k s)) (signal_arrives k s) \<and> places_left (hr_place (signal_arrives k s)) \<le> places_left (hr_place s)"
  using assms by (cases "hr_place s"; cases k; cases "hr_int s"; cases "hr_term s"; cases "hr_tearing s") (simp_all add: signal_arrives_def on_signal_def)

lemma harness_inv_step:
  assumes "harness_step e s = Some s'" "harness_inv s"
  shows "harness_inv s'"
proof (cases e)
  case (Arrives k)
  then have s': "s' = signal_arrives k s" using assms(1) by simp
  show ?thesis
  proof (cases "hr_early s'")
    case False
    then have "\<not> hr_early s" using early_stays assms(1) by blast
    then show ?thesis using signal_place_ok [of s k] assms(2) False by (simp add: harness_inv_def s')
  qed (simp add: harness_inv_def)
next
  case Checks_Raise
  then show ?thesis using assms by (auto simp: harness_inv_def split: if_split_asm)
next
  case (Step bad)
  then show ?thesis using assms
    by (cases "hr_place s") (auto simp: harness_inv_def begin_teardown_def split: if_split_asm)
qed

lemma harness_reachable_inv: "harness_reachable s \<Longrightarrow> harness_inv s"
proof (induction rule: harness_reachable.induct)
  case hr_start
  show ?case by (simp add: harness_inv_def harness_start_def)
qed (rule harness_inv_step)

lemma place_step_left:
  assumes "harness_step e s = Some s'" "harness_inv s" "\<not> hr_early s'"
  shows "places_left (hr_place s') \<le> places_left (hr_place s) \<and> (\<forall>bad. e = Step bad \<longrightarrow> places_left (hr_place s') < places_left (hr_place s))"
proof (cases e)
  case (Arrives k)
  then have s': "s' = signal_arrives k s" using assms(1) by simp
  have "\<not> hr_early s" using early_stays assms(1,3) by blast
  then show ?thesis using signal_place_ok [of s k] assms(2,3) Arrives by (simp add: harness_inv_def s')
next
  case Checks_Raise
  then show ?thesis using assms by (auto split: if_split_asm)
next
  case (Step bad)
  then show ?thesis using assms
    by (cases "hr_place s") (auto simp: harness_inv_def begin_teardown_def split: if_split_asm)
qed

lemma place_progress: "harness_inv s \<Longrightarrow> \<not> hr_early s \<Longrightarrow> hr_place s \<noteq> Exited \<Longrightarrow> harness_step (Step bad) s \<noteq> None"
  by (cases "hr_place s") (auto simp: harness_inv_def)

text \<open>No signal cuts the verdict short. In every run in which no signal came before its handler was in place,
  however many signals arrive and wherever the checks fail: the function never leaves with an exception; as long
  as it has not exited it has a next step, which brings the exit nearer, while no signal moves it away; and
  when it exits, the teardown has run, the table has been printed, and the status is 0 only if nothing interrupted
  the run and no row failed.\<close>

theorem verdict_always_printed:
  assumes "harness_reachable s" "\<not> hr_early s"
  shows "hr_place s \<notin> {Escaped, Killed_By_Signal} \<and>
    (hr_place s \<noteq> Exited \<longrightarrow> (\<forall>bad. harness_step (Step bad) s \<noteq> None)) \<and>
    (\<forall>e s'. harness_step e s = Some s' \<and> \<not> hr_early s' \<longrightarrow>
       places_left (hr_place s') \<le> places_left (hr_place s) \<and>
       (\<forall>bad. e = Step bad \<longrightarrow> places_left (hr_place s') < places_left (hr_place s))) \<and>
    (hr_place s = Exited \<longrightarrow> hr_torn_down s \<and> hr_printed s \<and> (hr_exit s = Some 0 \<longleftrightarrow> \<not> hr_interrupted s \<and> \<not> hr_failed s))"
proof -
  note i = harness_reachable_inv [OF assms(1)]
  have p: "place_ok (hr_place s) s" using i assms(2) by (simp add: harness_inv_def)
  then have "hr_place s \<notin> {Escaped, Killed_By_Signal}" by auto
  moreover have "hr_place s = Exited \<longrightarrow> hr_torn_down s \<and> hr_printed s \<and> (hr_exit s = Some 0 \<longleftrightarrow> \<not> hr_interrupted s \<and> \<not> hr_failed s)"
    using p by auto
  ultimately show ?thesis using place_progress [OF i assms(2)] place_step_left [OF _ i] by blast
qed

fun harness_events :: "harness_event list \<Rightarrow> harness_run \<Rightarrow> harness_run option" where
  "harness_events [] s = Some s"
| "harness_events (e # es) s = (case harness_step e s of None \<Rightarrow> None | Some s1 \<Rightarrow> harness_events es s1)"

lemma harness_events_reachable: "harness_events es s = Some s' \<Longrightarrow> harness_reachable s \<Longrightarrow> harness_reachable s'"
proof (induction es arbitrary: s)
  case (Cons e es)
  then show ?case using hr_next [of s e] by (auto split: option.splits)
qed simp

text \<open>Two signals, one during the checks and one in the except body; the run still exits with its verdict.\<close>

definition sample_harness :: harness_run where
  "sample_harness = the (harness_events [Step False, Step False, Arrives Sig_Term, Arrives Sig_Int, Step False, Step False,
     Arrives Sig_Term, Step False, Step False] harness_start)"

lemma sample_harness_ends: "harness_reachable sample_harness \<and> \<not> hr_early sample_harness \<and> hr_place sample_harness = Exited"
proof -
  let ?es = "[Step False, Step False, Arrives Sig_Term, Arrives Sig_Int, Step False, Step False, Arrives Sig_Term, Step False, Step False]"
  obtain s where s: "harness_events ?es harness_start = Some s" "\<not> hr_early s" "hr_place s = Exited"
    by (simp add: harness_start_def signal_arrives_def on_signal_def begin_teardown_def)
  then have "harness_reachable s" using harness_events_reachable hr_start by blast
  then show ?thesis using s by (simp add: sample_harness_def)
qed

theorem verdict_always_printed_witness: "hr_torn_down sample_harness \<and> hr_printed sample_harness"
  using verdict_always_printed [of sample_harness] sample_harness_ends by blast

section \<open>What the checks rest on\<close>

lemma check_raised_bodies:
  "cd_bodies (check_raised e n later d) = (case e of Stop r \<Rightarrow> [] | Interrupt \<Rightarrow> [] | _ \<Rightarrow> cd_bodies d)"
  by (cases e) (simp_all add: check_raised_def no_checks_def add_row_def)

lemma check_raised_rows:
  "cd_rows (check_raised e n later d) =
     (case e of Stop r \<Rightarrow> (n, FAIL) # map (\<lambda>n. (n, SKIPPED)) later | Interrupt \<Rightarrow> [] | _ \<Rightarrow> (n, FAIL) # cd_rows d)"
  by (cases e) (simp_all add: check_raised_def no_checks_def add_row_def)

lemma check_raised_raises:
  "cd_raises (check_raised e n later d) = (case e of Stop r \<Rightarrow> False | Interrupt \<Rightarrow> True | _ \<Rightarrow> cd_raises d)"
  by (cases e) (simp_all add: check_raised_def no_checks_def add_row_def)

lemma boundary_stops: "boundary base first c = Raise e \<Longrightarrow> \<exists>r. e = Stop r"
  by (auto simp: boundary_def bind_result_def ensure_real_agents_unchanged_def ensure_port_ours_def split: sum.splits option.splits if_splits)

definition stops :: "check_run \<Rightarrow> bool" where
  "stops c \<longleftrightarrow> (\<exists>r. cr_body c = Raise (Stop r)) \<or> cr_body c = Raise Interrupt"

definition checks_ok :: "snapshot \<Rightarrow> bool \<Rightarrow> check_run list \<Rightarrow> checks_done \<Rightarrow> bool" where
  "checks_ok base first cs d \<longleftrightarrow>
     prefix (cd_bodies d) cs \<and>
     list_all (\<lambda>c. boundary base False c = Ok ()) (if first then tl (cd_bodies d) else cd_bodies d) \<and>
     list_all (\<lambda>c. ensure_real_agents_unchanged base c = Ok ()) (cd_bodies d) \<and>
     list_all (\<lambda>c. \<not> stops c) (butlast (cd_bodies d)) \<and>
     (cd_raises d \<or> map fst (cd_rows d) = map cr_name cs) \<and>
     list_all (\<lambda>(n, oc). oc \<noteq> PASS \<or> list_ex (\<lambda>c. cr_name c = n \<and> (\<exists>v. cr_body c = Ok v)) (cd_bodies d)) (cd_rows d)"

lemma skipped_rows: "list_all (\<lambda>(n, oc). oc \<noteq> PASS \<or> Q n) (map (\<lambda>x. (f x, SKIPPED)) later)"
  "list_all (\<lambda>(n, oc). oc \<noteq> PASS) (map (\<lambda>x. (f x, SKIPPED)) later)"
  by (induction later) simp_all

lemma rows_mono:
  "list_all (\<lambda>(n, oc). oc \<noteq> PASS \<or> list_ex (\<lambda>c. cr_name c = n \<and> (\<exists>v. cr_body c = Ok v)) bs) rows \<Longrightarrow>
   list_all (\<lambda>(n, oc). oc \<noteq> PASS \<or> list_ex (\<lambda>c. cr_name c = n \<and> (\<exists>v. cr_body c = Ok v)) (b # bs)) rows"
  by (auto simp: list_all_iff)

lemma boundary_Ok: "boundary base first c = Ok u \<Longrightarrow> ensure_real_agents_unchanged base c = Ok () \<and> (first \<or> boundary base False c = Ok ())"
  by (auto simp: boundary_def bind_result_Ok_iff split: if_splits)

text \<open>The remaining checks were done in order; this one's body ran and ended without a stop.\<close>

lemma checks_ok_Cons:
  assumes "checks_ok base False cs d" "boundary base first c = Ok u" "\<not> stops c"
    and "oc = PASS \<longrightarrow> (\<exists>v. cr_body c = Ok v)"
  shows "checks_ok base first (c # cs) (add_body c (add_row (cr_name c, oc) d))"
  using assms boundary_Ok [OF assms(2)] rows_mono [of "cd_bodies d" "cd_rows d" c]
  by (cases "cd_bodies d") (auto simp: checks_ok_def add_body_def add_row_def)

lemma run_checks_ok: "checks_ok base first cs (run_checks base first cs)"
proof (induction base first cs rule: run_checks.induct)
  case (1 base first)
  show ?case by (simp add: checks_ok_def no_checks_def)
next
  case (2 base first c cs)
  let ?go = "run_checks base False cs"
  note IH = "2.IH"
  show ?case
  proof (cases "boundary base first c")
    case (Inl e)
    then obtain r where "e = Stop r" using boundary_stops by blast
    then show ?thesis using Inl
      by (simp add: checks_ok_def check_raised_bodies check_raised_rows check_raised_raises skipped_rows comp_def)
  next
    case (Inr u)
    have go: "checks_ok base False cs ?go" using IH by simp
    note b = boundary_Ok [OF Inr]
    show ?thesis
    proof (cases "cr_body c")
      case (Inr v)
      then have "\<not> stops c" by (simp add: stops_def)
      then show ?thesis using checks_ok_Cons [OF go \<open>boundary base first c = Inr u\<close>, of PASS] Inr \<open>boundary base first c = Inr u\<close>
        by simp
    next
      case (Inl e)
      note body = this
      show ?thesis
      proof (cases e)
        case (Stop r)
        then show ?thesis using body \<open>boundary base first c = Inr u\<close> b
          by (auto simp: checks_ok_def add_body_def check_raised_bodies check_raised_rows check_raised_raises skipped_rows comp_def)
      next
        case Interrupt
        then show ?thesis using body \<open>boundary base first c = Inr u\<close> b
          by (auto simp: checks_ok_def add_body_def check_raised_bodies check_raised_rows check_raised_raises)
      qed (use body \<open>boundary base first c = Inr u\<close> checks_ok_Cons [OF go \<open>boundary base first c = Inr u\<close>, of FAIL] in
            \<open>simp_all add: stops_def check_raised_def\<close>)
    qed
  qed
qed

text \<open>C39: what the checks rest on. The bodies that run are the first ones of the list, in order; each of them ran with
  the real agents just read and equal to the baseline in every field, and each but the first with nobody but the
  spare agent listening on the port; after a body that lost the port, the launchd state, the agents or an
  installer, none runs. Unless an interrupt propagates, every check has exactly one row, in order, and a row
  says PASS only for a check whose body ran to its end.\<close>

theorem run_checks_guarded:
  "prefix (cd_bodies (run_checks base True cs)) cs \<and>
   list_all (\<lambda>c. case cr_agents c of None \<Rightarrow> False | Some now \<Rightarrow> compare_snapshots base now = []) (cd_bodies (run_checks base True cs)) \<and>
   list_all (\<lambda>c. ensure_port_ours c = Ok ()) (tl (cd_bodies (run_checks base True cs))) \<and>
   list_all (\<lambda>c. \<not> stops c) (butlast (cd_bodies (run_checks base True cs))) \<and>
   (cd_raises (run_checks base True cs) \<or> map fst (cd_rows (run_checks base True cs)) = map cr_name cs) \<and>
   list_all (\<lambda>(n, oc). oc = FAIL \<or> oc = SKIPPED \<or> list_ex (\<lambda>c. cr_name c = n \<and> (\<exists>v. cr_body c = Ok v)) (cd_bodies (run_checks base True cs)))
     (cd_rows (run_checks base True cs))"
proof -
  let ?d = "run_checks base True cs"
  note k = run_checks_ok [of base True cs, unfolded checks_ok_def]
  have a: "ensure_real_agents_unchanged base c = Ok () \<Longrightarrow> case cr_agents c of None \<Rightarrow> False | Some now \<Rightarrow> compare_snapshots base now = []" for c
    by (auto simp: ensure_real_agents_unchanged_def split: option.splits if_splits)
  have p: "boundary base False c = Ok () \<Longrightarrow> ensure_port_ours c = Ok ()" for c
    by (auto simp: boundary_def bind_result_Ok_iff)
  have "list_all (\<lambda>c. case cr_agents c of None \<Rightarrow> False | Some now \<Rightarrow> compare_snapshots base now = []) (cd_bodies ?d)"
    using k a by (simp add: list_all_iff)
  moreover have "list_all (\<lambda>c. ensure_port_ours c = Ok ()) (tl (cd_bodies ?d))"
    using k p by (simp add: list_all_iff)
  moreover have "list_all (\<lambda>(n, oc). oc = FAIL \<or> oc = SKIPPED \<or> list_ex (\<lambda>c. cr_name c = n \<and> (\<exists>v. cr_body c = Ok v)) (cd_bodies ?d)) (cd_rows ?d)"
  proof (rule list.pred_mono_strong)
    show "list_all (\<lambda>(n, oc). oc \<noteq> PASS \<or> list_ex (\<lambda>c. cr_name c = n \<and> (\<exists>v. cr_body c = Ok v)) (cd_bodies ?d)) (cd_rows ?d)"
      using k by blast
  next
    fix r assume "case r of (n, oc) \<Rightarrow> oc \<noteq> PASS \<or> list_ex (\<lambda>c. cr_name c = n \<and> (\<exists>v. cr_body c = Ok v)) (cd_bodies ?d)"
    then show "case r of (n, oc) \<Rightarrow> oc = FAIL \<or> oc = SKIPPED \<or> list_ex (\<lambda>c. cr_name c = n \<and> (\<exists>v. cr_body c = Ok v)) (cd_bodies ?d)"
      by (cases r; cases "snd r") simp_all
  qed
  ultimately show ?thesis using k by blast
qed

section \<open>What the teardown removes of the socket\<close>

lemma remove_held_sock: "Unlink_Sock \<in> set (fst (remove_held f i)) \<Longrightarrow> sf_lock_then f = Some i \<and> sf_sock_then f \<and> sf_sock_ours f"
  by (auto simp: remove_held_def Let_def split: if_splits)

lemma remove_held_lock: "Unlink_Lock \<in> set (fst (remove_held f i)) \<Longrightarrow> sf_lock_then f = Some i \<and> sf_lock_later f = Some i"
  by (auto simp: remove_held_def Let_def split: if_splits)

lemma remove_spare_socket_ops:
  "fst (remove_spare_socket f) \<noteq> [] \<Longrightarrow>
     \<exists>i. sf_open f = Some i \<and> sf_lock_ours f \<and> list_ex id (sf_attempts f) \<and> remove_spare_socket f = remove_held f i"
  by (auto simp: remove_spare_socket_def split: if_splits option.splits)

text \<open>The teardown never removes the socket of a live server. A server keeps an exclusive lock on the inode at its
  lock path for its whole life (\<open>locked_by_server i\<close>), and one process's lock on an inode excludes another's: if
  the harness's attempt succeeds, no server holds that inode. Then, whenever the socket or the lock file is
  unlinked, the lock path named, at that moment, the inode the harness had locked, so no server was serving
  the socket; and what is unlinked as a socket is one, and this user's.\<close>

theorem teardown_spares_live_server:
  assumes "\<And>i. sf_open f = Some i \<Longrightarrow> list_ex id (sf_attempts f) \<Longrightarrow> \<not> locked_by_server i"
  shows "(Unlink_Sock \<in> set (fst (remove_spare_socket f)) \<longrightarrow>
      (\<exists>i. sf_lock_then f = Some i \<and> \<not> locked_by_server i) \<and> sf_sock_ours f) \<and>
    (Unlink_Lock \<in> set (fst (remove_spare_socket f)) \<longrightarrow> (\<exists>i. sf_lock_later f = Some i \<and> \<not> locked_by_server i))"
proof (cases "fst (remove_spare_socket f) = []")
  case False
  then obtain i where i: "sf_open f = Some i" "list_ex id (sf_attempts f)" "remove_spare_socket f = remove_held f i"
    using remove_spare_socket_ops by blast
  then have "\<not> locked_by_server i" using assms by blast
  then show ?thesis using i remove_held_sock [of f i] remove_held_lock [of f i] by auto
qed simp

definition sample_files :: spare_files where
  "sample_files = \<lparr>sf_sock = True, sf_lock = True, sf_open = Some 7, sf_lock_ours = True, sf_attempts = [False, True],
     sf_lock_then = Some 7, sf_sock_then = True, sf_sock_ours = True, sf_unlink_sock = True, sf_lock_later = Some 7, sf_unlink_lock = True\<rparr>"

lemma sample_removal: "remove_spare_socket sample_files = ([Unlink_Sock, Unlink_Lock], [])"
  by (simp add: remove_spare_socket_def remove_held_def sample_files_def unlink_problem_def)

theorem teardown_spares_live_server_witness:
  "(\<exists>i. sf_lock_then sample_files = Some i \<and> i \<noteq> 8) \<and> sf_sock_ours sample_files"
  using teardown_spares_live_server [of sample_files "\<lambda>i. i = 8"] sample_removal by (simp add: sample_files_def)

section \<open>The installer leaves nobody behind\<close>

text \<open>A result of an installer call means that nothing it started is running. Over every run of the call's process
  group: when the harness is not left frozen, then either no child was started, or its leader was reaped and no process
  of its group is left; and once it is frozen, it refuses every later call.\<close>

theorem installer_leaves_nobody:
  assumes "reachable_run (installer_options td handler) s" "g_ending s = Some e" "run_installer frozen e = (r, False)"
  shows "\<not> frozen \<and> (g_leader s = No_Child \<or> (g_leader s = Reaped \<and> g_members s = 0)) \<and> run_installer True e = (Refused_To_Run, True)"
proof -
  have "\<not> frozen" "e \<noteq> Group_Not_Stopped" "e \<noteq> Handler_Raises True"
    using assms(3) by (auto simp: run_installer_def split: ending.splits if_splits)
  then show ?thesis using run_outcome(2) [OF assms(1,2)] by (auto simp: run_installer_def)
qed

definition sample_install_run :: group_run where
  "sample_install_run = the (run_events (installer_options False (\<lambda>_. Default_Action))
     [Spawned True, Set_Up True, Member_Forks, Signal_Arrives 2, Round, Kill Killed, Leader_Exits, Reap True False, Deliver] initial_run)"

lemma sample_install_ends:
  "reachable_run (installer_options False (\<lambda>_. Default_Action)) sample_install_run \<and> g_ending sample_install_run = Some (Handler_Raises False)"
proof -
  let ?o = "installer_options False (\<lambda>_. Default_Action)"
  let ?es = "[Spawned True, Set_Up True, Member_Forks, Signal_Arrives 2, Round, Kill Killed, Leader_Exits, Reap True False, Deliver]"
  have "map_option g_ending (run_events ?o ?es initial_run) = Some (Some (Handler_Raises False))"
    by (simp add: installer_options_def initial_run_def wait_round_def begin_stop_def signal_leader_def kill_group_def
        answer_possible_def send_signal_def reap_group_def stop_verdict_def finish_run_def run_ending_def first_held_def redeliver_def)
  then obtain s where s: "run_events ?o ?es initial_run = Some s" "g_ending s = Some (Handler_Raises False)" by auto
  then have "reachable_run ?o s" using run_events_reachable run_init by blast
  then show ?thesis using s by (simp add: sample_install_run_def)
qed

theorem installer_leaves_nobody_witness:
  "g_leader sample_install_run = No_Child \<or> (g_leader sample_install_run = Reaped \<and> g_members sample_install_run = 0)"
  using installer_leaves_nobody [OF conjunct1 [OF sample_install_ends] conjunct2 [OF sample_install_ends], of False Other_Exception]
  by (simp add: run_installer_def)

section \<open>The time a run may take\<close>

text \<open>In milliseconds; the sums of the waits the code makes.\<close>

definition GROUP_POLL :: nat where "GROUP_POLL = 100"
definition GROUP_DRAIN :: nat where "GROUP_DRAIN = 5000"
definition READER_STOP :: nat where "READER_STOP = 1000"
definition CMD_TIMEOUT :: nat where "CMD_TIMEOUT = 15000"
definition UP_TIMEOUT :: nat where "UP_TIMEOUT = 60000"
definition COLLISION_TIMEOUT :: nat where "COLLISION_TIMEOUT = 30000"
definition SOCKET_LOCK_WAIT :: nat where "SOCKET_LOCK_WAIT = 10000"
definition LOCK_UNHELD_WAIT :: nat where "LOCK_UNHELD_WAIT = 10000"
definition WAIT_EVERY :: nat where "WAIT_EVERY = 1000"
definition BUDGET_MARGIN :: nat where "BUDGET_MARGIN = 30000"
definition SQUAT_LISTENERS :: nat where "SQUAT_LISTENERS = 1"
definition SQUAT_START :: nat where "SQUAT_START = 5000"

definition lsof_ms :: nat where "lsof_ms = 1000 * LSOF_TIMEOUT"
definition launchctl_ms :: nat where "launchctl_ms = 1000 * LAUNCHCTL_TIMEOUT"

definition reap_bound :: nat where "reap_bound = GROUP_DRAIN + READER_STOP"
definition install_bound :: nat where "install_bound = nat INSTALL_TIMEOUT * 1000 + GROUP_POLL + reap_bound"
definition snapshot_bound :: "nat \<Rightarrow> nat" where "snapshot_bound n = CMD_TIMEOUT + n * (launchctl_ms + lsof_ms)"
definition handshake_bound :: nat where "handshake_bound = 2 * nat HANDSHAKE_TIMEOUT"

definition connect_verified_bound :: nat where
  "connect_verified_bound = nat HANDSHAKE_TIMEOUT + nat SERVER_END_SETTLE + lsof_ms + launchctl_ms"

definition verified_status_bound :: nat where
  "verified_status_bound = launchctl_ms + connect_verified_bound + handshake_bound + launchctl_ms"

definition squat_cli_timeout :: nat where "squat_cli_timeout = 1000 * cli_bound SQUAT_LISTENERS + SQUAT_START"
definition squat_warns_bound :: nat where "squat_warns_bound = launchctl_ms + squat_cli_timeout"
definition wait_bound :: "nat \<Rightarrow> nat \<Rightarrow> nat" where "wait_bound timeout pred = timeout + WAIT_EVERY + pred"

definition teardown_budget :: "nat \<Rightarrow> nat" where
  "teardown_budget n = reap_bound + install_bound + SOCKET_LOCK_WAIT + launchctl_ms + snapshot_bound n + BUDGET_MARGIN"

definition run_budget :: "nat \<Rightarrow> nat" where
  "run_budget n =
     (let snap = snapshot_bound n;
          setup = snap + length CANONICAL_BACKENDS * CMD_TIMEOUT + lsof_ms + 1000 + launchctl_ms + 2 * CMD_TIMEOUT;
          boundaries = 3 * snap + 2 * (lsof_ms + launchctl_ms);
          up = wait_bound UP_TIMEOUT verified_status_bound;
          collision = install_bound + COLLISION_TIMEOUT + squat_warns_bound + WAIT_EVERY + up;
          rollback = 3 * (install_bound + up) + wait_bound LOCK_UNHELD_WAIT lsof_ms;
          token = install_bound + wait_bound UP_TIMEOUT handshake_bound + launchctl_ms
            + 3 * (connect_verified_bound + handshake_bound) + launchctl_ms
      in setup + boundaries + collision + rollback + token + teardown_budget n)"

text \<open>With no more listeners on the port than the harness allows for, the command answers before its timeout.\<close>

lemma squat_cli_in_time:
  assumes "second_listeners w host \<le> SQUAT_LISTENERS"
  shows "1000 * waits_of (squat_main w host rc stdin label) + SQUAT_START \<le> squat_cli_timeout"
proof -
  have "waits_of (squat_main w host rc stdin label) \<le> cli_bound (second_listeners w host)" by (rule squat_check_bounded)
  also have "\<dots> \<le> cli_bound SQUAT_LISTENERS" using assms by (simp add: cli_bound_def LSOF_TIMEOUT_def)
  finally show ?thesis by (simp add: squat_cli_timeout_def)
qed

text \<open>A verified answer: what was asked of the socket was asked of the job's own process.\<close>

lemma verified_status_Ok:
  assumes "verified_status d ep a b c peer key = Some (Ok st)"
  shows "\<exists>i. launchd_pid_runs a = Some i \<and> connect_verified d ep i (launchd_pid_runs b) = Some ([Sock_Open], Ok ()) \<and>
    (is_status st \<longrightarrow> confirm_identity_unchanged (launchd_pid_runs c) i) \<and>
    st = snd (ws_handshake_status (Over_Sock peer) key None)"
proof -
  have id: "running_identity x = Ok i \<longleftrightarrow> launchd_pid_runs x = Some i \<and> readable_identity i" for x i
    by (auto simp: running_identity_def read_job_def launchd_pid_runs_def launchd_identity_def readable_identity_def the_pid_def
        split: option.splits if_splits)
  have sp: "spare_identity x = Ok n \<Longrightarrow> launchd_pid_runs x = n" for x n
    by (auto simp: spare_identity_def read_job_def launchd_pid_runs_def launchd_identity_def split: option.splits if_splits)
  obtain i where i: "running_identity a = Ok i" using assms by (auto simp: verified_status_def split: sum.splits)
  obtain ops u where h: "connect_held_by d ep (the_pid (fst i)) True = Some (ops, Ok u)"
    using assms i by (auto simp: verified_status_def split: option.splits prod.splits sum.splits)
  obtain now where n: "spare_identity b = Ok now" "confirm_identity_unchanged now i"
    "st = snd (ws_handshake_status (Over_Sock peer) key None)"
    "is_status st \<longrightarrow> (\<exists>after. spare_identity c = Ok after \<and> confirm_identity_unchanged after i)"
    using assms i h by (auto simp: verified_status_def bind_result_Ok_iff Let_def split: if_splits)
  have "connect_verified d ep i (launchd_pid_runs b) = Some ([Sock_Open], Ok ())"
    using h sp [OF n(1)] n(2) i id by (simp add: connect_verified_Ok connect_held_by_Ok confirm_identity_unchanged_def)
  then show ?thesis using i id n(3,4) sp by blast
qed

end
