(* ===== verification/Render_Plist.thy ===== *)
theory Render_Plist
  imports Agent_Snapshot Admission
begin

text \<open>
  \<open>scripts/render_stt_plist.py\<close>: the writer of an agent's property list. Its allowlists, the choice of a
  transport, the plist, and the modes the written file passes through. What it writes is shown to be read
  back by \<open>Plist\<close> and \<open>Agent_Snapshot\<close>, and accepted by the server's parser, as it was asked for.

  The environment is an argument; \<open>plistlib\<close> is an input of the reader. Modes are in decimal: 438, 63 and 384 are
  \<open>0o666\<close>, \<open>0o077\<close> and \<open>0o600\<close>.
\<close>

unbundle bit_operations_syntax

section \<open>The allowlists\<close>

definition DEFAULT_LABEL :: string where "DEFAULT_LABEL = ''pipecat.stt-server''"

definition ascii_alnum :: "char \<Rightarrow> bool" where
  "ascii_alnum c \<longleftrightarrow> in_range 48 57 c \<or> in_range 65 90 c \<or> in_range 97 122 c"

definition ABSPATH_RE :: "string \<Rightarrow> bool" where
  "ABSPATH_RE v =
     (case v of
        [] \<Rightarrow> False
      | c # cs \<Rightarrow> c = CHR ''/'' \<and> cs \<noteq> [] \<and> list_all (\<lambda>d. ascii_alnum d \<or> d \<in> set ''._/+- @'') cs)"

definition MODEL_RE :: "string \<Rightarrow> bool" where
  "MODEL_RE v \<longleftrightarrow> v \<noteq> [] \<and> list_all (\<lambda>d. ascii_alnum d \<or> d \<in> set ''._/-'') v"

definition BACKEND_RE :: "string \<Rightarrow> bool" where
  "BACKEND_RE v \<longleftrightarrow> v \<in> set [''echo'', ''mlx'', ''parakeet'', ''nemotron'', ''kyutai'']"

definition LABEL_RE :: "string \<Rightarrow> bool" where
  "LABEL_RE v \<longleftrightarrow> v \<noteq> [] \<and> list_all (\<lambda>d. ascii_alnum d \<or> d \<in> set ''._-'') v"

definition PORT_RE :: "string \<Rightarrow> bool" where
  "PORT_RE v \<longleftrightarrow> v \<noteq> [] \<and> length v \<le> 5 \<and> list_all is_digit v"

definition log_basename :: "string \<Rightarrow> string" where
  "log_basename label =
     (if label = ''pipecat.stt-server'' then ''pipecat-stt''
      else if label = ''koda.stt-server'' then ''koda-stt''
      else map (\<lambda>c. if c = CHR ''.'' then CHR ''-'' else c) label)"

text \<open>Why a render stops; every one is exit status 2.\<close>

datatype render_refusal =
    Bad_Label string | Required string | Not_Allowed string string | Two_Transports | Not_Loopback string
  | Port_Range string | Secret_Set string

definition require_value :: "string \<Rightarrow> string option \<Rightarrow> (string \<Rightarrow> bool) \<Rightarrow> render_refusal + string" where
  "require_value name value pattern =
     (case value of
        None \<Rightarrow> Raise (Required name)
      | Some v \<Rightarrow> if v = [] then Raise (Required name) else if \<not> pattern v then Raise (Not_Allowed name v) else Ok v)"

text \<open>The exit status of \<open>--check-abspath NAME VALUE\<close>, from the arguments behind the program.\<close>

definition check_abspath :: "string list \<Rightarrow> nat" where
  "check_abspath args =
     (if length args \<noteq> 3 then 2
      else case require_value (args ! 1) (Some (args ! 2)) ABSPATH_RE of Inl e \<Rightarrow> 2 | Inr v \<Rightarrow> 0)"

section \<open>Paths\<close>

text \<open>\<open>str(Path(d) / name)\<close> for a name of one component: the root is kept (two leading slashes too), empty and
  \<open>.\<close> components are dropped.\<close>

definition path_root :: "string \<Rightarrow> string" where
  "path_root p =
     (if prefix ''//'' p \<and> \<not> prefix ''///'' p then ''//'' else if prefix ''/'' p then ''/'' else [])"

definition path_parts :: "string \<Rightarrow> string list" where
  "path_parts p = filter (\<lambda>x. x \<noteq> [] \<and> x \<noteq> ''.'') (split_on ''/'' p)"

fun slashed :: "string list \<Rightarrow> string" where
  "slashed [] = []"
| "slashed [p] = p"
| "slashed (p # ps) = p @ ''/'' @ slashed ps"

definition path_in :: "string \<Rightarrow> string \<Rightarrow> string" where
  "path_in d name = path_root d @ slashed (path_parts d @ [name])"

section \<open>The plist\<close>

definition given_env :: "environ \<Rightarrow> string \<Rightarrow> string option" where
  "given_env env name = (case env name of Some (c # cs) \<Rightarrow> Some (c # cs) | _ \<Rightarrow> None)"

definition transport_args :: "environ \<Rightarrow> render_refusal + string list" where
  "transport_args env =
     (let raw = given_env env ''SOCKET_PATH''; host = given_env env ''HOST''; port = given_env env ''PORT''
      in if raw \<noteq> None \<and> (host \<noteq> None \<or> port \<noteq> None) then Raise Two_Transports
         else case raw of
           Some r \<Rightarrow> bind_result (require_value ''SOCKET_PATH'' (Some r) ABSPATH_RE) (\<lambda>p. Ok [''--socket-path'', p])
         | None \<Rightarrow>
             (let h = (case host of None \<Rightarrow> ''127.0.0.1'' | Some h \<Rightarrow> h)
              in if h \<notin> set LOOPBACK_HOSTS then Raise (Not_Loopback h)
                 else bind_result (require_value ''PORT'' port PORT_RE)
                   (\<lambda>t. let n = the (py_int t)
                        in if 1 \<le> n \<and> n \<le> 65535 then Ok [''--host'', h, ''--port'', show_int n]
                           else Raise (Port_Range t))))"

fun refuse_secrets :: "environ \<Rightarrow> string list \<Rightarrow> render_refusal + unit" where
  "refuse_secrets env [] = Ok ()"
| "refuse_secrets env (k # ks) = (if given_env env k \<noteq> None then Raise (Secret_Set k) else refuse_secrets env ks)"

definition token_file_arg :: "environ \<Rightarrow> render_refusal + string option" where
  "token_file_arg env =
     (case given_env env ''AUTH_TOKEN_FILE'' of
        None \<Rightarrow> Ok None
      | Some f \<Rightarrow> bind_result (require_value ''AUTH_TOKEN_FILE'' (Some f) ABSPATH_RE) (\<lambda>p. Ok (Some p)))"

definition label_of :: "environ \<Rightarrow> string" where
  "label_of env =
     (case env_first env [''PIPECAT_STT_LABEL'', ''KODA_STT_LABEL''] None of None \<Rightarrow> DEFAULT_LABEL | Some l \<Rightarrow> l)"

definition server_args :: "string list \<Rightarrow> string \<Rightarrow> string \<Rightarrow> string option \<Rightarrow> string list" where
  "server_args transport backend model token_file =
     transport @ [''--backend'', backend, ''--model'', model, ''--log-level'', ''INFO''] @
     (case token_file of None \<Rightarrow> [] | Some f \<Rightarrow> [''--auth-token-file'', f])"

definition agent_plist ::
  "string \<Rightarrow> string \<Rightarrow> string \<Rightarrow> string list \<Rightarrow> string \<Rightarrow> string \<Rightarrow> plist" where
  "agent_plist label python cwd args home log_dir =
     [(''Label'', P_Str label),
      (''ProgramArguments'', P_List (map P_Str ([python, ''-m'', ''stt_server''] @ args))),
      (''WorkingDirectory'', P_Str cwd),
      (''RunAtLoad'', P_Bool True),
      (''KeepAlive'', P_Bool True),
      (''ThrottleInterval'', P_Int 10),
      (''EnvironmentVariables'', P_Dict
        [(''PATH'', P_Str ''/opt/homebrew/bin:/usr/local/bin:/usr/bin:/bin''), (''HOME'', P_Str home)]),
      (''StandardOutPath'', P_Str (path_in log_dir (log_basename label @ ''.log''))),
      (''StandardErrorPath'', P_Str (path_in log_dir (log_basename label @ ''.err'')))]"

text \<open>The plist and the path it is written to, or the refusal.\<close>

definition render_agent :: "environ \<Rightarrow> render_refusal + plist \<times> string" where
  "render_agent env =
     (let label = label_of env in
      if \<not> LABEL_RE label then Raise (Bad_Label label)
      else
        bind_result (require_value ''PYTHON'' (env ''PYTHON'') ABSPATH_RE) (\<lambda>python.
        bind_result (require_value ''REPO_ROOT'' (env ''REPO_ROOT'') ABSPATH_RE) (\<lambda>cwd.
        bind_result (transport_args env) (\<lambda>transport.
        bind_result (token_file_arg env) (\<lambda>token_file.
        bind_result (refuse_secrets env ENV_TOKENS) (\<lambda>_.
        bind_result (require_value ''BACKEND'' (env ''BACKEND'') BACKEND_RE) (\<lambda>backend.
        bind_result (require_value ''MODEL'' (env ''MODEL'') MODEL_RE) (\<lambda>model.
        bind_result (require_value ''HOME'' (env ''HOME'') ABSPATH_RE) (\<lambda>home.
        bind_result (require_value ''LOG_DIR'' (env ''LOG_DIR'') ABSPATH_RE) (\<lambda>log_dir.
        bind_result (require_value ''PLIST_DST'' (env ''PLIST_DST'') ABSPATH_RE) (\<lambda>dst.
        Ok (agent_plist label python cwd (server_args transport backend model token_file) home log_dir, dst))))))))))))"

section \<open>Writing it\<close>

text \<open>The states the destination passes through, its mode and what it holds, from what was there: opened
  (and emptied) under the umask, written, its mode set.\<close>

type_synonym mode = "12 word"

definition write_agent :: "(mode \<times> plist) option \<Rightarrow> plist \<Rightarrow> (mode \<times> plist option) list" where
  "write_agent before plist =
     (let m = (case before of None \<Rightarrow> 438 AND NOT 63 | Some (m, old) \<Rightarrow> m)
      in [(m, None), (m, Some plist), (384, Some plist)])"

text \<open>The exit status and the states of the destination.\<close>

definition render_main :: "environ \<Rightarrow> (mode \<times> plist) option \<Rightarrow> string list \<Rightarrow> nat \<times> (mode \<times> plist option) list" where
  "render_main env before args =
     (if take 1 args = [''--check-abspath''] then (check_abspath args, [])
      else case render_agent env of
        Inl e \<Rightarrow> (2, [])
      | Inr (plist, dst) \<Rightarrow> (0, write_agent before plist))"

section \<open>What a rendered plist is made of\<close>

lemma require_value_Ok: "require_value n v p = Ok x \<longleftrightarrow> v = Some x \<and> x \<noteq> [] \<and> p x"
  by (auto simp: require_value_def split: option.splits if_splits)

lemma given_env_Some: "given_env env k = Some v \<longleftrightarrow> env k = Some v \<and> v \<noteq> []"
  by (auto simp: given_env_def split: option.splits list.splits)

lemma refuse_secrets_Ok: "refuse_secrets env ks = Ok u \<longleftrightarrow> (\<forall>k \<in> set ks. given_env env k = None)"
  by (induction ks) auto

lemma token_file_arg_Ok:
  "token_file_arg env = Ok tf \<longleftrightarrow> tf = given_env env ''AUTH_TOKEN_FILE'' \<and> (\<forall>f. tf = Some f \<longrightarrow> ABSPATH_RE f)"
proof (cases "given_env env ''AUTH_TOKEN_FILE''")
  case None
  then show ?thesis by (auto simp: token_file_arg_def)
next
  case (Some f)
  then have "f \<noteq> []" by (simp add: given_env_Some)
  then show ?thesis using Some by (auto simp: token_file_arg_def bind_result_Ok_iff require_value_Ok)
qed

lemma digits_all: "list_all is_digit v \<Longrightarrow> v \<noteq> [] \<or> b \<Longrightarrow> \<exists>n. digits_from acc b v = Some n"
  by (induction v arbitrary: acc b) auto

lemma py_int_digits: "PORT_RE v \<Longrightarrow> \<exists>n. py_int v = Some n"
proof -
  assume a: "PORT_RE v"
  then have d: "\<forall>c \<in> set v. is_digit c" "v \<noteq> []" by (auto simp: PORT_RE_def list_all_iff)
  then obtain c cs where v: "v = c # cs" by (cases v) auto
  have "strip v = v"
    using d digit_no_space by (intro strip_solid) (auto simp: v)
  moreover have "c \<noteq> CHR ''-''" "c \<noteq> CHR ''+''" using d by (auto simp: v is_digit_def in_range_def)
  moreover obtain n where "digits_from 0 False v = Some n"
    using digits_all [of v False 0] a by (auto simp: PORT_RE_def)
  ultimately show ?thesis using v by (simp add: py_int_def)
qed

text \<open>The transport asked for: the socket's path, or the host and port.\<close>

datatype transport = Over_Socket string | Over_Tcp string int

fun asked_transport :: "environ \<Rightarrow> transport \<Rightarrow> bool" where
  "asked_transport env (Over_Socket p) \<longleftrightarrow>
     given_env env ''SOCKET_PATH'' = Some p \<and> given_env env ''HOST'' = None \<and> given_env env ''PORT'' = None \<and> ABSPATH_RE p"
| "asked_transport env (Over_Tcp h n) \<longleftrightarrow>
     given_env env ''SOCKET_PATH'' = None \<and> given_env env ''HOST'' \<in> {None, Some h} \<and>
     (given_env env ''HOST'' = None \<longrightarrow> h = ''127.0.0.1'') \<and> h \<in> set LOOPBACK_HOSTS \<and>
     (\<exists>t. given_env env ''PORT'' = Some t \<and> PORT_RE t \<and> py_int t = Some n) \<and> 1 \<le> n \<and> n \<le> 65535"

fun flags_for :: "transport \<Rightarrow> string list" where
  "flags_for (Over_Socket p) = [''--socket-path'', p]"
| "flags_for (Over_Tcp h n) = [''--host'', h, ''--port'', show_int n]"

lemma transport_args_Ok: "transport_args env = Ok t \<longleftrightarrow> (\<exists>x. asked_transport env x \<and> t = flags_for x)"
proof (cases "given_env env ''SOCKET_PATH''")
  case (Some p)
  then have p: "p \<noteq> []" by (simp add: given_env_Some)
  have e: "transport_args env =
      (if given_env env ''HOST'' \<noteq> None \<or> given_env env ''PORT'' \<noteq> None then Raise Two_Transports
       else bind_result (require_value ''SOCKET_PATH'' (Some p) ABSPATH_RE) (\<lambda>p. Ok [''--socket-path'', p]))"
    using Some by (simp add: transport_args_def Let_def)
  show ?thesis
  proof
    assume "transport_args env = Ok t"
    then have "asked_transport env (Over_Socket p) \<and> t = flags_for (Over_Socket p)"
      unfolding e using Some by (auto simp: bind_result_Ok_iff require_value_Ok split: if_splits)
    then show "\<exists>x. asked_transport env x \<and> t = flags_for x" by blast
  next
    assume "\<exists>x. asked_transport env x \<and> t = flags_for x"
    then obtain x where x: "asked_transport env x" "t = flags_for x" by blast
    then show "transport_args env = Ok t"
      unfolding e using Some p by (cases x) (auto simp: bind_result_Ok_iff require_value_Ok)
  qed
next
  case None
  define h where "h = (case given_env env ''HOST'' of None \<Rightarrow> ''127.0.0.1'' | Some h \<Rightarrow> h)"
  have e: "transport_args env =
      (if h \<notin> set LOOPBACK_HOSTS then Raise (Not_Loopback h)
       else bind_result (require_value ''PORT'' (given_env env ''PORT'') PORT_RE)
         (\<lambda>t. let n = the (py_int t) in if 1 \<le> n \<and> n \<le> 65535 then Ok [''--host'', h, ''--port'', show_int n] else Raise (Port_Range t)))"
    unfolding transport_args_def Let_def h_def [symmetric] using None by simp
  show ?thesis
  proof
    assume "transport_args env = Ok t"
    then obtain v where v: "h \<in> set LOOPBACK_HOSTS" "given_env env ''PORT'' = Some v" "PORT_RE v"
      "1 \<le> the (py_int v)" "the (py_int v) \<le> 65535" "t = [''--host'', h, ''--port'', show_int (the (py_int v))]"
      unfolding e by (auto simp: bind_result_Ok_iff require_value_Ok Let_def split: if_splits)
    obtain n where n: "py_int v = Some n" using py_int_digits [OF v(3)] by blast
    have "asked_transport env (Over_Tcp h n) \<and> t = flags_for (Over_Tcp h n)"
      using v n None by (cases "given_env env ''HOST''") (auto simp: h_def)
    then show "\<exists>x. asked_transport env x \<and> t = flags_for x" by blast
  next
    assume "\<exists>x. asked_transport env x \<and> t = flags_for x"
    then obtain x where x: "asked_transport env x" "t = flags_for x" by blast
    then obtain k n v where k: "x = Over_Tcp k n" "given_env env ''PORT'' = Some v" "PORT_RE v" "py_int v = Some n"
      "1 \<le> n" "n \<le> 65535" "k \<in> set LOOPBACK_HOSTS" "k = h"
      using None by (cases x) (auto simp: h_def)
    then show "transport_args env = Ok t"
      unfolding e using x(2) by (auto simp: bind_result_Ok_iff require_value_Ok given_env_Some)
  qed
qed

text \<open>Everything a successful render used.\<close>

definition rendered_from :: "environ \<Rightarrow> transport \<Rightarrow> string \<Rightarrow> string \<Rightarrow> string \<Rightarrow> plist \<Rightarrow> string \<Rightarrow> bool" where
  "rendered_from env x python backend model plist dst \<longleftrightarrow>
     (\<exists>cwd home log_dir.
        plist = agent_plist (label_of env) python cwd
          (server_args (flags_for x) backend model (given_env env ''AUTH_TOKEN_FILE'')) home log_dir) \<and>
     LABEL_RE (label_of env) \<and> asked_transport env x \<and>
     env ''PYTHON'' = Some python \<and> ABSPATH_RE python \<and>
     env ''BACKEND'' = Some backend \<and> BACKEND_RE backend \<and>
     env ''MODEL'' = Some model \<and> MODEL_RE model \<and> env ''PLIST_DST'' = Some dst \<and>
     (\<forall>f. given_env env ''AUTH_TOKEN_FILE'' = Some f \<longrightarrow> ABSPATH_RE f) \<and>
     (\<forall>k \<in> set ENV_TOKENS. given_env env k = None)"

lemma render_agent_Ok:
  assumes "render_agent env = Ok (plist, dst)"
  shows "\<exists>x python backend model. rendered_from env x python backend model plist dst"
proof -
  obtain x python cwd backend model home log_dir where r:
    "LABEL_RE (label_of env)" "env ''PYTHON'' = Some python" "ABSPATH_RE python" "asked_transport env x"
    "\<forall>f. given_env env ''AUTH_TOKEN_FILE'' = Some f \<longrightarrow> ABSPATH_RE f" "\<forall>k \<in> set ENV_TOKENS. given_env env k = None"
    "env ''BACKEND'' = Some backend" "BACKEND_RE backend" "env ''MODEL'' = Some model" "MODEL_RE model"
    "env ''PLIST_DST'' = Some dst"
    "plist = agent_plist (label_of env) python cwd
       (server_args (flags_for x) backend model (given_env env ''AUTH_TOKEN_FILE'')) home log_dir"
    using assms unfolding render_agent_def Let_def
    by (simp add: bind_result_Ok_iff require_value_Ok transport_args_Ok token_file_arg_Ok refuse_secrets_Ok split: if_splits)
      blast
  then have "rendered_from env x python backend model plist dst" unfolding rendered_from_def by blast
  then show ?thesis by blast
qed

section \<open>Read back\<close>

lemma abspath_hd: "ABSPATH_RE v \<Longrightarrow> \<exists>cs. v = CHR ''/'' # cs \<and> cs \<noteq> []"
  by (auto simp: ABSPATH_RE_def split: list.splits)

lemma reads_token_file:
  "read_argv_flags [] found (case tf of None \<Rightarrow> [] | Some f \<Rightarrow> [''--auth-token-file'', f]) =
     (case tf of None \<Rightarrow> found | Some f \<Rightarrow> found(''--auth-token-file'' \<mapsto> f))"
  by (simp add: SERVE_FLAGS_def SWITCHES_def partition_at_def split: option.splits)

definition transport_flags :: "transport \<Rightarrow> flags" where
  "transport_flags x =
     (case x of Over_Socket p \<Rightarrow> [''--socket-path'' \<mapsto> p] | Over_Tcp h n \<Rightarrow> [''--host'' \<mapsto> h, ''--port'' \<mapsto> show_int n])"

lemma read_server_args:
  assumes "ABSPATH_RE python"
  shows "read_argv_flags [] Map.empty ([python, ''-m'', ''stt_server''] @ server_args (flags_for x) backend model tf) =
     (case tf of None \<Rightarrow> transport_flags x | Some f \<Rightarrow> (transport_flags x)(''--auth-token-file'' \<mapsto> f))"
proof -
  have w: "list_all (\<lambda>a. \<not> prefix ''--'' a) [python, ''-m'', ''stt_server'']" using abspath_hd [OF assms] by auto
  have o: "read_argv_flags [] found ([''--backend'', backend, ''--model'', model, ''--log-level'', ''INFO''] @ us) =
      read_argv_flags [] found us" for found us
    by (simp add: SERVE_FLAGS_def SWITCHES_def partition_at_def)
  have t: "read_argv_flags [] Map.empty (flags_for x @ us) = read_argv_flags [] (transport_flags x) us" for us
    by (cases x) (simp_all add: SERVE_FLAGS_def SWITCHES_def partition_at_def transport_flags_def)
  show ?thesis unfolding skip_words [OF w] server_args_def t o reads_token_file ..
qed

lemma rendered_arguments:
  assumes "rendered_from env x python backend model plist dst"
  shows "program_arguments plist =
      [python, ''-m'', ''stt_server''] @ server_args (flags_for x) backend model (given_env env ''AUTH_TOKEN_FILE'')"
    "env_variable plist k = (if k = ''PATH'' then Some (P_Str ''/opt/homebrew/bin:/usr/local/bin:/usr/bin:/bin'')
       else if k = ''HOME'' then env_variable plist ''HOME'' else None)"
    "map_of plist ''Label'' = Some (P_Str (label_of env))"
proof -
  obtain cwd home log_dir where p: "plist = agent_plist (label_of env) python cwd
      (server_args (flags_for x) backend model (given_env env ''AUTH_TOKEN_FILE'')) home log_dir"
    using assms unfolding rendered_from_def by blast
  have "map plist_str (map P_Str us) = us" for us by (induction us) auto
  then show "program_arguments plist =
      [python, ''-m'', ''stt_server''] @ server_args (flags_for x) backend model (given_env env ''AUTH_TOKEN_FILE'')"
    by (simp add: program_arguments_def arguments_of_def p agent_plist_def comp_def)
  show "env_variable plist k = (if k = ''PATH'' then Some (P_Str ''/opt/homebrew/bin:/usr/local/bin:/usr/bin:/bin'')
       else if k = ''HOME'' then env_variable plist ''HOME'' else None)"
    by (simp add: env_variable_def p agent_plist_def)
  show "map_of plist ''Label'' = Some (P_Str (label_of env))" by (simp add: p agent_plist_def)
qed

lemma rendered_loads:
  assumes "rendered_from env x python backend model plist dst" "pw_parse w raw = Ok (P_Dict plist)"
  shows "loads_plist w raw = Ok plist"
proof -
  obtain python args cwd home log_dir where a: "plist = agent_plist (label_of env) python cwd args home log_dir"
    using assms(1) unfolding rendered_from_def by blast
  define us where "us = [python, ''-m'', ''stt_server''] @ args"
  have p: "map_of plist ''ProgramArguments'' = Some (P_List (map P_Str us))"
    "\<exists>rest. map_of plist ''EnvironmentVariables'' = Some (P_Dict rest)"
    by (simp_all add: a agent_plist_def us_def)
  have "find (\<lambda>a. \<not> is_str a) (map P_Str us) = None" by (auto simp: find_None_iff)
  then show ?thesis using assms(2) p by (auto simp: loads_plist_def wrong_kind_def arguments_of_def)
qed

fun endpoint_of :: "transport \<Rightarrow> endpoint_addr" where
  "endpoint_of (Over_Socket p) = Unix_At p"
| "endpoint_of (Over_Tcp h n) = Tcp_At h (show_int n)"

lemma rendered_endpoint:
  assumes "rendered_from env x python backend model plist dst"
  shows "argv_endpoint (program_arguments plist) = Some (Serves (endpoint_of x))"
proof -
  have a: "ABSPATH_RE python" "asked_transport env x" using assms by (simp_all add: rendered_from_def)
  have f: "read_argv_flags [] Map.empty (program_arguments plist) k = transport_flags x k" if "k \<noteq> ''--auth-token-file''" for k
    unfolding rendered_arguments [OF assms] read_server_args [OF a(1)] using that by (simp split: option.splits)
  show ?thesis
  proof (cases x)
    case (Over_Socket p)
    then have "ABSPATH_RE p" using a(2) by simp
    then obtain cs where "p = CHR ''/'' # cs" using abspath_hd by blast
    then show ?thesis using Over_Socket by (simp add: argv_endpoint_def f transport_flags_def)
  next
    case (Over_Tcp h n)
    then show ?thesis using a(2)
      by (simp add: argv_endpoint_def f transport_flags_def canonical_port_def parse_port_def py_int_show show_int_known)
  qed
qed

lemma rendered_flags:
  assumes "rendered_from env x python backend model plist dst"
  shows "read_flags plist = (case given_env env ''AUTH_TOKEN_FILE'' of None \<Rightarrow> transport_flags x
      | Some f \<Rightarrow> (transport_flags x)(''--auth-token-file'' \<mapsto> f))"
  using assms read_server_args by (simp add: read_flags_def rendered_arguments [OF assms] rendered_from_def)

lemma rendered_tokens:
  assumes "rendered_from env x python backend model plist dst"
  shows "env_token plist = []" "has_auth plist \<longleftrightarrow> given_env env ''AUTH_TOKEN_FILE'' \<noteq> None"
proof -
  have n: "env_variable plist k = None" if "k \<in> set ENV_TOKENS" for k
    using that by (subst rendered_arguments(2) [OF assms]) (auto simp: ENV_TOKENS_def)
  then have a: "env_variable plist ''PIPECAT_STT_AUTH_TOKEN'' = None" "env_variable plist ''KODA_STT_AUTH_TOKEN'' = None"
    by (simp_all add: ENV_TOKENS_def)
  show "env_token plist = []" by (simp add: env_token_def ENV_TOKENS_def a)
  have t: "transport_flags x ''--auth-token-file'' = None" by (cases x) (simp_all add: transport_flags_def)
  have "read_flags plist ''--auth-token-file'' = given_env env ''AUTH_TOKEN_FILE''"
    unfolding rendered_flags [OF assms] using t by (simp split: option.splits)
  then show "has_auth plist \<longleftrightarrow> given_env env ''AUTH_TOKEN_FILE'' \<noteq> None"
    by (cases "given_env env ''AUTH_TOKEN_FILE''") (auto simp: has_auth_def ENV_TOKENS_def a given_env_Some)
qed

section \<open>Accepted by the server\<close>

definition looks_like_option :: "string \<Rightarrow> bool" where
  "looks_like_option v \<longleftrightarrow> hd v = CHR ''-'' \<and> v \<noteq> ''-'' \<and> \<not> negative_number v"

lemma negative_number_shape:
  "negative_number v \<Longrightarrow> \<exists>c cs. v = CHR ''-'' # c # cs \<and> (is_digit c \<or> c = CHR ''.'')"
proof -
  assume a: "negative_number v"
  then obtain cs where v: "v = CHR ''-'' # cs" by (auto simp: negative_number_def Let_def split: list.splits prod.splits)
  define ds where "ds = (if cs \<noteq> [] \<and> last cs = CHR 0x0A then butlast cs else cs)"
  have q: "list_all is_digit (takeWhile (\<lambda>c. c \<noteq> CHR ''.'') ds) \<and> ds \<noteq> []"
    using a by (auto simp: negative_number_def v Let_def partition_at_def ds_def [symmetric] split: if_splits)
  then obtain d es where d: "ds = d # es" by (cases ds) auto
  then have "is_digit d \<or> d = CHR ''.''" using q by (auto split: if_splits)
  moreover have "\<exists>es'. cs = d # es'"
    using d by (cases cs) (auto simp: ds_def split: if_splits)
  ultimately show ?thesis using v by blast
qed

lemma model_is_value:
  assumes "MODEL_RE v"
  shows "is_value serve_parser v \<longleftrightarrow> \<not> looks_like_option v"
proof -
  have c: "\<forall>d \<in> set v. d \<noteq> CHR ''='' \<and> d \<noteq> CHR '' ''" "v \<noteq> []"
    using assms by (auto simp: MODEL_RE_def list_all_iff ascii_alnum_def in_range_def)
  have eq: "partition_at (CHR ''='') v = (v, False, [])" using c(1) by (intro partition_eq_of) auto
  show ?thesis
  proof (cases "negative_number v")
    case True
    obtain d cs where d: "v = CHR ''-'' # d # cs" "is_digit d \<or> d = CHR ''.''" using negative_number_shape [OF True] by blast
    have n: "d \<noteq> CHR ''-''" "d \<noteq> CHR ''h''" using d(2) by (auto simp: is_digit_def in_range_def)
    have "map_of (ap_options serve_parser) v = None" "abbreviated serve_parser v = []"
      using n by (simp_all add: d(1) serve_parser_def help_option_def add_endpoint_flags_def abbreviated_def)
    then show ?thesis using True eq n by (simp add: is_value_def looks_like_option_def named_before_def d(1))
  next
    case False
    show ?thesis
    proof (cases "v = ''-''")
      case True
      then show ?thesis
        by (simp add: is_value_def looks_like_option_def serve_parser_def help_option_def add_endpoint_flags_def)
    next
      case ne: False
      have "length v = 1 \<longleftrightarrow> v = [hd v]" using c(2) by (cases v) auto
      then have "hd v = CHR ''-'' \<Longrightarrow> length v \<noteq> 1" using ne by metis
      then show ?thesis using False ne c by (auto simp: is_value_def looks_like_option_def)
    qed
  qed
qed

lemma find_serve:
  "find_option serve_parser ''--socket-path'' = Some (''--socket-path'', Store, None)"
  "find_option serve_parser ''--host'' = Some (''--host'', Store, None)"
  "find_option serve_parser ''--port'' = Some (''--port'', Store_Int, None)"
  "find_option serve_parser ''--backend'' = Some (''--backend'', Store_Choice BACKEND_CHOICES, None)"
  "find_option serve_parser ''--model'' = Some (''--model'', Store, None)"
  "find_option serve_parser ''--log-level'' = Some (''--log-level'', Store, None)"
  "find_option serve_parser ''--auth-token-file'' = Some (''--auth-token-file'', Store, None)"
  by (simp_all add: find_option_def serve_parser_def help_option_def add_endpoint_flags_def)

lemma abspath_is_value: "ABSPATH_RE v \<Longrightarrow> is_value serve_parser v"
  using abspath_hd [of v] by (auto simp: is_value_def)

lemma host_is_value: "h \<in> set LOOPBACK_HOSTS \<Longrightarrow> is_value serve_parser h"
  by (auto simp: LOOPBACK_HOSTS_def is_value_def)

lemma port_is_value: "0 \<le> n \<Longrightarrow> is_value serve_parser (show_int n)"
proof -
  assume "0 \<le> n"
  then have e: "show_int n = show_nat (nat n)" by (simp add: show_int_def)
  obtain c cs where c: "show_nat (nat n) = c # cs" using digits_show_nat [of "nat n"] by (cases "show_nat (nat n)") auto
  have "is_digit c" using show_nat_digits [of "nat n"] c by simp
  then show ?thesis unfolding e c by (auto simp: is_value_def is_digit_def in_range_def)
qed

lemma backend_ok: "BACKEND_RE b \<Longrightarrow> is_value serve_parser b \<and> b \<in> set BACKEND_CHOICES"
  by (auto simp: BACKEND_RE_def is_value_def BACKEND_CHOICES_def BACKENDS_def)

text \<open>The settings of the server a plist starts.\<close>

definition settings_for :: "transport \<Rightarrow> string \<Rightarrow> string \<Rightarrow> string option \<Rightarrow> namespace" where
  "settings_for x backend model tf =
     (let ns = (case x of
          Over_Socket p \<Rightarrow> [''--socket-path'' \<mapsto> A_Str p]
        | Over_Tcp h n \<Rightarrow> [''--host'' \<mapsto> A_Str h, ''--port'' \<mapsto> A_Int n]);
          ns' = ns(''--backend'' \<mapsto> A_Str backend, ''--model'' \<mapsto> A_Str model, ''--log-level'' \<mapsto> A_Str ''INFO'')
      in case tf of None \<Rightarrow> ns' | Some f \<Rightarrow> ns'(''--auth-token-file'' \<mapsto> A_Str f))"

lemma parse_server_args:
  assumes "asked_transport env x" "BACKEND_RE backend" "MODEL_RE model" "\<forall>f. tf = Some f \<longrightarrow> ABSPATH_RE f"
  shows "main_command (server_args (flags_for x) backend model tf) =
     (if looks_like_option model then None else Some (Cmd_Serve (settings_for x backend model tf)))"
proof -
  define us where "us = [''--backend'', backend, ''--model'', model, ''--log-level'', ''INFO''] @
     (case tf of None \<Rightarrow> [] | Some f \<Rightarrow> [''--auth-token-file'', f])"
  define fin where "fin ns = (let ns' = ns(''--backend'' \<mapsto> A_Str backend, ''--model'' \<mapsto> A_Str model, ''--log-level'' \<mapsto> A_Str ''INFO'')
      in case tf of None \<Rightarrow> ns' | Some f \<Rightarrow> ns'(''--auth-token-file'' \<mapsto> A_Str f))" for ns :: namespace
  have i: "is_value serve_parser ''INFO''" by (simp add: is_value_def)
  have r: "ap_required serve_parser = []" by (simp add: serve_parser_def)
  have p: "parse_args serve_parser us ns = (if looks_like_option model then None else Some (fin ns))" for ns
    using backend_ok [OF assms(2)] model_is_value [OF assms(3)] i r assms(4) abspath_is_value
    by (cases tf) (auto simp: us_def fin_def find_serve)
  show ?thesis
  proof (cases x)
    case (Over_Socket q)
    then have "is_value serve_parser q" using assms(1) abspath_is_value by simp
    then show ?thesis
      unfolding server_args_def us_def [symmetric] settings_for_def Over_Socket
      by (simp add: main_command_def run_parser_def find_serve p fin_def Let_def)
  next
    case (Over_Tcp h n)
    then have "is_value serve_parser h" "is_value serve_parser (show_int n)"
      using assms(1) host_is_value port_is_value by auto
    then show ?thesis
      unfolding server_args_def us_def [symmetric] settings_for_def Over_Tcp
      by (simp add: main_command_def run_parser_def find_serve p fin_def Let_def py_int_show)
  qed
qed

section \<open>Properties\<close>

text \<open>The written file is private: its mode is \<open>0o600\<close> at the end, and throughout where there was no file.\<close>

lemma written_agent_private:
  "last (write_agent before plist) = (384, Some plist) \<and>
   (before = None \<longrightarrow> (\<forall>s \<in> set (write_agent before plist). fst s = 384))"
  by (simp add: write_agent_def split: option.splits)

text \<open>C33: what the renderer writes is what the reader finds: a rendered plist passes the reader's checks, holds the label,
  interpreter, transport and token file that were asked for, is read as serving exactly that endpoint (the port
  in the form the server prints it), holds no token of its own, and reads as requiring a token exactly when a token
  file was named.\<close>

theorem rendered_agent_reads_back:
  assumes "render_agent env = Ok (plist, dst)"
  shows "\<exists>x. asked_transport env x \<and>
    (\<forall>w raw. pw_parse w raw = Ok (P_Dict plist) \<longrightarrow> loads_plist w raw = Ok plist) \<and>
    map_of plist ''Label'' = Some (P_Str (label_of env)) \<and>
    env ''PYTHON'' = Some (read_field plist ''interpreter'') \<and>
    read_flags plist ''--auth-token-file'' = given_env env ''AUTH_TOKEN_FILE'' \<and>
    argv_endpoint (program_arguments plist) = Some (Serves (endpoint_of x)) \<and>
    env_token plist = [] \<and> (has_auth plist \<longleftrightarrow> given_env env ''AUTH_TOKEN_FILE'' \<noteq> None)"
proof -
  obtain x python backend model where r: "rendered_from env x python backend model plist dst"
    using render_agent_Ok [OF assms] by blast
  have "transport_flags x ''--auth-token-file'' = None" by (cases x) (simp_all add: transport_flags_def)
  then have "read_flags plist ''--auth-token-file'' = given_env env ''AUTH_TOKEN_FILE''"
    unfolding rendered_flags [OF r] by (simp split: option.splits)
  moreover have "read_field plist ''interpreter'' = python"
    by (simp add: read_field_def rendered_arguments [OF r])
  ultimately show ?thesis
    using rendered_loads [OF r] rendered_arguments(3) [OF r] rendered_endpoint [OF r] rendered_tokens [OF r] r
    by (auto simp: rendered_from_def)
qed

definition sample_render :: environ where
  "sample_render = [''PYTHON'' \<mapsto> ''/v/python'', ''REPO_ROOT'' \<mapsto> ''/r'', ''PORT'' \<mapsto> ''09'', ''BACKEND'' \<mapsto> ''echo'', ''MODEL'' \<mapsto> ''-x'',
     ''HOME'' \<mapsto> ''/h'', ''LOG_DIR'' \<mapsto> ''/l/./'', ''PLIST_DST'' \<mapsto> ''/p'', ''AUTH_TOKEN_FILE'' \<mapsto> ''/t'']"

definition sample_plist :: plist where
  "sample_plist = agent_plist DEFAULT_LABEL ''/v/python'' ''/r''
     (server_args [''--host'', ''127.0.0.1'', ''--port'', ''9''] ''echo'' ''-x'' (Some ''/t'')) ''/h'' ''/l/./''"

lemma sample_rendered: "render_agent sample_render = Ok (sample_plist, ''/p'')"
proof -
  have n: "py_int ''09'' = Some 9" "show_int 9 = ''9''" using sample_port by (simp_all add: parse_port_def)
  have l: "label_of sample_render = DEFAULT_LABEL" by (simp add: label_of_def sample_render_def)
  have t: "transport_args sample_render = Ok [''--host'', ''127.0.0.1'', ''--port'', ''9'']"
    by (simp add: transport_args_def sample_render_def given_env_def require_value_def LOOPBACK_HOSTS_def n PORT_RE_def
        is_digit_def in_range_def)
  have f: "token_file_arg sample_render = Ok (Some ''/t'')"
    by (simp add: token_file_arg_def sample_render_def given_env_def require_value_def ABSPATH_RE_def ascii_alnum_def in_range_def)
  have s: "refuse_secrets sample_render ENV_TOKENS = Ok ()" by (simp add: ENV_TOKENS_def sample_render_def given_env_def)
  show ?thesis
    unfolding render_agent_def Let_def l t f s
    by (simp add: LABEL_RE_def DEFAULT_LABEL_def sample_render_def require_value_def ABSPATH_RE_def ascii_alnum_def in_range_def
        BACKEND_RE_def MODEL_RE_def sample_plist_def)
qed

theorem rendered_agent_reads_back_witness:
  "has_auth sample_plist \<and> argv_endpoint (program_arguments sample_plist) = Some (Serves (Tcp_At ''127.0.0.1'' ''9''))"
proof -
  obtain x where x: "asked_transport sample_render x" "argv_endpoint (program_arguments sample_plist) = Some (Serves (endpoint_of x))"
    "has_auth sample_plist \<longleftrightarrow> given_env sample_render ''AUTH_TOKEN_FILE'' \<noteq> None"
    using rendered_agent_reads_back [OF sample_rendered] by blast
  have "x = Over_Tcp ''127.0.0.1'' 9"
    using x(1) sample_port by (cases x) (auto simp: sample_render_def given_env_def parse_port_def)
  then show ?thesis using x(2,3) sample_port by (simp add: sample_render_def given_env_def)
qed

text \<open>C34: what the rendered agent runs: behind the interpreter, \<open>-m\<close> and the module, the server's own parser takes the arguments
  of every rendered plist and reads exactly the transport, backend, model and token file asked for, with one
  exception: a model that looks like an option (it starts with a dash, is not a dash alone and no negative number)
  passes the renderer's allowlist, and the server it starts stops with a usage error.\<close>

theorem rendered_agent_serves:
  assumes "render_agent env = Ok (plist, dst)"
  shows "\<exists>x python backend model argv.
    asked_transport env x \<and> env ''BACKEND'' = Some backend \<and> env ''MODEL'' = Some model \<and>
    program_arguments plist = [python, ''-m'', ''stt_server''] @ argv \<and>
    main_command argv =
      (if looks_like_option model then None
       else Some (Cmd_Serve (settings_for x backend model (given_env env ''AUTH_TOKEN_FILE''))))"
proof -
  obtain x python backend model where r: "rendered_from env x python backend model plist dst"
    using render_agent_Ok [OF assms] by blast
  then have "main_command (server_args (flags_for x) backend model (given_env env ''AUTH_TOKEN_FILE'')) =
      (if looks_like_option model then None
       else Some (Cmd_Serve (settings_for x backend model (given_env env ''AUTH_TOKEN_FILE''))))"
    by (intro parse_server_args [where env = env]) (simp_all add: rendered_from_def)
  then show ?thesis using rendered_arguments(1) [OF r] r unfolding rendered_from_def by blast
qed

theorem rendered_agent_serves_witness:
  "\<exists>python argv. program_arguments sample_plist = [python, ''-m'', ''stt_server''] @ argv \<and> main_command argv = None"
proof -
  have "looks_like_option ''-x''"
    by (simp add: looks_like_option_def negative_number_def partition_at_def is_digit_def in_range_def)
  then show ?thesis using rendered_agent_serves [OF sample_rendered] by (auto simp: sample_render_def)
qed

end
