(* ===== verification/Launchd_Teardown.thy ===== *)
theory Launchd_Teardown
  imports Launchd_Harness Render_Plist Socket_Lock
begin

text \<open>
  \<open>scripts/smoke_launchd.py\<close>: the files of the spare agent. Their paths, the start state that must find none of them, the
  list of what the harness may have made, and the teardown, which passes the state of those files from one removal
  to the next and looks at it at the end.

  What exists after the uninstall, what each removal answers, what others create meanwhile, and the answers of launchd
  are inputs; the texts of the problems are left out.
\<close>

section \<open>Paths of the spare agent\<close>

text \<open>\<open>str\<close> of a path and of a path with components added.\<close>

definition path_add :: "string \<Rightarrow> string list \<Rightarrow> string" where
  "path_add d names = path_root d @ slashed (path_parts d @ names)"

definition path_norm :: "string \<Rightarrow> string" where
  "path_norm p = (let s = path_add p [] in if s = [] then ''.'' else s)"

definition spare_plist :: "string \<Rightarrow> string \<Rightarrow> string" where
  "spare_plist home label = path_add home [''Library'', ''LaunchAgents'', label @ ''.plist'']"

definition spare_log_dir :: "environ \<Rightarrow> string \<Rightarrow> string" where
  "spare_log_dir env home =
     (case given_env env ''PIPECAT_STT_LOG_DIR'' of
        Some d \<Rightarrow> d
      | None \<Rightarrow> (case given_env env ''KODA_STT_LOG_DIR'' of
          Some d \<Rightarrow> d | None \<Rightarrow> path_add home [''Library'', ''Logs'', ''pipecat-stt'']))"

text \<open>The log a plist records, or the one of the naming rule.\<close>

definition recorded_log :: "plist \<Rightarrow> string \<Rightarrow> string \<Rightarrow> string" where
  "recorded_log data key dflt = (case map_of data key of Some (P_Str (c # cs)) \<Rightarrow> path_norm (c # cs) | _ \<Rightarrow> dflt)"

definition log_paths :: "environ \<Rightarrow> string \<Rightarrow> string \<Rightarrow> plist \<Rightarrow> string list" where
  "log_paths env home label data =
     (let err = recorded_log data ''StandardErrorPath'' (path_in (spare_log_dir env home) (log_basename label @ ''.err''));
          out = recorded_log data ''StandardOutPath'' (path_in (spare_log_dir env home) (log_basename label @ ''.log''))
      in if out = err then [err] else [err, out])"

definition spare_socket_dir :: "string \<Rightarrow> string" where
  "spare_socket_dir home = path_add home [''Library'', ''Caches'', ''pipecat-stt-smoke-launchd'']"

definition spare_socket_path :: "string \<Rightarrow> string" where
  "spare_socket_path home = path_add home [''Library'', ''Caches'', ''pipecat-stt-smoke-launchd'', ''spare.sock'']"

text \<open>Where a plist of that label would be the same job; \<open>same\<close>: the two absolute paths are equal.\<close>

definition spare_plist_paths :: "(string \<Rightarrow> string \<Rightarrow> bool) \<Rightarrow> string \<Rightarrow> string \<Rightarrow> string \<Rightarrow> string list" where
  "spare_plist_paths same home agents_home label =
     (if same (spare_plist agents_home label) (spare_plist home label) then [spare_plist home label]
      else [spare_plist home label, spare_plist agents_home label])"

section \<open>The start state\<close>

datatype clean_up = Bootout | Remove_Files "string list" | Remove_Tree string | Remove_Dir string

definition start_paths :: "(string \<Rightarrow> string \<Rightarrow> bool) \<Rightarrow> environ \<Rightarrow> string \<Rightarrow> string \<Rightarrow> string \<Rightarrow> plist \<Rightarrow> string list" where
  "start_paths same env home agents_home label data =
     spare_plist_paths same home agents_home label @ [spare_socket_path home, lock_path (spare_socket_path home)]
       @ log_paths env home label data"

text \<open>\<open>found\<close>: there is something at the path, a dangling link too. \<open>None\<close>: the job's state cannot be read.\<close>

definition start_state_problems :: "run_answer \<Rightarrow> (string \<Rightarrow> bool) \<Rightarrow> string list \<Rightarrow> clean_up list option" where
  "start_state_problems print found paths =
     (case require_launchd_state print of
        None \<Rightarrow> None
      | Some (loaded, pid) \<Rightarrow> Some ((if loaded then [Bootout] else []) @ map (\<lambda>p. Remove_Files [p]) (filter found paths)))"

section \<open>What the harness leaves\<close>

datatype how = Rm | Rm_Tree | Rm_Dir

definition spare_artifacts :: "string \<Rightarrow> string \<Rightarrow> string list \<Rightarrow> string option \<Rightarrow> bool \<Rightarrow> (string \<times> how) list" where
  "spare_artifacts home label logs token_dir sock_dir_made =
     map (\<lambda>p. (p, Rm)) (spare_plist home label # logs) @
     [(spare_socket_path home, Rm), (lock_path (spare_socket_path home), Rm)] @
     (case token_dir of None \<Rightarrow> [] | Some d \<Rightarrow> [(d, Rm_Tree)]) @
     (if sock_dir_made then [(spare_socket_dir home, Rm_Dir)] else [])"

text \<open>The report of a teardown that changes nothing: the job's state, what is there now, the commands for the user.
  \<open>logs\<close>: \<open>None\<close> when the log paths cannot be read.\<close>

record frozen_report =
  fr_loaded :: "bool option"
  fr_left :: "string list"
  fr_commands :: "clean_up list"

definition frozen_teardown ::
  "string \<Rightarrow> string \<Rightarrow> string list option \<Rightarrow> string option \<Rightarrow> bool \<Rightarrow> run_answer \<Rightarrow> (string \<Rightarrow> bool) \<Rightarrow> frozen_report" where
  "frozen_teardown home label logs token_dir sock_dir_made print found =
     (let arts = spare_artifacts home label (case logs of None \<Rightarrow> [] | Some ls \<Rightarrow> ls) token_dir sock_dir_made
      in \<lparr>fr_loaded = map_option fst (require_launchd_state print),
          fr_left = filter found (map fst arts),
          fr_commands = [Bootout, Remove_Files (map fst (filter (\<lambda>a. snd a = Rm) arts))] @
            map (\<lambda>(p, how). if how = Rm_Tree then Remove_Tree p else Remove_Dir p) (filter (\<lambda>a. snd a \<noteq> Rm) arts)\<rparr>)"

section \<open>Paths in normal form\<close>

definition component :: "string \<Rightarrow> bool" where
  "component p \<longleftrightarrow> p \<noteq> [] \<and> p \<noteq> ''.'' \<and> CHR ''/'' \<notin> set p"

lemma split_slash_skip: "CHR ''/'' \<notin> set p \<Longrightarrow> split_on_from ''/'' cur (p @ s) = split_on_from ''/'' (cur @ p) s"
proof (induction p arbitrary: cur)
  case (Cons c p)
  then show ?case by (subst split_on_from.simps) auto
qed simp

lemma split_slash_end: "split_on_from ''/'' cur [] = [cur]"
  by (simp add: split_on_from.simps)

lemma split_slash_sep: "split_on_from ''/'' cur (CHR ''/'' # s) = cur # split_on_from ''/'' [] s"
  by (subst split_on_from.simps) simp

lemma split_no_slash: "c \<in> set (split_on_from ''/'' cur s) \<Longrightarrow> CHR ''/'' \<notin> set cur \<Longrightarrow> CHR ''/'' \<notin> set c"
proof (induction s arbitrary: cur)
  case Nil
  then show ?case by (simp add: split_slash_end)
next
  case (Cons x s)
  show ?case
  proof (cases "x = CHR ''/''")
    case True
    then have "c = cur \<or> c \<in> set (split_on_from ''/'' [] s)" using Cons.prems(1) by (simp add: split_slash_sep)
    then show ?thesis using Cons.IH [of "[]"] Cons.prems(2) by auto
  next
    case False
    have "split_on_from ''/'' cur (x # s) = split_on_from ''/'' (cur @ [x]) s"
      using split_slash_skip [of "[x]" cur s] False by simp
    then show ?thesis using Cons.IH [of "cur @ [x]"] Cons.prems False by auto
  qed
qed

lemma path_parts_components: "list_all component (path_parts p)"
  using split_no_slash [of _ "[]" p] by (auto simp: path_parts_def list_all_iff component_def split_on_def)

lemma split_slashed:
  "list_all component ps \<Longrightarrow> ps \<noteq> [] \<Longrightarrow> split_on_from ''/'' [] (slashed ps) = ps"
proof (induction ps rule: slashed.induct)
  case (2 p)
  then have "split_on_from ''/'' [] (p @ []) = split_on_from ''/'' ([] @ p) []"
    by (intro split_slash_skip) (simp add: component_def)
  then show ?case by (simp add: split_slash_end)
next
  case (3 p q ps)
  then have "split_on_from ''/'' [] (p @ CHR ''/'' # slashed (q # ps)) = split_on_from ''/'' ([] @ p) (CHR ''/'' # slashed (q # ps))"
    by (intro split_slash_skip) (simp add: component_def)
  then show ?case using 3 by (simp add: split_slash_sep)
qed simp

lemma slashed_hd: "list_all component ps \<Longrightarrow> ps \<noteq> [] \<Longrightarrow> slashed ps \<noteq> [] \<and> hd (slashed ps) \<noteq> CHR ''/''"
  by (induction ps rule: slashed.induct) (auto simp: component_def neq_Nil_conv)

lemma path_root_cases: "path_root p \<in> {[], ''/'', ''//''}"
  by (simp add: path_root_def)

lemma path_parts_of:
  assumes "list_all component ps" "r \<in> {[], ''/'', ''//''}"
  shows "path_parts (r @ slashed ps) = ps"
proof (cases "ps = []")
  case True
  then show ?thesis using assms(2) by (auto simp: path_parts_def split_on_def split_slash_sep split_slash_end)
next
  case False
  have f: "filter (\<lambda>x. x \<noteq> [] \<and> x \<noteq> ''.'') ps = ps" using assms(1) by (intro filter_True) (simp add: component_def list_all_iff)
  show ?thesis using assms(2) split_slashed [OF assms(1) False] f
    by (auto simp: path_parts_def split_on_def split_slash_sep)
qed

lemma path_root_of:
  assumes "list_all component ps" "ps \<noteq> []" "r \<in> {[], ''/'', ''//''}"
  shows "path_root (r @ slashed ps) = r"
proof -
  obtain c cs where "slashed ps = c # cs" "c \<noteq> CHR ''/''" using slashed_hd [OF assms(1,2)] by (cases "slashed ps") auto
  then show ?thesis using assms(3) by (auto simp: path_root_def)
qed

lemma path_norm_in:
  assumes "component name"
  shows "path_norm (path_in d name) = path_in d name" "path_in d name \<noteq> []"
proof -
  have c: "list_all component (path_parts d @ [name])" using path_parts_components assms by simp
  have n: "slashed (path_parts d @ [name]) \<noteq> []" using slashed_hd [OF c] by simp
  show "path_in d name \<noteq> []" using n by (simp add: path_in_def)
  have "path_add (path_in d name) [] = path_in d name"
    unfolding path_add_def path_in_def
    using path_parts_of [OF c path_root_cases [of d]] path_root_of [OF c _ path_root_cases [of d]] by simp
  then show "path_norm (path_in d name) = path_in d name" using n by (simp add: path_norm_def path_in_def)
qed

section \<open>Only what it made\<close>

lemma log_component:
  assumes "LABEL_RE label" "sfx \<in> {''.err'', ''.log''}"
  shows "component (log_basename label @ sfx)"
proof -
  have "\<forall>c \<in> set label. c \<noteq> CHR ''/''"
    using assms(1) by (auto simp: LABEL_RE_def list_all_iff ascii_alnum_def in_range_def)
  then have "CHR ''/'' \<notin> set (log_basename label)" by (auto simp: log_basename_def)
  then show ?thesis using assms(2) by (auto simp: component_def)
qed

lemma rendered_log_paths:
  assumes "render_agent renv = Ok (data, dst)" "renv ''LOG_DIR'' = Some (spare_log_dir env home)" "label_of renv = label"
  shows "log_paths env home label data = log_paths env home label []"
proof -
  obtain python cwd args where d: "LABEL_RE label" "data = agent_plist label python cwd args (the (renv ''HOME'')) (spare_log_dir env home)"
    using assms unfolding render_agent_def Let_def
    by (auto simp: bind_result_Ok_iff require_value_Ok split: if_splits)
  have r: "recorded_log data key (path_in (spare_log_dir env home) (log_basename label @ sfx)) =
      path_in (spare_log_dir env home) (log_basename label @ sfx)"
    if "map_of data key = Some (P_Str (path_in (spare_log_dir env home) (log_basename label @ sfx)))" "sfx \<in> {''.err'', ''.log''}" for key sfx
  proof -
    note n = path_norm_in [OF log_component [OF d(1) that(2)], of "spare_log_dir env home"]
    obtain c cs where "path_in (spare_log_dir env home) (log_basename label @ sfx) = c # cs"
      using n(2) by (cases "path_in (spare_log_dir env home) (log_basename label @ sfx)") auto
    then show ?thesis using that(1) n(1) by (simp add: recorded_log_def)
  qed
  have "map_of data ''StandardErrorPath'' = Some (P_Str (path_in (spare_log_dir env home) (log_basename label @ ''.err'')))"
    "map_of data ''StandardOutPath'' = Some (P_Str (path_in (spare_log_dir env home) (log_basename label @ ''.log'')))"
    by (simp_all add: d(2) agent_plist_def)
  then show ?thesis using r by (simp add: log_paths_def recorded_log_def [of "[]"])
qed

section \<open>The teardown\<close>

text \<open>The uninstall's ending (with its exit status and warnings); what exists when it has ended; the other readings around
  the spare socket; what an \<open>unlink\<close>, \<open>rmdir\<close> or \<open>rmtree\<close> of a path answers; what somebody else has made at a path by the
  time of the last look; launchd's answer then. \<open>td_logs\<close> and \<open>td_plist_socket\<close> are read before the uninstall.\<close>

datatype unlinked = Removed | Was_Gone | Cannot

type_synonym files = "string \<Rightarrow> bool"

record teardown_world =
  td_frozen :: bool
  td_home :: string
  td_label :: string
  td_logs :: "string list"
  td_plist_socket :: string
  td_sock_dir_made :: bool
  td_token_dir :: "string option"
  td_uninstall :: ending
  td_rc :: int
  td_err :: string
  td_there :: files
  td_socket :: spare_files
  td_answer :: "string \<Rightarrow> unlinked"
  td_appears :: files
  td_print :: run_answer

datatype td_op = Op_Uninstall | Op_Unlink string | Op_Rmdir string | Op_Rmtree string

text \<open>One stage: the files after it, what it did, and the problems it found.\<close>

type_synonym stage = "files \<times> td_op list \<times> problem list"

definition then_stage :: "stage \<Rightarrow> (files \<Rightarrow> stage) \<Rightarrow> stage" where
  "then_stage s next_stage =
     (case s of (f, ops, ps) \<Rightarrow> (case next_stage f of (f', ops', ps') \<Rightarrow> (f', ops @ ops', ps @ ps')))"

definition gone :: "string \<Rightarrow> files \<Rightarrow> files" where
  "gone p f q \<longleftrightarrow> f q \<and> q \<noteq> p"

text \<open>\<open>_unlink\<close>, and \<open>rmtree\<close> in the same way: a path that is gone already is no problem.\<close>

definition td_unlink :: "teardown_world \<Rightarrow> td_op \<Rightarrow> string \<Rightarrow> files \<Rightarrow> stage" where
  "td_unlink w op p f =
     (case td_answer w p of Cannot \<Rightarrow> (f, [op], [Cannot_Remove p]) | _ \<Rightarrow> (gone p f, [op], []))"

text \<open>The spare's socket and lock, with what exists now; an unlink there may also find its path gone.\<close>

definition td_spare_socket :: "teardown_world \<Rightarrow> files \<Rightarrow> stage" where
  "td_spare_socket w f =
     (let sock = spare_socket_path (td_home w); lock = lock_path sock;
          sf = (td_socket w)\<lparr>sf_sock := f sock, sf_lock := f lock, sf_unlink_sock := td_answer w sock \<noteq> Cannot,
                             sf_unlink_lock := td_answer w lock \<noteq> Cannot\<rparr>;
          (ops, ps) = remove_spare_socket sf;
          f1 = (if Unlink_Sock \<in> set ops \<and> sf_unlink_sock sf then gone sock f else f);
          f2 = (if Unlink_Lock \<in> set ops \<and> sf_unlink_lock sf then gone lock f1 else f1)
      in (f2, map (\<lambda>r. case r of Unlink_Sock \<Rightarrow> Op_Unlink sock | Unlink_Lock \<Rightarrow> Op_Unlink lock) ops, ps))"

text \<open>Another socket in the plist is reported, never removed.\<close>

definition td_other_socket :: "teardown_world \<Rightarrow> files \<Rightarrow> stage" where
  "td_other_socket w f =
     (let s = td_plist_socket w
      in (f, [], if s \<noteq> [] \<and> s \<noteq> spare_socket_path (td_home w)
                 then map (\<lambda>p. Other_Socket) (filter f [s, lock_path s]) else []))"

definition td_rmdir :: "teardown_world \<Rightarrow> files \<Rightarrow> stage" where
  "td_rmdir w f =
     (let d = spare_socket_dir (td_home w)
      in if td_sock_dir_made w \<and> f d
         then (case td_answer w d of
                 Removed \<Rightarrow> (gone d f, [Op_Rmdir d], [])
               | Was_Gone \<Rightarrow> (gone d f, [Op_Rmdir d], [Cannot_Remove d])
               | Cannot \<Rightarrow> (f, [Op_Rmdir d], [Cannot_Remove d]))
         else (f, [], []))"

definition td_rmtree :: "teardown_world \<Rightarrow> files \<Rightarrow> stage" where
  "td_rmtree w f = (case td_token_dir w of None \<Rightarrow> (f, [], []) | Some d \<Rightarrow> td_unlink w (Op_Rmtree d) d f)"

fun td_unlinks :: "teardown_world \<Rightarrow> string list \<Rightarrow> files \<Rightarrow> stage" where
  "td_unlinks w [] f = (f, [], [])"
| "td_unlinks w (p # ps) f = then_stage (td_unlink w (Op_Unlink p) p f) (td_unlinks w ps)"

definition td_remove :: "teardown_world \<Rightarrow> stage" where
  "td_remove w =
     then_stage (then_stage (then_stage (then_stage (td_spare_socket w (td_there w)) (td_other_socket w)) (td_rmdir w)) (td_rmtree w))
       (td_unlinks w (spare_plist (td_home w) (td_label w) # td_logs w))"

definition td_artifacts :: "teardown_world \<Rightarrow> (string \<times> how) list" where
  "td_artifacts w = spare_artifacts (td_home w) (td_label w) (td_logs w) (td_token_dir w) (td_sock_dir_made w)"

text \<open>The last look: the files the removals left, and what others have made since.\<close>

definition td_verdict :: "teardown_world \<Rightarrow> files \<Rightarrow> problem list" where
  "td_verdict w f =
     (case require_launchd_state (td_print w) of
        None \<Rightarrow> [Launchd_State]
      | Some (loaded, _) \<Rightarrow> if loaded then [Still_Loaded] else [])
     @ (let left = filter (\<lambda>p. f p \<or> td_appears w p) (map fst (td_artifacts w)) in if left = [] then [] else [Left_Behind left])"

definition teardown :: "teardown_world \<Rightarrow> td_op list \<times> problem list" where
  "teardown w =
     (if td_frozen w then ([], [Frozen])
      else
        let (ended, frozen) = run_installer False (td_uninstall w);
            failed = (case ended of
                Installer_Ended \<Rightarrow> if td_rc w \<noteq> 0 \<or> leave_behind_warnings (td_err w) \<noteq> [] then [Uninstall_Failed] else []
              | _ \<Rightarrow> [Uninstall_Failed])
        in if frozen then ([Op_Uninstall], [Frozen])
           else (case td_remove w of (f, ops, ps) \<Rightarrow> (Op_Uninstall # ops, failed @ ps @ td_verdict w f)))"

section \<open>What the teardown removes and reports\<close>

fun op_path :: "td_op \<Rightarrow> string option" where
  "op_path Op_Uninstall = None"
| "op_path (Op_Unlink p) = Some p"
| "op_path (Op_Rmdir p) = Some p"
| "op_path (Op_Rmtree p) = Some p"

definition op_done :: "teardown_world \<Rightarrow> td_op \<Rightarrow> bool" where
  "op_done w op \<longleftrightarrow>
     (case op of
        Op_Uninstall \<Rightarrow> td_uninstall w = Returns False \<and> td_rc w = 0 \<and> leave_behind_warnings (td_err w) = []
      | Op_Unlink p \<Rightarrow> td_answer w p \<noteq> Cannot
      | Op_Rmdir p \<Rightarrow> td_answer w p = Removed
      | Op_Rmtree p \<Rightarrow> td_answer w p \<noteq> Cannot)"

lemma op_done_simps [simp]:
  "op_done w (Op_Unlink p) \<longleftrightarrow> td_answer w p \<noteq> Cannot" "op_done w (Op_Rmdir p) \<longleftrightarrow> td_answer w p = Removed"
  "op_done w (Op_Rmtree p) \<longleftrightarrow> td_answer w p \<noteq> Cannot"
  by (simp_all add: op_done_def)












text \<open>Which operations a teardown makes: on each log and the plist, on the token directory, and on nothing that is no
  artifact.\<close>

definition ops_of :: "stage \<Rightarrow> td_op list" where "ops_of s = fst (snd s)"

lemma ops_then [simp]: "ops_of (then_stage s g) = ops_of s @ ops_of (g (fst s))"
  by (simp add: ops_of_def then_stage_def split: prod.splits)

lemma ops_unlink: "ops_of (td_unlink w op p f) = [op]"
  by (simp add: ops_of_def td_unlink_def split: unlinked.splits)

lemma ops_unlinks: "ops_of (td_unlinks w ps f) = map Op_Unlink ps"
  by (induction ps arbitrary: f) (simp_all add: ops_unlink, simp add: ops_of_def)

lemma ops_rmtree: "ops_of (td_rmtree w f) = (case td_token_dir w of None \<Rightarrow> [] | Some d \<Rightarrow> [Op_Rmtree d])"
  by (auto simp: ops_of_def td_rmtree_def td_unlink_def split: option.splits unlinked.splits)

lemma ops_rmdir: "ops_of (td_rmdir w f) = (if td_sock_dir_made w \<and> f (spare_socket_dir (td_home w)) then [Op_Rmdir (spare_socket_dir (td_home w))] else [])"
  by (auto simp: ops_of_def td_rmdir_def Let_def split: unlinked.splits)

lemma ops_other: "ops_of (td_other_socket w f) = []"
  by (simp add: ops_of_def td_other_socket_def Let_def)

lemma ops_socket:
  "set (ops_of (td_spare_socket w f)) \<subseteq> {Op_Unlink (spare_socket_path (td_home w)), Op_Unlink (lock_path (spare_socket_path (td_home w)))}"
  by (auto simp: ops_of_def td_spare_socket_def Let_def split: prod.splits removal.splits)

lemmas ops_simps = ops_unlink ops_unlinks ops_rmtree ops_rmdir ops_other


lemma td_ops_own: "op \<in> set (ops_of (td_remove w)) \<Longrightarrow> \<exists>p how. op_path op = Some p \<and> (p, how) \<in> set (td_artifacts w)"
proof -
  assume a: "op \<in> set (ops_of (td_remove w))"
  define home where "home = td_home w"
  consider "op \<in> set (ops_of (td_spare_socket w (td_there w)))" | "td_sock_dir_made w" "op = Op_Rmdir (spare_socket_dir home)"
    | d where "td_token_dir w = Some d" "op = Op_Rmtree d" | p where "p \<in> set (spare_plist home (td_label w) # td_logs w)" "op = Op_Unlink p"
    using a by (cases "td_token_dir w") (auto simp: td_remove_def ops_simps home_def split: if_splits)
  then show ?thesis
  proof cases
    case 1
    then have "op = Op_Unlink (spare_socket_path home) \<or> op = Op_Unlink (lock_path (spare_socket_path home))"
      using ops_socket [of w "td_there w"] by (auto simp: home_def)
    then show ?thesis by (auto simp: td_artifacts_def spare_artifacts_def home_def)
  qed (auto simp: td_artifacts_def spare_artifacts_def home_def)
qed





section \<open>It removes only what it made\<close>

lemma artifacts_own:
  assumes "start_state_problems print found (start_paths same env home agents_home label start_data) = Some []"
    and "\<not> found (spare_plist home label) \<longrightarrow> start_data = []"
    and "data = [] \<or> (\<exists>renv dst. render_agent renv = Ok (data, dst) \<and> renv ''LOG_DIR'' = Some (spare_log_dir env home) \<and>
      label_of renv = label)"
    and "(p, how) \<in> set (spare_artifacts home label (log_paths env home label data) token_dir sock_dir_made)"
  shows "\<not> found p \<or> token_dir = Some p \<and> how = Rm_Tree \<or> sock_dir_made \<and> p = spare_socket_dir home \<and> how = Rm_Dir"
proof -
  have clean: "\<forall>q \<in> set (start_paths same env home agents_home label start_data). \<not> found q"
    using assms(1) by (auto simp: start_state_problems_def filter_empty_conv split: option.splits)
  then have "\<not> found (spare_plist home label)" by (simp add: start_paths_def spare_plist_paths_def split: if_splits)
  then have s: "start_data = []" using assms(2) by blast
  have l: "log_paths env home label data = log_paths env home label []"
    using assms(3) rendered_log_paths by blast
  show ?thesis
    using assms(4) clean unfolding l s
    by (auto simp: spare_artifacts_def start_paths_def spare_plist_paths_def split: option.splits if_splits)
qed

text \<open>The harness removes only what it made. When the start state was clean (nothing at any of the spare's paths, no
  loaded job) and the plist it finds at the end is gone or was rendered for its own label and log directory, then
  every path that its teardown (or the commands of a frozen one) removes was free at the start, or is the token
  directory or the socket directory the harness created itself.\<close>

theorem teardown_removes_own_files:
  assumes "start_state_problems print found (start_paths same env (td_home w) agents_home (td_label w) start_data) = Some []"
    and "\<not> found (spare_plist (td_home w) (td_label w)) \<longrightarrow> start_data = []"
    and "data = [] \<or> (\<exists>renv dst. render_agent renv = Ok (data, dst) \<and> renv ''LOG_DIR'' = Some (spare_log_dir env (td_home w)) \<and>
      label_of renv = td_label w)"
    and "td_logs w = log_paths env (td_home w) (td_label w) data"
    and "op \<in> set (fst (teardown w))" "op_path op = Some p"
  shows "\<not> found p \<or> td_token_dir w = Some p \<or> td_sock_dir_made w \<and> p = spare_socket_dir (td_home w)"
proof -
  have "op \<in> set (ops_of (td_remove w))"
    using assms(5,6) by (auto simp: teardown_def ops_of_def Let_def split: if_splits prod.splits)
  then obtain how where "(p, how) \<in> set (td_artifacts w)" using td_ops_own assms(6) by fastforce
  from artifacts_own [OF assms(1-3) this [unfolded td_artifacts_def assms(4)]] show ?thesis by blast
qed

end
