(* ===== verification/Launchd_Checks.thy ===== *)
theory Launchd_Checks
  imports Launchd_Teardown
begin

text \<open>
  \<open>scripts/smoke_launchd.py\<close>: the run lock, the private directory of the spare socket, the waits, and the three checks of
  the harness (port collision, socket rollback, token file), each as its steps in order. A step is a function of whether
  an installer call may still be running; it gives a result or an exception and that mark again.

  The readings at each look, the clocks, the logs, the installer's endings and the files are inputs; the texts of the
  rows and of the failures are left out.
\<close>

section \<open>Directories and the run lock\<close>

text \<open>The nearest ancestor that exists (links count), as components.\<close>

function nearest :: "(string list \<Rightarrow> bool) \<Rightarrow> string list \<Rightarrow> string list" where
  "nearest there p = (if there p \<or> p = [] then p else nearest there (butlast p))"
  by pat_completeness auto
termination
  by (relation "measure (\<lambda>(t, p). length p)") auto

declare nearest.simps [simp del]

definition path_within :: "(string list \<Rightarrow> bool) \<Rightarrow> (string list \<Rightarrow> string list) \<Rightarrow> string list \<Rightarrow> string list \<Rightarrow> bool" where
  "path_within there realpath p base = prefix (realpath base) (realpath (nearest there p))"

text \<open>What is at the directory's path.\<close>

datatype dir_entry = Dir_Missing | Dir_Link | Dir_No_Directory | Dir_Of int

text \<open>Whether it was made; \<open>dir_set\<close>: \<open>mkdir\<close> and \<open>chmod\<close> to \<open>0o700\<close> do not fail.\<close>

definition prepare_private_dir :: "bool \<Rightarrow> dir_entry \<Rightarrow> int \<Rightarrow> bool \<Rightarrow> raised + bool" where
  "prepare_private_dir inside e uid dir_set =
     (if \<not> inside then Raise Check_Failed
      else case e of
        Dir_Missing \<Rightarrow> if dir_set then Ok True else Raise Crashed
      | Dir_Link \<Rightarrow> Raise Check_Failed
      | Dir_No_Directory \<Rightarrow> Raise Check_Failed
      | Dir_Of u \<Rightarrow> if u \<noteq> uid then Raise Check_Failed else if dir_set then Ok False else Raise Crashed)"

datatype lock_refusal = Cannot_Open_Run_Lock | Not_Our_File | Another_Run | Lock_Os_Error

text \<open>The lock file as it was opened: whether it is a regular file, its owner; what \<open>flock\<close> answers: the lock (\<open>Some True\<close>),
  that it is held, or another error (\<open>None\<close>, which is no refusal of the guard).\<close>

definition acquire_run_lock :: "(bool \<times> int) option \<Rightarrow> int \<Rightarrow> bool option \<Rightarrow> lock_refusal + unit" where
  "acquire_run_lock opened uid locks =
     (case opened of
        None \<Rightarrow> Raise Cannot_Open_Run_Lock
      | Some (regular, owner) \<Rightarrow>
          if \<not> regular \<or> owner \<noteq> uid then Raise Not_Our_File
          else case locks of
            None \<Rightarrow> Raise Lock_Os_Error
          | Some free \<Rightarrow> if free then Ok () else Raise Another_Run)"

section \<open>Waiting\<close>

text \<open>One look: yes, no, an \<open>OSError\<close> or a failed check (retried), or another exception.\<close>

datatype polled = Poll_Yes | Poll_No | Poll_Retry | Poll_Raises raised

text \<open>\<open>wait_for\<close>: the look that succeeded; \<open>None\<close>: it never ends. \<open>clock n\<close> is read after look \<open>n\<close>.\<close>

partial_function (option) wait_for :: "(nat \<Rightarrow> polled) \<Rightarrow> (nat \<Rightarrow> int) \<Rightarrow> int \<Rightarrow> nat \<Rightarrow> (raised + nat) option" where
  "wait_for look clock deadline n =
     (case look n of
        Poll_Yes \<Rightarrow> Some (Ok n)
      | Poll_Raises e \<Rightarrow> Some (Raise e)
      | _ \<Rightarrow> if deadline \<le> clock n then Some (Raise Check_Failed) else wait_for look clock deadline (Suc n))"

text \<open>A verified answer, and the answer of the plain port, as looks.\<close>

definition look_up :: "raised + handshake \<Rightarrow> polled" where
  "look_up r =
     (case r of
        Inl e \<Rightarrow> if e \<in> {Check_Failed, Stop Port_Lost, Stop Agents_Changed} then Poll_Retry else Poll_Raises e
      | Inr (Status n) \<Rightarrow> if n = 101 then Poll_Yes else Poll_No
      | Inr Value_Error \<Rightarrow> Poll_Raises Crashed
      | Inr h \<Rightarrow> Poll_Retry)"

definition look_refuses :: "handshake \<Rightarrow> polled" where
  "look_refuses h =
     (case h of
        Status n \<Rightarrow> if n = 401 then Poll_Yes else Poll_No
      | Value_Error \<Rightarrow> Poll_Raises Crashed
      | _ \<Rightarrow> Poll_Retry)"

definition look_unheld :: "run_answer \<Rightarrow> polled" where
  "look_unheld a = (if lsof_pids a = Some [] then Poll_Yes else Poll_No)"

section \<open>The steps of a check\<close>

text \<open>A step is a function of whether an installer may still be running; \<open>None\<close>: it never ends.\<close>

type_synonym 'a act = "bool \<Rightarrow> ((raised + 'a) \<times> bool) option"

definition then_act :: "'a act \<Rightarrow> ('a \<Rightarrow> 'b act) \<Rightarrow> 'b act" where
  "then_act m k frozen =
     (case m frozen of
        None \<Rightarrow> None
      | Some (Inl e, frozen') \<Rightarrow> Some (Inl e, frozen')
      | Some (Inr x, frozen') \<Rightarrow> k x frozen')"

definition just :: "raised + 'a \<Rightarrow> 'a act" where
  "just r frozen = Some (r, frozen)"

definition need :: "bool \<Rightarrow> unit act" where
  "need b = just (if b then Ok () else Raise Check_Failed)"

record installer_answer =
  ia_ending :: ending
  ia_rc :: int
  ia_out :: string
  ia_err :: string

text \<open>\<open>install\<close> with its call of the installer.\<close>

definition install_call :: "installer_answer \<Rightarrow> string act" where
  "install_call a frozen =
     (let (r, frozen') = run_installer frozen (ia_ending a)
      in Some (case r of
           Installer_Ended \<Rightarrow> bind_result (install (ia_rc a) (ia_err a)) (\<lambda>_. Ok (ia_out a))
         | Installer_Timed_Out \<Rightarrow> Raise Crashed
         | Other_Exception \<Rightarrow> Raise (if ia_ending a = Handler_Raises False then Interrupt else Crashed)
         | _ \<Rightarrow> Raise (Stop Installer_Not_Stopped), frozen'))"

record wait_answer =
  wa_look :: "nat \<Rightarrow> polled"
  wa_clock :: "nat \<Rightarrow> int"
  wa_begun :: int

definition wait_act :: "wait_answer \<Rightarrow> nat \<Rightarrow> nat act" where
  "wait_act w timeout frozen =
     (case wait_for (wa_look w) (wa_clock w) (wa_begun w + int timeout) 0 of
        None \<Rightarrow> None
      | Some r \<Rightarrow> Some (r, frozen))"

section \<open>The collision check\<close>

definition IN_USE :: "string list" where "IN_USE = [''address already in use'', ''errno 48'']"

definition in_use_lines :: "string \<Rightarrow> nat" where
  "in_use_lines t = length (filter (\<lambda>l. list_ex (\<lambda>p. contains p (lower l)) IN_USE) (splitlines t))"

text \<open>The text behind the offset; all of it when the file is now shorter.\<close>

definition read_from :: "string \<Rightarrow> nat \<Rightarrow> string" where
  "read_from content offset = (if offset \<le> length content then drop offset content else content)"

text \<open>The loop: the last count and whether the port-squat check warned. \<open>clock n\<close> is read before round \<open>n\<close>.\<close>

partial_function (option) collision_loop ::
  "(nat \<Rightarrow> string) \<Rightarrow> nat \<Rightarrow> (nat \<Rightarrow> raised + bool) \<Rightarrow> (nat \<Rightarrow> int) \<Rightarrow> int \<Rightarrow> nat \<Rightarrow> nat \<Rightarrow> (raised + nat \<times> bool) option" where
  "collision_loop content offset warns clock deadline in_use n =
     (if deadline \<le> clock n then Some (Ok (in_use, False))
      else if in_use_lines (read_from (content n) offset) < 2
      then collision_loop content offset warns clock deadline (in_use_lines (read_from (content n) offset)) (Suc n)
      else case warns n of
        Inl e \<Rightarrow> Some (Raise e)
      | Inr warned \<Rightarrow>
          if warned then Some (Ok (in_use_lines (read_from (content n) offset), True))
          else collision_loop content offset warns clock deadline (in_use_lines (read_from (content n) offset)) (Suc n))"

record collision_world =
  co_bound :: bool
  co_install :: installer_answer
  co_offset :: nat
  co_log :: "nat \<Rightarrow> string"
  co_warns :: "nat \<Rightarrow> raised + bool"
  co_clock :: "nat \<Rightarrow> int"
  co_begun :: int
  co_up :: wait_answer

definition loop_act :: "collision_world \<Rightarrow> (nat \<times> bool) act" where
  "loop_act w frozen =
     (case collision_loop (co_log w) (co_offset w) (co_warns w) (co_clock w) (co_begun w + int COLLISION_TIMEOUT) 0 0 of
        None \<Rightarrow> None
      | Some r \<Rightarrow> Some (r, frozen))"

text \<open>The port is held from the first step until the wait for the agent.\<close>

definition check_collision :: "collision_world \<Rightarrow> nat act" where
  "check_collision w =
     (if \<not> co_bound w then just (Raise (Stop Port_Lost))
      else
        then_act (install_call (co_install w)) (\<lambda>_.
        then_act (loop_act w) (\<lambda>(in_use, warned).
        then_act (need (2 \<le> in_use)) (\<lambda>_.
        then_act (need warned) (\<lambda>_. wait_act (co_up w) UP_TIMEOUT)))))"

section \<open>The rollback check\<close>

definition OLD_SOCKET_NOTE :: string where "OLD_SOCKET_NOTE = ''removing the old socket''"

record rollback_world =
  rb_dir :: "raised + bool"
  rb_install :: "nat \<Rightarrow> installer_answer"
  rb_plist :: "nat \<Rightarrow> plist"
  rb_up :: "nat \<Rightarrow> wait_answer"
  rb_lock_made :: bool
  rb_sock_left :: bool
  rb_lock_left :: bool
  rb_unheld :: wait_answer

definition rollback_leg :: "rollback_world \<Rightarrow> nat \<Rightarrow> bool \<Rightarrow> int \<Rightarrow> string \<Rightarrow> string act" where
  "rollback_leg w n tcp port sock =
     then_act (install_call (rb_install w n)) (\<lambda>out.
     then_act (just (expect_transport tcp (rb_plist w n) port sock)) (\<lambda>_.
     then_act (wait_act (rb_up w n) UP_TIMEOUT) (\<lambda>_. just (Ok out))))"

definition check_rollback :: "rollback_world \<Rightarrow> int \<Rightarrow> string \<Rightarrow> nat act" where
  "check_rollback w port sock =
     then_act (just (rb_dir w)) (\<lambda>_.
     then_act (rollback_leg w 0 True port sock) (\<lambda>_.
     then_act (rollback_leg w 1 False port sock) (\<lambda>_.
     then_act (need (rb_lock_made w)) (\<lambda>_.
     then_act (rollback_leg w 2 True port sock) (\<lambda>out.
     then_act (need (contains OLD_SOCKET_NOTE out)) (\<lambda>_.
     then_act (need (\<not> rb_sock_left w)) (\<lambda>_.
     then_act (need (rb_lock_left w)) (\<lambda>_. wait_act (rb_unheld w) LOCK_UNHELD_WAIT))))))))"

section \<open>The token check\<close>

text \<open>\<open>tk_resolved\<close>: the path under which the token policy accepts the harness's file. The three connections of the gate: each with the reading of the job that follows its look at the server end.\<close>

record gate_world =
  tk_resolved :: "string option"
  tk_install :: installer_answer
  tk_plist :: plist
  tk_refuses :: wait_answer
  tk_print :: run_answer
  tk_dial :: "nat \<Rightarrow> dial"
  tk_now :: "nat \<Rightarrow> run_answer"
  tk_peer :: "nat \<Rightarrow> peer"
  tk_key :: "nat \<Rightarrow> string"
  tk_file :: string
  tk_after :: run_answer

text \<open>\<open>connect()\<close> of the gate; \<open>None\<close>: the look for the server end never ends.\<close>

definition token_connect :: "gate_world \<Rightarrow> int \<Rightarrow> identity \<Rightarrow> nat \<Rightarrow> (end_refusal + peer) option" where
  "token_connect w port i n =
     (case connect_verified (tk_dial w n) (Tcp_At ''127.0.0.1'' (show_int port)) i (launchd_pid_runs (tk_now w n)) of
        None \<Rightarrow> None
      | Some (ops, Inl e) \<Rightarrow> Some (Raise e)
      | Some (ops, Inr _) \<Rightarrow> Some (Ok (tk_peer w n)))"

text \<open>A job that cannot be read during the gate raises that; a request that fails otherwise is a failed check, a
  status line that is no number a crash.\<close>

definition refused_with :: "end_refusal \<Rightarrow> end_refusal + peer \<Rightarrow> bool" where
  "refused_with e r \<longleftrightarrow> (case r of Inl e' \<Rightarrow> e' = e | Inr p \<Rightarrow> False)"

definition gate_act :: "gate_world \<Rightarrow> int \<Rightarrow> identity \<Rightarrow> unit act" where
  "gate_act w port i frozen =
     (if list_ex (\<lambda>n. Option.is_none (token_connect w port i n)) [0, 1, 2] then None
      else
        let connect = (\<lambda>n. the (token_connect w port i n))
        in Some (case snd (assert_token_gate (tk_file w) connect (tk_key w)) of
             Gate_Ok \<Rightarrow> Ok ()
           | Not_Connected e \<Rightarrow>
               (case find (\<lambda>n. refused_with e (connect n)) [0, 1, 2] of
                  Some n \<Rightarrow> if e = Changed \<and> launchd_identity (tk_now w n) = None then Raise (Stop Launchd_Unreadable)
                            else Raise (if endpoint_refused e then Check_Failed else Crashed)
                | None \<Rightarrow> Raise Check_Failed)
           | Answered n h \<Rightarrow> Raise (if is_status h then Check_Failed else Crashed)
           | No_Token \<Rightarrow> Raise Check_Failed, frozen))"

definition check_token :: "gate_world \<Rightarrow> int \<Rightarrow> identity act" where
  "check_token w port =
     (case tk_resolved w of
        None \<Rightarrow> just (Raise Check_Failed)
      | Some resolved \<Rightarrow>
          then_act (install_call (tk_install w)) (\<lambda>_.
          then_act (need (read_field (tk_plist w) ''auth-token-file'' = resolved)) (\<lambda>_.
          then_act (wait_act (tk_refuses w) UP_TIMEOUT) (\<lambda>_.
          then_act (just (running_identity (tk_print w))) (\<lambda>i.
          then_act (gate_act w port i) (\<lambda>_.
          then_act (just (spare_identity (tk_after w))) (\<lambda>after.
          then_act (need (confirm_identity_unchanged after i)) (\<lambda>_. just (Ok i)))))))))"

section \<open>The waits end\<close>

definition paced :: "(nat \<Rightarrow> int) \<Rightarrow> bool" where
  "paced clock \<longleftrightarrow> (\<forall>n. clock n + 1000 \<le> clock (Suc n))"

lemma paced_reaches:
  assumes "paced clock" "\<And>n. d \<le> clock n \<Longrightarrow> P n" "\<And>n. clock n < d \<Longrightarrow> P (Suc n) \<Longrightarrow> P n"
  shows "P n"
proof (induction "nat (d - clock n)" arbitrary: n rule: less_induct)
  case less
  show ?case
  proof (cases "d \<le> clock n")
    case False
    have "clock n + 1000 \<le> clock (Suc n)" using assms(1) by (simp add: paced_def)
    then have "nat (d - clock (Suc n)) < nat (d - clock n)" using False by simp
    then have "P (Suc n)" using less by blast
    then show ?thesis using assms(3) False by simp
  qed (use assms(2) in blast)
qed

text \<open>A wait whose looks are a second apart ends, and succeeds only on a look that said yes.\<close>

lemma wait_for_ends:
  assumes "paced clock"
  shows "\<exists>r. wait_for look clock deadline n = Some r \<and> (\<forall>m. r = Ok m \<longrightarrow> look m = Poll_Yes)"
proof (rule paced_reaches [OF assms, where d = deadline and n = n and
    P = "\<lambda>n. \<exists>r. wait_for look clock deadline n = Some r \<and> (\<forall>m. r = Ok m \<longrightarrow> look m = Poll_Yes)"])
  fix n assume "deadline \<le> clock n"
  then show "\<exists>r. wait_for look clock deadline n = Some r \<and> (\<forall>m. r = Ok m \<longrightarrow> look m = Poll_Yes)"
    by (subst wait_for.simps) (auto split: polled.splits)
next
  fix n assume "clock n < deadline" "\<exists>r. wait_for look clock deadline (Suc n) = Some r \<and> (\<forall>m. r = Ok m \<longrightarrow> look m = Poll_Yes)"
  then show "\<exists>r. wait_for look clock deadline n = Some r \<and> (\<forall>m. r = Ok m \<longrightarrow> look m = Poll_Yes)"
    by (subst wait_for.simps) (auto split: polled.splits)
qed

text \<open>The collision loop ends; it says that there was a warning only for a round in which the port was reported in use
  twice behind the offset and the port-squat check warned.\<close>

definition warned_at :: "(nat \<Rightarrow> string) \<Rightarrow> nat \<Rightarrow> (nat \<Rightarrow> raised + bool) \<Rightarrow> (raised + nat \<times> bool) \<Rightarrow> bool" where
  "warned_at content offset warns r \<longleftrightarrow> (\<forall>u. r = Ok (u, True) \<longrightarrow>
     (\<exists>m. 2 \<le> in_use_lines (read_from (content m) offset) \<and> warns m = Ok True))"

lemma collision_loop_ends:
  assumes "paced clock"
  shows "\<exists>r. collision_loop content offset warns clock deadline u n = Some r \<and> warned_at content offset warns r"
proof -
  have "\<forall>u. \<exists>r. collision_loop content offset warns clock deadline u n = Some r \<and> warned_at content offset warns r"
  proof (rule paced_reaches [OF assms, where d = deadline and n = n and
      P = "\<lambda>n. \<forall>u. \<exists>r. collision_loop content offset warns clock deadline u n = Some r \<and> warned_at content offset warns r"])
    fix n assume "deadline \<le> clock n"
    then show "\<forall>u. \<exists>r. collision_loop content offset warns clock deadline u n = Some r \<and> warned_at content offset warns r"
      by (subst collision_loop.simps) (auto simp: warned_at_def)
  next
    fix n
    assume n: "clock n < deadline" "\<forall>u. \<exists>r. collision_loop content offset warns clock deadline u (Suc n) = Some r \<and> warned_at content offset warns r"
    show "\<forall>u. \<exists>r. collision_loop content offset warns clock deadline u n = Some r \<and> warned_at content offset warns r"
    proof
      fix u
      let ?u = "in_use_lines (read_from (content n) offset)"
      obtain r where r: "collision_loop content offset warns clock deadline ?u (Suc n) = Some r" "warned_at content offset warns r"
        using n(2) by blast
      show "\<exists>r. collision_loop content offset warns clock deadline u n = Some r \<and> warned_at content offset warns r"
      proof (cases "?u < 2")
        case True
        then show ?thesis using r n(1) by (subst collision_loop.simps) simp
      next
        case False
        then show ?thesis
        proof (cases "warns n")
          case (Inr b)
          then show ?thesis using r n(1) False by (subst collision_loop.simps) (cases b, auto simp: warned_at_def)
        qed (use n(1) False in \<open>subst collision_loop.simps, auto simp: warned_at_def\<close>)
      qed
    qed
  qed
  then show ?thesis by blast
qed

lemma wait_act_ends:
  assumes "paced (wa_clock w)"
  shows "\<exists>r. wait_act w t frozen = Some (r, frozen) \<and> (\<forall>m. r = Ok m \<longrightarrow> wa_look w m = Poll_Yes)"
  using wait_for_ends [OF assms, of "wa_look w" "wa_begun w + int t" 0] by (auto simp: wait_act_def)

lemma loop_act_ends:
  assumes "paced (co_clock w)"
  shows "\<exists>r. loop_act w frozen = Some (r, frozen) \<and> warned_at (co_log w) (co_offset w) (co_warns w) r"
  using collision_loop_ends [OF assms, of "co_log w" "co_offset w" "co_warns w" "co_begun w + int COLLISION_TIMEOUT" 0 0]
  by (auto simp: loop_act_def)

section \<open>Steps in order\<close>

lemma then_act_Ok:
  "then_act m k frozen = Some (Ok x, frozen') \<longleftrightarrow> (\<exists>y f. m frozen = Some (Ok y, f) \<and> k y f = Some (Ok x, frozen'))"
  by (auto simp: then_act_def split: option.splits sum.splits)

lemma then_act_ends:
  "m frozen \<noteq> None \<Longrightarrow> (\<And>y f. m frozen = Some (Ok y, f) \<Longrightarrow> k y f \<noteq> None) \<Longrightarrow> then_act m k frozen \<noteq> None"
  by (auto simp: then_act_def split: option.splits sum.splits)

lemma just_simps [simp]:
  "just r f = Some (r', f') \<longleftrightarrow> r' = r \<and> f' = f" "just r f \<noteq> None"
  "need b f = Some (Ok u, f') \<longleftrightarrow> b \<and> f' = f" "need b f \<noteq> None"
  by (auto simp: just_def need_def)

lemma install_call_ends: "install_call a f \<noteq> None"
  by (simp add: install_call_def split: prod.splits)

lemma install_call_Ok:
  "install_call a f = Some (Ok out, f') \<longleftrightarrow>
     \<not> f \<and> \<not> f' \<and> ia_ending a = Returns False \<and> ia_rc a = 0 \<and> leave_behind_warnings (ia_err a) = [] \<and> out = ia_out a"
  by (cases f; cases "ia_ending a")
    (auto simp: install_call_def run_installer_def install_def bind_result_Ok_iff split: if_splits)

text \<open>After an installer call that could not be shown stopped, no check installs anything more.\<close>

lemma install_call_frozen: "install_call a True = Some (Raise (Stop Installer_Not_Stopped), True)"
  by (simp add: install_call_def run_installer_def)

lemma install_call_freezes:
  "install_call a f = Some (r, True) \<Longrightarrow> r = Raise (Stop Installer_Not_Stopped)"
  by (cases f; cases "ia_ending a") (auto simp: install_call_def run_installer_def split: if_splits)

text \<open>And a call that froze the run is the last step of its check.\<close>

lemma wait_act_Ok:
  "wait_act w t f = Some (Ok m, f') \<longleftrightarrow> f' = f \<and> wait_for (wa_look w) (wa_clock w) (wa_begun w + int t) 0 = Some (Ok m)"
  by (auto simp: wait_act_def split: option.splits)

lemma loop_act_Ok:
  "loop_act w f = Some (Ok r, f') \<longleftrightarrow> f' = f \<and>
     collision_loop (co_log w) (co_offset w) (co_warns w) (co_clock w) (co_begun w + int COLLISION_TIMEOUT) 0 0 = Some (Ok r)"
  by (auto simp: loop_act_def split: option.splits)

lemmas act_Ok = then_act_Ok install_call_Ok wait_act_Ok loop_act_Ok just_simps

text \<open>A step that froze the run failed as one that may still be running.\<close>

definition freezes_only :: "'a act \<Rightarrow> bool" where
  "freezes_only m \<longleftrightarrow> (\<forall>f r. m f = Some (r, True) \<longrightarrow> f \<or> r = Raise (Stop Installer_Not_Stopped))"

lemma freezes_then: "freezes_only m \<Longrightarrow> (\<And>x. freezes_only (k x)) \<Longrightarrow> freezes_only (then_act m k)"
  unfolding freezes_only_def then_act_def by (fastforce split: option.splits sum.splits)

lemma freezes_plain: "(\<And>f r f'. m f = Some (r, f') \<Longrightarrow> f' = f) \<Longrightarrow> freezes_only m"
  unfolding freezes_only_def by blast

lemma freezes_steps:
  "freezes_only (just r)" "freezes_only (need b)" "freezes_only (wait_act w t)" "freezes_only (loop_act cw)"
  "freezes_only (gate_act gw port i)" "freezes_only (install_call a)"
proof -
  show "freezes_only (just r)" "freezes_only (need b)" "freezes_only (wait_act w t)" "freezes_only (loop_act cw)"
    "freezes_only (gate_act gw port i)"
    by (rule freezes_plain, auto simp: just_def need_def wait_act_def loop_act_def gate_act_def Let_def split: option.splits if_splits)+
  show "freezes_only (install_call a)" unfolding freezes_only_def using install_call_freezes by blast
qed

section \<open>What the checks show\<close>

text \<open>A PASS of the collision check: the harness held the port; the installer ended well; in some round the agent's log
  had at least two lines behind the offset that say the address is in use, and the port-squat check warned in that same
  round; and after the port was let go, the job itself answered with 101.\<close>

theorem collision_pass:
  assumes "check_collision w frozen = Some (Ok m, frozen')" "paced (co_clock w)" "paced (wa_clock (co_up w))"
  shows "co_bound w \<and> \<not> frozen \<and> \<not> frozen' \<and> ia_ending (co_install w) = Returns False \<and>
    (\<exists>n. 2 \<le> in_use_lines (read_from (co_log w n) (co_offset w)) \<and> co_warns w n = Ok True) \<and> wa_look (co_up w) m = Poll_Yes"
proof -
  have b: "co_bound w" using assms(1) by (auto simp: check_collision_def just_def split: if_splits)
  obtain u where u: "\<not> frozen" "\<not> frozen'" "ia_ending (co_install w) = Returns False"
    "collision_loop (co_log w) (co_offset w) (co_warns w) (co_clock w) (co_begun w + int COLLISION_TIMEOUT) 0 0 = Some (Ok (u, True))"
    "wait_for (wa_look (co_up w)) (wa_clock (co_up w)) (wa_begun (co_up w) + int UP_TIMEOUT) 0 = Some (Ok m)"
    using assms(1) b by (auto simp: check_collision_def act_Ok split: prod.splits)
  have "\<exists>n. 2 \<le> in_use_lines (read_from (co_log w n) (co_offset w)) \<and> co_warns w n = Ok True"
    using collision_loop_ends [OF assms(2), of "co_log w" "co_offset w" "co_warns w" "co_begun w + int COLLISION_TIMEOUT" 0 0] u(4)
    by (auto simp: warned_at_def)
  moreover have "wa_look (co_up w) m = Poll_Yes"
    using wait_for_ends [OF assms(3), of "wa_look (co_up w)" "wa_begun (co_up w) + int UP_TIMEOUT" 0] u(5) by auto
  ultimately show ?thesis using b u by blast
qed

text \<open>One leg of the rollback check: installed, recorded in the plist, and answered by the job.\<close>

definition leg_up :: "rollback_world \<Rightarrow> nat \<Rightarrow> bool \<Rightarrow> int \<Rightarrow> string \<Rightarrow> bool" where
  "leg_up w n tcp port sock \<longleftrightarrow>
     ia_ending (rb_install w n) = Returns False \<and> ia_rc (rb_install w n) = 0 \<and> leave_behind_warnings (ia_err (rb_install w n)) = [] \<and>
     (if tcp then read_field (rb_plist w n) ''port'' = show_int port \<and> read_field (rb_plist w n) ''socket-path'' = []
      else read_field (rb_plist w n) ''socket-path'' = sock \<and> read_field (rb_plist w n) ''port'' = []) \<and>
     (\<exists>m. wa_look (rb_up w n) m = Poll_Yes)"

lemma rollback_leg_Ok:
  assumes "rollback_leg w n tcp port sock f = Some (Ok out, f')" "paced (wa_clock (rb_up w n))"
  shows "\<not> f \<and> \<not> f' \<and> leg_up w n tcp port sock \<and> out = ia_out (rb_install w n)"
proof -
  obtain m where m: "\<not> f" "\<not> f'" "ia_ending (rb_install w n) = Returns False" "ia_rc (rb_install w n) = 0"
    "leave_behind_warnings (ia_err (rb_install w n)) = []" "expect_transport tcp (rb_plist w n) port sock = Ok ()"
    "wait_for (wa_look (rb_up w n)) (wa_clock (rb_up w n)) (wa_begun (rb_up w n) + int UP_TIMEOUT) 0 = Some (Ok m)"
    "out = ia_out (rb_install w n)"
    using assms(1) by (auto simp: rollback_leg_def act_Ok)
  have "wa_look (rb_up w n) m = Poll_Yes"
    using wait_for_ends [OF assms(2), of "wa_look (rb_up w n)" "wa_begun (rb_up w n) + int UP_TIMEOUT" 0] m(7) by auto
  then show ?thesis using m by (auto simp: leg_up_def expect_transport_def Let_def split: if_splits)
qed

text \<open>A PASS of the rollback check: the spare was up on TCP, then on the socket, then on TCP again, each time as its plist
  records and by the job's own answer; the way back said that it removed the old socket, which is gone, while the lock
  file the socket server made is left and held by nobody.\<close>

theorem rollback_pass:
  assumes "check_rollback w port sock frozen = Some (Ok m, frozen')"
    and "\<And>n. paced (wa_clock (rb_up w n))" "paced (wa_clock (rb_unheld w))"
  shows "\<not> frozen \<and> \<not> frozen' \<and> leg_up w 0 True port sock \<and> leg_up w 1 False port sock \<and> leg_up w 2 True port sock \<and>
    rb_lock_made w \<and> contains OLD_SOCKET_NOTE (ia_out (rb_install w 2)) \<and> \<not> rb_sock_left w \<and> rb_lock_left w \<and>
    wa_look (rb_unheld w) m = Poll_Yes"
proof -
  obtain o0 f0 o1 f1 o2 f2 where r: "rollback_leg w 0 True port sock frozen = Some (Ok o0, f0)"
    "rollback_leg w 1 False port sock f0 = Some (Ok o1, f1)" "rb_lock_made w"
    "rollback_leg w 2 True port sock f1 = Some (Ok o2, f2)" "contains OLD_SOCKET_NOTE o2" "\<not> rb_sock_left w" "rb_lock_left w" "frozen' = f2"
    "wait_for (wa_look (rb_unheld w)) (wa_clock (rb_unheld w)) (wa_begun (rb_unheld w) + int LOCK_UNHELD_WAIT) 0 = Some (Ok m)"
    using assms(1) by (auto simp: check_rollback_def act_Ok)
  have "wa_look (rb_unheld w) m = Poll_Yes"
    using wait_for_ends [OF assms(3), of "wa_look (rb_unheld w)" "wa_begun (rb_unheld w) + int LOCK_UNHELD_WAIT" 0] r(9) by auto
  then show ?thesis
    using r rollback_leg_Ok [OF r(1) assms(2)] rollback_leg_Ok [OF r(2) assms(2)] rollback_leg_Ok [OF r(4) assms(2)] by auto
qed

text \<open>A PASS of the token check: the server's own policy accepted the file, and the plist records that very path; and the
  three requests without the token, with a wrong one and with the token of the file were answered with 401, 401 and 101, each
  over a connection to the job, which had one readable pid and spawn count before, at each connection and afterwards.\<close>

lemma gate_act_Ok:
  assumes "gate_act w port i f = Some (Ok u, f')"
  shows "f' = f \<and> (\<forall>n \<in> {0, 1, 2}. token_connect w port i n \<noteq> None) \<and>
    snd (assert_token_gate (tk_file w) (\<lambda>n. the (token_connect w port i n)) (tk_key w)) = Gate_Ok"
  using assms by (auto simp: gate_act_def Let_def Option.is_none_def split: if_splits gate.splits option.splits)

theorem token_pass:
  assumes "check_token w port frozen = Some (Ok i, frozen')"
  shows "\<not> frozen \<and> \<not> frozen' \<and> tk_resolved w = Some (read_field (tk_plist w) ''auth-token-file'') \<and>
    launchd_pid_runs (tk_print w) = Some i \<and> readable_identity i \<and> launchd_pid_runs (tk_after w) = Some i \<and>
    (\<forall>n \<in> {0, 1, 2}. token_connect w port i n \<noteq> None) \<and>
    snd (assert_token_gate (tk_file w) (\<lambda>n. the (token_connect w port i n)) (tk_key w)) = Gate_Ok"
proof -
  have id: "running_identity x = Ok i \<longleftrightarrow> launchd_pid_runs x = Some i \<and> readable_identity i" for x i
    by (auto simp: running_identity_def read_job_def launchd_pid_runs_def launchd_identity_def readable_identity_def the_pid_def
        split: option.splits if_splits)
  have sp: "spare_identity x = Ok n \<Longrightarrow> launchd_pid_runs x = n" for x n
    by (auto simp: spare_identity_def read_job_def launchd_pid_runs_def launchd_identity_def split: option.splits if_splits)
  obtain path where p: "tk_resolved w = Some path" using assms by (auto simp: check_token_def just_def split: option.splits)
  obtain f1 f2 u now where t: "\<not> frozen" "read_field (tk_plist w) ''auth-token-file'' = path" "Ok i = running_identity (tk_print w)"
    "gate_act w port i f1 = Some (Ok u, f2)" "\<not> f1" "frozen' = f2" "Ok now = spare_identity (tk_after w)" "confirm_identity_unchanged now i"
    using assms p by (auto simp: check_token_def act_Ok)
  show ?thesis using p t gate_act_Ok [OF t(4)] id sp [OF t(7) [symmetric]] t(3) [symmetric] by (auto simp: confirm_identity_unchanged_def)
qed

text \<open>An installer that could not be shown stopped ends the check it was called in, whatever else happened: the only way
  for a check to leave the run frozen is that exception, on which \<open>run_checks\<close> stops and the teardown changes nothing.\<close>

theorem checks_freeze:
  shows "freezes_only (check_collision cw)" "freezes_only (check_rollback rw port sock)" "freezes_only (check_token tw port)"
  unfolding check_collision_def check_rollback_def rollback_leg_def check_token_def
  by (auto intro!: freezes_then freezes_steps split: option.splits prod.splits)

section \<open>The checks end\<close>

lemma wait_act_some: "paced (wa_clock w) \<Longrightarrow> wait_act w t f \<noteq> None"
  using wait_act_ends by fastforce

lemma loop_act_some: "paced (co_clock w) \<Longrightarrow> loop_act w f \<noteq> None"
  using loop_act_ends by fastforce

definition dial_paced :: "dial \<Rightarrow> bool" where
  "dial_paced d \<longleftrightarrow> d_begun d \<le> d_clock d 0 \<and> (\<forall>n. d_clock d n + 100 \<le> d_clock d (Suc n))"

lemma token_connect_ends: "dial_paced (tk_dial w n) \<Longrightarrow> token_connect w port i n \<noteq> None"
proof -
  assume "dial_paced (tk_dial w n)"
  then have "tcp_server_end_pids (tk_dial w n) SERVER_END_SETTLE \<noteq> None"
    using server_end_poll_ends [of "tk_dial w n" SERVER_END_SETTLE] by (auto simp: dial_paced_def SERVER_END_SETTLE_def)
  then have "connect_verified (tk_dial w n) (Tcp_At h p) i x \<noteq> None" for h p x
    by (auto simp: connect_verified_def connect_held_by_def server_end_def Let_def split: prod.splits sum.splits option.splits)
  then show ?thesis by (auto simp: token_connect_def split: option.splits prod.splits sum.splits)
qed

text \<open>Every check ends, on every branch, when the clocks move on by the pauses the loops make between their looks.\<close>

theorem checks_end:
  assumes "paced (co_clock cw)" "paced (wa_clock (co_up cw))"
    and "\<And>n. paced (wa_clock (rb_up rw n))" "paced (wa_clock (rb_unheld rw))"
    and "paced (wa_clock (tk_refuses tw))" "\<And>n. dial_paced (tk_dial tw n)"
  shows "check_collision cw frozen \<noteq> None" "check_rollback rw port sock frozen \<noteq> None" "check_token tw port frozen \<noteq> None"
proof -
  show "check_collision cw frozen \<noteq> None"
  proof (cases "co_bound cw")
    case True
    have k: "(case y of (in_use, warned) \<Rightarrow> then_act (need (2 \<le> in_use)) (\<lambda>_. then_act (need warned) (\<lambda>_. wait_act (co_up cw) UP_TIMEOUT))) f
        \<noteq> None" for y :: "nat \<times> bool" and f
      by (cases y) (simp only: prod.case, intro then_act_ends wait_act_some assms(2), simp_all)
    show ?thesis
      unfolding check_collision_def using True
      by (subst if_not_P, simp) (intro then_act_ends install_call_ends loop_act_some assms(1) k)
  qed (simp add: check_collision_def)
  have leg: "rollback_leg rw n tcp port sock f \<noteq> None" for n tcp f
    unfolding rollback_leg_def by (intro then_act_ends install_call_ends wait_act_some assms(3)) simp_all
  show "check_rollback rw port sock frozen \<noteq> None"
    unfolding check_rollback_def by (intro then_act_ends leg wait_act_some assms(4)) simp_all
  have gate: "gate_act tw port i f \<noteq> None" for i f
    using token_connect_ends [OF assms(6)] by (auto simp: gate_act_def Let_def Option.is_none_def)
  show "check_token tw port frozen \<noteq> None"
  proof (cases "tk_resolved tw")
    case (Some path)
    show ?thesis unfolding check_token_def Some option.case
      by (intro then_act_ends install_call_ends wait_act_some assms(5) gate) simp_all
  qed (simp add: check_token_def)
qed

end
