(* ===== verification/Asr_Benchmark.thy ===== *)
theory Asr_Benchmark
  imports Client Text_Quality "HOL-Library.List_Lexorder" "HOL-Library.Char_ord" "HOL-Library.Sublist"
begin

text \<open>
  \<open>scripts/benchmark_asr_ab.py\<close>: the comparison of two servers. The words of a text, the word error rate and its
  dynamic program (shown to be the edit distance), the corpus with its guard, one decode over the client,
  and the report with its two summaries.

  The file system, \<open>wave\<close>, the connections and the clock are inputs. Numbers are exact: the rounding of floats is
  not modelled.
\<close>

section \<open>Words\<close>

text \<open>\<open>[w for w in re.split(r"[^\w']+", text.lower()) if w]\<close>: the longest runs of word characters and apostrophes.\<close>

definition in_word :: "char \<Rightarrow> bool" where "in_word c \<longleftrightarrow> is_word_char c \<or> c = CHR 0x27"

fun word_runs :: "string \<Rightarrow> string \<Rightarrow> string list" where
  "word_runs cur [] = (if cur = [] then [] else [cur])"
| "word_runs cur (c # cs) =
     (if in_word c then word_runs (cur @ [c]) cs
      else (if cur = [] then [] else [cur]) @ word_runs [] cs)"

definition normalize_words :: "string \<Rightarrow> string list" where
  "normalize_words t = word_runs [] (lower t)"

section \<open>The word error rate\<close>

text \<open>The inner loop: the row of the reference word \<open>r\<close> above the row \<open>prev\<close>, from column \<open>j\<close>.\<close>

fun row_loop :: "nat list \<Rightarrow> 'a \<Rightarrow> nat \<Rightarrow> 'a list \<Rightarrow> nat list \<Rightarrow> nat list" where
  "row_loop prev r j [] row = row"
| "row_loop prev r j (h # hs) row =
     (let cost = (if r = h then 0 else 1)
      in row_loop prev r (Suc j) hs
           (row @ [min (min (prev ! j + 1) (row ! (j - 1) + 1)) (prev ! (j - 1) + cost)]))"

fun table_loop :: "'a list \<Rightarrow> nat \<Rightarrow> 'a list \<Rightarrow> nat list \<Rightarrow> nat list" where
  "table_loop hyp i [] prev = prev"
| "table_loop hyp i (r # rs) prev = table_loop hyp (Suc i) rs (row_loop prev r 1 hyp [i])"

definition word_error_rate :: "string \<Rightarrow> string \<Rightarrow> rat" where
  "word_error_rate reference hypothesis =
     (let rs = normalize_words reference; hyp = normalize_words hypothesis
      in if rs = [] then (if hyp = [] then 0 else 1)
         else of_nat (last (table_loop hyp 1 rs [0..<length hyp + 1])) / of_nat (length rs))"

section \<open>The corpus\<close>

text \<open>A directory's files by name, resolved paths as lists of components. An utterance has the name of its
  audio file, the stem, and the reference if there is one.\<close>

record corpus_dir =
  cd_path :: "string list"
  cd_is_dir :: bool
  cd_names :: "string list"
  cd_text :: "string \<Rightarrow> string option"

record utterance =
  ut_stem :: string
  ut_audio :: string
  ut_reference :: "string option"

definition WAV :: string where "WAV = ''.wav''"
definition TXT :: string where "TXT = ''.txt''"

text \<open>\<open>Path.stem\<close> of a name that ends in a suffix of four characters; a name that is only a suffix is its own stem.\<close>

definition stem_of :: "string \<Rightarrow> string" where
  "stem_of n = (if length n \<le> 4 then n else take (length n - 4) n)"

datatype corpus_refusal = No_Corpus | Pii_Corpus "string list" | Empty_Corpus

definition utterance_of :: "corpus_dir \<Rightarrow> string \<Rightarrow> utterance" where
  "utterance_of d wav =
     \<lparr>ut_stem = stem_of wav, ut_audio = wav, ut_reference = map_option strip (cd_text d (stem_of wav @ TXT))\<rparr>"

definition load_corpus :: "string list list \<Rightarrow> bool \<Rightarrow> corpus_dir \<Rightarrow> corpus_refusal + utterance list" where
  "load_corpus pii_roots allow_pii d =
     (if \<not> cd_is_dir d then Raise No_Corpus
      else
        case (if allow_pii then None else find (\<lambda>dir. cd_path d = dir \<or> strict_prefix dir (cd_path d)) pii_roots) of
          Some dir \<Rightarrow> Raise (Pii_Corpus dir)
        | None \<Rightarrow>
            (let us = map (utterance_of d) (sort (filter (suffix WAV) (cd_names d)))
             in if us = [] then Raise Empty_Corpus else Ok us))"

text \<open>What \<open>wave\<close> says of a file; \<open>None\<close>: it raised an error that is no \<open>ValueError\<close>.\<close>

record wav_file =
  wf_channels :: nat
  wf_width :: nat
  wf_rate :: nat
  wf_frames :: "byte list"

datatype wav_result = Pcm "byte list" | Wrong_Format

definition read_wav_pcm16 :: "wav_file \<Rightarrow> wav_result" where
  "read_wav_pcm16 w =
     (if wf_channels w \<noteq> AUDIO_CHANNELS then Wrong_Format
      else if wf_width w \<noteq> 2 then Wrong_Format
      else if wf_rate w \<noteq> AUDIO_SAMPLE_RATE_HZ then Wrong_Format
      else Pcm (wf_frames w))"

section \<open>One endpoint\<close>

definition build_endpoint :: "string option \<Rightarrow> string \<Rightarrow> endpoint" where
  "build_endpoint uri socket =
     \<lparr>ep_uri = uri, ep_socket_path = (case uri of Some (c # cs) \<Rightarrow> None | _ \<Rightarrow> Some socket), ep_host = None, ep_port = None\<rparr>"

definition bench_token :: "environ \<Rightarrow> string option" where
  "bench_token env = env_stripped env ''STT_WS_TOKEN''"

text \<open>What a connection attempt gives: no connection, or the frames the server sends on it.\<close>

type_synonym attempt = "frame list option"

datatype probe_outcome = Probe_Ok | Probe_Failed | Wrong_Backend json | Probe_Raised

definition bench_probe :: "attempt \<Rightarrow> string \<Rightarrow> probe_outcome" where
  "bench_probe a expected =
     (case a of
        None \<Rightarrow> Probe_Failed
      | Some fs \<Rightarrow>
          (case fst (connect fs) of
             Inl e \<Rightarrow> Probe_Failed
           | Inr hello \<Rightarrow>
               (case get_member ''backend'' hello of
                  None \<Rightarrow> Probe_Raised
                | Some b \<Rightarrow>
                    (case (if truthy b then get_member ''name'' b else Some JNull) of
                       None \<Rightarrow> Probe_Raised
                     | Some reported \<Rightarrow> if reported \<noteq> JStr expected then Wrong_Backend reported else Probe_Ok))))"

text \<open>The messages a decode sends: the session update, the audio in frames of one second, the commit.\<close>

definition FRAME_BYTES :: nat where "FRAME_BYTES = AUDIO_SAMPLE_RATE_HZ * AUDIO_CHANNELS * 2"

function frames_of :: "byte list \<Rightarrow> byte list list" where
  "frames_of pcm = (if pcm = [] then [] else take FRAME_BYTES pcm # frames_of (drop FRAME_BYTES pcm))"
  by pat_completeness auto
termination
  by (relation "measure length") (auto simp: FRAME_BYTES_def AUDIO_SAMPLE_RATE_HZ_def AUDIO_CHANNELS_def)

declare frames_of.simps [simp del]

datatype client_message = Send_Json json | Send_Audio "byte list"

definition decode_messages :: "byte list \<Rightarrow> client_message list" where
  "decode_messages pcm = Send_Json (update_session None None) # map Send_Audio (frames_of pcm) @ [Send_Json commit]"

text \<open>A result of a decode. The transcript is what the event holds, of any type; the time is measured.\<close>

record decode_result =
  dr_transcript :: json
  dr_latency :: rat
  dr_failed :: bool
  dr_error :: "json option"

definition jget_default :: "string \<Rightarrow> json \<Rightarrow> json \<Rightarrow> json option" where
  "jget_default k dflt ev =
     (case ev of JObj kvs \<Rightarrow> Some (case jget kvs k of None \<Rightarrow> dflt | Some v \<Rightarrow> v) | _ \<Rightarrow> None)"

text \<open>\<open>"".join(parts)\<close>; \<open>None\<close>: \<open>TypeError\<close>.\<close>

fun join_parts :: "json list \<Rightarrow> string option" where
  "join_parts [] = Some []"
| "join_parts (JStr t # ps) = map_option ((@) t) (join_parts ps)"
| "join_parts (j # ps) = None"

definition failed_result :: "rat \<Rightarrow> json \<Rightarrow> decode_result" where
  "failed_result lat err = \<lparr>dr_transcript = JStr [], dr_latency = lat, dr_failed = True, dr_error = Some err\<rparr>"

text \<open>The loop over the events; \<open>None\<close>: it raised.\<close>

fun decode_events :: "rat \<Rightarrow> json list \<Rightarrow> json list \<Rightarrow> client_error option \<Rightarrow> decode_result option" where
  "decode_events lat parts [] (Some e) = None"
| "decode_events lat parts [] None = Some (failed_result lat (JStr ''no terminal event''))"
| "decode_events lat parts (ev # evs) e =
     (case get_member ''type'' ev of
        None \<Rightarrow> None
      | Some t \<Rightarrow>
          if t = JStr EVT_TRANSCRIPT_DELTA then
            (case jget_default ''delta'' (JStr []) ev of None \<Rightarrow> None | Some d \<Rightarrow> decode_events lat (parts @ [d]) evs e)
          else if t = JStr EVT_TRANSCRIPT_COMPLETED then
            (case jget_default ''transcript'' (JStr []) ev of
               None \<Rightarrow> None
             | Some tr \<Rightarrow>
                 map_option (\<lambda>final. \<lparr>dr_transcript = final, dr_latency = lat, dr_failed = False, dr_error = None\<rparr>)
                   (if truthy tr then Some tr else map_option JStr (join_parts parts)))
          else if t = JStr EVT_TRANSCRIPT_FAILED then
            (case get_member ''error'' ev of
               None \<Rightarrow> None
             | Some er \<Rightarrow>
                 map_option (failed_result lat)
                   (if truthy er then jget_default ''message'' (JStr ''backend decode failed'') er
                    else Some (JStr ''backend decode failed'')))
          else decode_events lat parts evs e)"

definition decode_utterance :: "attempt \<Rightarrow> rat \<Rightarrow> decode_result option" where
  "decode_utterance a lat =
     (case a of
        None \<Rightarrow> None
      | Some fs \<Rightarrow>
          (case connect fs of
             (Inl e, gs) \<Rightarrow> None
           | (Inr hello, gs) \<Rightarrow> (case events gs of (evs, e) \<Rightarrow> decode_events lat [] evs e)))"

section \<open>Aggregation\<close>

record asr_aggregate =
  ag_utterances :: nat
  ag_failures :: nat
  ag_mean_wer :: "rat option"
  ag_median_wer :: "rat option"
  ag_mean_latency :: "rat option"
  ag_median_latency :: "rat option"

text \<open>\<open>statistics.mean\<close> and \<open>median\<close> of numbers, exact.\<close>

definition mean :: "rat list \<Rightarrow> rat" where
  "mean xs = sum_list xs / of_nat (length xs)"

definition median :: "rat list \<Rightarrow> rat" where
  "median xs =
     (let s = sort xs; n = length xs; i = n div 2
      in if odd n then s ! i else (s ! (i - 1) + s ! i) / 2)"

text \<open>\<open>word_error_rate\<close> of a transcript of any type; \<open>None\<close>: it has no \<open>lower\<close>.\<close>

definition wer_of :: "string \<Rightarrow> json \<Rightarrow> rat option" where
  "wer_of reference t = (case t of JStr h \<Rightarrow> Some (word_error_rate reference h) | _ \<Rightarrow> None)"

text \<open>The loop of \<open>_aggregate\<close>: failures, latencies, error rates.\<close>

fun tally ::
  "(decode_result \<times> string option) list \<Rightarrow> nat \<Rightarrow> rat list \<Rightarrow> rat list \<Rightarrow> (nat \<times> rat list \<times> rat list) option" where
  "tally [] failures lats wers = Some (failures, lats, wers)"
| "tally ((res, reference) # rs) failures lats wers =
     (if dr_failed res then tally rs (Suc failures) lats wers
      else case reference of
        None \<Rightarrow> tally rs failures (lats @ [dr_latency res]) wers
      | Some t \<Rightarrow>
          (case wer_of t (dr_transcript res) of
             None \<Rightarrow> None
           | Some w \<Rightarrow> tally rs failures (lats @ [dr_latency res]) (wers @ [w])))"

definition over :: "(rat list \<Rightarrow> rat) \<Rightarrow> rat list \<Rightarrow> rat option" where
  "over f xs = (if xs = [] then None else Some (f xs))"

definition aggregate_results :: "(decode_result \<times> string option) list \<Rightarrow> asr_aggregate option" where
  "aggregate_results rs =
     map_option (\<lambda>(failures, lats, wers).
        \<lparr>ag_utterances = length rs, ag_failures = failures, ag_mean_wer = over mean wers, ag_median_wer = over median wers,
         ag_mean_latency = over mean lats, ag_median_latency = over median lats\<rparr>) (tally rs 0 [] [])"

section \<open>The run\<close>

text \<open>What the machine answers for one utterance: the file, and for each server, to the audio it is sent, the connection
  and the time measured.\<close>

record bench_world =
  bw_whisper_probe :: attempt
  bw_parakeet_probe :: attempt
  bw_wav :: "string \<Rightarrow> wav_file option"
  bw_whisper :: "string \<Rightarrow> byte list \<Rightarrow> attempt \<times> rat"
  bw_parakeet :: "string \<Rightarrow> byte list \<Rightarrow> attempt \<times> rat"

record per_utterance =
  pu_stem :: string
  pu_reference :: "string option"
  pu_whisper :: "decode_result \<times> rat option"
  pu_parakeet :: "decode_result \<times> rat option"

text \<open>\<open>None\<close>: it raised.\<close>

definition row_wer :: "string option \<Rightarrow> decode_result \<Rightarrow> rat option option" where
  "row_wer reference res =
     (case reference of
        None \<Rightarrow> Some None
      | Some t \<Rightarrow> if dr_failed res then Some None else map_option Some (wer_of t (dr_transcript res)))"

fun bench_rows :: "bench_world \<Rightarrow> utterance list \<Rightarrow> per_utterance list option" where
  "bench_rows w [] = Some []"
| "bench_rows w (u # us) =
     (case bw_wav w (ut_audio u) of
        None \<Rightarrow> None
      | Some f \<Rightarrow>
          (case read_wav_pcm16 f of
             Wrong_Format \<Rightarrow> bench_rows w us
           | Pcm pcm \<Rightarrow>
               (case (case bw_whisper w (ut_audio u) pcm of (a, lat) \<Rightarrow> decode_utterance a lat,
                      case bw_parakeet w (ut_audio u) pcm of (a, lat) \<Rightarrow> decode_utterance a lat) of
                  (Some wr, Some pr) \<Rightarrow>
                    (case (row_wer (ut_reference u) wr, row_wer (ut_reference u) pr) of
                       (Some ww, Some pw) \<Rightarrow>
                         map_option
                           ((#) \<lparr>pu_stem = ut_stem u, pu_reference = ut_reference u, pu_whisper = (wr, ww), pu_parakeet = (pr, pw)\<rparr>)
                           (bench_rows w us)
                     | _ \<Rightarrow> None)
                | _ \<Rightarrow> None)))"

text \<open>\<open>Not_Both\<close>: the exit that names the endpoints that did not answer as they should.\<close>

datatype bench_failure = Not_Both probe_outcome probe_outcome | Bench_Raised

definition run_benchmark ::
  "bench_world \<Rightarrow> utterance list \<Rightarrow> bench_failure + per_utterance list \<times> asr_aggregate \<times> asr_aggregate" where
  "run_benchmark w us =
     (let we = bench_probe (bw_whisper_probe w) ''mlx''; pe = bench_probe (bw_parakeet_probe w) ''parakeet''
      in if we = Probe_Raised \<or> pe = Probe_Raised then Raise Bench_Raised
         else if we \<noteq> Probe_Ok \<or> pe \<noteq> Probe_Ok then Raise (Not_Both we pe)
         else case bench_rows w us of
           None \<Rightarrow> Raise Bench_Raised
         | Some rows \<Rightarrow>
             (case (aggregate_results (map (\<lambda>r. (fst (pu_whisper r), pu_reference r)) rows),
                    aggregate_results (map (\<lambda>r. (fst (pu_parakeet r), pu_reference r)) rows)) of
                (Some wa, Some pa) \<Rightarrow> Ok (rows, wa, pa)
              | _ \<Rightarrow> Raise Bench_Raised))"

text \<open>Which of the two has the lower mean error rate, and whether the summary warns about it.\<close>

datatype asr = Whisper | Parakeet

definition verdict_line :: "asr_aggregate \<Rightarrow> asr_aggregate \<Rightarrow> (asr \<times> bool) option" where
  "verdict_line wa pa =
     (case (ag_mean_wer wa, ag_mean_wer pa) of
        (Some mw, Some mp) \<Rightarrow>
          (let (win, win_agg, lose_agg) = (if mp < mw then (Parakeet, pa, wa) else (Whisper, wa, pa))
           in Some (win, ag_failures lose_agg < ag_failures win_agg))
      | _ \<Rightarrow> None)"

section \<open>The table is the edit distance\<close>

fun lev :: "'a list \<Rightarrow> 'a list \<Rightarrow> nat" where
  "lev [] ys = length ys"
| "lev xs [] = length xs"
| "lev (x # xs) (y # ys) =
     min (min (lev xs (y # ys) + 1) (lev (x # xs) ys + 1)) (lev xs ys + (if x = y then 0 else 1))"

lemma lev_Nil2 [simp]: "lev xs [] = length xs"
  by (cases xs) auto

lemma row_loop_lev:
  assumes "length prev = Suc (length (pre @ hs))"
    "\<forall>k \<le> length (pre @ hs). prev ! k = lev rr (rev (take k (pre @ hs)))"
    "row = map (\<lambda>k. lev (r # rr) (rev (take k (pre @ hs)))) [0..<Suc (length pre)]"
  shows "row_loop prev r (Suc (length pre)) hs row = map (\<lambda>k. lev (r # rr) (rev (take k (pre @ hs)))) [0..<Suc (length (pre @ hs))]"
  using assms
proof (induction hs arbitrary: pre row)
  case Nil
  then show ?case by simp
next
  case (Cons h hs)
  let ?hyp = "pre @ h # hs"
  let ?j = "length pre"
  have t: "take (Suc ?j) ?hyp = pre @ [h]" "take ?j ?hyp = pre" by simp_all
  have u: "prev ! Suc ?j = lev rr (rev (pre @ [h]))" "prev ! ?j = lev rr (rev pre)"
    using Cons.prems(2) [rule_format, of "Suc ?j"] Cons.prems(2) [rule_format, of ?j] t by simp_all
  have c: "row ! ?j = lev (r # rr) (rev pre)" using Cons.prems(3) by (simp add: nth_append)
  define v where "v = min (min (prev ! Suc ?j + 1) (row ! ?j + 1)) (prev ! ?j + (if r = h then 0 else 1))"
  have v: "v = lev (r # rr) (rev (take (Suc ?j) ?hyp))"
    unfolding v_def u c t by simp
  have step: "row_loop prev r (Suc ?j) (h # hs) row = row_loop prev r (Suc (length (pre @ [h]))) hs (row @ [v])"
    by (simp add: v_def)
  have "row_loop prev r (Suc (length (pre @ [h]))) hs (row @ [v]) =
      map (\<lambda>k. lev (r # rr) (rev (take k ((pre @ [h]) @ hs)))) [0..<Suc (length ((pre @ [h]) @ hs))]"
  proof (rule Cons.IH)
    show "length prev = Suc (length ((pre @ [h]) @ hs))" using Cons.prems(1) by simp
    show "\<forall>k \<le> length ((pre @ [h]) @ hs). prev ! k = lev rr (rev (take k ((pre @ [h]) @ hs)))"
      using Cons.prems(2) by simp
    show "row @ [v] = map (\<lambda>k. lev (r # rr) (rev (take k ((pre @ [h]) @ hs)))) [0..<Suc (length (pre @ [h]))]"
      using Cons.prems(3) v by simp
  qed
  then show ?case unfolding step by simp
qed

lemma table_loop_lev:
  assumes "prev = map (\<lambda>k. lev (rev done_words) (rev (take k hyp))) [0..<Suc (length hyp)]"
  shows "table_loop hyp (Suc (length done_words)) rs prev =
    map (\<lambda>k. lev (rev (done_words @ rs)) (rev (take k hyp))) [0..<Suc (length hyp)]"
  using assms
proof (induction rs arbitrary: done_words prev)
  case Nil
  then show ?case by simp
next
  case (Cons r rs)
  let ?i = "Suc (length done_words)"
  have n: "prev ! k = lev (rev done_words) (rev (take k hyp))" if "k \<le> length hyp" for k
    using that Cons.prems by (simp del: upt_Suc)
  define none where "none = ([] :: 'a list)"
  have "row_loop prev r (Suc (length none)) hyp [?i] =
      map (\<lambda>k. lev (r # rev done_words) (rev (take k (none @ hyp)))) [0..<Suc (length (none @ hyp))]"
  proof (rule row_loop_lev)
    show "length prev = Suc (length (none @ hyp))" using Cons.prems by (simp add: none_def del: upt_Suc)
    show "\<forall>k \<le> length (none @ hyp). prev ! k = lev (rev done_words) (rev (take k (none @ hyp)))"
      using n by (simp add: none_def)
    show "[?i] = map (\<lambda>k. lev (r # rev done_words) (rev (take k (none @ hyp)))) [0..<Suc (length none)]"
      by (simp add: none_def)
  qed
  then have "row_loop prev r 1 hyp [?i] =
      map (\<lambda>k. lev (rev (done_words @ [r])) (rev (take k hyp))) [0..<Suc (length hyp)]"
    by (simp add: none_def del: upt_Suc)
  from Cons.IH [OF this] show ?case by simp
qed

lemma table_last: "last (table_loop hyp 1 rs [0..<length hyp + 1]) = lev (rev rs) (rev hyp)"
proof -
  have "[0..<length hyp + 1] = map (\<lambda>k. lev (rev []) (rev (take k hyp))) [0..<Suc (length hyp)]"
    by (intro nth_equalityI) (auto simp del: upt_Suc)
  from table_loop_lev [OF this, of rs] show ?thesis by simp
qed

text \<open>One edit replaces at most one word by at most one word, anywhere. The distance is the least number of
  edits from one list to the other.\<close>

definition one_edit :: "'a list \<Rightarrow> 'a list \<Rightarrow> bool" where
  "one_edit xs ys \<longleftrightarrow> (\<exists>a u v b. xs = a @ u @ b \<and> ys = a @ v @ b \<and> length u \<le> 1 \<and> length v \<le> 1)"

definition edit_distance :: "'a list \<Rightarrow> 'a list \<Rightarrow> nat \<Rightarrow> bool" where
  "edit_distance xs ys d \<longleftrightarrow> (one_edit ^^ d) xs ys \<and> (\<forall>n. (one_edit ^^ n) xs ys \<longrightarrow> d \<le> n)"

inductive aligned :: "'a list \<Rightarrow> 'a list \<Rightarrow> nat \<Rightarrow> bool" where
  nothing: "aligned [] [] 0"
| match: "aligned xs ys n \<Longrightarrow> aligned (x # xs) (x # ys) n"
| substitute: "aligned xs ys n \<Longrightarrow> aligned (x # xs) (y # ys) (Suc n)"
| delete: "aligned xs ys n \<Longrightarrow> aligned (x # xs) ys (Suc n)"
| insert: "aligned xs ys n \<Longrightarrow> aligned xs (y # ys) (Suc n)"

inductive_cases aligned_Nil2: "aligned xs [] n"

lemma one_edit_Cons: "one_edit xs ys \<Longrightarrow> one_edit (x # xs) (x # ys)"
  unfolding one_edit_def by (metis append_Cons)

lemma edits_Cons: "(one_edit ^^ n) xs ys \<Longrightarrow> (one_edit ^^ n) (x # xs) (x # ys)"
  by (induction n arbitrary: ys) (auto intro: one_edit_Cons)

lemma one_edit_front: "one_edit (x # xs) (y # xs)" "one_edit (x # xs) xs" "one_edit xs (y # xs)"
proof -
  show "one_edit (x # xs) (y # xs)" unfolding one_edit_def
    by (rule exI [of _ "[]"], rule exI [of _ "[x]"], rule exI [of _ "[y]"], rule exI [of _ xs]) simp
  show "one_edit (x # xs) xs" unfolding one_edit_def
    by (rule exI [of _ "[]"], rule exI [of _ "[x]"], rule exI [of _ "[]"], rule exI [of _ xs]) simp
  show "one_edit xs (y # xs)" unfolding one_edit_def
    by (rule exI [of _ "[]"], rule exI [of _ "[]"], rule exI [of _ "[y]"], rule exI [of _ xs]) simp
qed

lemma aligned_edits: "aligned xs ys n \<Longrightarrow> (one_edit ^^ n) xs ys"
proof (induction rule: aligned.induct)
  case (substitute xs ys n x y)
  then show ?case using edits_Cons one_edit_front(1) [of x xs y] relpowp_Suc_I2 by metis
next
  case (delete xs ys n x)
  then show ?case using one_edit_front(2) relpowp_Suc_I2 by metis
next
  case (insert xs ys n y)
  then show ?case using one_edit_front(3) relpowp_Suc_I by metis
qed (simp_all add: edits_Cons)

lemma aligned_lengths: "aligned xs ys n \<Longrightarrow> length xs \<le> length ys + n \<and> length ys \<le> length xs + n"
  by (induction rule: aligned.induct) auto

lemma aligned_same: "aligned xs xs 0"
  by (induction xs) (auto intro: aligned.intros)

lemma aligned_append: "aligned xs ys m \<Longrightarrow> aligned us vs n \<Longrightarrow> aligned (xs @ us) (ys @ vs) (m + n)"
  by (induction rule: aligned.induct) (auto intro: aligned.intros)

lemma aligned_split:
  "aligned xs (a @ c) n \<Longrightarrow> \<exists>us vs m k. xs = us @ vs \<and> aligned us a m \<and> aligned vs c k \<and> n = m + k"
proof (induction xs "a @ c" n arbitrary: a rule: aligned.induct)
  case nothing
  then show ?case by (auto intro: aligned.nothing)
next
  case (match xs ys n x)
  show ?case
  proof (cases a)
    case Nil
    then show ?thesis using match aligned.match aligned.nothing by fastforce
  next
    case (Cons y a')
    then show ?thesis using match aligned.match by (metis append_Cons list.inject)
  qed
next
  case (substitute xs ys n x y)
  show ?case
  proof (cases a)
    case Nil
    then show ?thesis using substitute aligned.substitute aligned.nothing by fastforce
  next
    case (Cons z a')
    then have "ys = a' @ c" using substitute(3) by simp
    from substitute(2) [OF this] show ?thesis using Cons aligned.substitute by (metis append_Cons add_Suc)
  qed
next
  case (delete xs n x)
  then show ?case using aligned.delete by (metis append_Cons add_Suc)
next
  case (insert xs ys n y)
  show ?case
  proof (cases a)
    case Nil
    then show ?thesis using insert aligned.insert aligned.nothing by fastforce
  next
    case (Cons z a')
    then have "ys = a' @ c" using insert(3) by simp
    from insert(2) [OF this] show ?thesis using Cons aligned.insert by (metis add_Suc)
  qed
qed

lemma aligned_any: "aligned xs ys (max (length xs) (length ys))"
proof (induction xs ys rule: lev.induct)
  case (1 ys)
  show ?case by (induction ys) (auto intro: aligned.intros)
next
  case (2 x xs)
  have "aligned zs [] (length zs)" for zs :: "'a list" by (induction zs) (auto intro: aligned.intros)
  then show ?case by (metis list.size(3) max_nat.right_neutral)
next
  case (3 x xs y ys)
  then show ?case using aligned.substitute [OF 3(3)] by (simp add: max_def split: if_splits)
qed

lemma aligned_edit: "aligned xs ys n \<Longrightarrow> one_edit ys zs \<Longrightarrow> \<exists>k \<le> Suc n. aligned xs zs k"
proof -
  assume a: "aligned xs ys n" and "one_edit ys zs"
  then obtain p u v b where e: "ys = p @ u @ b" "zs = p @ v @ b" "length u \<le> 1" "length v \<le> 1"
    unfolding one_edit_def by blast
  obtain xp xr m k where s: "xs = xp @ xr" "aligned xp p m" "aligned xr (u @ b) k" "n = m + k"
    using aligned_split a e(1) by metis
  obtain xu xb i j where t: "xr = xu @ xb" "aligned xu u i" "aligned xb b j" "k = i + j"
    using aligned_split s(3) by metis
  have "max (length xu) (length v) \<le> Suc i" using aligned_lengths [OF t(2)] e(3,4) by auto
  moreover have "aligned xs zs (m + (max (length xu) (length v) + j))"
    unfolding s(1) t(1) e(2) by (intro aligned_append s(2) t(3) aligned_any)
  ultimately show ?thesis using s(4) t(4)
    by (intro exI [of _ "m + (max (length xu) (length v) + j)"]) auto
qed

lemma edits_aligned: "(one_edit ^^ n) xs ys \<Longrightarrow> \<exists>k \<le> n. aligned xs ys k"
proof (induction n arbitrary: ys)
  case 0
  then show ?case using aligned_same by auto
next
  case (Suc n)
  then obtain zs where z: "(one_edit ^^ n) xs zs" "one_edit zs ys" by auto
  then obtain k where "k \<le> n" "aligned xs zs k" using Suc.IH by blast
  then show ?case using aligned_edit [OF _ z(2)] by (meson Suc_le_mono le_trans)
qed

lemma lev_aligned: "aligned xs ys (lev xs ys)"
proof (induction xs ys rule: lev.induct)
  case (1 ys)
  then show ?case using aligned_any [of "[]" ys] by simp
next
  case (2 x xs)
  then show ?case using aligned_any [of "x # xs" "[]"] by simp
next
  case (3 x xs y ys)
  show ?case
    using 3 aligned.delete [OF 3(1), of x] aligned.insert [OF 3(2), of y] aligned.substitute [OF 3(3), of x y]
      aligned.match [OF 3(3), of x]
    by (auto simp: min_def)
qed

lemma lev_delete: "lev (x # xs) ys \<le> Suc (lev xs ys)"
  by (cases ys) auto

lemma lev_insert: "lev xs (y # ys) \<le> Suc (lev xs ys)"
  by (cases xs) auto

lemma lev_least: "aligned xs ys n \<Longrightarrow> lev xs ys \<le> n"
proof (induction rule: aligned.induct)
  case (delete xs ys n x)
  then show ?case using lev_delete [of x xs ys] by simp
next
  case (insert xs ys n y)
  then show ?case using lev_insert [of xs y ys] by simp
qed auto

lemma lev_distance: "edit_distance xs ys (lev xs ys)"
  unfolding edit_distance_def
  using lev_aligned aligned_edits edits_aligned lev_least by (metis order_trans)

lemma one_edit_rev: "one_edit xs ys \<Longrightarrow> one_edit (rev xs) (rev ys)"
proof -
  assume "one_edit xs ys"
  then obtain a u v b where "xs = a @ u @ b" "ys = a @ v @ b" "length u \<le> 1" "length v \<le> 1"
    unfolding one_edit_def by blast
  then have "rev xs = rev b @ rev u @ rev a" "rev ys = rev b @ rev v @ rev a" "length (rev u) \<le> 1" "length (rev v) \<le> 1"
    by simp_all
  then show ?thesis unfolding one_edit_def by blast
qed

lemma edits_rev: "(one_edit ^^ n) xs ys \<Longrightarrow> (one_edit ^^ n) (rev xs) (rev ys)"
proof (induction n arbitrary: ys)
  case (Suc n)
  then obtain zs where z: "(one_edit ^^ n) xs zs" "one_edit zs ys" by auto
  then show ?case using Suc.IH one_edit_rev by auto
qed simp

lemma edits_rev_iff: "(one_edit ^^ n) (rev xs) (rev ys) \<longleftrightarrow> (one_edit ^^ n) xs ys"
  using edits_rev [of n xs ys] edits_rev [of n "rev xs" "rev ys"] by auto

lemma table_distance: "edit_distance rs hyp (last (table_loop hyp 1 rs [0..<length hyp + 1]))"
  using lev_distance [of "rev rs" "rev hyp"] unfolding table_last edit_distance_def edits_rev_iff .

text \<open>C35: the word error rate is the edit distance over the number of reference words: the table of the dynamic
  program ends in the least number of single-word insertions, deletions and replacements that turn the
  reference's words into the transcript's; without reference words the rate is \<open>0\<close> or \<open>1\<close>, and a rate of \<open>0\<close> means
  the same words.\<close>

theorem word_error_rate_exact:
  "\<exists>d. edit_distance (normalize_words reference) (normalize_words hypothesis) d \<and>
     word_error_rate reference hypothesis =
       (if normalize_words reference = [] then (if d = 0 then 0 else 1)
        else of_nat d / of_nat (length (normalize_words reference))) \<and>
     (word_error_rate reference hypothesis = 0 \<longleftrightarrow> normalize_words reference = normalize_words hypothesis)"
proof -
  define rs hyp where w: "rs = normalize_words reference" "hyp = normalize_words hypothesis"
  define d where "d = last (table_loop hyp 1 rs [0..<length hyp + 1])"
  have e: "edit_distance rs hyp d" unfolding d_def by (rule table_distance)
  have z: "d = 0 \<longleftrightarrow> rs = hyp"
  proof
    assume "d = 0"
    then show "rs = hyp" using e by (simp add: edit_distance_def)
  next
    assume "rs = hyp"
    then have "(one_edit ^^ 0) rs hyp" by simp
    then show "d = 0" using e unfolding edit_distance_def by (metis le_zero_eq)
  qed
  have r: "word_error_rate reference hypothesis =
      (if rs = [] then (if hyp = [] then 0 else 1) else of_nat d / of_nat (length rs))"
    by (simp add: word_error_rate_def Let_def w [symmetric] d_def)
  show ?thesis
    unfolding w [symmetric] r by (rule exI [of _ d]) (use e z in auto)
qed

section \<open>The corpus and the audio\<close>

lemma corpus_not_pii:
  assumes "load_corpus roots False d = Ok us" "dir \<in> set roots"
  shows "\<not> prefix dir (cd_path d)"
  using assms by (auto simp: load_corpus_def find_None_iff strict_prefix_def split: if_splits option.splits)

lemma frames_cover: "concat (frames_of pcm) = pcm \<and> (\<forall>f \<in> set (frames_of pcm). f \<noteq> [] \<and> length f \<le> FRAME_BYTES)"
proof (induction pcm rule: frames_of.induct)
  case (1 pcm)
  have p: "0 < FRAME_BYTES" by (simp add: FRAME_BYTES_def AUDIO_SAMPLE_RATE_HZ_def AUDIO_CHANNELS_def)
  show ?case
  proof (cases "pcm = []")
    case True
    then show ?thesis by (simp add: frames_of.simps)
  next
    case False
    then show ?thesis using 1 p by (subst (1 2) frames_of.simps) auto
  qed
qed

section \<open>What a report says\<close>

definition failed_rows :: "(decode_result \<times> string option) list \<Rightarrow> (decode_result \<times> string option) list" where
  "failed_rows rs = filter (\<lambda>r. dr_failed (fst r)) rs"

lemma tally_rows:
  "\<forall>r \<in> set rs. row_wer (snd r) (fst r) \<noteq> None \<Longrightarrow>
   tally rs f l w = Some (f + length (failed_rows rs), l @ map (\<lambda>r. dr_latency (fst r)) (filter (\<lambda>r. \<not> dr_failed (fst r)) rs),
     w @ List.map_filter (\<lambda>r. the (row_wer (snd r) (fst r))) rs)"
proof (induction rs f l w rule: tally.induct)
  case (1 f l w)
  then show ?case by (simp add: failed_rows_def List.map_filter_def)
next
  case (2 res reference rs f l w)
  show ?case
  proof (cases "dr_failed res")
    case True
    then show ?thesis using 2 by (cases reference) (auto simp: failed_rows_def row_wer_def map_filter_simps)
  next
    case ok: False
    show ?thesis
    proof (cases reference)
      case None
      then show ?thesis using 2 ok by (auto simp: failed_rows_def row_wer_def map_filter_simps)
    next
      case (Some t)
      moreover from this obtain v where "wer_of t (dr_transcript res) = Some v" using 2(4) ok by (auto simp: row_wer_def)
      ultimately show ?thesis using 2 ok by (auto simp: failed_rows_def row_wer_def map_filter_simps)
    qed
  qed
qed

text \<open>The aggregate of one column of the report.\<close>

definition column_aggregate :: "(decode_result \<times> rat option) list \<Rightarrow> asr_aggregate" where
  "column_aggregate col =
     (let ok = filter (\<lambda>c. \<not> dr_failed (fst c)) col; wers = List.map_filter snd col; lats = map (\<lambda>c. dr_latency (fst c)) ok
      in \<lparr>ag_utterances = length col, ag_failures = length col - length ok,
          ag_mean_wer = over mean wers, ag_median_wer = over median wers,
          ag_mean_latency = over mean lats, ag_median_latency = over median lats\<rparr>)"

lemma aggregate_column:
  assumes "\<forall>r \<in> set rows. row_wer (pu_reference r) (fst (sel r)) = Some (snd (sel r))"
  shows "aggregate_results (map (\<lambda>r. (fst (sel r), pu_reference r)) rows) = Some (column_aggregate (map sel rows))"
proof -
  let ?rs = "map (\<lambda>r. (fst (sel r), pu_reference r)) rows"
  have a: "\<forall>r \<in> set ?rs. row_wer (snd r) (fst r) \<noteq> None" using assms by auto
  have w: "List.map_filter (\<lambda>r. the (row_wer (snd r) (fst r))) ?rs = List.map_filter snd (map sel rows)"
    using assms by (induction rows) (auto simp: map_filter_simps split: option.splits)
  have l: "map (\<lambda>r. dr_latency (fst r)) (filter (\<lambda>r. \<not> dr_failed (fst r)) ?rs) =
      map (\<lambda>c. dr_latency (fst c)) (filter (\<lambda>c. \<not> dr_failed (fst c)) (map sel rows))"
    by (induction rows) auto
  have n: "length (failed_rows ?rs) = length (map sel rows) - length (filter (\<lambda>c. \<not> dr_failed (fst c)) (map sel rows))"
    using sum_length_filter_compl [of "\<lambda>c. dr_failed (fst c)" "map sel rows"]
    by (simp add: failed_rows_def filter_map comp_def)
  show ?thesis
    unfolding aggregate_results_def tally_rows [OF a] column_aggregate_def Let_def using w l n by simp
qed

definition usable :: "bench_world \<Rightarrow> utterance \<Rightarrow> bool" where
  "usable w u \<longleftrightarrow> (case bw_wav w (ut_audio u) of None \<Rightarrow> False | Some f \<Rightarrow> read_wav_pcm16 f \<noteq> Wrong_Format)"

definition row_for :: "bench_world \<Rightarrow> utterance \<Rightarrow> per_utterance \<Rightarrow> bool" where
  "row_for w u r \<longleftrightarrow> pu_stem r = ut_stem u \<and> pu_reference r = ut_reference u \<and>
     (\<exists>f pcm. bw_wav w (ut_audio u) = Some f \<and> read_wav_pcm16 f = Pcm pcm \<and>
        (case bw_whisper w (ut_audio u) pcm of (a, lat) \<Rightarrow> decode_utterance a lat = Some (fst (pu_whisper r))) \<and>
        (case bw_parakeet w (ut_audio u) pcm of (a, lat) \<Rightarrow> decode_utterance a lat = Some (fst (pu_parakeet r)))) \<and>
     row_wer (pu_reference r) (fst (pu_whisper r)) = Some (snd (pu_whisper r)) \<and>
     row_wer (pu_reference r) (fst (pu_parakeet r)) = Some (snd (pu_parakeet r))"

lemma bench_rows_for: "bench_rows w us = Some rows \<Longrightarrow> list_all2 (row_for w) (filter (usable w) us) rows"
proof (induction us arbitrary: rows)
  case Nil
  then show ?case by simp
next
  case (Cons u us)
  obtain f where f: "bw_wav w (ut_audio u) = Some f" using Cons.prems by (cases "bw_wav w (ut_audio u)") auto
  show ?case
  proof (cases "read_wav_pcm16 f")
    case Wrong_Format
    then show ?thesis using Cons f by (simp add: usable_def)
  next
    case (Pcm pcm)
    obtain a lat where x: "bw_whisper w (ut_audio u) pcm = (a, lat)" by (cases "bw_whisper w (ut_audio u) pcm")
    obtain b lat' where y: "bw_parakeet w (ut_audio u) pcm = (b, lat')" by (cases "bw_parakeet w (ut_audio u) pcm")
    obtain wr where wr: "decode_utterance a lat = Some wr"
      using Cons.prems f Pcm x y by (cases "decode_utterance a lat") (simp_all split: option.splits)
    obtain pr where pr: "decode_utterance b lat' = Some pr"
      using Cons.prems f Pcm x y wr by (cases "decode_utterance b lat'") (simp_all split: option.splits)
    obtain ww where ww: "row_wer (ut_reference u) wr = Some ww"
      using Cons.prems f Pcm x y wr pr by (cases "row_wer (ut_reference u) wr") (simp_all split: option.splits)
    obtain pw where pw: "row_wer (ut_reference u) pr = Some pw"
      using Cons.prems f Pcm x y wr pr ww by (cases "row_wer (ut_reference u) pr") (simp_all split: option.splits)
    obtain rest where rest: "bench_rows w us = Some rest"
      "rows = \<lparr>pu_stem = ut_stem u, pu_reference = ut_reference u, pu_whisper = (wr, ww), pu_parakeet = (pr, pw)\<rparr> # rest"
      using Cons.prems f Pcm x y wr pr ww pw by auto
    show ?thesis using Cons.IH [OF rest(1)] rest(2) f Pcm x y wr pr ww pw by (simp add: usable_def row_for_def)
  qed
qed

text \<open>A server that names itself.\<close>

definition announces :: "attempt \<Rightarrow> string \<Rightarrow> bool" where
  "announces a name \<longleftrightarrow> (\<exists>fs hello b. a = Some fs \<and> fst (connect fs) = Ok hello \<and>
     get_member ''backend'' hello = Some b \<and> get_member ''name'' b = Some (JStr name))"

lemma probe_ok: "bench_probe a name = Probe_Ok \<Longrightarrow> announces a name"
  unfolding bench_probe_def announces_def
  by (auto split: option.splits sum.splits if_splits)

text \<open>C36: a benchmark report compares the right servers on the same utterances: both servers answered the probe and named
  the backend their label claims; each row is the decode of one usable utterance, of the same audio, by both servers, in the order
  of the corpus, none left out; and each summary is computed from its column of the rows: its length, its failed decodes,
  and the mean and median of the error rates and latencies of the others.\<close>

theorem benchmark_fair:
  assumes "run_benchmark w us = Ok (rows, wa, pa)"
  shows "announces (bw_whisper_probe w) ''mlx'' \<and> announces (bw_parakeet_probe w) ''parakeet'' \<and>
    list_all2 (row_for w) (filter (usable w) us) rows \<and>
    wa = column_aggregate (map pu_whisper rows) \<and> pa = column_aggregate (map pu_parakeet rows)"
proof -
  have p: "bench_probe (bw_whisper_probe w) ''mlx'' = Probe_Ok" "bench_probe (bw_parakeet_probe w) ''parakeet'' = Probe_Ok"
    using assms by (auto simp: run_benchmark_def Let_def split: if_splits)
  obtain rs where r: "bench_rows w us = Some rs" using assms p by (cases "bench_rows w us") (simp_all add: run_benchmark_def)
  have l: "list_all2 (row_for w) (filter (usable w) us) rs" by (rule bench_rows_for [OF r])
  then have e: "\<forall>x \<in> set rs. row_wer (pu_reference x) (fst (pu_whisper x)) = Some (snd (pu_whisper x)) \<and>
      row_wer (pu_reference x) (fst (pu_parakeet x)) = Some (snd (pu_parakeet x))"
    by (induction rule: list_all2_induct) (auto simp: row_for_def)
  have "aggregate_results (map (\<lambda>x. (fst (pu_whisper x), pu_reference x)) rs) = Some (column_aggregate (map pu_whisper rs))"
    "aggregate_results (map (\<lambda>x. (fst (pu_parakeet x), pu_reference x)) rs) = Some (column_aggregate (map pu_parakeet rs))"
    using e by (auto intro!: aggregate_column)
  then have "rows = rs \<and> wa = column_aggregate (map pu_whisper rs) \<and> pa = column_aggregate (map pu_parakeet rs)"
    using assms p r by (auto simp: run_benchmark_def)
  then show ?thesis using probe_ok p l by blast
qed

text \<open>One utterance, decoded by both servers.\<close>

definition text_of :: "json \<Rightarrow> string" where "text_of j = the (json_text j)"

definition sample_frames :: "string \<Rightarrow> string \<Rightarrow> frame list" where
  "sample_frames name tx = map (\<lambda>j. F_Text (text_of j))
     [JObj [(''type'', JStr EVT_SERVER_HELLO), (''backend'', JObj [(''name'', JStr name)])],
      JObj [(''type'', JStr EVT_SESSION_CREATED)],
      JObj [(''type'', JStr EVT_TRANSCRIPT_COMPLETED), (''transcript'', JStr tx)]]"

definition sample_bench :: bench_world where
  "sample_bench = \<lparr>bw_whisper_probe = Some (sample_frames ''mlx'' ''''), bw_parakeet_probe = Some (sample_frames ''parakeet'' ''''),
     bw_wav = (\<lambda>n. Some \<lparr>wf_channels = 1, wf_width = 2, wf_rate = 16000, wf_frames = []\<rparr>),
     bw_whisper = (\<lambda>n pcm. (Some (sample_frames ''mlx'' ''A b.''), 2)), bw_parakeet = (\<lambda>n pcm. (Some (sample_frames ''parakeet'' ''a''), 1))\<rparr>"

definition sample_utterance :: utterance where
  "sample_utterance = \<lparr>ut_stem = ''u'', ut_audio = ''u.wav'', ut_reference = Some ''a b''\<rparr>"

lemma loads_texts: "has_text j \<Longrightarrow> loads (text_of j) = Loaded j"
  using loads_json_text by (auto simp: has_text_def text_of_def)

lemma sample_connect:
  "\<exists>fs. connect (sample_frames name tx) =
      (Ok (JObj [(''type'', JStr EVT_SERVER_HELLO), (''backend'', JObj [(''name'', JStr name)])]), fs) \<and>
      events fs = ([JObj [(''type'', JStr EVT_TRANSCRIPT_COMPLETED), (''transcript'', JStr tx)]], None)"
  by (simp add: sample_frames_def connect_def expect_def recv_json_def loads_texts has_text_obj has_text_atoms jget_or_def jget_Cons)

lemma sample_probed: "bench_probe (Some (sample_frames name tx)) name = Probe_Ok"
  using sample_connect [of name tx] by (auto simp: bench_probe_def jget_or_def jget_Cons)

lemma sample_decode:
  "tx \<noteq> [] \<Longrightarrow> decode_utterance (Some (sample_frames name tx)) lat =
     Some \<lparr>dr_transcript = JStr tx, dr_latency = lat, dr_failed = False, dr_error = None\<rparr>"
  using sample_connect [of name tx]
  by (auto simp: decode_utterance_def jget_or_def jget_Cons jget_default_def EVT_TRANSCRIPT_COMPLETED_def EVT_TRANSCRIPT_DELTA_def)

lemma sample_rates: "word_error_rate ''a b'' ''A b.'' = 0" "word_error_rate ''a b'' ''a'' = 1 / 2"
proof -
  have w: "normalize_words ''a b'' = [''a'', ''b'']" "normalize_words ''A b.'' = [''a'', ''b'']" "normalize_words ''a'' = [''a'']"
    by code_simp+
  show "word_error_rate ''a b'' ''A b.'' = 0" "word_error_rate ''a b'' ''a'' = 1 / 2"
    unfolding word_error_rate_def w by (simp_all add: upt_rec)
qed

lemma sample_report:
  "\<exists>rows wa pa. run_benchmark sample_bench [sample_utterance] = Ok (rows, wa, pa) \<and> length rows = 1 \<and>
     verdict_line wa pa = Some (Whisper, False)"
proof -
  have r: "bench_rows sample_bench [sample_utterance] = Some
      [\<lparr>pu_stem = ''u'', pu_reference = Some ''a b'',
        pu_whisper = (\<lparr>dr_transcript = JStr ''A b.'', dr_latency = 2, dr_failed = False, dr_error = None\<rparr>, Some 0),
        pu_parakeet = (\<lparr>dr_transcript = JStr ''a'', dr_latency = 1, dr_failed = False, dr_error = None\<rparr>, Some (1 / 2))\<rparr>]"
    by (simp add: sample_bench_def sample_utterance_def read_wav_pcm16_def AUDIO_CHANNELS_def AUDIO_SAMPLE_RATE_HZ_def sample_decode
        row_wer_def wer_of_def sample_rates)
  have p: "bench_probe (bw_whisper_probe sample_bench) ''mlx'' = Probe_Ok" "bench_probe (bw_parakeet_probe sample_bench) ''parakeet'' = Probe_Ok"
    by (simp_all add: sample_bench_def sample_probed)
  show ?thesis
    by (simp add: run_benchmark_def p r aggregate_results_def wer_of_def sample_rates over_def mean_def verdict_line_def
        del: bench_rows.simps)
qed

theorem benchmark_fair_witness:
  "announces (bw_whisper_probe sample_bench) ''mlx'' \<and>
   (\<exists>rows. list_all2 (row_for sample_bench) (filter (usable sample_bench) [sample_utterance]) rows \<and> length rows = 1)"
proof -
  obtain rows wa pa where r: "run_benchmark sample_bench [sample_utterance] = Ok (rows, wa, pa)" "length rows = 1"
    using sample_report by blast
  show ?thesis using benchmark_fair [OF r(1)] r(2) by blast
qed

end
