(* ===== verification/Smoke_Runner.thy ===== *)
theory Smoke_Runner
  imports Launchd_Harness Asr_Benchmark Cli
begin

text \<open>
  \<open>scripts/smoke.py\<close>: the runner of all local checks. One command and its outcome, the steps and the table, the step
  that decodes through every installed agent, and the child it starts for each, which sends the agent's token
  only over a connection \<open>Verified_Connect\<close> vouches for.

  The commands' ends, \<open>launchctl\<close>'s answers, the plists, the connection and the server's frames are inputs.
\<close>

section \<open>One command\<close>

text \<open>How \<open>run_command\<close> ends: the child's status, stdout and stderr, \<open>TimeoutExpired\<close>, another exception, or
  \<open>KeyboardInterrupt\<close> (with whether it carries \<open>GroupNotStopped\<close>).\<close>

datatype command_end = Cmd_Exited int string string | Cmd_Timed_Out | Cmd_Crashed | Cmd_Interrupted bool

text \<open>From the ending of \<open>run_owned\<close>; the handlers of the runner raise \<open>KeyboardInterrupt\<close>.\<close>

definition run_command :: "ending \<Rightarrow> int \<Rightarrow> string \<Rightarrow> string \<Rightarrow> command_end" where
  "run_command e rc out err =
     (case e of
        Returns timed_out \<Rightarrow> if timed_out then Cmd_Timed_Out else Cmd_Exited rc out err
      | Group_Not_Stopped \<Rightarrow> Cmd_Crashed
      | Handler_Raises not_stopped \<Rightarrow> Cmd_Interrupted not_stopped
      | Raises_In_Flight \<Rightarrow> Cmd_Crashed)"

datatype not_decoded = Plist_Unreadable string | Plist_Gone | Port_Unparsable string | No_Endpoint_Given | Token_Refused token_problem
  | State_Unreadable | No_Pid | No_Runs

datatype detail =
    No_Detail | Not_Requested | Skip_Because string | Precondition skip | Timed_Out_Detail | Crash_Detail
  | Exit_Detail int string | Failed_Checks int "string list" | Interrupt_Detail bool | Not_Run
  | No_Agents | No_Say | No_Clip detail | Agents_Detail

definition tail_line :: "string \<Rightarrow> string \<Rightarrow> string" where
  "tail_line out err =
     (let ls = filter (\<lambda>l. l \<noteq> []) (map strip (splitlines (strip (err @ [LF] @ out))))
      in if ls = [] then [] else take 200 (last ls))"

text \<open>\<open>_execute\<close>: the outcome, its detail, and the child's status and output if there are any; an interrupt passes.\<close>

datatype executed = Executed row_outcome detail "(int \<times> string) option" | Passed_On bool

fun execute_command :: "command_end \<Rightarrow> executed" where
  "execute_command (Cmd_Exited rc out err) =
     (if rc \<noteq> 0 then Executed FAIL (Exit_Detail rc (tail_line out err)) (Some (rc, out))
      else Executed PASS No_Detail (Some (rc, out)))"
| "execute_command Cmd_Timed_Out = Executed FAIL Timed_Out_Detail None"
| "execute_command Cmd_Crashed = Executed FAIL Crash_Detail None"
| "execute_command (Cmd_Interrupted b) = Passed_On b"

section \<open>Steps\<close>

text \<open>A row, an interrupt, or another exception.\<close>

datatype step_end = Step_Row row_outcome detail | Step_Interrupted bool | Step_Raises

definition smoke_step :: "bool \<Rightarrow> string option \<Rightarrow> command_end \<Rightarrow> step_end" where
  "smoke_step wanted skip_reason c =
     (if \<not> wanted then Step_Row SKIPPED Not_Requested
      else case skip_reason of
        Some (x # xs) \<Rightarrow> Step_Row SKIPPED (Skip_Because (x # xs))
      | _ \<Rightarrow> (case execute_command c of Executed oc d p \<Rightarrow> Step_Row oc d | Passed_On b \<Rightarrow> Step_Interrupted b))"

definition LAUNCHD_SKIP_MARK :: string where "LAUNCHD_SKIP_MARK = ''SKIPPED: launchd checks not run: ''"
definition PEERCRED_NO_UID_MARK :: string where "PEERCRED_NO_UID_MARK = ''skipped: needs a second local uid''"
definition PEERCRED_PLATFORM_MARK :: string where "PEERCRED_PLATFORM_MARK = ''skipped: peer-cred smoke needs''"

definition step_stdout :: "(int \<times> string) option \<Rightarrow> string" where
  "step_stdout p = (case p of None \<Rightarrow> [] | Some (rc, out) \<Rightarrow> out)"

definition launchd_step :: "bool \<Rightarrow> skip option \<Rightarrow> command_end \<Rightarrow> step_end" where
  "launchd_step wanted skip c =
     (if \<not> wanted then Step_Row SKIPPED Not_Requested
      else case skip of
        Some r \<Rightarrow> Step_Row SKIPPED (Precondition r)
      | None \<Rightarrow>
          (case execute_command c of
             Passed_On b \<Rightarrow> Step_Interrupted b
           | Executed oc d p \<Rightarrow>
               (let out = step_stdout p; line = takeWhile (\<lambda>c. c \<noteq> LF) (lstrip out); failures = launchd_failures out
                in if oc = PASS \<and> prefix LAUNCHD_SKIP_MARK line
                   then Step_Row SKIPPED (Skip_Because (strip (drop (length LAUNCHD_SKIP_MARK) line)))
                   else if oc = FAIL \<and> failures \<noteq> [] then Step_Row oc (Failed_Checks (fst (the p)) failures)
                   else Step_Row oc d)))"

definition peercred_step :: "command_end \<Rightarrow> step_end" where
  "peercred_step c =
     (case execute_command c of
        Passed_On b \<Rightarrow> Step_Interrupted b
      | Executed oc d p \<Rightarrow>
          if oc = PASS \<and> contains PEERCRED_PLATFORM_MARK (step_stdout p) then Step_Row SKIPPED (Skip_Because PEERCRED_PLATFORM_MARK)
          else if oc = PASS \<and> contains PEERCRED_NO_UID_MARK (step_stdout p) then Step_Row SKIPPED (Skip_Because PEERCRED_NO_UID_MARK)
          else Step_Row oc d)"

section \<open>One installed agent\<close>

record agent_endpoint =
  ae_socket :: string
  ae_host :: string
  ae_port :: string

text \<open>The endpoint and the token, from one read of the plist.\<close>

definition read_endpoint ::
  "plist_world \<Rightarrow> token_world \<Rightarrow> (string \<Rightarrow> bool \<times> path) \<Rightarrow> int \<Rightarrow> not_decoded + agent_endpoint \<times> nat list option" where
  "read_endpoint pw tw parse_path uid =
     (case load_plist pw of
        Inl e \<Rightarrow> Raise (Plist_Unreadable e)
      | Inr data \<Rightarrow>
          if data = [] then Raise Plist_Gone
          else
            let socket = read_field data ''socket-path''; host = read_field data ''host''; raw = read_field data ''port'';
                file = read_field data ''auth-token-file'';
                port = (if read_flags data ''--port'' = None then Some raw else map_option show_int (parse_port raw))
            in case port of
                 None \<Rightarrow> Raise (Port_Unparsable raw)
               | Some p \<Rightarrow>
                   if socket = [] \<and> \<not> (host \<noteq> [] \<and> p \<noteq> []) then Raise No_Endpoint_Given
                   else
                     let ep = \<lparr>ae_socket = socket, ae_host = host, ae_port = p\<rparr>
                     in if file \<noteq> [] then
                          (case parse_path file of (is_abs, fp) \<Rightarrow>
                             (case load_token_file tw (Some uid) is_abs fp of
                                Inl e \<Rightarrow> Raise (Token_Refused e)
                              | Inr (rpath, token) \<Rightarrow> Ok (ep, Some token)))
                        else Ok (ep, if env_token data = [] then None else Some (code_points (env_token data))))"

text \<open>A job that is not loaded never gets here.\<close>

definition job_identity :: "(bool \<times> identity) option \<Rightarrow> not_decoded + string \<times> string" where
  "job_identity state =
     (case state of
        None \<Rightarrow> Raise State_Unreadable
      | Some (loaded, pid, runs) \<Rightarrow>
          if the_pid pid = [] then Raise No_Pid
          else if \<not> runs_readable runs then Raise No_Runs
          else Ok (the_pid pid, the runs))"

definition CLIP_KEYWORD :: string where "CLIP_KEYWORD = ''hello''"

definition decode_args :: "string \<Rightarrow> agent_endpoint \<Rightarrow> string \<Rightarrow> string \<Rightarrow> string \<Rightarrow> string list" where
  "decode_args label ep wav pid runs =
     [''--_decode'', ''--wav'', wav] @
     [''--keyword'', CLIP_KEYWORD, ''--label'', label, ''--pid'', pid, ''--runs'', runs] @
     (if ae_socket ep \<noteq> [] then [''--socket-path'', ae_socket ep] else [''--host'', ae_host ep, ''--port'', ae_port ep])"

text \<open>What \<open>agents_step\<close> reads and runs. \<open>gw_child\<close> is the decode child, from its arguments and stdin.\<close>

record agents_world =
  gw_files :: "string list"
  gw_say :: bool
  gw_clip :: "command_end list"
  gw_wav :: string
  gw_print :: "string \<Rightarrow> run_answer"
  gw_plist :: "string \<Rightarrow> plist_world"
  gw_tokens :: token_world
  gw_parse_path :: "string \<Rightarrow> bool \<times> path"
  gw_uid :: int
  gw_child :: "string \<Rightarrow> string list \<Rightarrow> nat list option \<Rightarrow> command_end"
  gw_after :: "string \<Rightarrow> run_answer"

datatype agent_end = Agent_Row row_outcome | Agent_Interrupted bool

definition token_input :: "nat list option \<Rightarrow> nat list option" where
  "token_input token = (case token of Some (c # cs) \<Rightarrow> Some (c # cs) | _ \<Rightarrow> None)"

definition agent_row :: "agents_world \<Rightarrow> string \<Rightarrow> agent_end" where
  "agent_row w label =
     (let state = launchd_identity (gw_print w label)
      in if state \<noteq> None \<and> \<not> fst (the state) then Agent_Row SKIPPED
         else case read_endpoint (gw_plist w label) (gw_tokens w) (gw_parse_path w) (gw_uid w) of
           Inl e \<Rightarrow> Agent_Row FAIL
         | Inr (ep, token) \<Rightarrow>
             (case job_identity state of
                Inl e \<Rightarrow> Agent_Row FAIL
              | Inr (pid, runs) \<Rightarrow>
                  (case execute_command (gw_child w label (decode_args label ep (gw_wav w) pid runs) (token_input token)) of
                     Passed_On b \<Rightarrow> Agent_Interrupted b
                   | Executed oc d p \<Rightarrow>
                       Agent_Row
                         (if oc = PASS \<and> \<not> confirm_identity_unchanged (launchd_pid_runs (gw_after w label)) (Some pid, Some runs)
                          then FAIL else oc))))"

fun agents_loop :: "agents_world \<Rightarrow> string list \<Rightarrow> bool \<Rightarrow> bool \<Rightarrow> step_end" where
  "agents_loop w [] any_failed any_passed =
     Step_Row (if any_failed then FAIL else if any_passed then PASS else SKIPPED) Agents_Detail"
| "agents_loop w (l # ls) any_failed any_passed =
     (case agent_row w l of
        Agent_Interrupted b \<Rightarrow> Step_Interrupted b
      | Agent_Row oc \<Rightarrow>
          if oc = SKIPPED then agents_loop w ls any_failed any_passed
          else agents_loop w ls (any_failed \<or> oc \<noteq> PASS) (any_passed \<or> oc = PASS))"

text \<open>The commands that make the clip, until one fails.\<close>

fun make_clip :: "command_end list \<Rightarrow> executed" where
  "make_clip [] = Executed PASS No_Detail None"
| "make_clip (c # cs) =
     (case execute_command c of
        Passed_On b \<Rightarrow> Passed_On b
      | Executed oc d p \<Rightarrow> if oc \<noteq> PASS then Executed oc d p else make_clip cs)"

definition label_of_plist :: "string \<Rightarrow> string" where
  "label_of_plist f = take (length f - length PLIST_SUFFIX) f"

definition agents_step :: "bool \<Rightarrow> agents_world \<Rightarrow> step_end" where
  "agents_step wanted w =
     (if \<not> wanted then Step_Row SKIPPED Not_Requested
      else
        let plists = agent_plists (gw_files w)
        in if plists = [] then Step_Row SKIPPED No_Agents
           else if \<not> gw_say w then Step_Row SKIPPED No_Say
           else case make_clip (gw_clip w) of
             Passed_On b \<Rightarrow> Step_Interrupted b
           | Executed oc d p \<Rightarrow>
               if oc \<noteq> PASS then Step_Row FAIL (No_Clip d) else agents_loop w (map label_of_plist plists) False False)"

section \<open>The run\<close>

text \<open>The rows of a run, from what each step would do.\<close>

fun build_and_run :: "(string \<times> step_end) list \<Rightarrow> (string \<times> row_outcome \<times> detail) list" where
  "build_and_run [] = []"
| "build_and_run ((name, e) # steps) =
     (case e of
        Step_Row oc d \<Rightarrow> (name, oc, d) # build_and_run steps
      | Step_Raises \<Rightarrow> (name, FAIL, Crash_Detail) # build_and_run steps
      | Step_Interrupted not_stopped \<Rightarrow>
          (name, FAIL, Interrupt_Detail not_stopped) # map (\<lambda>(n, _). (n, SKIPPED, Not_Run)) steps)"

definition runner_exit :: "(string \<times> row_outcome \<times> detail) list \<Rightarrow> nat" where
  "runner_exit rows = (if list_ex (\<lambda>(n, oc, d). oc = FAIL) rows then 1 else 0)"

definition smoke_steps ::
  "command_end \<Rightarrow> command_end \<Rightarrow> command_end \<Rightarrow> bool \<Rightarrow> agents_world \<Rightarrow> bool \<Rightarrow> skip option \<Rightarrow> command_end \<Rightarrow> (string \<times> step_end) list" where
  "smoke_steps supervised peercred token_file agents w launchd skip harness =
     [(''supervised'', smoke_step True None supervised),
      (''peercred'', peercred_step peercred),
      (''token-file'', smoke_step True None token_file),
      (''agents'', agents_step agents w),
      (''launchd'', launchd_step launchd skip harness)]"

section \<open>The decode child\<close>

definition decode_parser :: arg_parser where
  "decode_parser = \<lparr>ap_abbrev = True,
     ap_options = help_option @
       [(''--_decode'', Store_True), (''--wav'', Store), (''--keyword'', Store), (''--label'', Store), (''--pid'', Store),
        (''--runs'', Store), (''--socket-path'', Store), (''--host'', Store), (''--port'', Store)],
     ap_required = [''--wav'', ''--keyword'', ''--label'', ''--pid'', ''--runs'']\<rparr>"

text \<open>The names a compiled function uses, the globals its own body looks up, and the functions nested in it.\<close>

datatype code_object = Code "string list" "string list" "code_object list"

fun code_names :: "code_object \<Rightarrow> string list" where
  "code_names (Code names globals nested) = names @ concat (map code_names nested)"

definition CONNECT_NAMES :: "string list" where
  "CONNECT_NAMES =
     [''_auth_token'', ''_uri'', ''ws_connect'', ''P'', ''MAX_APPEND_BYTES'', ''_ws'', ''_socket_path'', ''ws_unix_connect'',
      ''format_host_for_uri'', ''_host'', ''_port'', ''_recv_json'', ''get'', ''EVT_SERVER_HELLO'', ''RuntimeError'', ''EVT_SESSION_CREATED'']"

datatype swap_problem = Other_Globals | New_Names "string list" | No_Global_Lookup

text \<open>\<open>None\<close>: the function has no code, or it runs in another module's globals.\<close>

definition connect_swap_problem :: "code_object option \<Rightarrow> swap_problem option" where
  "connect_swap_problem co =
     (case co of
        None \<Rightarrow> Some Other_Globals
      | Some (Code names globals nested) \<Rightarrow>
          (let new = sort (remdups (filter (\<lambda>n. n \<notin> set CONNECT_NAMES) (code_names (Code names globals nested))))
           in if new \<noteq> [] then Some (New_Names new)
              else if ''ws_connect'' \<notin> set globals then Some No_Global_Lookup
              else None))"

text \<open>What the child finds: whether the server's package imports, the client's code, the audio (\<open>None\<close>: the clip cannot be
  opened or read), its connection, \<open>launchctl print\<close>, and what the server sends; whether it is done in time.\<close>

record child_world =
  cw_imports :: bool
  cw_code :: "code_object option"
  cw_audio :: "byte list option"
  cw_dial :: dial
  cw_now :: run_answer
  cw_frames :: "frame list"
  cw_in_time :: bool

text \<open>What it does to the socket, the token it authorizes with, and the messages it sends.\<close>

datatype child_op = On_Sock sock_op | Authorize "nat list option" | Say client_message

definition DECODE_REFUSED :: int where "DECODE_REFUSED = 3"

function chunks_of :: "byte list \<Rightarrow> byte list list" where
  "chunks_of pcm = (if pcm = [] then [] else take 3200 pcm # chunks_of (drop 3200 pcm))"
  by pat_completeness auto
termination
  by (relation "measure length") auto

declare chunks_of.simps [simp del]

text \<open>The transcript of the first completed event; \<open>None\<close>: the loop raised.\<close>

fun completed_text :: "json list \<Rightarrow> client_error option \<Rightarrow> json option" where
  "completed_text [] None = Some (JStr [])"
| "completed_text [] (Some e) = None"
| "completed_text (ev # evs) e =
     (case get_member ''type'' ev of
        None \<Rightarrow> None
      | Some t \<Rightarrow> if t = JStr EVT_TRANSCRIPT_COMPLETED then jget_default ''transcript'' (JStr []) ev else completed_text evs e)"

definition converse :: "child_world \<Rightarrow> byte list \<Rightarrow> child_op list \<times> json option" where
  "converse cw pcm =
     (case connect (cw_frames cw) of
        (Inl e, gs) \<Rightarrow> ([], None)
      | (Inr hello, gs) \<Rightarrow>
          (Say (Send_Json (update_session None None)) # map (\<lambda>c. Say (Send_Audio c)) (chunks_of pcm) @ [Say (Send_Json commit)],
           case events gs of (evs, e) \<Rightarrow> completed_text evs e))"

definition keyword_verdict :: "string \<Rightarrow> bool \<Rightarrow> json option \<Rightarrow> int" where
  "keyword_verdict keyword in_time t =
     (if \<not> in_time then 1
      else case t of Some (JStr tx) \<Rightarrow> if contains (lower keyword) (lower tx) then 0 else 1 | _ \<Rightarrow> 1)"

definition arg_text :: "namespace \<Rightarrow> string \<Rightarrow> string" where
  "arg_text ns k = (case ns k of Some (A_Str v) \<Rightarrow> v | _ \<Rightarrow> [])"

definition child_endpoint :: "namespace \<Rightarrow> endpoint_addr" where
  "child_endpoint ns =
     (if arg_text ns ''--socket-path'' \<noteq> [] then Unix_At (arg_text ns ''--socket-path'')
      else Tcp_At (arg_text ns ''--host'') (arg_text ns ''--port''))"

text \<open>\<open>None\<close>: the connection's other end is never settled. An exception that nothing catches ends the child with status
  1: a failed import, a clip that cannot be read, a port that is no number.\<close>

definition UNCAUGHT :: int where "UNCAUGHT = 1"

definition decode_child :: "child_world \<Rightarrow> namespace \<Rightarrow> nat list \<Rightarrow> (child_op list \<times> int) option" where
  "decode_child cw ns stdin =
     (if \<not> cw_imports cw then Some ([], UNCAUGHT)
      else
        let token = (if strip_cp stdin = [] then None else Some (strip_cp stdin))
        in if connect_swap_problem (cw_code cw) \<noteq> None then Some ([], DECODE_REFUSED)
           else case cw_audio cw of
             None \<Rightarrow> Some ([], UNCAUGHT)
           | Some pcm \<Rightarrow>
               (case connect_verified (cw_dial cw) (child_endpoint ns)
                   (Some (arg_text ns ''--pid''), Some (arg_text ns ''--runs'')) (launchd_pid_runs (cw_now cw)) of
                  None \<Rightarrow> None
                | Some (ops, Inl e) \<Rightarrow> Some (map On_Sock ops, if endpoint_refused e then DECODE_REFUSED else UNCAUGHT)
                | Some (ops, Inr _) \<Rightarrow>
                    (case converse cw pcm of
                       (said, t) \<Rightarrow>
                         Some (map On_Sock ops @ Authorize token # said,
                           keyword_verdict (arg_text ns ''--keyword'') (cw_in_time cw) t))))"

text \<open>\<open>main\<close> for the child's arguments; a usage error is status 2.\<close>

definition decode_main :: "child_world \<Rightarrow> string list \<Rightarrow> nat list \<Rightarrow> (child_op list \<times> int) option" where
  "decode_main cw args stdin =
     (case parse_args decode_parser args Map.empty of
        None \<Rightarrow> Some ([], 2)
      | Some ns \<Rightarrow> decode_child cw ns stdin)"

section \<open>The child's arguments\<close>

definition args_given :: "string \<Rightarrow> agent_endpoint \<Rightarrow> string \<Rightarrow> string \<Rightarrow> string \<Rightarrow> namespace" where
  "args_given label ep wav pid runs =
     (let ns = [''--_decode'' \<mapsto> A_True, ''--wav'' \<mapsto> A_Str wav, ''--keyword'' \<mapsto> A_Str CLIP_KEYWORD, ''--label'' \<mapsto> A_Str label,
          ''--pid'' \<mapsto> A_Str pid, ''--runs'' \<mapsto> A_Str runs]
      in if ae_socket ep \<noteq> [] then ns(''--socket-path'' \<mapsto> A_Str (ae_socket ep))
         else ns(''--host'' \<mapsto> A_Str (ae_host ep), ''--port'' \<mapsto> A_Str (ae_port ep)))"

definition arg_values :: "string \<Rightarrow> agent_endpoint \<Rightarrow> string \<Rightarrow> string \<Rightarrow> string \<Rightarrow> string list" where
  "arg_values label ep wav pid runs =
     [wav, label, pid, runs] @ (if ae_socket ep \<noteq> [] then [ae_socket ep] else [ae_host ep, ae_port ep])"

lemma find_decode:
  "find_option decode_parser ''--_decode'' = Some (''--_decode'', Store_True, None)"
  "find_option decode_parser ''--wav'' = Some (''--wav'', Store, None)"
  "find_option decode_parser ''--keyword'' = Some (''--keyword'', Store, None)"
  "find_option decode_parser ''--label'' = Some (''--label'', Store, None)"
  "find_option decode_parser ''--pid'' = Some (''--pid'', Store, None)"
  "find_option decode_parser ''--runs'' = Some (''--runs'', Store, None)"
  "find_option decode_parser ''--socket-path'' = Some (''--socket-path'', Store, None)"
  "find_option decode_parser ''--host'' = Some (''--host'', Store, None)"
  "find_option decode_parser ''--port'' = Some (''--port'', Store, None)"
  by (simp_all add: find_option_def decode_parser_def help_option_def)

lemma decode_args_parsed:
  "parse_args decode_parser (decode_args label ep wav pid runs) Map.empty =
     (if list_all (is_value decode_parser) (arg_values label ep wav pid runs)
      then Some (args_given label ep wav pid runs) else None)"
proof -
  have r: "ap_required decode_parser = [''--wav'', ''--keyword'', ''--label'', ''--pid'', ''--runs'']"
    by (simp add: decode_parser_def)
  have k: "is_value decode_parser CLIP_KEYWORD" by (simp add: is_value_def CLIP_KEYWORD_def)
  show ?thesis
    by (cases "ae_socket ep = []") (simp_all add: decode_args_def arg_values_def args_given_def find_decode r k Let_def)
qed

text \<open>Every value without a leading dash, or empty, is taken.\<close>

lemma plain_value: "v = [] \<or> hd v \<noteq> CHR ''-'' \<Longrightarrow> is_value decode_parser v"
  by (auto simp: is_value_def)

definition endpoint_addr_of :: "agent_endpoint \<Rightarrow> endpoint_addr" where
  "endpoint_addr_of ep = (if ae_socket ep \<noteq> [] then Unix_At (ae_socket ep) else Tcp_At (ae_host ep) (ae_port ep))"

lemma child_given:
  "child_endpoint (args_given label ep wav pid runs) = endpoint_addr_of ep"
  "arg_text (args_given label ep wav pid runs) ''--pid'' = pid"
  "arg_text (args_given label ep wav pid runs) ''--runs'' = runs"
  "arg_text (args_given label ep wav pid runs) ''--keyword'' = CLIP_KEYWORD"
  by (simp_all add: child_endpoint_def args_given_def arg_text_def endpoint_addr_of_def Let_def)

section \<open>What the child sends\<close>









section \<open>The token is handed through unchanged\<close>

lemma space_code: "space_cp (of_char c) \<longleftrightarrow> is_space c"
proof -
  define n where "n = (of_char c :: nat)"
  have "n < 256" unfolding n_def by (rule of_char_bound)
  then show ?thesis unfolding space_cp_def is_space_def Let_def n_def [symmetric] by auto
qed

lemma strip_code_points: "strip_cp (code_points s) = code_points (strip s)"
  by (simp add: strip_cp_def code_points_def strip_def lstrip_def dropWhile_map comp_def space_code rev_map)

lemma strip_ends: "strip s \<noteq> [] \<Longrightarrow> \<not> is_space (hd (strip s)) \<and> \<not> is_space (last (strip s))"
proof
  assume n: "strip s \<noteq> []"
  define l where "l = lstrip s"
  have e: "strip s = rev (dropWhile is_space (rev l))" by (simp add: strip_def lstrip_def l_def)
  have "dropWhile is_space (rev l) \<noteq> []" using n e by simp
  then have "\<not> is_space (hd (dropWhile is_space (rev l)))" by (rule hd_dropWhile)
  then show "\<not> is_space (last (strip s))" unfolding e by (simp add: last_rev)
  obtain w where w: "rev l = w @ dropWhile is_space (rev l)" using takeWhile_dropWhile_id by metis
  have "l = rev (w @ dropWhile is_space (rev l))" unfolding w [symmetric] by simp
  then have "l = strip s @ rev w" by (simp add: e)
  then have "hd (strip s) = hd l" "l \<noteq> []" using n by (metis hd_append2, auto)
  then show "\<not> is_space (hd (strip s))" using hd_dropWhile [of is_space s] by (simp add: l_def lstrip_def)
qed

lemma strip_strip: "strip (strip s) = strip s"
proof (cases "strip s = []")
  case True
  show ?thesis unfolding True by (simp add: strip_def lstrip_def)
next
  case False
  then show ?thesis using strip_solid strip_ends by blast
qed

lemma first_token_stripped: "strip (first_token data ks) = first_token data ks"
proof (induction ks)
  case Nil
  show ?case by (simp add: strip_def lstrip_def)
next
  case (Cons k ks)
  show ?case using Cons by (auto simp: strip_strip split: option.splits plist_value.splits)
qed

lemma visible_unstripped: "check_token_chars t \<Longrightarrow> strip_cp t = t"
proof -
  assume "check_token_chars t"
  then have "\<forall>n \<in> set t. \<not> space_cp n" by (auto simp: check_token_chars_def list_all_iff space_cp_def)
  then have "\<forall>n \<in> set (rev t). \<not> space_cp n" "\<forall>n \<in> set t. \<not> space_cp n" by simp_all
  then have "dropWhile space_cp t = t" "dropWhile space_cp (rev t) = rev t"
    using hd_in_set by (metis dropWhile_eq_self_iff)+
  then show ?thesis by (simp add: strip_cp_def)
qed

text \<open>The token a child authorizes with, from what it reads on stdin.\<close>

definition child_token :: "nat list option \<Rightarrow> nat list option" where
  "child_token stdin =
     (let t = strip_cp (case stdin of None \<Rightarrow> [] | Some u \<Rightarrow> u) in if t = [] then None else Some t)"

lemma endpoint_token:
  assumes "read_endpoint pw tw pp uid = Ok (ep, token)"
  shows "child_token (token_input token) = token"
proof -
  obtain data where d: "load_plist pw = Ok data" using assms by (auto simp: read_endpoint_def split: sum.splits)
  define tf where "tf = read_field data ''auth-token-file''"
  show ?thesis
  proof (cases "tf = []")
    case True
    then have "token = (if env_token data = [] then None else Some (code_points (env_token data)))"
      using assms d by (auto simp: read_endpoint_def Let_def tf_def split: if_splits option.splits)
    moreover have "strip (env_token data) = env_token data" by (simp add: env_token_def first_token_stripped)
    ultimately show ?thesis
      using strip_code_points [of "env_token data"]
      by (cases "env_token data") (auto simp: child_token_def token_input_def strip_cp_def code_points_def)
  next
    case False
    then obtain rp t a fp where t: "token = Some t" "load_token_file tw (Some uid) a fp = Ok (rp, t)"
      using assms d by (auto simp: read_endpoint_def Let_def tf_def split: if_splits option.splits sum.splits prod.splits)
    have "check_token_chars t \<and> t \<noteq> []"
      using t(2) by (auto simp: load_token_file_def bind_result_Ok_iff strict_token_def split: if_splits sum.splits option.splits)
    then show ?thesis using t(1) visible_unstripped [of t]
      by (cases t) (auto simp: child_token_def token_input_def)
  qed
qed

section \<open>Properties\<close>


lemma decode_main_zero:
  assumes "decode_main cw (decode_args label ep wav pid runs) (case token_input token of None \<Rightarrow> [] | Some t \<Rightarrow> t) = Some (ops, 0)"
  shows "connect_swap_problem (cw_code cw) = None \<and>
    server_end (cw_dial cw) (endpoint_addr_of ep) = Some (Some [pid]) \<and>
    launchd_pid_runs (cw_now cw) = Some (Some pid, Some runs) \<and>
    (\<exists>pcm said tx. cw_audio cw = Some pcm \<and> converse cw pcm = (said, Some (JStr tx)) \<and> ops = On_Sock Sock_Open # Authorize (child_token (token_input token)) # said \<and>
       contains ''hello'' (lower tx))"
proof -
  have v: "list_all (is_value decode_parser) (arg_values label ep wav pid runs)"
    using assms by (auto simp: decode_main_def decode_args_parsed split: if_splits)
  let ?ns = "args_given label ep wav pid runs" and ?in = "case token_input token of None \<Rightarrow> [] | Some t \<Rightarrow> t"
  let ?i = "(Some pid, Some runs)"
  have c: "decode_child cw ?ns ?in = Some (ops, 0)" using assms v by (simp add: decode_main_def decode_args_parsed)
  have "cw_imports cw \<and> connect_swap_problem (cw_code cw) = None \<and> cw_audio cw \<noteq> None"
    using c by (cases "cw_audio cw") (auto simp: decode_child_def Let_def DECODE_REFUSED_def UNCAUGHT_def split: if_splits)
  then obtain pcm where s: "cw_imports cw" "connect_swap_problem (cw_code cw) = None" "cw_audio cw = Some pcm" by auto
  obtain os r where o: "connect_verified (cw_dial cw) (endpoint_addr_of ep) ?i (launchd_pid_runs (cw_now cw)) = Some (os, r)"
    using c s by (auto simp: decode_child_def Let_def child_given split: option.splits)
  obtain u where u: "r = Ok u" using c s o by (cases r) (auto simp: decode_child_def Let_def child_given DECODE_REFUSED_def UNCAUGHT_def split: if_splits)
  obtain said t where w: "converse cw pcm = (said, t)" by (cases "converse cw pcm")
  have k: "ops = map On_Sock os @ Authorize (child_token (token_input token)) # said"
    "keyword_verdict CLIP_KEYWORD (cw_in_time cw) t = 0"
    using c s o u w by (auto simp: decode_child_def Let_def child_given child_token_def)
  have l: "lower CLIP_KEYWORD = ''hello''" by code_simp
  obtain tx where "t = Some (JStr tx)" "contains ''hello'' (lower tx)"
    using k(2) unfolding keyword_verdict_def l by (auto split: if_splits option.splits json.splits)
  then show ?thesis using o u k(1) s w by (simp add: connect_verified_Ok the_pid_def)
qed

text \<open>An exit with status 0 is one of the child program.\<close>

definition runs_child :: "agents_world \<Rightarrow> (string \<Rightarrow> child_world) \<Rightarrow> bool" where
  "runs_child w cw \<longleftrightarrow> (\<forall>l args stdin out err. gw_child w l args stdin = Cmd_Exited 0 out err \<longrightarrow>
     (\<exists>ops. decode_main (cw l) args (case stdin of None \<Rightarrow> [] | Some t \<Rightarrow> t) = Some (ops, 0)))"

definition decoded_for_real :: "agents_world \<Rightarrow> child_world \<Rightarrow> string \<Rightarrow> bool" where
  "decoded_for_real w cw l \<longleftrightarrow> (\<exists>ep token pid runs pcm said tx.
     read_endpoint (gw_plist w l) (gw_tokens w) (gw_parse_path w) (gw_uid w) = Ok (ep, token) \<and>
     launchd_pid_runs (gw_print w l) = Some (Some pid, Some runs) \<and>
     launchd_pid_runs (cw_now cw) = Some (Some pid, Some runs) \<and>
     launchd_pid_runs (gw_after w l) = Some (Some pid, Some runs) \<and>
     server_end (cw_dial cw) (endpoint_addr_of ep) = Some (Some [pid]) \<and>
     decode_main cw (decode_args l ep (gw_wav w) pid runs) (case token_input token of None \<Rightarrow> [] | Some t \<Rightarrow> t) =
       Some (On_Sock Sock_Open # Authorize token # said, 0) \<and>
     cw_audio cw = Some pcm \<and> converse cw pcm = (said, Some (JStr tx)) \<and> contains ''hello'' (lower tx))"

definition not_loaded :: "agents_world \<Rightarrow> string \<Rightarrow> bool" where
  "not_loaded w l \<longleftrightarrow> (\<exists>i. launchd_identity (gw_print w l) = Some (False, i))"

lemma agent_row_skipped: "agent_row w l = Agent_Row SKIPPED \<Longrightarrow> not_loaded w l"
proof (rule ccontr)
  assume a: "agent_row w l = Agent_Row SKIPPED" "\<not> not_loaded w l"
  have n: "\<not> (launchd_identity (gw_print w l) \<noteq> None \<and> \<not> fst (the (launchd_identity (gw_print w l))))"
    using a(2) unfolding not_loaded_def by (metis option.collapse prod.collapse)
  have "execute_command c \<noteq> Executed SKIPPED d p" for c d p by (cases c) auto
  then show False using a(1) unfolding agent_row_def Let_def if_not_P [OF n]
    by (auto split: sum.splits prod.splits executed.splits if_splits)
qed

lemma agent_row_pass:
  assumes "agent_row w l = Agent_Row PASS" "runs_child w cw"
  shows "decoded_for_real w (cw l) l"
proof -
  have n: "\<not> (launchd_identity (gw_print w l) \<noteq> None \<and> \<not> fst (the (launchd_identity (gw_print w l))))"
    using assms(1) by (auto simp: agent_row_def)
  note row = assms(1) [unfolded agent_row_def Let_def if_not_P [OF n]]
  obtain ep token where e: "read_endpoint (gw_plist w l) (gw_tokens w) (gw_parse_path w) (gw_uid w) = Ok (ep, token)"
    using row by (auto split: sum.splits)
  obtain pid runs where j: "job_identity (launchd_identity (gw_print w l)) = Ok (pid, runs)"
    using row e by (auto split: sum.splits)
  obtain i where i: "launchd_identity (gw_print w l) = Some (True, i)" "i = (Some pid, Some runs)"
    using j n unfolding job_identity_def
    by (cases "launchd_identity (gw_print w l)") (auto simp: the_pid_def runs_readable_def split: if_splits option.splits)
  let ?args = "decode_args l ep (gw_wav w) pid runs"
  obtain out err where c: "gw_child w l ?args (token_input token) = Cmd_Exited 0 out err"
    "confirm_identity_unchanged (launchd_pid_runs (gw_after w l)) (Some pid, Some runs)"
    using row e j by (cases "gw_child w l ?args (token_input token)") (auto split: if_splits)
  obtain ops where m: "decode_main (cw l) ?args (case token_input token of None \<Rightarrow> [] | Some t \<Rightarrow> t) = Some (ops, 0)"
    using assms(2) c(1) unfolding runs_child_def by blast
  have t: "child_token (token_input token) = token" by (rule endpoint_token [OF e])
  obtain pcm said tx where d: "server_end (cw_dial (cw l)) (endpoint_addr_of ep) = Some (Some [pid])"
    "launchd_pid_runs (cw_now (cw l)) = Some (Some pid, Some runs)" "cw_audio (cw l) = Some pcm" "converse (cw l) pcm = (said, Some (JStr tx))"
    "ops = On_Sock Sock_Open # Authorize token # said" "contains ''hello'' (lower tx)"
    using decode_main_zero [OF m] unfolding t by blast
  have "launchd_pid_runs (gw_print w l) = Some (Some pid, Some runs)" using i by (simp add: launchd_pid_runs_def)
  moreover have "launchd_pid_runs (gw_after w l) = Some (Some pid, Some runs)"
    using c(2) by (simp add: confirm_identity_unchanged_def)
  ultimately show ?thesis unfolding decoded_for_real_def using e d m by blast
qed

lemma agents_loop_pass:
  assumes "agents_loop w ls any_failed any_passed = Step_Row PASS d" "runs_child w cw"
  shows "\<not> any_failed \<and> (\<forall>l \<in> set ls. not_loaded w l \<or> decoded_for_real w (cw l) l) \<and>
    (any_passed \<or> (\<exists>l \<in> set ls. decoded_for_real w (cw l) l))"
  using assms(1)
proof (induction ls arbitrary: any_failed any_passed)
  case Nil
  then show ?case by (simp split: if_splits)
next
  case (Cons l ls)
  obtain oc where r: "agent_row w l = Agent_Row oc" using Cons.prems by (cases "agent_row w l") auto
  show ?case
  proof (cases oc)
    case SKIPPED
    then have "agents_loop w ls any_failed any_passed = Step_Row PASS d" using Cons.prems r by simp
    from Cons.IH [OF this] show ?thesis using agent_row_skipped r SKIPPED by auto
  next
    case PASS
    then have "agents_loop w ls any_failed True = Step_Row PASS d" using Cons.prems r by simp
    from Cons.IH [OF this] show ?thesis using agent_row_pass [OF _ assms(2), of l] r PASS by auto
  next
    case FAIL
    then have "agents_loop w ls True any_passed = Step_Row PASS d" using Cons.prems r by simp
    from Cons.IH [OF this] show ?thesis by simp
  qed
qed

text \<open>C38: what a PASS of the agents step means: every installed agent is either not loaded or was decoded through, and at
  least one was decoded through: its endpoint and token come from one read of its plist; the job had the same pid
  and \<open>runs\<close> before the child started, when the connection was checked and after the decode; the process at the other
  end of the connection was that job's; that very token, unchanged, was the first thing said on it; and the text it
  sent back holds the key word.\<close>

theorem agents_pass_is_real:
  assumes "agents_step True w = Step_Row PASS d" "runs_child w cw"
  shows "(\<forall>f \<in> set (agent_plists (gw_files w)).
      not_loaded w (label_of_plist f) \<or> decoded_for_real w (cw (label_of_plist f)) (label_of_plist f)) \<and>
    (\<exists>f \<in> set (agent_plists (gw_files w)). decoded_for_real w (cw (label_of_plist f)) (label_of_plist f))"
proof -
  have "agents_loop w (map label_of_plist (agent_plists (gw_files w))) False False = Step_Row PASS d"
    using assms(1) by (auto simp: agents_step_def Let_def split: if_splits executed.splits)
  from agents_loop_pass [OF this assms(2)] show ?thesis by simp
qed

lemma rows_names: "map fst (build_and_run steps) = map fst steps"
  by (induction steps rule: build_and_run.induct) (auto split: step_end.splits)

text \<open>The run's table and status: however the steps end, the table has one row for each, in order; and the status is 0
  exactly when every step ended with a row of its own that is no failure, so a crash or an interrupt (after which
  nothing runs) is never a success.\<close>

theorem runner_exit_iff:
  "map fst (build_and_run steps) = map fst steps \<and>
   (runner_exit (build_and_run steps) = 0 \<longleftrightarrow> (\<forall>(n, e) \<in> set steps. \<exists>oc d. e = Step_Row oc d \<and> oc \<noteq> FAIL)) \<and>
   runner_exit (build_and_run steps) \<le> 1"
proof -
  have "list_ex (\<lambda>(n, oc, d). oc = FAIL) (build_and_run steps) \<longleftrightarrow> \<not> (\<forall>(n, e) \<in> set steps. \<exists>oc d. e = Step_Row oc d \<and> oc \<noteq> FAIL)"
    by (induction steps rule: build_and_run.induct) (auto split: step_end.splits)
  then show ?thesis by (auto simp: runner_exit_def rows_names)
qed

text \<open>The harness's failing checks reach the table: whatever it prints before its failure lines, the runner's row is a
  failure that names exactly them.\<close>

lemma launchd_row_names_failures:
  assumes "\<forall>r \<in> set rows. unbroken (fst r)" "\<forall>l \<in> set other. unbroken l \<and> \<not> prefix LAUNCHD_FAIL_MARK l"
    and "\<exists>r \<in> set rows. fst (snd r) = FAIL" "rc \<noteq> 0"
  shows "launchd_step True None (Cmd_Exited rc (printed (other @ launchd_fail_lines rows)) err) =
    Step_Row FAIL (Failed_Checks rc (map failure_text (filter (\<lambda>(_, oc, _). oc = FAIL) rows)))"
proof -
  have "filter (\<lambda>(_, oc, _). oc = FAIL) rows \<noteq> []" using assms(3) by (force simp: filter_empty_conv)
  then show ?thesis using failures_round_trip [OF assms(1,2)] assms(4) by (simp add: launchd_step_def step_stdout_def)
qed

section \<open>A sample run\<close>

definition sample_child :: child_world where
  "sample_child = \<lparr>cw_imports = True, cw_code = Some (Code [''ws_connect''] [''ws_connect''] []), cw_audio = Some [], cw_dial = sample_dial, cw_now = sample_print,
     cw_frames = sample_frames ''mlx'' ''Hello.'', cw_in_time = True\<rparr>"

definition sample_agent_plist :: plist where
  "sample_agent_plist = [(''ProgramArguments'', P_List [P_Str ''p'', P_Str ''--socket-path'', P_Str ''/s''])]"

definition sample_plist_world :: plist_world where
  "sample_plist_world = \<lparr>pw_open = Ok (), pw_regular = Ok True, pw_reads = [Ok []], pw_parse = (\<lambda>raw. Ok (P_Dict sample_agent_plist))\<rparr>"

definition sample_agents :: agents_world where
  "sample_agents = \<lparr>gw_files = [''pipecat.stt-server.plist''], gw_say = True, gw_clip = [Cmd_Exited 0 [] [], Cmd_Exited 0 [] []],
     gw_wav = ''/c'', gw_print = (\<lambda>l. sample_print), gw_plist = (\<lambda>l. sample_plist_world), gw_tokens = sample_tokens,
     gw_parse_path = (\<lambda>p. (True, [p])), gw_uid = 7,
     gw_child = (\<lambda>l args stdin.
       case decode_main sample_child args (case stdin of None \<Rightarrow> [] | Some t \<Rightarrow> t) of
         None \<Rightarrow> Cmd_Timed_Out | Some (ops, rc) \<Rightarrow> Cmd_Exited rc [] []),
     gw_after = (\<lambda>l. sample_print)\<rparr>"

lemma sample_runs_child: "runs_child sample_agents (\<lambda>l. sample_child)"
  by (auto simp: runs_child_def sample_agents_def split: option.splits)

lemma sample_endpoint_read:
  "read_endpoint sample_plist_world tw pp uid = Ok (\<lparr>ae_socket = ''/s'', ae_host = [], ae_port = []\<rparr>, None)"
proof -
  have l: "load_plist sample_plist_world = Ok sample_agent_plist"
    by (simp add: load_plist_def read_bytes_def sample_plist_world_def loads_plist_def wrong_kind_def arguments_of_def sample_agent_plist_def)
  have a: "program_arguments sample_agent_plist = [''p'', ''--socket-path'', ''/s'']"
    by (simp add: program_arguments_def arguments_of_def sample_agent_plist_def)
  have f: "read_flags sample_agent_plist = [''--socket-path'' \<mapsto> ''/s'']"
    by (simp add: read_flags_def a SERVE_FLAGS_def SWITCHES_def partition_at_def)
  have t: "env_token sample_agent_plist = []"
    by (simp add: env_token_def ENV_TOKENS_def env_variable_def sample_agent_plist_def)
  have n: "sample_agent_plist \<noteq> []" by (simp add: sample_agent_plist_def)
  show ?thesis using n by (simp add: read_endpoint_def l read_field_def f t Let_def)
qed

lemma sample_converse: "\<exists>said. converse sample_child [] = (said, Some (JStr ''Hello.''))"
proof -
  obtain fs where "connect (sample_frames ''mlx'' ''Hello.'') =
      (Ok (JObj [(''type'', JStr EVT_SERVER_HELLO), (''backend'', JObj [(''name'', JStr ''mlx'')])]), fs)"
    "events fs = ([JObj [(''type'', JStr EVT_TRANSCRIPT_COMPLETED), (''transcript'', JStr ''Hello.'')]], None)"
    using sample_connect by blast
  then show ?thesis by (simp add: converse_def sample_child_def jget_or_def jget_Cons jget_default_def)
qed

lemma sample_swap: "connect_swap_problem (cw_code sample_child) = None"
  by (simp add: connect_swap_problem_def sample_child_def CONNECT_NAMES_def)

lemma sample_decoded:
  "\<exists>ops. decode_main sample_child (decode_args l \<lparr>ae_socket = ''/s'', ae_host = [], ae_port = []\<rparr> ''/c'' ''12'' ''3'') stdin =
     Some (ops, if is_value decode_parser l then 0 else 2) \<and> (is_value decode_parser l \<longrightarrow> Authorize (child_token (Some stdin)) \<in> set ops)"
proof -
  let ?ep = "\<lparr>ae_socket = ''/s'', ae_host = [], ae_port = []\<rparr>"
  have v: "is_value decode_parser ''/s''" "is_value decode_parser ''/c''" "is_value decode_parser ''12''" "is_value decode_parser ''3''"
    by (simp_all add: is_value_def)
  have e: "endpoint_addr_of ?ep = Unix_At ''/s''" by (simp add: endpoint_addr_of_def)
  have c: "connect_verified (cw_dial sample_child) (Unix_At ''/s'') (Some ''12'', Some ''3'') (launchd_pid_runs (cw_now sample_child)) =
      Some ([Sock_Open], Ok ())"
    using sample_connected by (simp add: sample_child_def)
  have k: "keyword_verdict CLIP_KEYWORD True (Some (JStr ''Hello.'')) = 0" by code_simp
  obtain said where s: "converse sample_child [] = (said, Some (JStr ''Hello.''))" using sample_converse by blast
  have "cw_in_time sample_child" "cw_imports sample_child" "cw_audio sample_child = Some []" by (simp_all add: sample_child_def)
  then have "decode_child sample_child (args_given l ?ep ''/c'' ''12'' ''3'') stdin =
      Some (On_Sock Sock_Open # Authorize (child_token (Some stdin)) # said, 0)"
    using c s k by (simp add: decode_child_def sample_swap child_given e child_token_def Let_def)
  then show ?thesis using v by (simp add: decode_main_def decode_args_parsed arg_values_def)
qed


lemma sample_agents_pass: "agents_step True sample_agents = Step_Row PASS Agents_Detail"
proof -
  have p: "agent_plists (gw_files sample_agents) = [''pipecat.stt-server.plist'']"
    by (simp add: agent_plists_def sample_agents_def AGENT_PREFIX_def PLIST_SUFFIX_def SPARE_LABEL_def suffix_def)
  have l: "label_of_plist ''pipecat.stt-server.plist'' = ''pipecat.stt-server''"
    by (simp add: label_of_plist_def PLIST_SUFFIX_def)
  have i: "launchd_identity sample_print = Some (True, Some ''12'', Some ''3'')"
    by (simp add: launchd_identity_def sample_print_read)
  have j: "job_identity (Some (True, Some ''12'', Some ''3'')) = Ok (''12'', ''3'')"
    by (simp add: job_identity_def the_pid_def runs_readable_def UNKNOWN_def)
  have v: "is_value decode_parser ''pipecat.stt-server''" by (simp add: is_value_def)
  obtain ops where d: "decode_main sample_child
      (decode_args ''pipecat.stt-server'' \<lparr>ae_socket = ''/s'', ae_host = [], ae_port = []\<rparr> ''/c'' ''12'' ''3'') [] = Some (ops, 0)"
    using sample_decoded [of "''pipecat.stt-server''" "[]"] v by auto
  have u: "confirm_identity_unchanged (launchd_pid_runs sample_print) (Some ''12'', Some ''3'')"
    by (simp add: confirm_identity_unchanged_def readable_identity_def the_pid_def runs_readable_def UNKNOWN_def sample_identity)
  have r: "agent_row sample_agents ''pipecat.stt-server'' = Agent_Row PASS"
    unfolding agent_row_def Let_def by (simp add: sample_agents_def i sample_endpoint_read j token_input_def d u)
  have c: "make_clip (gw_clip sample_agents) = Executed PASS No_Detail None" "gw_say sample_agents"
    by (simp_all add: sample_agents_def)
  show ?thesis by (simp add: agents_step_def p l r c)
qed

theorem agents_pass_is_real_witness: "decoded_for_real sample_agents sample_child ''pipecat.stt-server''"
proof -
  have p: "agent_plists (gw_files sample_agents) = [''pipecat.stt-server.plist'']"
    by (simp add: agent_plists_def sample_agents_def AGENT_PREFIX_def PLIST_SUFFIX_def SPARE_LABEL_def suffix_def)
  have l: "label_of_plist ''pipecat.stt-server.plist'' = ''pipecat.stt-server''"
    by (simp add: label_of_plist_def PLIST_SUFFIX_def)
  show ?thesis using agents_pass_is_real [OF sample_agents_pass sample_runs_child] p l by simp
qed

theorem runner_exit_iff_witness:
  "runner_exit (build_and_run [(''a'', Step_Interrupted True), (''b'', Step_Row PASS No_Detail)]) \<noteq> 0"
  using runner_exit_iff [of "[(''a'', Step_Interrupted True), (''b'', Step_Row PASS No_Detail)]"] by auto

end
