(* ===== verification/Spec2Isabelle.thy ===== *)
theory Spec2Isabelle
  imports Prelude Json Base64 Protocol Env Text_Quality Files Socket_Lock Auth Admission Session Session_Turns
    Lifecycle Lifecycle_Inv Lifecycle_Steps Lifecycle_Props
    Json_Text Supervise Decode_Guard Backends Backend_Models Prefetch
    Serve Client Wire_Types Cli_Args Plist Cli Squat_Check Verified_Connect Owned_Group
    Agent_Snapshot Launchd_Harness Render_Plist Launchd_Teardown Launchd_Checks Asr_Benchmark Smoke_Runner
begin

text \<open>
  The local speech-to-text server (\<open>src/stt_server\<close>, Python): a WebSocket server that one client library and
  one launch agent talk to, with interchangeable transcription backends. This library is a shallow embedding of
  it: each function of the program is a function here, state is passed explicitly, exceptions are values,
  \<open>asyncio\<close> tasks, timers and signals are events of step relations.

  \<^bold>\<open>The parts and their theories.\<close>

  \<^item> \<open>Prelude\<close>, \<open>Json\<close>, \<open>Json_Text\<close>, \<open>Base64\<close>: what the program uses of Python (\<open>str\<close> methods, \<open>int\<close>, \<open>float\<close>,
    \<open>json.loads\<close>, \<open>json.dumps\<close>, \<open>base64\<close>), the result type of fallible code, and the locales
    \<open>invariant_system\<close> and \<open>simulation\<close> that all state machines below instantiate.
  \<^item> \<open>Protocol\<close>, \<open>Env\<close>, \<open>Text_Quality\<close>: \<open>protocol.py\<close>, \<open>env.py\<close>, \<open>text_quality.py\<close>.
  \<^item> \<open>Admission\<close>: \<open>ServerConfig\<close> and \<open>_process_request\<close> of \<open>server.py\<close>, and \<open>_peercred.py\<close>.
  \<^item> \<open>Session\<close>, \<open>Session_Turns\<close>, \<open>Wire_Types\<close>: one connection of \<open>server.py\<close> with its decode task
    (\<open>_handle_connection\<close>, the \<open>_on_...\<close> handlers, \<open>_run_decode\<close>, \<open>_send\<close>, \<open>_teardown_session\<close>) as the record \<open>session\<close> and the
    relation \<open>session_next\<close>; the abstract turn machine it refines; the JSON types of the frames it sends.
  \<^item> \<open>Files\<close>, \<open>Socket_Lock\<close>, \<open>Auth\<close>: the trust checks on the socket's directory and the token file
    (both are a walk to the root, the locale \<open>ancestor_walk\<close>), the single-server lock, \<open>auth.py\<close>.
  \<^item> \<open>Lifecycle\<close>, \<open>Lifecycle_Inv\<close>, \<open>Lifecycle_Steps\<close>, \<open>Lifecycle_Props\<close>: \<open>TranscriptionServer\<close>, its state diagram, the
    ledger of live work, start, drain, adoption. The record \<open>server\<close> has the fields the class has; a task
    or future is a number with an outcome.
  \<^item> \<open>Serve\<close>: the public entry point \<open>serve()\<close>, a state machine that drives the one of \<open>Lifecycle\<close>.
  \<^item> \<open>Supervise\<close>: \<open>supervise.py\<close>, \<open>errors.py\<close>, \<open>snapshot.py\<close>: the event channel, the classification of a failed start.
  \<^item> \<open>Decode_Guard\<close>, \<open>Backends\<close>, \<open>Backend_Models\<close>: \<open>backends/_thread_util.py\<close>, \<open>backend.py\<close>, the registry, and the MLX Whisper,
    Parakeet, Nemotron and Kyutai backends, all instances of the locale \<open>commit_stream\<close>.
  \<^item> \<open>Prefetch\<close>: \<open>prefetch.py\<close>. \<open>Client\<close>: \<open>client.py\<close> and the example Pipecat service.
  \<^item> \<open>Cli_Args\<close>, \<open>Cli\<close>: \<open>__main__.py\<close>. \<open>Plist\<close>: \<open>scripts/read_stt_plist.py\<close>. \<open>Render_Plist\<close>: \<open>scripts/render_stt_plist.py\<close>.
  \<^item> \<open>Asr_Benchmark\<close>: \<open>scripts/benchmark_asr_ab.py\<close>, the word error rate and the comparison of two servers.
  \<^item> \<open>Squat_Check\<close>: \<open>scripts/squat_check.py\<close>, who holds an endpoint and what is said about it.
  \<^item> \<open>Verified_Connect\<close>, \<open>Owned_Group\<close>: the two halves of \<open>scripts/_smoke_lib.py\<close>, a connection whose other end is
    known to be a given job's process, and a child process group that its owner signals and reaps.
  \<^item> \<open>Agent_Snapshot\<close>, \<open>Launchd_Harness\<close>, \<open>Launchd_Teardown\<close>, \<open>Launchd_Checks\<close>: \<open>scripts/smoke_launchd.py\<close>, the comparison of
    the user's agents before and after a run; the order of the checks with the boundaries between them, the installer,
    the signals and the budgets; the files of the spare agent, the start state and the teardown; the run lock, the
    waits and the three checks, step by step.
  \<^item> \<open>Smoke_Runner\<close>: \<open>scripts/smoke.py\<close>, the runner of all checks, its agents step and the child that decodes.

  \<^bold>\<open>How the parts meet.\<close> \<open>Serve\<close> holds a \<open>server\<close> and moves it only by steps of \<open>Lifecycle\<close> (\<open>drives\<close>), so the
  server's invariant holds in every state of \<open>serve()\<close>. \<open>Cli\<close> turns the final states of \<open>Serve\<close> into the
  supervisor's events with the classification of \<open>Supervise\<close>. \<open>Client\<close> runs the session's handlers on the client's
  texts and the client's iterator on the session's frames. \<open>Plist\<close> is compared with the parser of \<open>Cli_Args\<close> and the
  token resolution of \<open>Cli\<close>, which rests on \<open>Env\<close> and \<open>Auth\<close>. \<open>Prefetch\<close> resolves the names \<open>Backend_Models\<close> gives it.
  \<open>Verified_Connect\<close> reads the owners of a socket with the functions of \<open>Squat_Check\<close>; \<open>Agent_Snapshot\<close> reads
  installed agents with those of \<open>Plist\<close>; \<open>Launchd_Harness\<close> runs its children through \<open>Owned_Group\<close>, connects
  through \<open>Verified_Connect\<close> and ends with the comparison of \<open>Agent_Snapshot\<close>; \<open>Launchd_Teardown\<close> names the logs as
  \<open>Render_Plist\<close> writes them, and \<open>Launchd_Checks\<close> uses the token gate and the port-squat check. What \<open>Render_Plist\<close> writes is read by
  \<open>Plist\<close> and \<open>Agent_Snapshot\<close> and parsed by \<open>Cli_Args\<close>. \<open>Smoke_Runner\<close> takes the endings of \<open>Owned_Group\<close> and the failure
  lines of \<open>Verified_Connect\<close>, reads agents with \<open>Plist\<close>, their tokens with \<open>Auth\<close>, and speaks as \<open>Client\<close> does.

  \<^bold>\<open>What the lemmas show.\<close> Sessions: refinement of the turn machine, one outcome per committed item, bounds on the
  buffered audio, no decode outlives its session, every session can end, every frame is typed. Server: no
  transition is ever refused, the lock is held exactly while something may touch the backend, a requested
  shutdown is final, a drain ends. \<open>serve()\<close>: how it may end, when readiness is published, that a stop ends it.
  Backends: mutual exclusion of decodes, an exact in-flight count, the stream contract, the degeneracy filters.
  Trust: exactly which handshakes, directories and token files are accepted; exclusivity of the lock. Channel
  and commands: printed JSON reads back, stdout carries only events, the events of a supervised run, the
  offline probe is exact, progress never exceeds its totals in any output a reader may see (a reporter that outlives
  its one-second join included), secrets do not cross between client and server.
  Harness: a port-squat warning is about a listener that was not the running job, a verified connection ends at the
  job's process, an agent that compares unchanged kept its run; all three hold whatever the job does meanwhile, but
  for one case they name: a label unloaded and loaded again that comes to the same pid and spawn count (\<open>reloaded\<close>),
  which the readings cannot show. The token gate is seen exactly when the server has a token, a child's group is
  signalled only while it is owned, every run of a child ends with its true outcome, a refused snapshot stops the
  run before it touches an agent, one verdict is always printed. A teardown without problems made every removal, each
  succeeded, and left no artifact; it removes only what the harness made; each check that passes showed what it is
  for, every check ends, and an installer that may still run ends the check it was called in. Agents: a rendered plist
  reads back as asked and starts the server asked for; a PASS of the agents step means a decode through each loaded
  agent's own process, with its own token; the decode child says nothing on any other connection, and its status tells
  a usage error, a refusal and a crash apart. Benchmark: the error rate is the edit distance, a report compares the
  announced backends on the same utterances.

  \<^bold>\<open>Bounds and fuel.\<close> The JSON reader recurses on fuel twice the length of the text plus two, which is enough
  for every text (it never answers out of fuel). The lock's retry loop has fuel; \<open>acquire_socket_lock_ends\<close> gives
  the bound under which it ends. A drain has rank at most four, a stop of \<open>serve()\<close> takes at most nine events. A run of an
  owned child takes at most seven steps of its own. The reader of a failure channel is measured by the bytes
  left of its 4096; the poll for a connection's other end is a \<open>partial_function\<close>, and \<open>server_end_poll_ends\<close> gives
  the bound under which it answers; so are the harness's waits and its collision loop, and \<open>checks_end\<close> shows that they
  end when the clock moves on by the pause between two looks. All other recursions are structural or have a measure.

  \<^bold>\<open>What is given.\<close> The operating system, \<open>websockets\<close>, the model packages, the Hugging Face library,
  \<open>plistlib\<close>, \<open>dotenv\<close>, \<open>ipaddress\<close> and \<open>urlsplit\<close> are arguments: records of answers or functions. \<open>argparse\<close> is modelled
  for the three parsers the program builds. Strings are of code points up to 255; token files are of code points.

  \<^bold>\<open>Not modelled.\<close> Log messages and the texts printed for people; the numeric kernels of the models and of the
  Kyutai resampler; the permissions of the socket file (\<open>umask\<close>, \<open>chmod\<close>); of \<open>smoke_launchd.py\<close>, the printed table, the
  import check of its setup and the order of \<open>main\<close> around the parts above, and of \<open>_smoke_lib.py\<close> the bytes the reader and
  writer threads move and an error of \<open>waitid\<close> itself while a group is killed; a \<open>SystemExit\<close> that third-party code raises
  inside \<open>serve()\<close>; the token-check child of \<open>smoke.py\<close> and the printed tables and reports; the remaining scripts, which
  only drive other processes or print, the tests, the shell scripts.
\<close>

end
